(* ===== verification/Prelude.thy ===== *)
theory Prelude
  imports Main "HOL-Library.Word"
begin

text \<open>
  Shared vocabulary of the development: the machine integer types of the Go source, the
  error values that stand for a panic or a returned \<^verbatim>\<open>error\<close>, the parts of Go's
  \<^verbatim>\<open>encoding/binary\<close> and \<^verbatim>\<open>copy\<close> the sources use, and generic lemmas on
  lists and words that the component theories rely on.
\<close>

unbundle bit_operations_syntax

section \<open>Types\<close>

type_synonym u8 = "8 word"
type_synonym u16 = "16 word"
type_synonym u32 = "32 word"
type_synonym u64 = "64 word"

text \<open>A Go call either panics, returns a non-nil \<^verbatim>\<open>error\<close>, or returns its value.\<close>

datatype go_error = Panic string | Err string

type_synonym 'a res = "go_error + 'a"

definition bind_res :: "'a res \<Rightarrow> ('a \<Rightarrow> 'b res) \<Rightarrow> 'b res" where
  "bind_res r f = (case r of Inl e \<Rightarrow> Inl e | Inr x \<Rightarrow> f x)"

text \<open>A loop whose body may panic or return an error stops at the first one.\<close>

fun fold_res :: "('s \<Rightarrow> 'a \<Rightarrow> 's res) \<Rightarrow> 's \<Rightarrow> 'a list \<Rightarrow> 's res" where
  "fold_res f s [] = Inr s"
| "fold_res f s (x # xs) = bind_res (f s x) (\<lambda>s'. fold_res f s' xs)"

fun mapM_res :: "('a \<Rightarrow> 'b res) \<Rightarrow> 'a list \<Rightarrow> 'b list res" where
  "mapM_res f [] = Inr []"
| "mapM_res f (x # xs) = bind_res (f x) (\<lambda>y. bind_res (mapM_res f xs) (\<lambda>ys. Inr (y # ys)))"

text \<open>Indexing a slice: out of range is a run-time panic.\<close>

definition index_res :: "'a list \<Rightarrow> nat \<Rightarrow> 'a res" where
  "index_res xs i = (if i < length xs then Inr (xs ! i) else Inl (Panic ''index out of range''))"

text \<open>The slice expression \<^verbatim>\<open>xs[i:j]\<close> on a slice with no spare capacity, or on a string.\<close>

definition sub :: "'a list \<Rightarrow> nat \<Rightarrow> nat \<Rightarrow> 'a list" where
  "sub xs i j = take (j - i) (drop i xs)"

definition slice_res :: "'a list \<Rightarrow> nat \<Rightarrow> nat \<Rightarrow> 'a list res" where
  "slice_res xs i j =
     (if i \<le> j \<and> j \<le> length xs then Inr (sub xs i j) else Inl (Panic ''slice bounds out of range''))"

named_theorems word_bits \<open>bit-level views of the word operations of the model\<close>
named_theorems len_simps \<open>lengths of the buffers and tables of the model\<close>

section \<open>encoding/binary (big endian) and the copy builtin\<close>

definition PutUint16 :: "u16 \<Rightarrow> u8 list" where
  "PutUint16 v = [ucast (drop_bit 8 v), ucast v]"

definition Uint16 :: "u8 list \<Rightarrow> u16" where
  "Uint16 b = (push_bit 8 (ucast (b ! 0)) OR ucast (b ! 1))"

definition Uint32 :: "u8 list \<Rightarrow> u32" where
  "Uint32 b = (push_bit 24 (ucast (b ! 0)) OR push_bit 16 (ucast (b ! 1))
     OR push_bit 8 (ucast (b ! 2)) OR ucast (b ! 3))"

definition PutUint32 :: "u32 \<Rightarrow> u8 list" where
  "PutUint32 v = [ucast (drop_bit 24 v), ucast (drop_bit 16 v), ucast (drop_bit 8 v), ucast v]"

text \<open>\<open>copy_into dst src\<close> is Go's \<^verbatim>\<open>copy(dst, src)\<close>: the first
  \<open>min (length dst) (length src)\<close> elements of \<open>dst\<close> are replaced.\<close>

definition copy_into :: "'a list \<Rightarrow> 'a list \<Rightarrow> 'a list" where
  "copy_into dst src = take (length dst) src @ drop (length src) dst"

text \<open>\<open>write_at xs i ys\<close> is \<^verbatim>\<open>copy(xs[i:], ys)\<close> for \<open>i \<le> length xs\<close>.\<close>

definition write_at :: "'a list \<Rightarrow> nat \<Rightarrow> 'a list \<Rightarrow> 'a list" where
  "write_at xs i ys = take i xs @ copy_into (drop i xs) ys"

lemma bind_res_simps [simp]:
  "bind_res (Inr x) f = f x" "bind_res (Inl e) f = Inl e"
  by (simp_all add: bind_res_def)

lemma bind_res_eq_Inr: "bind_res r f = Inr y \<longleftrightarrow> (\<exists>x. r = Inr x \<and> f x = Inr y)"
  by (cases r) simp_all

lemma index_res_simp [simp]: "i < length xs \<Longrightarrow> index_res xs i = Inr (xs ! i)"
  by (simp add: index_res_def)

lemma slice_res_simp [simp]: "i \<le> j \<Longrightarrow> j \<le> length xs \<Longrightarrow> slice_res xs i j = Inr (sub xs i j)"
  by (simp add: slice_res_def)

lemma mapM_res_Inr: "(\<And>x. x \<in> set xs \<Longrightarrow> f x = Inr (g x)) \<Longrightarrow> mapM_res f xs = Inr (map g xs)"
  by (induction xs) simp_all

lemma mapM_res_ex:
  "(\<And>x. x \<in> set xs \<Longrightarrow> \<exists>y. f x = Inr y \<and> R x y) \<Longrightarrow> \<exists>ys. mapM_res f xs = Inr ys \<and> list_all2 R xs ys"
proof (induction xs)
  case (Cons x xs)
  obtain y where "f x = Inr y" "R x y" using Cons.prems [of x] by auto
  moreover obtain ys where "mapM_res f xs = Inr ys" "list_all2 R xs ys" using Cons.IH Cons.prems by auto
  ultimately show ?case by auto
qed simp

lemma fold_res_Inr: "(\<And>s x. x \<in> set xs \<Longrightarrow> f s x = Inr (g s x)) \<Longrightarrow> fold_res f s xs = Inr (foldl g s xs)"
  by (induction xs arbitrary: s) simp_all

lemma fold_res_append: "fold_res f s (xs @ ys) = bind_res (fold_res f s xs) (\<lambda>s'. fold_res f s' ys)"
proof (induction xs arbitrary: s)
  case (Cons x xs)
  then show ?case by (cases "f s x") simp_all
qed simp

lemma length_copy_into [simp, len_simps]: "length (copy_into dst src) = length dst"
  by (simp add: copy_into_def)

lemma copy_into_same [simp]: "length src = length dst \<Longrightarrow> copy_into dst src = src"
  by (simp add: copy_into_def)

lemma copy_into_ge: "length dst \<le> length src \<Longrightarrow> copy_into dst src = take (length dst) src"
  by (simp add: copy_into_def)

lemma length_write_at [simp, len_simps]: "length (write_at xs i ys) = length xs"
  by (simp add: write_at_def)

lemma nth_write_at:
  "i + length ys \<le> length xs \<Longrightarrow> k < length xs \<Longrightarrow>
     write_at xs i ys ! k = (if i \<le> k \<and> k < i + length ys then ys ! (k - i) else xs ! k)"
  by (auto simp: write_at_def copy_into_def nth_append)

lemma write_at_Nil [simp]: "write_at xs i [] = xs"
  by (simp add: write_at_def copy_into_def)

lemma length_sub [simp, len_simps]: "j \<le> length xs \<Longrightarrow> length (sub xs i j) = j - i"
  by (simp add: sub_def)

lemma nth_sub [simp]: "i + k < j \<Longrightarrow> j \<le> length xs \<Longrightarrow> sub xs i j ! k = xs ! (i + k)"
  by (simp add: sub_def)

lemma length_PutUint16 [simp, len_simps]: "length (PutUint16 v) = 2"
  by (simp add: PutUint16_def)

section \<open>Bits of bytes, most significant first\<close>

definition byte_bits :: "u8 \<Rightarrow> bool list" where
  "byte_bits b = map (\<lambda>k. bit b (7 - k)) [0..<8]"

definition bytes_bits :: "u8 list \<Rightarrow> bool list" where
  "bytes_bits bs = concat (map byte_bits bs)"

lemma length_byte_bits [simp, len_simps]: "length (byte_bits b) = 8"
  by (simp add: byte_bits_def)

lemma nth_byte_bits: "k < 8 \<Longrightarrow> byte_bits b ! k = bit b (7 - k)"
  by (simp add: byte_bits_def)

lemma bytes_bits_Nil [simp]: "bytes_bits [] = []"
  and bytes_bits_Cons [simp]: "bytes_bits (b # bs) = byte_bits b @ bytes_bits bs"
  and bytes_bits_append [simp]: "bytes_bits (bs @ cs) = bytes_bits bs @ bytes_bits cs"
  by (simp_all add: bytes_bits_def)

lemma length_bytes_bits [simp, len_simps]: "length (bytes_bits bs) = 8 * length bs"
  by (induction bs) simp_all

lemma nth_bytes_bits: "k < 8 * length bs \<Longrightarrow> bytes_bits bs ! k = bit (bs ! (k div 8)) (7 - k mod 8)"
proof (induction bs arbitrary: k)
  case Nil
  then show ?case by simp
next
  case (Cons b bs)
  show ?case
  proof (cases "k < 8")
    case True
    then show ?thesis by (simp add: nth_append nth_byte_bits)
  next
    case False
    then obtain j where k: "k = 8 + j" using le_Suc_ex linorder_not_less by blast
    have "bytes_bits (b # bs) ! k = bytes_bits bs ! j"
      by (simp add: k nth_append)
    also have "\<dots> = bit (bs ! (j div 8)) (7 - j mod 8)"
      using Cons.prems k by (intro Cons.IH) simp
    also have "\<dots> = bit ((b # bs) ! (k div 8)) (7 - k mod 8)"
    proof -
      have "k div 8 = Suc (j div 8)" "k mod 8 = j mod 8" unfolding k by presburger+
      then show ?thesis by simp
    qed
    finally show ?thesis .
  qed
qed

lemma byte_bits_inject: "byte_bits b = byte_bits c \<longleftrightarrow> b = c"
proof
  assume eq: "byte_bits b = byte_bits c"
  have "bit b n = bit c n" if "n < 8" for n
    using arg_cong [OF eq, of "\<lambda>xs. xs ! (7 - n)"] that by (simp add: nth_byte_bits)
  then show "b = c" by (intro bit_word_eqI) simp
qed simp

lemma bytes_bits_inject: "length bs = length cs \<Longrightarrow> bytes_bits bs = bytes_bits cs \<longleftrightarrow> bs = cs"
  by (induction bs cs rule: list_induct2) (auto simp: byte_bits_inject)

section \<open>Words\<close>

lemma funpow_16: "(f ^^ 16) x = f (f (f (f (f (f (f (f (f (f (f (f (f (f (f (f x)))))))))))))))"
  by (simp add: numeral_eq_Suc)

lemma word_eq_0_iff: "x = 0 \<longleftrightarrow> (\<forall>n. \<not> bit x n)" for x :: "'a::len word"
  by (auto intro: bit_word_eqI)

lemma less_exp_if_high_bits_clear:
  "(\<And>n. m \<le> n \<Longrightarrow> \<not> bit x n) \<Longrightarrow> m < LENGTH('a) \<Longrightarrow> unat x < 2 ^ m" for x :: "'a::len word"
proof -
  assume hi: "\<And>n. m \<le> n \<Longrightarrow> \<not> bit x n" and m: "m < LENGTH('a)"
  have "take_bit m x = x"
    using hi by (intro bit_word_eqI) (metis bit_take_bit_iff linorder_not_le)
  then have "take_bit m (unat x) = unat x"
    by (metis unsigned_take_bit_eq)
  then show ?thesis by (simp add: take_bit_nat_eq_self_iff)
qed

lemma push_bit_xor_word: "push_bit n (a XOR b) = push_bit n a XOR push_bit n (b :: 'a::len word)"
  by (rule bit_word_eqI) (simp add: bit_simps)

lemma xor_cancel_left: "a XOR (a XOR b) = (b :: 'a::len word)"
  by (simp flip: xor.assoc)

lemma xor_eq_0_iff: "a XOR b = 0 \<longleftrightarrow> a = (b :: 'a::len word)"
  by (metis xor_cancel_left xor.right_neutral xor_self_eq)

lemma PutUint16_inject: "PutUint16 v = PutUint16 w \<longleftrightarrow> v = w"
proof
  assume "PutUint16 v = PutUint16 w"
  then have hi: "(ucast (drop_bit 8 v) :: u8) = ucast (drop_bit 8 w)" and lo: "(ucast v :: u8) = ucast w"
    by (simp_all add: PutUint16_def)
  have "bit v n = bit w n" if "n < 16" for n
  proof (cases "n < 8")
    case True
    have "bit (ucast v :: u8) n = bit (ucast w :: u8) n" by (simp only: lo)
    with True show ?thesis by (simp add: bit_simps)
  next
    case False
    have "bit (ucast (drop_bit 8 v) :: u8) (n - 8) = bit (ucast (drop_bit 8 w) :: u8) (n - 8)"
      by (simp only: hi)
    moreover have "n - 8 < 8" "8 + (n - 8) = n" using False that by simp_all
    ultimately show ?thesis by (simp add: bit_simps)
  qed
  then show "v = w" by (intro bit_word_eqI) simp
qed simp

lemma Uint16_PutUint16: "Uint16 (PutUint16 v) = v"
proof (rule bit_word_eqI)
  fix n assume "n < LENGTH(16)"
  then show "bit (Uint16 (PutUint16 v)) n = bit v n"
    by (auto simp: Uint16_def PutUint16_def bit_simps)
qed

lemma length_PutUint32 [simp, len_simps]: "length (PutUint32 v) = 4"
  by (simp add: PutUint32_def)

lemma Uint32_PutUint32: "Uint32 (PutUint32 v) = v"
proof (rule bit_word_eqI)
  fix n assume "n < LENGTH(32)"
  then show "bit (Uint32 (PutUint32 v)) n = bit v n"
    by (cases "n < 8"; cases "n < 16"; cases "n < 24") (auto simp: Uint32_def PutUint32_def bit_simps)
qed

section \<open>The value of a bit string\<close>

text \<open>\<open>bits_val\<close> reads a list of bits, most significant first, as a number.\<close>

definition bits_val :: "bool list \<Rightarrow> nat" where
  "bits_val bs = foldl (\<lambda>n b. 2 * n + of_bool b) 0 bs"

lemma bits_val_Nil [simp]: "bits_val [] = 0"
  by (simp add: bits_val_def)

lemma bits_val_snoc: "bits_val (bs @ [b]) = 2 * bits_val bs + of_bool b"
  by (simp add: bits_val_def)

lemma bits_val_append: "bits_val (xs @ ys) = bits_val xs * 2 ^ length ys + bits_val ys"
proof (induction ys rule: rev_induct)
  case (snoc y ys)
  then show ?case by (simp add: bits_val_snoc flip: append_assoc)
qed simp

lemma bits_val_less: "bits_val bs < 2 ^ length bs"
  by (induction bs rule: rev_induct) (auto simp: bits_val_snoc)

lemma bit_bits_val: "bit (bits_val bs) n \<longleftrightarrow> n < length bs \<and> bs ! (length bs - Suc n)"
proof (induction bs arbitrary: n rule: rev_induct)
  case (snoc b bs)
  show ?case
  proof (cases n)
    case 0
    then show ?thesis by (simp add: bits_val_snoc bit_0 nth_append)
  next
    case (Suc m)
    have "bit (2 * bits_val bs + of_bool b) (Suc m) = bit (bits_val bs) m"
      by (cases b) (simp_all add: bit_Suc)
    then have "bit (bits_val (bs @ [b])) n \<longleftrightarrow> m < length bs \<and> bs ! (length bs - Suc m)"
      by (simp only: bits_val_snoc Suc snoc.IH)
    also have "\<dots> \<longleftrightarrow> n < length (bs @ [b]) \<and> (bs @ [b]) ! (length (bs @ [b]) - Suc n)"
      by (auto simp: Suc nth_append)
    finally show ?thesis .
  qed
qed simp

lemma bits_val_byte_bits: "bits_val (byte_bits b) = unat b"
proof (rule bit_eqI)
  fix n
  show "bit (bits_val (byte_bits b)) n = bit (unat b) n"
  proof (cases "n < 8")
    case True
    then have "7 - (7 - n) = n" by simp
    with True show ?thesis by (simp add: bit_bits_val nth_byte_bits bit_unsigned_iff)
  next
    case False
    then show ?thesis using bit_imp_le_length [of b n] by (auto simp: bit_bits_val bit_unsigned_iff)
  qed
qed

lemma bits_val_bytes_Cons: "bits_val (bytes_bits (b # bs)) = unat b * 2 ^ (8 * length bs) + bits_val (bytes_bits bs)"
  by (simp add: bits_val_append bits_val_byte_bits)

lemma bits_val_inject: "length xs = length ys \<Longrightarrow> bits_val xs = bits_val ys \<longleftrightarrow> xs = ys"
proof
  assume len: "length xs = length ys" and eq: "bits_val xs = bits_val ys"
  show "xs = ys"
  proof (rule nth_equalityI)
    fix i assume i: "i < length xs"
    have "bit (bits_val xs) (length xs - Suc i) = bit (bits_val ys) (length xs - Suc i)" by (simp only: eq)
    moreover have "length ys - Suc i < length ys" using i len by simp
    ultimately show "xs ! i = ys ! i" using i len by (simp add: bit_bits_val)
  qed (rule len)
qed simp

lemma bit_u8_high [simp]: "8 \<le> n \<Longrightarrow> \<not> bit (b :: u8) n"
  by (auto dest: bit_imp_le_length)

lemma of_nat_bits_val_eqI:
  assumes "length bs = LENGTH('a)" and "\<And>n. n < LENGTH('a) \<Longrightarrow> bit w (LENGTH('a) - Suc n) = bs ! n"
  shows "w = (of_nat (bits_val bs) :: 'a::len word)"
proof (rule bit_word_eqI)
  fix n assume n: "n < LENGTH('a)"
  then have "LENGTH('a) - Suc (LENGTH('a) - Suc n) = n" by simp
  then have "bit w n = bs ! (LENGTH('a) - Suc n)"
    using assms(2) [of "LENGTH('a) - Suc n"] by simp
  with n assms(1) show "bit w n = bit (of_nat (bits_val bs) :: 'a word) n"
    by (simp add: bit_of_nat_iff bit_bits_val)
qed

lemma Uint16_bits: "length b = 2 \<Longrightarrow> Uint16 b = of_nat (bits_val (bytes_bits b))"
proof (rule of_nat_bits_val_eqI)
  fix n assume len: "length b = 2" and "n < LENGTH(16)"
  then have "n \<in> set [0..<16]" by simp
  then have "bit (Uint16 b) (15 - n) = bit (b ! (n div 8)) (7 - n mod 8)"
    by (simp add: upt_rec, elim disjE) (simp_all add: Uint16_def bit_simps)
  with len \<open>n < LENGTH(16)\<close> show "bit (Uint16 b) (LENGTH(16) - Suc n) = bytes_bits b ! n"
    by (simp add: nth_bytes_bits)
qed simp

lemma Uint32_bits: "length b = 4 \<Longrightarrow> Uint32 b = of_nat (bits_val (bytes_bits b))"
proof (rule of_nat_bits_val_eqI)
  fix n assume len: "length b = 4" and "n < LENGTH(32)"
  then have "n \<in> set [0..<32]" by simp
  then have "bit (Uint32 b) (31 - n) = bit (b ! (n div 8)) (7 - n mod 8)"
    by (simp add: upt_rec, elim disjE) (simp_all add: Uint32_def bit_simps)
  with len \<open>n < LENGTH(32)\<close> show "bit (Uint32 b) (LENGTH(32) - Suc n) = bytes_bits b ! n"
    by (simp add: nth_bytes_bits)
qed simp

section \<open>Packing bits into bytes\<close>

definition pack_bits :: "bool list \<Rightarrow> u8 list" where
  "pack_bits bs = map (\<lambda>i. of_nat (bits_val (take 8 (drop (8 * i) bs)))) [0..<length bs div 8]"

lemma length_pack_bits [simp, len_simps]: "length (pack_bits bs) = length bs div 8"
  by (simp add: pack_bits_def)

lemma byte_bits_of_bits_val: "length bs = 8 \<Longrightarrow> byte_bits (of_nat (bits_val bs)) = bs"
  by (rule nth_equalityI) (auto simp: nth_byte_bits bit_of_nat_iff bit_bits_val)

lemma bytes_bits_pack_bits: "8 dvd length bs \<Longrightarrow> bytes_bits (pack_bits bs) = bs"
proof (rule nth_equalityI)
  assume dvd: "8 dvd length bs"
  then show "length (bytes_bits (pack_bits bs)) = length bs" by simp
  fix k assume "k < length (bytes_bits (pack_bits bs))"
  with dvd have k: "k < length bs" "k div 8 < length bs div 8" by (auto simp: dvd_def)
  have len: "length (take 8 (drop (8 * (k div 8)) bs)) = 8" using k(2) by simp
  have "bytes_bits (pack_bits bs) ! k =
      byte_bits (of_nat (bits_val (take 8 (drop (8 * (k div 8)) bs)))) ! (k mod 8)"
    using k dvd by (simp add: nth_bytes_bits nth_byte_bits pack_bits_def)
  also have "\<dots> = bs ! (8 * (k div 8) + k mod 8)"
    using k len by (simp only: byte_bits_of_bits_val) simp
  finally show "bytes_bits (pack_bits bs) ! k = bs ! k" by simp
qed

lemma pack_bits_bytes_bits [simp]: "pack_bits (bytes_bits bs) = bs"
  using bytes_bits_pack_bits [of "bytes_bits bs"] by (simp add: bytes_bits_inject)

lemma sub_sub: "i \<le> j \<Longrightarrow> k + j \<le> l \<Longrightarrow> sub (sub xs k l) i j = sub xs (k + i) (k + j)"
  by (simp add: sub_def drop_take add.commute)

lemma sub_append_left: "j \<le> length xs \<Longrightarrow> sub (xs @ ys) i j = sub xs i j"
  by (cases "i \<le> j") (simp_all add: sub_def)

lemma sub_append_right: "length xs \<le> i \<Longrightarrow> sub (xs @ ys) i j = sub ys (i - length xs) (j - length xs)"
  by (simp add: sub_def diff_diff_left)

lemma sub_Cons: "0 < i \<Longrightarrow> sub (x # xs) i j = sub xs (i - 1) (j - 1)"
  by (simp add: sub_def drop_Cons')

lemma sub_all [simp]: "length xs \<le> j \<Longrightarrow> sub xs 0 j = xs"
  by (simp add: sub_def)

lemma bytes_bits_take: "bytes_bits (take n bs) = take (8 * n) (bytes_bits bs)"
proof (induction bs arbitrary: n)
  case (Cons b bs)
  then show ?case by (cases n) simp_all
qed simp

lemma bytes_bits_drop: "bytes_bits (drop n bs) = drop (8 * n) (bytes_bits bs)"
proof (induction bs arbitrary: n)
  case (Cons b bs)
  then show ?case by (cases n) simp_all
qed simp

lemma bytes_bits_sub: "bytes_bits (sub bs i j) = sub (bytes_bits bs) (8 * i) (8 * j)"
  by (simp add: sub_def bytes_bits_take bytes_bits_drop diff_mult_distrib2)

section \<open>State machines\<close>

text \<open>The interface of a component that moves by steps: an invariant every step keeps, and a clock
  no step sets back. The component theories interpret it on their step relations.\<close>

locale state_machine =
  fixes step :: "'s \<Rightarrow> 's \<Rightarrow> bool" and inv :: "'s \<Rightarrow> bool"
  assumes step_inv: "inv s \<Longrightarrow> step s s' \<Longrightarrow> inv s'"
begin

lemma run_inv: "step\<^sup>*\<^sup>* s s' \<Longrightarrow> inv s \<Longrightarrow> inv s'"
  by (induction rule: rtranclp_induct) (auto intro: step_inv)

end

locale clocked_machine = state_machine +
  fixes clock :: "'s \<Rightarrow> int"
  assumes step_clock: "inv s \<Longrightarrow> step s s' \<Longrightarrow> clock s \<le> clock s'"
begin

lemma run_clock: "step\<^sup>*\<^sup>* s s' \<Longrightarrow> inv s \<Longrightarrow> clock s \<le> clock s'"
proof (induction rule: rtranclp_induct)
  case (step y z)
  then show ?case using step_clock [of y z] run_inv [of s y] by fastforce
qed simp

end

end
