(* ===== verification/Crc.thy ===== *)
theory Crc
  imports Prelude
begin

text \<open>
  The table-driven 16-bit CRC of \<^verbatim>\<open>src/crc/crc.go\<close>: \<open>NewTable\<close> and
  \<open>Checksum\<close>, the record \<open>CRC\<close> the parsers embed, and a bit-serial reference against
  which the table is verified.
\<close>

section \<open>The code\<close>

record CRC =
  Name :: string
  Init :: u16
  Poly :: u16
  Residue :: u16
  tbl :: "u16 list"

text \<open>One turn of the inner loop of \<^verbatim>\<open>NewTable\<close>.\<close>

definition table_step :: "u16 \<Rightarrow> u16 \<Rightarrow> u16" where
  "table_step poly crc =
     (if crc AND 0x8000 \<noteq> 0 then push_bit 1 crc XOR poly else push_bit 1 crc)"

definition NewTable :: "u16 \<Rightarrow> u16 list" where
  "NewTable poly = map (\<lambda>tIdx. (table_step poly ^^ 8) (push_bit 8 (of_nat tIdx))) [0..<256]"

definition checksum_byte :: "u16 list \<Rightarrow> u16 \<Rightarrow> u8 \<Rightarrow> u16" where
  "checksum_byte table crc v =
     push_bit 8 crc XOR table ! unat (drop_bit 8 crc XOR ucast v)"

definition Checksum :: "u16 \<Rightarrow> u8 list \<Rightarrow> u16 list \<Rightarrow> u16" where
  "Checksum init data table = foldl (checksum_byte table) init data"

definition NewCRC :: "string \<Rightarrow> u16 \<Rightarrow> u16 \<Rightarrow> u16 \<Rightarrow> CRC" where
  "NewCRC name init poly residue =
     \<lparr>Name = name, Init = init, Poly = poly, Residue = residue, tbl = NewTable poly\<rparr>"

definition crc_Checksum :: "CRC \<Rightarrow> u8 list \<Rightarrow> u16" where
  "crc_Checksum crc data = Checksum (Init crc) data (tbl crc)"

section \<open>The bit-serial reference\<close>

text \<open>Long division over GF(2): the register shifts left once per message bit, and the
  generator is subtracted whenever the bit leaving the register differs from the message bit.\<close>

definition crc_bit :: "u16 \<Rightarrow> u16 \<Rightarrow> bool \<Rightarrow> u16" where
  "crc_bit poly crc b = (if bit crc 15 \<noteq> b then push_bit 1 crc XOR poly else push_bit 1 crc)"

definition crc_bits :: "u16 \<Rightarrow> u16 \<Rightarrow> bool list \<Rightarrow> u16" where
  "crc_bits poly init bs = foldl (crc_bit poly) init bs"

section \<open>Linearity of the shift step\<close>

lemma bit_0x8000: "bit (0x8000 :: u16) n \<longleftrightarrow> n = 15"
proof -
  have "(0x8000 :: u16) = 2 ^ 15" by simp
  then show ?thesis by (simp only: bit_exp_iff) (auto simp: possible_bit_def)
qed

lemma and_0x8000_iff: "crc AND 0x8000 \<noteq> 0 \<longleftrightarrow> bit (crc :: u16) 15"
proof -
  have "crc AND 0x8000 = 0 \<longleftrightarrow> \<not> bit crc 15"
    unfolding word_eq_0_iff bit_and_iff bit_0x8000 by auto
  then show ?thesis by simp
qed

lemma table_step_alt: "table_step poly crc = push_bit 1 crc XOR (if bit crc 15 then poly else 0)"
  unfolding table_step_def and_0x8000_iff by simp

lemma bit_table_step [word_bits]:
  "bit (table_step poly crc) n \<longleftrightarrow>
     (n < 16 \<and> 1 \<le> n \<and> bit crc (n - 1)) \<noteq> (bit crc 15 \<and> bit poly n)"
  unfolding table_step_alt bit_xor_iff bit_push_bit_iff by auto

lemma table_step_xor: "table_step poly (a XOR b) = table_step poly a XOR table_step poly b"
  by (rule bit_word_eqI) (auto simp: word_bits bit_xor_iff)

lemma table_step_zero [simp]: "table_step poly 0 = 0"
  by (simp add: table_step_alt)

lemma table_steps_xor:
  "(table_step poly ^^ n) (a XOR b) = (table_step poly ^^ n) a XOR (table_step poly ^^ n) b"
  by (induction n) (simp_all add: table_step_xor)

lemma table_steps_zero [simp]: "(table_step poly ^^ n) 0 = 0"
  by (induction n) simp_all

lemma table_steps_small:
  "\<forall>k. 16 \<le> k + n \<longrightarrow> \<not> bit a k \<Longrightarrow> (table_step poly ^^ n) a = push_bit n a"
proof (induction n)
  case 0
  then show ?case by simp
next
  case (Suc n)
  then have IH: "(table_step poly ^^ n) a = push_bit n a" by simp
  have "\<not> bit (push_bit n a) 15"
    using Suc.prems by (auto simp: bit_push_bit_iff)
  then have "table_step poly (push_bit n a) = push_bit 1 (push_bit n a)"
    by (simp only: table_step_alt if_False xor.right_neutral)
  with IH show ?case by (simp only: funpow.simps o_apply push_bit_push_bit plus_1_eq_Suc)
qed

lemma bit_crc_bit [word_bits]:
  "bit (crc_bit poly crc b) n \<longleftrightarrow>
     (n < 16 \<and> 1 \<le> n \<and> bit crc (n - 1)) \<noteq> (bit crc 15 \<noteq> b \<and> bit poly n)"
proof -
  have "crc_bit poly crc b = push_bit 1 crc XOR (if bit crc 15 \<noteq> b then poly else 0)"
    by (simp add: crc_bit_def)
  then have *: "bit (crc_bit poly crc b) n =
      (bit (push_bit 1 crc) n \<noteq> bit (if bit crc 15 \<noteq> b then poly else 0) n)"
    by (simp only: bit_xor_iff)
  show ?thesis unfolding * bit_push_bit_iff by auto
qed

lemma crc_bit_step: "crc_bit poly crc b = table_step poly (crc XOR (if b then 0x8000 else 0))"
proof (rule bit_word_eqI)
  fix n assume "n < LENGTH(16)"
  then have *: "bit (if b then 0x8000 else 0 :: u16) m \<longleftrightarrow> b \<and> m = 15" for m
    by (cases b) (simp_all only: bit_0x8000 if_True if_False bit_0_eq, simp_all)
  show "bit (crc_bit poly crc b) n =
      bit (table_step poly (crc XOR (if b then 0x8000 else 0))) n"
    unfolding bit_crc_bit bit_table_step bit_xor_iff * using \<open>n < LENGTH(16)\<close> by auto
qed

section \<open>The table is eight shift steps\<close>

lemma length_NewTable [simp, len_simps]: "length (NewTable poly) = 256"
  by (simp add: NewTable_def)

lemma nth_NewTable: "i < 256 \<Longrightarrow> NewTable poly ! i = (table_step poly ^^ 8) (push_bit 8 (of_nat i))"
  by (simp add: NewTable_def)

lemma split_u16: "c = push_bit 8 (drop_bit 8 c) XOR (c AND 0xFF)" for c :: u16
proof (rule bit_word_eqI)
  fix n assume "n < LENGTH(16)"
  have "(0xFF :: u16) = mask 8" by (simp add: mask_eq_exp_minus_1)
  then have *: "bit (c AND 0xFF) n \<longleftrightarrow> bit c n \<and> n < 8"
    unfolding bit_and_iff by (simp only: bit_mask_iff) auto
  show "bit c n = bit (push_bit 8 (drop_bit 8 c) XOR (c AND 0xFF)) n"
    unfolding bit_xor_iff * bit_push_bit_iff bit_drop_bit_eq using \<open>n < LENGTH(16)\<close> by auto
qed

lemma bit_ucast_u8_u16: "bit (ucast (v :: u8) :: u16) n \<longleftrightarrow> bit v n \<and> n < 8"
  by (auto simp: bit_ucast_iff dest: bit_imp_le_length)

lemma checksum_byte_steps:
  "checksum_byte (NewTable poly) crc v = (table_step poly ^^ 8) (crc XOR push_bit 8 (ucast v))"
proof -
  let ?i = "drop_bit 8 crc XOR ucast v :: u16"
  have hi: "\<not> bit ?i n" if "8 \<le> n" for n
    using that unfolding bit_xor_iff bit_drop_bit_eq bit_ucast_u8_u16
    by (auto dest: bit_imp_le_length)
  then have lt: "unat ?i < 256"
    using less_exp_if_high_bits_clear [of 8 ?i] by simp
  have lo: "(table_step poly ^^ 8) (crc AND 0xFF) = push_bit 8 (crc AND 0xFF)"
  proof (rule table_steps_small, intro allI impI)
    fix k :: nat assume "16 \<le> k + 8"
    moreover have "(0xFF :: u16) = mask 8" by (simp add: mask_eq_exp_minus_1)
    ultimately show "\<not> bit (crc AND 0xFF) k" by (simp only: bit_and_iff bit_mask_iff) simp
  qed
  have sh: "push_bit 8 (crc AND 0xFF) = push_bit 8 crc"
  proof (rule bit_word_eqI)
    fix n assume "n < LENGTH(16)"
    moreover have "(0xFF :: u16) = mask 8" by (simp add: mask_eq_exp_minus_1)
    ultimately show "bit (push_bit 8 (crc AND 0xFF)) n = bit (push_bit 8 crc) n"
      by (simp only: bit_push_bit_iff bit_and_iff bit_mask_iff) auto
  qed
  have "crc XOR push_bit 8 (ucast v) = push_bit 8 ?i XOR (crc AND 0xFF)"
    by (subst split_u16 [of crc]) (simp only: push_bit_xor_word ac_simps)
  then have "(table_step poly ^^ 8) (crc XOR push_bit 8 (ucast v)) =
      (table_step poly ^^ 8) (push_bit 8 ?i) XOR push_bit 8 crc"
    by (simp only: table_steps_xor lo sh)
  also have "\<dots> = checksum_byte (NewTable poly) crc v"
    unfolding checksum_byte_def nth_NewTable [OF lt] by (simp add: ac_simps)
  finally show ?thesis by simp
qed

text \<open>Feeding a list of at most 16 bits is a shift by its length of the register with the bits
  aligned to its top.\<close>

primrec top_word :: "bool list \<Rightarrow> u16" where
  "top_word [] = 0"
| "top_word (b # bs) = (if b then 0x8000 else 0) XOR drop_bit 1 (top_word bs)"

lemma bit_top_word:
  "length bs \<le> 16 \<Longrightarrow> bit (top_word bs) n \<longleftrightarrow> n < 16 \<and> 15 - n < length bs \<and> bs ! (15 - n)"
proof (induction bs arbitrary: n)
  case Nil
  then show ?case by simp
next
  case (Cons b bs)
  have *: "bit (if b then 0x8000 else 0 :: u16) n \<longleftrightarrow> b \<and> n = 15" for n
    by (cases b) (simp_all only: bit_0x8000 if_True if_False bit_0_eq, simp_all)
  have IH: "bit (top_word bs) (1 + n) \<longleftrightarrow> 1 + n < 16 \<and> 15 - (1 + n) < length bs \<and> bs ! (15 - (1 + n))"
    using Cons by simp
  show ?case
    unfolding top_word.simps bit_xor_iff * bit_drop_bit_eq o_apply IH
    by (auto simp: nth_Cons' Suc_diff_Suc)
qed

lemma crc_bits_steps:
  "length bs \<le> 16 \<Longrightarrow> crc_bits poly crc bs = (table_step poly ^^ length bs) (crc XOR top_word bs)"
proof (induction bs arbitrary: crc)
  case Nil
  then show ?case by (simp add: crc_bits_def)
next
  case (Cons b bs)
  have low: "\<not> bit (top_word bs) 0"
    using Cons.prems by (simp add: bit_top_word)
  have shift: "table_step poly (drop_bit 1 (top_word bs)) = top_word bs"
  proof (rule bit_word_eqI)
    fix n assume n: "n < LENGTH(16)"
    have "\<not> bit (top_word bs) 16" using bit_imp_le_length [of "top_word bs" 16] by auto
    with low n show "bit (table_step poly (drop_bit 1 (top_word bs))) n = bit (top_word bs) n"
      unfolding bit_table_step bit_drop_bit_eq o_apply by (cases n) auto
  qed
  have "crc_bits poly crc (b # bs) = crc_bits poly (crc_bit poly crc b) bs"
    by (simp add: crc_bits_def)
  also have "\<dots> = (table_step poly ^^ length bs) (crc_bit poly crc b XOR top_word bs)"
    using Cons by simp
  also have "crc_bit poly crc b XOR top_word bs =
      table_step poly (crc XOR top_word (b # bs))"
    by (subst shift [symmetric]) (simp only: crc_bit_step table_step_xor top_word.simps ac_simps)
  finally show ?case by (simp add: funpow_swap1)
qed

lemma top_word_byte: "top_word (byte_bits v) = push_bit 8 (ucast v)"
proof (rule bit_word_eqI)
  fix n assume n: "n < LENGTH(16)"
  have "bit (top_word (byte_bits v)) n \<longleftrightarrow> n < 16 \<and> 15 - n < 8 \<and> byte_bits v ! (15 - n)"
    by (simp add: bit_top_word)
  also have "\<dots> \<longleftrightarrow> 8 \<le> n \<and> bit v (n - 8)"
  proof (cases "8 \<le> n")
    case True
    then have "7 - (15 - n) = n - 8" "15 - n < 8" using n by simp_all
    with True n show ?thesis by (simp add: nth_byte_bits)
  qed (use n in auto)
  also have "\<dots> \<longleftrightarrow> bit (push_bit 8 (ucast v) :: u16) n"
    unfolding bit_push_bit_iff bit_ucast_u8_u16 using n by auto
  finally show "bit (top_word (byte_bits v)) n = bit (push_bit 8 (ucast v) :: u16) n" .
qed

lemma checksum_byte_bits: "checksum_byte (NewTable poly) crc v = crc_bits poly crc (byte_bits v)"
  by (simp add: checksum_byte_steps crc_bits_steps top_word_byte)

lemma crc_bits_append: "crc_bits poly crc (xs @ ys) = crc_bits poly (crc_bits poly crc xs) ys"
  by (simp add: crc_bits_def)

lemma Checksum_append: "Checksum init (xs @ ys) table = Checksum (Checksum init xs table) ys table"
  by (simp add: Checksum_def)

lemma Checksum_crc_bits: "Checksum init data (NewTable poly) = crc_bits poly init (bytes_bits data)"
proof (induction data arbitrary: init)
  case Nil
  then show ?case by (simp add: Checksum_def crc_bits_def)
next
  case (Cons v data)
  have "Checksum init (v # data) (NewTable poly) =
      Checksum (checksum_byte (NewTable poly) init v) data (NewTable poly)"
    by (simp add: Checksum_def)
  with Cons show ?case by (simp add: checksum_byte_bits crc_bits_append)
qed

section \<open>Generators with a constant term lose no information\<close>

lemma table_step_inj: "bit poly 0 \<Longrightarrow> table_step poly a = table_step poly b \<Longrightarrow> a = b"
proof (rule bit_word_eqI)
  fix n assume p: "bit poly 0" and eq: "table_step poly a = table_step poly b" and n: "n < LENGTH(16)"
  have all: "bit (table_step poly a) m = bit (table_step poly b) m" for m by (simp only: eq)
  from all [of 0] p have top: "bit a 15 = bit b 15" unfolding bit_table_step by simp
  show "bit a n = bit b n"
  proof (cases "n = 15")
    case False
    with n have "Suc n < 16" by simp
    with all [of "Suc n"] top show ?thesis unfolding bit_table_step by auto
  qed (use top in simp)
qed

lemma table_steps_inj:
  "bit poly 0 \<Longrightarrow> (table_step poly ^^ n) a = (table_step poly ^^ n) b \<longleftrightarrow> a = b"
  by (induction n) (auto dest: table_step_inj)

lemma crc_bits_inj:
  assumes "bit poly 0"
  shows "crc_bits poly a bs = crc_bits poly b bs \<longleftrightarrow> a = b"
proof (induction bs arbitrary: a b)
  case Nil
  then show ?case by (simp add: crc_bits_def)
next
  case (Cons x bs)
  have "crc_bit poly a x = crc_bit poly b x \<longleftrightarrow> a = b"
    unfolding crc_bit_step using assms by (metis table_step_inj xor_cancel_left xor.commute)
  with Cons show ?case by (simp add: crc_bits_def)
qed

lemma top_word_inj:
  assumes "length xs = length ys" "length xs \<le> 16" "top_word xs = top_word ys"
  shows "xs = ys"
proof (rule nth_equalityI)
  fix i assume i: "i < length xs"
  have "bit (top_word xs) (15 - i) = bit (top_word ys) (15 - i)" by (simp only: assms(3))
  moreover have "15 - i < 16" by arith
  ultimately show "xs ! i = ys ! i" using i assms(1,2) by (simp add: bit_top_word)
qed (use assms in simp)

lemma crc_bits_short_inj:
  assumes "bit poly 0" "length xs = length ys" "length xs \<le> 16"
    and "crc_bits poly c xs = crc_bits poly c ys"
  shows "xs = ys"
proof -
  have "c XOR top_word xs = c XOR top_word ys"
    using assms by (simp add: crc_bits_steps table_steps_inj)
  then have "top_word xs = top_word ys" by (metis xor_cancel_left)
  with assms show ?thesis by (blast intro: top_word_inj)
qed

lemma top_word_PutUint16: "top_word (bytes_bits (PutUint16 c)) = c"
proof (rule bit_word_eqI)
  fix n assume n: "n < LENGTH(16)"
  have len: "length (bytes_bits (PutUint16 c)) = 16" by simp
  then have *: "bit (top_word (bytes_bits (PutUint16 c))) n \<longleftrightarrow> bytes_bits (PutUint16 c) ! (15 - n)"
    unfolding bit_top_word [OF len [THEN eq_refl]] using n len by auto
  have idx: "bytes_bits (PutUint16 c) ! (15 - n) =
      bit (PutUint16 c ! ((15 - n) div 8)) (7 - (15 - n) mod 8)"
    by (rule nth_bytes_bits) simp
  show "bit (top_word (bytes_bits (PutUint16 c))) n = bit c n"
  proof (cases "n < 8")
    case True
    then have e: "15 - n = 8 + (7 - n)" by simp
    have "(15 - n) div 8 = 1" using True by simp
    moreover have "(15 - n) mod 8 = 7 - n" unfolding e mod_add_self1 by simp
    then have "7 - (15 - n) mod 8 = n" using True by simp
    ultimately show ?thesis using True unfolding * idx by (simp add: PutUint16_def bit_ucast_iff)
  next
    case False
    with n have "(15 - n) div 8 = 0" "7 - (15 - n) mod 8 = n - 8" by simp_all
    then show ?thesis using False n unfolding * idx
      by (auto simp: PutUint16_def bit_ucast_iff bit_drop_bit_eq)
  qed
qed

lemma Checksum_trailer:
  "Checksum init (data @ PutUint16 c) (NewTable poly) =
     (table_step poly ^^ 16) (Checksum init data (NewTable poly) XOR c)"
  by (simp add: Checksum_append Checksum_crc_bits [of _ "PutUint16 c"] crc_bits_steps top_word_PutUint16)

section \<open>Error-detecting trailers\<close>

text \<open>What a parser relies on: a checksum function \<open>chk\<close> for which exactly one 16-bit
  big-endian trailer makes a body acceptable, and which is injective on the trailer.\<close>

locale trailer_code =
  fixes chk :: "u8 list \<Rightarrow> u16" and residue :: u16 and seal :: "u8 list \<Rightarrow> u16"
  assumes accept_iff: "chk (data @ PutUint16 c) = residue \<longleftrightarrow> c = seal data"
begin

lemma sealed_accepted: "chk (data @ PutUint16 (seal data)) = residue"
  by (simp add: accept_iff)

lemma trailer_unique:
  "chk (data @ PutUint16 c) = residue \<Longrightarrow> chk (data @ PutUint16 d) = residue \<Longrightarrow> c = d"
  by (simp add: accept_iff)

lemma tampered_rejected: "e \<noteq> 0 \<Longrightarrow> chk (data @ PutUint16 (seal data XOR e)) \<noteq> residue"
  unfolding accept_iff by (metis xor_cancel_left xor_self_eq)

end

text \<open>Two messages that differ only inside a short burst have different checksums.\<close>

lemma Checksum_burst:
  assumes "bit poly 0"
    and "bytes_bits data = p @ x @ s" and "bytes_bits data' = p @ y @ s"
    and "length x = length y" and "length x \<le> 16" and "x \<noteq> y"
  shows "Checksum init data (NewTable poly) \<noteq> Checksum init data' (NewTable poly)"
  using assms unfolding Checksum_crc_bits
  by (auto simp: crc_bits_append crc_bits_inj dest: crc_bits_short_inj)

definition CCITT :: CRC where
  "CCITT = NewCRC ''CCITT'' 0xFFFF 0x1021 0x1D0F"

definition BCH :: CRC where
  "BCH = NewCRC ''BCH'' 0 0x6F63 0"

lemma ccitt_poly_odd: "bit (0x1021 :: u16) 0"
  by simp

lemma bch_poly_odd: "bit (0x6F63 :: u16) 0"
  by simp

lemma ccitt_residue_value: "(table_step 0x1021 ^^ 16) 0xFFFF = 0x1D0F"
  unfolding funpow_16 by (simp add: table_step_def)

lemma CCITT_accept_iff:
  "crc_Checksum CCITT (data @ PutUint16 c) = Residue CCITT \<longleftrightarrow> c = NOT (crc_Checksum CCITT data)"
proof -
  let ?s = "Checksum 0xFFFF data (NewTable 0x1021)"
  have "crc_Checksum CCITT (data @ PutUint16 c) = Residue CCITT \<longleftrightarrow>
      (table_step 0x1021 ^^ 16) (?s XOR c) = (table_step 0x1021 ^^ 16) 0xFFFF"
    by (simp add: crc_Checksum_def CCITT_def NewCRC_def Checksum_trailer ccitt_residue_value)
  also have "\<dots> \<longleftrightarrow> ?s XOR c = - 1"
  proof -
    have "(0xFFFF :: u16) = - 1" by simp
    then show ?thesis by (simp only: table_steps_inj [OF ccitt_poly_odd])
  qed
  also have "\<dots> \<longleftrightarrow> c = NOT ?s"
    by (metis bit.xor_cancel_right bit.xor_one_right xor_cancel_left)
  finally show ?thesis by (simp add: crc_Checksum_def CCITT_def NewCRC_def)
qed

interpretation ccitt: trailer_code "crc_Checksum CCITT" "Residue CCITT" "\<lambda>d. NOT (crc_Checksum CCITT d)"
  by unfold_locales (rule CCITT_accept_iff)

lemma BCH_accept_iff:
  "crc_Checksum BCH (data @ PutUint16 c) = 0 \<longleftrightarrow> c = crc_Checksum BCH data"
proof -
  let ?s = "Checksum 0 data (NewTable 0x6F63)"
  have "crc_Checksum BCH (data @ PutUint16 c) = 0 \<longleftrightarrow>
      (table_step 0x6F63 ^^ 16) (?s XOR c) = (table_step 0x6F63 ^^ 16) 0"
    by (simp add: crc_Checksum_def BCH_def NewCRC_def Checksum_trailer)
  also have "\<dots> \<longleftrightarrow> ?s XOR c = 0"
    by (simp add: table_steps_inj bch_poly_odd del: table_steps_zero)
  also have "\<dots> \<longleftrightarrow> c = ?s"
    by (metis xor_cancel_left xor_self_eq xor.right_neutral)
  finally show ?thesis by (simp add: crc_Checksum_def BCH_def NewCRC_def)
qed

interpretation bch: trailer_code "crc_Checksum BCH" 0 "crc_Checksum BCH"
  by unfold_locales (rule BCH_accept_iff)

lemmas ccitt_burst = Checksum_burst [OF ccitt_poly_odd, where init = "0xFFFF"]
lemmas bch_burst = Checksum_burst [OF bch_poly_odd, where init = 0]

lemma crc_Checksum_CCITT: "crc_Checksum CCITT d = Checksum 0xFFFF d (NewTable 0x1021)"
  and crc_Checksum_BCH: "crc_Checksum BCH d = Checksum 0 d (NewTable 0x6F63)"
  by (simp_all add: crc_Checksum_def CCITT_def BCH_def NewCRC_def)

lemma Residue_CCITT: "Residue CCITT = 0x1D0F"
  by (simp add: CCITT_def NewCRC_def)

section \<open>Properties\<close>

text \<open>C10: the table-driven \<open>Checksum\<close> over \<open>NewTable poly\<close> computes, for every
  generator, initial value and message, the same register as bit-serial division of the
  message bits, most significant bit of each byte first.\<close>

theorem checksum_is_bitserial_division:
  "Checksum init data (NewTable poly) = crc_bits poly init (bytes_bits data)"
  by (rule Checksum_crc_bits)

text \<open>C11: with a generator that has a constant term, as both generators of the program
  have, two messages that differ only inside a burst of at most 16 consecutive bits, wherever it
  lies relative to byte boundaries, have different checksums.\<close>

theorem checksum_detects_bursts:
  assumes "bit poly 0"
    and "bytes_bits data = p @ x @ s" and "bytes_bits data' = p @ y @ s"
    and "length x = length y" and "length x \<le> 16" and "x \<noteq> y"
  shows "Checksum init data (NewTable poly) \<noteq> Checksum init data' (NewTable poly)"
  using assms by (rule Checksum_burst)

theorem checksum_detects_bursts_witness:
  "Checksum 0xFFFF [0xA5, 0x10, 3] (NewTable 0x1021) \<noteq> Checksum 0xFFFF [0xA5, 0x1F, 3] (NewTable 0x1021)"
  by (rule checksum_detects_bursts [of _ _ "byte_bits 0xA5 @ [False, False, False, True]"
        "[False, False, False, False]" "byte_bits 3" _ "[True, True, True, True]"])
    (simp_all add: byte_bits_def upt_rec)

text \<open>C12: the residue check \<open>Checksum(body ++ crc) = 0x1D0F\<close> that the CCITT parsers
  perform accepts exactly the trailer that is the complement of the checksum of the body, and
  the check \<open>Checksum(body ++ crc) = 0\<close> of SCM accepts exactly the checksum itself.\<close>

theorem residue_checks_accept_exactly_one_trailer:
  "(crc_Checksum CCITT (data @ PutUint16 c) = 0x1D0F \<longleftrightarrow> c = NOT (crc_Checksum CCITT data)) \<and>
   (crc_Checksum BCH (data @ PutUint16 c) = 0 \<longleftrightarrow> c = crc_Checksum BCH data)"
  using ccitt.accept_iff [of data c] bch.accept_iff [of data c]
  by (simp add: CCITT_def NewCRC_def)

end
