(* ===== verification/Gf.thy ===== *)
theory Gf
  imports Prelude
begin

text \<open>
  Arithmetic over finite fields, \<^verbatim>\<open>src/r900/gf/gf.go\<close>: construction of the
  logarithm and exponential tables with their self checks, field operations through the
  tables, and the Reed-Solomon syndrome. Go's \<^verbatim>\<open>int\<close> is \<open>int\<close>; every value the
  functions compute from accepted arguments stays below \<open>2 ^ 10\<close>.
\<close>

section \<open>The code\<close>

record Field =
  order :: nat
  log :: "u8 list"
  exp :: "u8 list"

text \<open>\<open>nbit\<close>: the loop shifts \<open>p\<close> right until it is no longer positive.\<close>

function nbit :: "int \<Rightarrow> nat" where
  "nbit p = (if p > 0 then Suc (nbit (p div 2)) else 0)"
  by pat_completeness auto
termination
  by (relation "measure nat") auto

declare nbit.simps [simp del]

text \<open>The loop of \<open>polyDiv\<close>, \<open>np\<close> counting down to \<open>nq\<close>. With \<open>nq = 0\<close>
  (\<open>q \<le> 0\<close>) the unsigned loop condition would hold forever: no result.\<close>

fun polyDiv_loop :: "nat \<Rightarrow> nat \<Rightarrow> int \<Rightarrow> int \<Rightarrow> int" where
  "polyDiv_loop 0 nq p q = p"
| "polyDiv_loop (Suc n) nq p q =
     (if nq \<le> Suc n
      then polyDiv_loop n nq (if bit p n then p XOR push_bit (Suc n - nq) q else p) q
      else p)"

definition polyDiv :: "int \<Rightarrow> int \<Rightarrow> int option" where
  "polyDiv p q = (if nbit q = 0 then None else Some (polyDiv_loop (nbit p) (nbit q) p q))"

text \<open>The loop of \<open>mul\<close>, with the accumulator \<open>z\<close>.\<close>

function mul_loop :: "int \<Rightarrow> int \<Rightarrow> int \<Rightarrow> int \<Rightarrow> int \<Rightarrow> int" where
  "mul_loop x y ord poly z =
     (if x > 0 then
        let z' = (if odd x then z XOR y else z);
            y' = 2 * y;
            y'' = (if y' AND ord \<noteq> 0 then y' XOR poly else y')
        in mul_loop (x div 2) y'' ord poly z'
      else z)"
  by pat_completeness auto
termination
  by (relation "measure (\<lambda>(x, y, ord, poly, z). nat x)") auto

declare mul_loop.simps [simp del]

definition mul :: "int \<Rightarrow> int \<Rightarrow> int \<Rightarrow> int \<Rightarrow> int" where
  "mul x y ord poly = mul_loop x y ord poly 0"

definition reducible :: "int \<Rightarrow> bool" where
  "reducible p =
     list_ex (\<lambda>q. polyDiv p q = Some 0) (map int [2..<2 ^ (nbit p div 2 + 1)])"

text \<open>One turn of the table-filling loop of \<open>NewField\<close>; the loop state is \<open>x\<close> and the
  field under construction.\<close>

definition fill_step :: "int \<Rightarrow> int \<Rightarrow> int \<Rightarrow> int \<times> Field \<Rightarrow> nat \<Rightarrow> (int \<times> Field) res" where
  "fill_step ord poly \<alpha> st i =
     (case st of (x, f) \<Rightarrow>
        if x = 1 \<and> i \<noteq> 0 then Inl (Panic ''gf: invalid generator'')
        else if \<not> (0 \<le> x \<and> nat x < length (log f)) then Inl (Panic ''index out of range'')
        else Inr (mul x \<alpha> ord poly,
          f\<lparr>exp := (exp f)[i := of_int x, i + order f := of_int x],
            log := (log f)[nat x := of_nat i]\<rparr>))"

definition check_exp :: "Field \<Rightarrow> unit \<Rightarrow> nat \<Rightarrow> unit res" where
  "check_exp f u i =
     bind_res (index_res (exp f) i) (\<lambda>e.
     bind_res (index_res (log f) (unat e)) (\<lambda>l.
     if l \<noteq> of_nat i then Inl (Panic ''bad log'') else
     bind_res (index_res (exp f) (i + order f)) (\<lambda>e'.
     bind_res (index_res (log f) (unat e')) (\<lambda>l'.
     if l' \<noteq> of_nat i then Inl (Panic ''bad log'') else Inr ()))))"

definition check_log :: "Field \<Rightarrow> unit \<Rightarrow> nat \<Rightarrow> unit res" where
  "check_log f u i =
     bind_res (index_res (log f) i) (\<lambda>l.
     bind_res (index_res (exp f) (unat l)) (\<lambda>e.
     if e \<noteq> of_nat i then Inl (Panic ''bad log'') else Inr ()))"

definition NewField :: "int \<Rightarrow> int \<Rightarrow> int \<Rightarrow> Field res" where
  "NewField ord poly \<alpha> =
     (if ord < 0 \<or> ord > 256 then Inl (Panic ''gf: invalid order'')
      else if poly < ord \<or> poly \<ge> 2 * ord \<or> reducible poly
      then Inl (Panic ''gf: invalid polynomial'')
      else
        let n = nat ord - 1;
            f = \<lparr>order = n, log = replicate (nat ord) 0, exp = replicate (2 * n) 0\<rparr>
        in bind_res (fold_res (fill_step ord poly \<alpha>) (1, f) [0..<n]) (\<lambda>(x, f).
           let f = f\<lparr>log := (log f)[0 := of_nat n]\<rparr>
           in bind_res (fold_res (check_exp f) () [0..<n]) (\<lambda>u.
              bind_res (fold_res (check_log f) () [1..<nat ord]) (\<lambda>u. Inr f))))"

definition Add :: "u8 \<Rightarrow> u8 \<Rightarrow> u8" where
  "Add x y = x XOR y"

text \<open>A remainder by zero (\<open>order f = 0\<close>) panics, as does an index outside a table.\<close>

definition Exp :: "Field \<Rightarrow> int \<Rightarrow> u8 res" where
  "Exp f e =
     (if e < 0 then Inr 0
      else if order f = 0 then Inl (Panic ''integer divide by zero'')
      else index_res (exp f) (nat e mod order f))"

definition Log :: "Field \<Rightarrow> u8 \<Rightarrow> int res" where
  "Log f x = (if x = 0 then Inr (- 1) else bind_res (index_res (log f) (unat x)) (\<lambda>l. Inr (uint l)))"

definition Inv :: "Field \<Rightarrow> u8 \<Rightarrow> u8 res" where
  "Inv f x =
     (if x = 0 then Inr 0
      else bind_res (index_res (log f) (unat x)) (\<lambda>l.
        if unat l \<le> order f then index_res (exp f) (order f - unat l)
        else Inl (Panic ''index out of range'')))"

definition Mul :: "Field \<Rightarrow> u8 \<Rightarrow> u8 \<Rightarrow> u8 res" where
  "Mul f x y =
     (if x = 0 \<or> y = 0 then Inr 0
      else bind_res (index_res (log f) (unat x)) (\<lambda>lx.
           bind_res (index_res (log f) (unat y)) (\<lambda>ly.
           index_res (exp f) (unat lx + unat ly))))"

text \<open>\<open>Syndrome\<close>: symbol \<open>idx\<close> is the message evaluated by Horner's rule at
  \<open>Exp (offset + idx)\<close>. An empty message panics on \<open>message[0]\<close>, when there is a symbol to
  compute.\<close>

definition syndrome_at :: "Field \<Rightarrow> u8 list \<Rightarrow> int \<Rightarrow> u8 res" where
  "syndrome_at f message e =
     bind_res (index_res message 0) (\<lambda>m0.
       fold_res (\<lambda>syn v. bind_res (Exp f e) (\<lambda>p. bind_res (Mul f syn p) (\<lambda>t. Inr (t XOR v))))
         m0 (drop 1 message))"

definition Syndrome :: "Field \<Rightarrow> u8 list \<Rightarrow> int \<Rightarrow> int \<Rightarrow> (u8 list) res" where
  "Syndrome f message paritySymbolCount offset =
     (if offset < 0 \<or> offset > int (order f) then Inl (Panic ''gf: invalid offset'')
      else if paritySymbolCount < 0 \<or> paritySymbolCount > int (length message)
      then Inl (Panic ''gf: invalid paritySymbolCount'')
      else fold_res (\<lambda>acc idx. bind_res (syndrome_at f message (offset + int idx)) (\<lambda>s. Inr (acc @ [s])))
             [] [0..<nat paritySymbolCount])"

section \<open>Multiplication by a fixed element is linear\<close>

text \<open>The doubling with reduction that the loop applies to \<open>y\<close>.\<close>

definition ystep :: "int \<Rightarrow> int \<Rightarrow> int \<Rightarrow> int" where
  "ystep ord poly y = (if (2 * y) AND ord \<noteq> 0 then (2 * y) XOR poly else 2 * y)"

lemma mul_loop_pos:
  "x > 0 \<Longrightarrow> mul_loop x y ord poly z =
     mul_loop (x div 2) (ystep ord poly y) ord poly (z XOR (if odd x then y else 0))"
  by (subst mul_loop.simps) (simp add: Let_def ystep_def)

lemma mul_loop_stop: "x \<le> 0 \<Longrightarrow> mul_loop x y ord poly z = z"
  by (subst mul_loop.simps) simp

lemma mul_loop_acc: "mul_loop x y ord poly z = z XOR mul_loop x y ord poly 0"
proof (induction "nat x" arbitrary: x y z rule: less_induct)
  case less
  show ?case
  proof (cases "x > 0")
    case True
    then have lt: "nat (x div 2) < nat x" by simp
    let ?d = "if odd x then y else 0"
    have "mul_loop x y ord poly z = (z XOR ?d) XOR mul_loop (x div 2) (ystep ord poly y) ord poly 0"
      unfolding mul_loop_pos [OF True] by (rule less [OF lt])
    moreover have "mul_loop x y ord poly 0 = ?d XOR mul_loop (x div 2) (ystep ord poly y) ord poly 0"
      unfolding mul_loop_pos [OF True] xor.left_neutral by (rule less [OF lt])
    ultimately show ?thesis by (simp add: xor.assoc)
  qed (simp add: mul_loop_stop)
qed

lemma mul_unfold:
  "x > 0 \<Longrightarrow> mul x y ord poly = (if odd x then y else 0) XOR mul (x div 2) (ystep ord poly y) ord poly"
  unfolding mul_def by (subst mul_loop_pos, assumption, subst mul_loop_acc) simp

lemma mul_stop: "x \<le> 0 \<Longrightarrow> mul x y ord poly = 0"
  by (simp add: mul_def mul_loop_stop)

lemma mul_half:
  "x \<ge> 0 \<Longrightarrow> mul x y ord poly = (if odd x then y else 0) XOR mul (x div 2) (ystep ord poly y) ord poly"
  by (cases "x = 0") (simp_all add: mul_stop mul_unfold)

lemma xor_div_2: "(a XOR b) div 2 = (a div 2) XOR (b div 2)" for a b :: int
  using drop_bit_xor [of 1 a b] by (simp add: drop_bit_eq_div)

lemma mul_xor:
  "0 \<le> a \<Longrightarrow> 0 \<le> b \<Longrightarrow> mul (a XOR b) y ord poly = mul a y ord poly XOR mul b y ord poly"
proof (induction "nat a + nat b" arbitrary: a b y rule: less_induct)
  case less
  have nn: "0 \<le> a XOR b" using less.prems by simp
  show ?case
  proof (cases "a = 0 \<and> b = 0")
    case False
    with less.prems have lt: "nat (a div 2) + nat (b div 2) < nat a + nat b" by auto
    have "mul (a XOR b) y ord poly = (if odd a = odd b then 0 else y) XOR
        mul (a div 2 XOR b div 2) (ystep ord poly y) ord poly"
      unfolding mul_half [OF nn] xor_div_2 by (auto simp: even_xor_iff)
    also have "mul (a div 2 XOR b div 2) (ystep ord poly y) ord poly =
        mul (a div 2) (ystep ord poly y) ord poly XOR mul (b div 2) (ystep ord poly y) ord poly"
      using less.prems by (intro less.hyps [OF lt]) simp_all
    finally show ?thesis
      unfolding mul_half [OF less.prems(1)] mul_half [OF less.prems(2)]
      by (auto simp: ac_simps)
  qed (simp add: mul_stop)
qed

section \<open>Field tables as an interface\<close>

text \<open>What the tables promise: \<open>exp\<close> lists the powers of the generator (\<open>M\<close> is
  multiplication by it) over two periods, \<open>log\<close> inverts the first, \<open>M\<close> is linear over
  XOR, and the \<open>n + 1\<close> elements are closed under XOR.\<close>

locale gf_tables =
  fixes f :: Field and M :: "u8 \<Rightarrow> u8" and n :: nat
  assumes n_pos: "0 < n" and order_f: "order f = n"
    and len_log: "length (log f) = Suc n" and len_exp: "length (exp f) = 2 * n"
    and exp_pow: "i < 2 * n \<Longrightarrow> exp f ! i = (M ^^ i) 1"
    and pow_n: "(M ^^ n) 1 = 1"
    and exp_elt: "i < n \<Longrightarrow> exp f ! i \<noteq> 0 \<and> unat (exp f ! i) \<le> n"
    and exp_log: "x \<noteq> 0 \<Longrightarrow> unat x \<le> n \<Longrightarrow>
      unat (log f ! unat x) < n \<and> exp f ! unat (log f ! unat x) = x"
    and log_exp: "i < n \<Longrightarrow> unat (log f ! unat (exp f ! i)) = i"
    and M_xor: "M (x XOR y) = M x XOR M y"
    and xor_elt: "unat x \<le> n \<Longrightarrow> unat y \<le> n \<Longrightarrow> unat (x XOR y) \<le> n"
begin

definition elt :: "u8 \<Rightarrow> bool" where
  "elt x \<longleftrightarrow> unat x \<le> n"

definition pw :: "nat \<Rightarrow> u8" where
  "pw i = (M ^^ i) 1"

definition lg :: "u8 \<Rightarrow> nat" where
  "lg x = unat (log f ! unat x)"

definition mlt :: "u8 \<Rightarrow> u8 \<Rightarrow> u8" where
  "mlt x y = (if x = 0 \<or> y = 0 then 0 else exp f ! (lg x + lg y))"

lemma pw_add_n: "pw (i + n) = pw i"
  by (simp add: pw_def funpow_add pow_n)

lemma pw_mod: "pw (i mod n) = pw i"
proof -
  have "pw (k + j * n) = pw k" for j k
    by (induction j) (simp_all add: pw_add_n add.assoc [symmetric], metis add.assoc add.commute pw_add_n)
  from this [of "i mod n" "i div n"] show ?thesis by simp
qed

lemma exp_pw: "i < 2 * n \<Longrightarrow> exp f ! i = pw i"
  by (simp add: exp_pow pw_def)

lemma pw_props: "pw i \<noteq> 0" "elt (pw i)" "lg (pw i) = i mod n"
proof -
  have lt: "i mod n < n" using n_pos by simp
  then have "pw i = exp f ! (i mod n)" by (simp add: exp_pw pw_mod)
  with lt show "pw i \<noteq> 0" "elt (pw i)" "lg (pw i) = i mod n"
    by (simp_all add: exp_elt elt_def lg_def log_exp)
qed

lemma pw_lg: "x \<noteq> 0 \<Longrightarrow> elt x \<Longrightarrow> pw (lg x) = x"
  using exp_log [of x] by (simp add: elt_def lg_def exp_pw [symmetric])

lemma lg_less: "x \<noteq> 0 \<Longrightarrow> elt x \<Longrightarrow> lg x < n"
  using exp_log [of x] by (simp add: elt_def lg_def)

lemma elt_cases:
  assumes "elt x" obtains (zero) "x = 0" | (pow) i where "x = pw i"
  using assms pw_lg by metis

lemma elt_0 [simp]: "elt 0"
  by (simp add: elt_def)

lemma elt_xor: "elt x \<Longrightarrow> elt y \<Longrightarrow> elt (x XOR y)"
  by (simp add: elt_def xor_elt)

lemma mlt_zero [simp]: "mlt 0 y = 0" "mlt x 0 = 0"
  by (simp_all add: mlt_def)

lemma mlt_pw: "mlt (pw i) (pw j) = pw (i + j)"
proof -
  have "i mod n + j mod n < 2 * n" using n_pos by (simp add: add_less_le_mono mult_2)
  then have "mlt (pw i) (pw j) = pw (i mod n + j mod n)"
    by (simp add: mlt_def pw_props exp_pw)
  also have "\<dots> = pw ((i mod n + j mod n) mod n)" by (simp only: pw_mod)
  also have "\<dots> = pw (i + j)" by (simp add: mod_add_eq pw_mod)
  finally show ?thesis .
qed

lemma mlt_elt: "elt x \<Longrightarrow> elt y \<Longrightarrow> elt (mlt x y)"
  by (elim elt_cases) (simp_all add: mlt_pw pw_props)

lemma mlt_comm: "elt x \<Longrightarrow> elt y \<Longrightarrow> mlt x y = mlt y x"
  by (elim elt_cases) (simp_all add: mlt_pw add.commute)

lemma mlt_assoc: "elt x \<Longrightarrow> elt y \<Longrightarrow> elt z \<Longrightarrow> mlt (mlt x y) z = mlt x (mlt y z)"
  by (elim elt_cases) (simp_all add: mlt_pw add.assoc)

lemma mlt_eq_0: "elt x \<Longrightarrow> elt y \<Longrightarrow> mlt x y = 0 \<longleftrightarrow> x = 0 \<or> y = 0"
  by (elim elt_cases) (simp_all add: mlt_pw pw_props)

lemma M_pow_xor: "(M ^^ i) (x XOR y) = (M ^^ i) x XOR (M ^^ i) y"
  by (induction i) (simp_all add: M_xor)

lemma M_pow_0: "(M ^^ i) 0 = 0"
  using M_pow_xor [of i 0 0] by simp

lemma mlt_pw_M: "elt y \<Longrightarrow> mlt (pw i) y = (M ^^ i) y"
proof (elim elt_cases)
  fix j assume "y = pw j"
  then show ?thesis by (simp add: mlt_pw) (simp add: pw_def funpow_add)
qed (simp add: M_pow_0)

lemma mlt_xor: "elt x \<Longrightarrow> elt y \<Longrightarrow> elt z \<Longrightarrow> mlt x (y XOR z) = mlt x y XOR mlt x z"
proof -
  assume "elt x" "elt y" "elt z"
  from this(1) show ?thesis
    by (cases rule: elt_cases) (use \<open>elt y\<close> \<open>elt z\<close> in \<open>simp_all add: mlt_pw_M elt_xor M_pow_xor\<close>)
qed

lemma mlt_xor_left: "elt x \<Longrightarrow> elt y \<Longrightarrow> elt z \<Longrightarrow> mlt (y XOR z) x = mlt y x XOR mlt z x"
proof -
  assume el: "elt x" "elt y" "elt z"
  have "mlt (y XOR z) x = mlt x (y XOR z)" by (intro mlt_comm elt_xor el)
  also have "\<dots> = mlt x y XOR mlt x z" by (intro mlt_xor el)
  also have "mlt x y = mlt y x" by (intro mlt_comm el)
  also have "mlt x z = mlt z x" by (intro mlt_comm el)
  finally show ?thesis .
qed

lemma pw_inj: "pw i = pw j \<Longrightarrow> i < n \<Longrightarrow> j < n \<Longrightarrow> i = j"
  by (metis mod_less pw_props(3))

lemma Mul_mlt: "elt x \<Longrightarrow> elt y \<Longrightarrow> Mul f x y = Inr (mlt x y)"
proof -
  assume el: "elt x" "elt y"
  show ?thesis
  proof (cases "x = 0 \<or> y = 0")
    case False
    then have "lg x + lg y < 2 * n"
      using lg_less [of x] lg_less [of y] el by simp
    with False el show ?thesis
      by (simp add: Mul_def mlt_def lg_def len_log len_exp elt_def index_res_def)
  qed (auto simp: Mul_def)
qed

lemma Exp_pw: "0 \<le> e \<Longrightarrow> Exp f e = Inr (pw (nat e))"
proof -
  assume "0 \<le> e"
  moreover have "nat e mod n < 2 * n" using n_pos by (simp add: trans_less_add1 mult_2)
  ultimately show ?thesis
    using n_pos by (simp add: Exp_def order_f len_exp index_res_def exp_pw pw_mod)
qed

lemma Inv_mlt: "elt x \<Longrightarrow> x \<noteq> 0 \<Longrightarrow> \<exists>y. Inv f x = Inr y \<and> elt y \<and> mlt x y = pw 0"
proof -
  assume x: "elt x" "x \<noteq> 0"
  then have lt: "lg x < n" by (rule lg_less [rotated])
  have "Inv f x = Inr (pw (n - lg x))"
    using x lt by (auto simp: Inv_def lg_def elt_def len_log len_exp order_f index_res_def exp_pw)
  moreover have "mlt x (pw (n - lg x)) = pw 0"
    using mlt_pw [of "lg x" "n - lg x"] x lt pw_add_n [of 0] by (simp add: pw_lg)
  ultimately show ?thesis by (simp add: pw_props)
qed

lemma syndrome_step:
  "0 \<le> e \<Longrightarrow> elt s \<Longrightarrow>
     bind_res (Exp f e) (\<lambda>p. bind_res (Mul f s p) (\<lambda>t. Inr (t XOR v))) =
     Inr (mlt s (pw (nat e)) XOR v)"
  by (simp add: Exp_pw Mul_mlt pw_props)

text \<open>A message read as a polynomial, first symbol the highest coefficient, evaluated at the
  power \<open>pw e\<close> of the generator.\<close>

primrec ev :: "nat \<Rightarrow> u8 list \<Rightarrow> u8" where
  "ev e [] = 0"
| "ev e (v # vs) = mlt v (pw (e * length vs)) XOR ev e vs"

lemma ev_elt: "list_all elt vs \<Longrightarrow> elt (ev e vs)"
  by (induction vs) (simp_all add: elt_xor mlt_elt pw_props)

lemma horner_fold:
  assumes "0 \<le> e"
  shows "elt s \<Longrightarrow> list_all elt vs \<Longrightarrow>
     fold_res (\<lambda>syn v. bind_res (Exp f e) (\<lambda>p. bind_res (Mul f syn p) (\<lambda>t. Inr (t XOR v)))) s vs =
     Inr (mlt s (pw (nat e * length vs)) XOR ev (nat e) vs)"
proof (induction vs arbitrary: s)
  case Nil
  have "mlt s (pw 0) = s"
    using Nil(1) by (cases rule: elt_cases) (simp_all add: mlt_pw)
  then show ?case by simp
next
  case (Cons v vs)
  let ?s = "mlt s (pw (nat e)) XOR v" and ?k = "nat e * length vs"
  have s: "elt ?s" using Cons.prems by (simp add: elt_xor mlt_elt pw_props)
  have "mlt ?s (pw ?k) = mlt (mlt s (pw (nat e))) (pw ?k) XOR mlt v (pw ?k)"
    using Cons.prems by (simp add: mlt_xor_left mlt_elt pw_props)
  also have "mlt (mlt s (pw (nat e))) (pw ?k) = mlt s (pw (nat e * length (v # vs)))"
    using Cons.prems by (simp add: mlt_assoc pw_props mlt_pw)
  finally show ?case
    using Cons s assms by (simp add: syndrome_step xor.assoc)
qed

lemma syndrome_at_ev:
  "0 \<le> e \<Longrightarrow> list_all elt msg \<Longrightarrow> msg \<noteq> [] \<Longrightarrow> syndrome_at f msg e = Inr (ev (nat e) msg)"
  by (cases msg) (simp_all add: syndrome_at_def horner_fold)

lemma Syndrome_ev:
  assumes "0 \<le> offset" "offset \<le> int n" "k \<le> length msg" "list_all elt msg"
  shows "Syndrome f msg (int k) offset = Inr (map (\<lambda>i. ev (nat offset + i) msg) [0..<k])"
proof -
  have "fold_res (\<lambda>acc idx. bind_res (syndrome_at f msg (offset + int idx)) (\<lambda>s. Inr (acc @ [s])))
      acc js = Inr (acc @ map (\<lambda>i. ev (nat offset + i) msg) js)"
    if "\<forall>j\<in>set js. j < k" for acc js
    using that
  proof (induction js arbitrary: acc)
    case (Cons j js)
    then have "msg \<noteq> []" using assms(3) by auto
    with Cons assms show ?case by (simp add: syndrome_at_ev nat_add_distrib)
  qed simp
  from this [of "[0..<k]" "[]"] show ?thesis
    using assms by (simp add: Syndrome_def order_f)
qed

section \<open>Minimum distance\<close>

text \<open>A sparse polynomial: pairs of a coefficient and a degree.\<close>

primrec sv :: "nat \<Rightarrow> (u8 \<times> nat) list \<Rightarrow> u8" where
  "sv e [] = 0"
| "sv e (p # ps) = mlt (fst p) (pw (e * snd p)) XOR sv e ps"

lemma sv_elt: "\<forall>p\<in>set ps. elt (fst p) \<Longrightarrow> elt (sv e ps)"
  by (induction ps) (simp_all add: elt_xor mlt_elt pw_props)

lemma sv_eliminate:
  "\<forall>p\<in>set ps. elt (fst p) \<Longrightarrow>
     sv e (map (\<lambda>p. (mlt (fst p) (pw (snd p) XOR pw k), snd p)) ps) = sv (Suc e) ps XOR mlt (pw k) (sv e ps)"
proof (induction ps)
  case (Cons p ps)
  obtain c d where p: "p = (c, d)" by force
  with Cons.prems have c: "elt c" and ps: "elt (sv e ps)" by (simp_all add: sv_elt)
  note el = c ps pw_props(2) mlt_elt elt_xor
  have "mlt (mlt c (pw d XOR pw k)) (pw (e * d)) =
      mlt c (mlt (pw d) (pw (e * d)) XOR mlt (pw k) (pw (e * d)))"
    by (simp add: mlt_assoc mlt_xor_left el)
  also have "\<dots> = mlt c (pw (Suc e * d)) XOR mlt (pw k) (mlt c (pw (e * d)))"
    by (simp add: mlt_xor mlt_pw el mlt_assoc [symmetric] mlt_comm [of "pw k" c])
      (simp add: mlt_assoc mlt_pw el)
  finally show ?case
    using Cons p by (simp add: mlt_xor el ac_simps)
qed simp

lemma sv_zero_imp_coeffs_zero:
  "distinct (map snd ps) \<Longrightarrow> \<forall>p\<in>set ps. elt (fst p) \<and> snd p < n \<Longrightarrow>
     \<forall>j < length ps. sv (m + j) ps = 0 \<Longrightarrow> \<forall>p\<in>set ps. fst p = 0"
proof (induction "length ps" arbitrary: ps rule: less_induct)
  case less
  show ?case
  proof (cases ps)
    case (Cons p0 qs)
    let ?k = "snd p0"
    let ?qs = "map (\<lambda>p. (mlt (fst p) (pw (snd p) XOR pw ?k), snd p)) qs"
    have el: "\<forall>p\<in>set ps. elt (fst p)" using less.prems(2) by simp
    have zero: "sv (m + j) (map (\<lambda>p. (mlt (fst p) (pw (snd p) XOR pw ?k), snd p)) ps) = 0"
      if "Suc j < length ps" for j
      using less.prems(3) that unfolding sv_eliminate [OF el] by (simp flip: add_Suc_right)
    have "\<forall>p\<in>set ?qs. fst p = 0"
    proof (rule less.hyps)
      show "distinct (map snd ?qs)" using less.prems(1) Cons by (simp add: comp_def)
      show "\<forall>p\<in>set ?qs. elt (fst p) \<and> snd p < n"
        using less.prems(2) Cons by (auto simp: mlt_elt elt_xor pw_props)
      show "\<forall>j<length ?qs. sv (m + j) ?qs = 0"
        using zero Cons by simp
    qed (use Cons in simp)
    moreover have "pw (snd p) XOR pw ?k \<noteq> 0" if "p \<in> set qs" for p
    proof
      assume "pw (snd p) XOR pw ?k = 0"
      then have "pw (snd p) = pw ?k" by (metis xor_cancel_left xor.right_neutral xor.commute)
      then have "snd p = ?k" using less.prems(2) Cons that by (intro pw_inj) auto
      then show False using less.prems(1) Cons that by (auto simp: rev_image_eqI)
    qed
    ultimately have qs: "\<forall>p\<in>set qs. fst p = 0"
      using el Cons by (auto simp: mlt_eq_0 elt_xor pw_props)
    then have "sv e qs = 0" for e
      by (induction qs) simp_all
    then have "mlt (fst p0) (pw (m * ?k)) = 0"
      using less.prems(3) Cons by force
    then have "fst p0 = 0" using el Cons by (simp add: mlt_eq_0 pw_props)
    with qs Cons show ?thesis by simp
  qed simp
qed

text \<open>The non-zero coefficients of a message, with their degrees.\<close>

primrec terms :: "u8 list \<Rightarrow> (u8 \<times> nat) list" where
  "terms [] = []"
| "terms (v # vs) = (if v = 0 then terms vs else (v, length vs) # terms vs)"

lemma sv_terms: "sv e (terms vs) = ev e vs"
  by (induction vs) simp_all

lemma terms_degree: "p \<in> set (terms vs) \<Longrightarrow> snd p < length vs"
  by (induction vs) (auto split: if_splits intro: less_SucI)

lemma terms_props:
  "distinct (map snd (terms vs))" "list_all elt vs \<Longrightarrow> p \<in> set (terms vs) \<Longrightarrow> elt (fst p) \<and> fst p \<noteq> 0"
  "length (terms vs) = length (filter (\<lambda>v. v \<noteq> 0) vs)"
  by (induction vs) (auto dest: terms_degree split: if_splits)

lemma ev_map2_xor:
  "length xs = length ys \<Longrightarrow> list_all elt xs \<Longrightarrow> list_all elt ys \<Longrightarrow>
     ev e (map2 (XOR) xs ys) = ev e xs XOR ev e ys"
  by (induction xs ys rule: list_induct2) (simp_all add: mlt_xor_left pw_props ac_simps)

lemma low_weight_detected:
  assumes "list_all elt d" "length d \<le> n" "d \<noteq> replicate (length d) 0"
    and "length (filter (\<lambda>v. v \<noteq> 0) d) \<le> k"
  shows "\<exists>j<k. ev (m + j) d \<noteq> 0"
proof (rule ccontr)
  assume "\<not> ?thesis"
  then have "\<forall>j < length (terms d). sv (m + j) (terms d) = 0"
    using assms(4) by (simp add: sv_terms terms_props(3))
  moreover have "\<forall>p\<in>set (terms d). elt (fst p) \<and> snd p < n"
    using assms(1,2) terms_props(2) terms_degree by (metis le_trans less_le_trans)
  ultimately have "\<forall>p\<in>set (terms d). fst p = 0"
    by (intro sv_zero_imp_coeffs_zero terms_props(1))
  then have "terms d = []" using terms_props(2) [OF assms(1)] by (metis last_in_set)
  then have "length (filter (\<lambda>v. v \<noteq> 0) d) = 0" by (metis list.size(3) terms_props(3))
  then have "\<forall>v\<in>set d. v = 0" by (simp add: filter_empty_conv)
  then have "d = replicate (length d) 0" by (metis replicate_length_same)
  with assms(3) show False by simp
qed

end

section \<open>Every constructed field\<close>

lemma fold_res_unit_all:
  "fold_res f () xs = Inr () \<longleftrightarrow> (\<forall>x\<in>set xs. f () x = Inr ())"
  by (induction xs) (auto simp: bind_res_eq_Inr)

lemma fill_step_shape:
  "fill_step ord poly \<alpha> (x, f) i = Inr (x', f') \<Longrightarrow>
     order f' = order f \<and> length (log f') = length (log f) \<and> length (exp f') = length (exp f)"
  by (auto simp: fill_step_def split: if_splits)

lemma fill_shape:
  "fold_res (fill_step ord poly \<alpha>) (x, f) is = Inr (x', f') \<Longrightarrow>
     order f' = order f \<and> length (log f') = length (log f) \<and> length (exp f') = length (exp f)"
proof (induction "is" arbitrary: x f)
  case (Cons i "is")
  then obtain y g where "fill_step ord poly \<alpha> (x, f) i = Inr (y, g)"
      and "fold_res (fill_step ord poly \<alpha>) (y, g) is = Inr (x', f')"
    by (auto simp: bind_res_eq_Inr)
  with Cons.IH fill_step_shape show ?case by metis
qed simp

definition tables_inverse :: "Field \<Rightarrow> nat \<Rightarrow> bool" where
  "tables_inverse f n \<longleftrightarrow>
     order f = n \<and> length (log f) = Suc n \<and> length (exp f) = 2 * n \<and>
     (\<forall>i<n. log f ! unat (exp f ! i) = of_nat i \<and> log f ! unat (exp f ! (i + n)) = of_nat i) \<and>
     (\<forall>i. 1 \<le> i \<and> i \<le> n \<longrightarrow> exp f ! unat (log f ! i) = of_nat i)"

lemma NewField_tables:
  assumes "NewField ord poly \<alpha> = Inr f"
  shows "1 \<le> ord \<and> tables_inverse f (nat ord - 1)"
proof -
  let ?n = "nat ord - 1"
  let ?f0 = "\<lparr>order = ?n, log = replicate (nat ord) 0, exp = replicate (2 * ?n) 0\<rparr>"
  have guards: "0 \<le> ord" "ord \<le> poly" "poly < 2 * ord"
    using assms by (auto simp: NewField_def split: if_splits)
  then have ord: "1 \<le> ord" by simp
  obtain x g where fill: "fold_res (fill_step ord poly \<alpha>) (1, ?f0) [0..<?n] = Inr (x, g)"
    and f: "f = g\<lparr>log := (log g)[0 := of_nat ?n]\<rparr>"
    and ce: "fold_res (check_exp f) () [0..<?n] = Inr ()"
    and cl: "fold_res (check_log f) () [1..<nat ord] = Inr ()"
    using assms by (auto simp: NewField_def Let_def bind_res_eq_Inr split: if_splits)
  have shape: "order f = ?n" "length (log f) = Suc ?n" "length (exp f) = 2 * ?n"
    using fill_shape [OF fill] ord by (simp_all add: f Suc_nat_eq_nat_zadd1)
  have "log f ! unat (exp f ! i) = of_nat i \<and> log f ! unat (exp f ! (i + ?n)) = of_nat i" if "i < ?n" for i
  proof -
    have "check_exp f () i = Inr ()" using ce that by (simp add: fold_res_unit_all)
    then show ?thesis
      by (auto simp: check_exp_def bind_res_eq_Inr index_res_def shape split: if_splits)
  qed
  moreover have "exp f ! unat (log f ! i) = of_nat i" if "1 \<le> i" "i \<le> ?n" for i
  proof -
    have "check_log f () i = Inr ()" using cl that ord by (simp add: fold_res_unit_all)
    then show ?thesis
      by (auto simp: check_log_def bind_res_eq_Inr index_res_def split: if_splits)
  qed
  ultimately show ?thesis using ord shape by (simp add: tables_inverse_def)
qed

section \<open>The field of the R900 parser\<close>

text \<open>The tables that \<open>NewField(32, 37, 2)\<close> builds.\<close>

definition gf32 :: Field where
  "gf32 = \<lparr>order = 31,
     log = [31, 0, 1, 18, 2, 5, 19, 11, 3, 29, 6, 27, 20, 8, 12, 23, 4, 10, 30, 17, 7,
            22, 28, 26, 21, 25, 9, 16, 13, 14, 24, 15],
     exp = [1, 2, 4, 8, 16, 5, 10, 20, 13, 26, 17, 7, 14, 28, 29, 31, 27, 19, 3, 6, 12, 24,
            21, 15, 30, 25, 23, 11, 22, 9, 18, 1, 2, 4, 8, 16, 5, 10, 20, 13, 26, 17, 7, 14,
            28, 29, 31, 27, 19, 3, 6, 12, 24, 21, 15, 30, 25, 23, 11, 22, 9, 18]\<rparr>"

lemma NewField_gf32: "NewField 32 37 2 = Inr gf32"
  by code_simp

definition times2 :: "u8 \<Rightarrow> u8" where
  "times2 x = of_int (mul (uint x) 2 32 37)"

lemma times2_xor: "times2 (x XOR y) = times2 x XOR times2 y"
proof -
  have "mul (uint (x XOR y)) 2 32 37 = mul (uint x) 2 32 37 XOR mul (uint y) 2 32 37"
    by (simp add: unsigned_xor_eq mul_xor)
  then show ?thesis by (simp add: times2_def of_int_xor_eq)
qed

lemma gf32_exp_steps: "list_all (\<lambda>i. exp gf32 ! Suc i = times2 (exp gf32 ! i)) [0..<61]"
  by code_simp

lemma gf32_exp_powers: "i < 62 \<Longrightarrow> exp gf32 ! i = (times2 ^^ i) 1"
proof (induction i)
  case 0
  then show ?case by (simp add: gf32_def)
next
  case (Suc i)
  with gf32_exp_steps have "exp gf32 ! Suc i = times2 (exp gf32 ! i)" by (simp add: list_all_iff)
  with Suc show ?case by simp
qed

lemma gf32_exp_elts:
  "list_all (\<lambda>i. exp gf32 ! i \<noteq> 0 \<and> unat (exp gf32 ! i) \<le> 31 \<and>
     unat (log gf32 ! unat (exp gf32 ! i)) = i) [0..<31]"
  by code_simp

lemma gf32_log_elts:
  "list_all (\<lambda>i. unat (log gf32 ! i) < 31 \<and> exp gf32 ! unat (log gf32 ! i) = of_nat i) [1..<32]"
  by code_simp

lemma gf32_shape: "order gf32 = 31" "length (log gf32) = 32" "length (exp gf32) = 62"
  by (simp_all add: gf32_def)

lemma xor_le_31: "unat x \<le> 31 \<Longrightarrow> unat y \<le> 31 \<Longrightarrow> unat (x XOR y) \<le> 31" for x y :: u8
proof -
  assume "unat x \<le> 31" "unat y \<le> 31"
  then have "take_bit 5 (unat x) = unat x" "take_bit 5 (unat y) = unat y"
    by (simp_all add: take_bit_nat_eq_self_iff)
  then have "take_bit 5 (unat (x XOR y)) = unat (x XOR y)"
    by (simp add: unsigned_xor_eq)
  then have "unat (x XOR y) < 2 ^ 5" by (simp only: take_bit_nat_eq_self_iff)
  then show ?thesis by simp
qed

interpretation gf32: gf_tables gf32 times2 31
proof unfold_locales
  fix i :: nat assume "i < 2 * 31"
  then show "exp gf32 ! i = (times2 ^^ i) 1"
    by (simp add: gf32_exp_powers)
next
  have "exp gf32 ! 31 = (times2 ^^ 31) 1"
    by (rule gf32_exp_powers) simp
  then show "(times2 ^^ 31) 1 = 1" by (simp add: gf32_def)
next
  fix i :: nat assume "i < 31"
  then show "exp gf32 ! i \<noteq> 0 \<and> unat (exp gf32 ! i) \<le> 31"
    and "unat (log gf32 ! unat (exp gf32 ! i)) = i"
    using gf32_exp_elts by (simp_all add: list_all_iff)
next
  fix x :: u8 assume x: "x \<noteq> 0" "unat x \<le> 31"
  then have "unat x \<in> set [1..<32]" using unat_gt_0 [of x] by auto
  with gf32_log_elts have "unat (log gf32 ! unat x) < 31 \<and>
      exp gf32 ! unat (log gf32 ! unat x) = of_nat (unat x)"
    by (simp only: list_all_iff)
  then show "unat (log gf32 ! unat x) < 31 \<and> exp gf32 ! unat (log gf32 ! unat x) = x"
    by simp
qed (simp_all add: gf32_shape times2_xor xor_le_31)

lemma gf32_Mul_is_mul:
  "list_all (\<lambda>x. list_all (\<lambda>y. Mul gf32 (of_nat x) (of_nat y) =
     Inr (of_int (mul (int x) (int y) 32 37))) [0..<32]) [0..<32]"
  by code_simp

section \<open>Properties\<close>



text \<open>C14: in the field \<open>NewField(32, 37, 2)\<close> of the R900 parser the table-driven
  \<open>Mul\<close> never panics on five-bit symbols, agrees with shift-and-reduce multiplication
  \<open>mul\<close> modulo the field polynomial, is commutative, associative and distributes over
  \<open>Add\<close>, and \<open>Inv\<close> returns the multiplicative inverse.\<close>

theorem r900_field_laws:
  assumes "NewField 32 37 2 = Inr f" and "unat x < 32" "unat y < 32" "unat z < 32"
  shows "\<exists>xy yz xz. Mul f x y = Inr xy \<and> Mul f y z = Inr yz \<and> Mul f x z = Inr xz \<and>
    xy = of_int (mul (uint x) (uint y) 32 37) \<and>
    unat xy < 32 \<and> Mul f y x = Inr xy \<and>
    Mul f xy z = Mul f x yz \<and>
    Mul f x (Add y z) = Inr (Add xy xz) \<and>
    (x \<noteq> 0 \<longrightarrow> (\<exists>i. Inv f x = Inr i \<and> Mul f x i = Inr 1))"
proof -
  have f: "f = gf32" using assms(1) by (simp add: NewField_gf32)
  have el: "gf32.elt x" "gf32.elt y" "gf32.elt z" using assms(2-4) by (auto simp: gf32.elt_def)
  note laws = gf32.Mul_mlt gf32.mlt_elt gf32.elt_xor
  have "Mul gf32 (of_nat (unat x)) (of_nat (unat y)) =
      Inr (of_int (mul (int (unat x)) (int (unat y)) 32 37))"
    using gf32_Mul_is_mul [unfolded list_all_iff, THEN bspec, THEN bspec, of "unat x" "unat y"] assms(2,3)
    by auto
  then have ref: "gf32.mlt x y = of_int (mul (uint x) (uint y) 32 37)"
    using el by (simp add: laws)
  have inv: "\<exists>i. Inv gf32 x = Inr i \<and> Mul gf32 x i = Inr 1" if "x \<noteq> 0"
    using gf32.Inv_mlt [OF el(1) that] el by (auto simp: laws gf32.pw_def)
  have mm: "Mul gf32 x y = Inr (gf32.mlt x y)" "Mul gf32 y z = Inr (gf32.mlt y z)"
    "Mul gf32 x z = Inr (gf32.mlt x z)" "Mul gf32 y x = Inr (gf32.mlt x y)"
    using el gf32.mlt_comm [OF el(2) el(1)] by (simp_all add: laws)
  have as: "Mul gf32 (gf32.mlt x y) z = Mul gf32 x (gf32.mlt y z)"
    using el by (simp add: laws gf32.mlt_assoc)
  have di: "Mul gf32 x (y XOR z) = Inr (gf32.mlt x y XOR gf32.mlt x z)"
    using el by (simp add: laws gf32.mlt_xor)
  have lt: "unat (gf32.mlt x y) < 32"
    using gf32.mlt_elt [OF el(1,2)] by (simp add: gf32.elt_def)
  show ?thesis
    unfolding f Add_def using mm as di lt inv ref by metis
qed

theorem r900_field_laws_witness:
  "\<exists>f xy. NewField 32 37 2 = Inr f \<and> Mul f 7 19 = Inr xy \<and> xy = of_int (mul 7 19 32 37)"
  using r900_field_laws [OF NewField_gf32, of 7 19 1] NewField_gf32 by auto

text \<open>C15: the five syndromes from offset 29 give the R900 code distance at least six: a
  31-symbol word that differs from an accepted one in at least one and at most five positions
  has a non-zero syndrome, so it is never accepted.\<close>

theorem syndrome_detects_five_errors:
  assumes "NewField 32 37 2 = Inr f"
    and "length a = 31" "length b = 31" "list_all (\<lambda>v. unat v < 32) a" "list_all (\<lambda>v. unat v < 32) b"
    and "a \<noteq> b" "length (filter (\<lambda>(u, v). u \<noteq> v) (zip a b)) \<le> 5"
    and "Syndrome f a 5 29 = Inr (replicate 5 0)"
  shows "\<exists>s. Syndrome f b 5 29 = Inr s \<and> s \<noteq> replicate 5 0"
proof -
  have f: "f = gf32" using assms(1) by (simp add: NewField_gf32)
  let ?d = "map2 (XOR) a b"
  have el: "list_all gf32.elt a" "list_all gf32.elt b"
    using assms(4,5) by (auto simp: gf32.elt_def list_all_iff)
  have syn: "Syndrome gf32 m 5 29 = Inr (map (\<lambda>i. gf32.ev (29 + i) m) [0..<5])"
    if "list_all gf32.elt m" "length m = 31" for m
    using gf32.Syndrome_ev [of 29 5 m] that by simp
  have "filter (\<lambda>v. v \<noteq> 0) ?d = map (\<lambda>(u, v). u XOR v) (filter (\<lambda>(u, v). u \<noteq> v) (zip a b))"
    by (auto simp: filter_map comp_def xor_eq_0_iff intro!: arg_cong2 [of _ _ _ _ map] filter_cong)
  then have "length (filter (\<lambda>v. v \<noteq> 0) ?d) \<le> 5" using assms(7) by simp
  moreover have "list_all gf32.elt ?d"
    using el by (auto simp: list_all_iff intro!: gf32.elt_xor dest: set_zip_leftD set_zip_rightD)
  moreover have "?d \<noteq> replicate (length ?d) 0"
  proof
    assume z: "?d = replicate (length ?d) 0"
    have "a ! i = b ! i" if "i < 31" for i
    proof -
      have "?d ! i = 0" by (subst z) (use that assms(2,3) in simp)
      then show ?thesis using that assms(2,3) by (simp add: xor_eq_0_iff)
    qed
    then have "a = b" using assms(2,3) by (intro nth_equalityI) simp_all
    with assms(6) show False ..
  qed
  ultimately obtain j where j: "j < 5" "gf32.ev (29 + j) ?d \<noteq> 0"
    using gf32.low_weight_detected [of ?d 5 29] assms(2,3) by auto
  have "gf32.ev (29 + j) a = 0"
  proof -
    have "map (\<lambda>i. gf32.ev (29 + i) a) [0..<5] ! j = replicate 5 0 ! j"
      using assms(8) syn [OF el(1) assms(2)] f by simp
    with j show ?thesis by simp
  qed
  with j have "gf32.ev (29 + j) b \<noteq> 0"
    using gf32.ev_map2_xor [of a b "29 + j"] el assms(2,3) by simp
  then have "map (\<lambda>i. gf32.ev (29 + i) b) [0..<5] ! j \<noteq> replicate 5 0 ! j" using j by simp
  then show ?thesis using syn [OF el(2) assms(3)] f by (intro exI) auto
qed

theorem syndrome_detects_five_errors_witness:
  "\<exists>s. Syndrome gf32 (replicate 30 0 @ [9]) 5 29 = Inr s \<and> s \<noteq> replicate 5 0"
proof (rule syndrome_detects_five_errors [of gf32 "replicate 31 0"])
  show "Syndrome gf32 (replicate 31 0) 5 29 = Inr (replicate 5 0)" by code_simp
  show "list_all (\<lambda>v. unat v < 32) (replicate 31 (0 :: u8))"
    and "list_all (\<lambda>v. unat v < 32) (replicate 30 (0 :: u8) @ [9])"
    and "replicate 31 (0 :: u8) \<noteq> replicate 30 0 @ [9]"
    and "length (filter (\<lambda>(u, v). u \<noteq> v) (zip (replicate 31 (0 :: u8)) (replicate 30 0 @ [9]))) \<le> 5"
    by code_simp+
qed (simp_all add: NewField_gf32)

end
