(* ===== verification/Packet.thy ===== *)
theory Packet
  imports Crc
begin

text \<open>
  What the protocol parsers share: \<open>PacketConfig\<close> and \<open>Data\<close> of
  \<^verbatim>\<open>src/protocol\<close>, the packet projections built by \<open>newData\<close>, the parts of
  Go's \<^verbatim>\<open>strconv\<close> the parsers call, and the deduplicating packet loop that every
  byte-oriented parser runs, stated as an interface and verified once.
\<close>

section \<open>Packet data\<close>

record PacketConfig =
  Protocol :: string
  Preamble :: string
  DataRate :: nat
  BlockSize :: nat
  BlockSize2 :: nat
  ChipLength :: nat
  SymbolLength :: nat
  SampleRate :: nat
  PreambleSymbols :: nat
  PacketSymbols :: nat
  PreambleLength :: nat
  PacketLength :: nat
  BufferLength :: nat
  CenterFreq :: nat

definition zeroPacketConfig :: PacketConfig where
  "zeroPacketConfig = \<lparr>Protocol = [], Preamble = [], DataRate = 0, BlockSize = 0, BlockSize2 = 0,
     ChipLength = 0, SymbolLength = 0, SampleRate = 0, PreambleSymbols = 0, PacketSymbols = 0,
     PreambleLength = 0, PacketLength = 0, BufferLength = 0, CenterFreq = 0\<rparr>"

record Data =
  Idx :: nat
  Bits :: string
  Bytes :: "u8 list"

text \<open>The inner loop of \<open>newData\<close> writes \<^verbatim>\<open>'0' + (b>>(shift-1))&1\<close> for
  \<open>shift\<close> from 8 down to 1.\<close>

definition bit_char :: "u8 \<Rightarrow> nat \<Rightarrow> char" where
  "bit_char b k = (if drop_bit k b AND 1 = 0 then CHR ''0'' else CHR ''1'')"

definition byte_chars :: "u8 \<Rightarrow> string" where
  "byte_chars b = map (\<lambda>shift. bit_char b (shift - 1)) (rev [1..<9])"

definition newData :: "u8 list \<Rightarrow> bool \<Rightarrow> Data" where
  "newData data includeBits =
     \<lparr>Idx = 0, Bits = (if includeBits then concat (map byte_chars data) else []), Bytes = data\<rparr>"

definition NewData :: "u8 list \<Rightarrow> Data" where
  "NewData data = newData data True"

text \<open>The struct \<open>Parser\<close> of the packages \<open>scm\<close>, \<open>scmplus\<close>, \<open>idm\<close> and
  \<open>netidm\<close>. The first field is the embedded \<open>CRC\<close>; the bytes of \<open>data\<close> are the
  packet buffer that successive calls of \<open>Parse\<close> overwrite.\<close>

record Parser =
  pcrc :: CRC
  pcfg :: PacketConfig
  pdata :: Data

section \<open>strconv\<close>

definition digit_val :: "char \<Rightarrow> nat option" where
  "digit_val c =
     (let n = of_char c in
      if 48 \<le> n \<and> n \<le> 57 then Some (n - 48)
      else if 97 \<le> n \<and> n \<le> 122 then Some (n - 97 + 10)
      else if 65 \<le> n \<and> n \<le> 90 then Some (n - 65 + 10)
      else None)"

text \<open>The first result of \<^verbatim>\<open>strconv.ParseUint(s, base, bitSize)\<close>, whose error the
  sources ignore: \<open>0\<close> on a syntax error, the largest value of the size when out of range.\<close>

fun ParseUint_loop :: "nat \<Rightarrow> nat \<Rightarrow> nat \<Rightarrow> string \<Rightarrow> nat" where
  "ParseUint_loop base maxVal n [] = n"
| "ParseUint_loop base maxVal n (c # s) =
     (case digit_val c of
        None \<Rightarrow> 0
      | Some d \<Rightarrow>
          if d \<ge> base then 0
          else if n * base + d > maxVal then maxVal
          else ParseUint_loop base maxVal (n * base + d) s)"

definition ParseUint :: "string \<Rightarrow> nat \<Rightarrow> nat \<Rightarrow> nat" where
  "ParseUint s base bitSize = ParseUint_loop base (2 ^ bitSize - 1) 0 s"

text \<open>Both results of \<^verbatim>\<open>ParseUint\<close>, for the callers that look at the error.\<close>

fun ParseUint_err_loop :: "nat \<Rightarrow> nat \<Rightarrow> nat \<Rightarrow> string \<Rightarrow> nat res" where
  "ParseUint_err_loop base maxVal n [] = Inr n"
| "ParseUint_err_loop base maxVal n (c # s) =
     (case digit_val c of
        None \<Rightarrow> Inl (Err ''invalid syntax'')
      | Some d \<Rightarrow>
          if d \<ge> base then Inl (Err ''invalid syntax'')
          else if n * base + d > maxVal then Inl (Err ''value out of range'')
          else ParseUint_err_loop base maxVal (n * base + d) s)"

definition ParseUint_err :: "string \<Rightarrow> nat \<Rightarrow> nat \<Rightarrow> nat res" where
  "ParseUint_err s base bitSize =
     (if s = [] then Inl (Err ''invalid syntax'') else ParseUint_err_loop base (2 ^ bitSize - 1) 0 s)"

definition digit_char :: "nat \<Rightarrow> char" where
  "digit_char d = char_of (if d < 10 then 48 + d else 97 + d - 10)"

text \<open>\<^verbatim>\<open>strconv.FormatUint(n, base)\<close>, for \<open>base \<ge> 2\<close>.\<close>

function FormatUint :: "nat \<Rightarrow> nat \<Rightarrow> string" where
  "FormatUint n base =
     (if base < 2 \<or> n < base then [digit_char n]
      else FormatUint (n div base) base @ [digit_char (n mod base)])"
  by pat_completeness auto
termination
  by (relation "measure fst") auto

declare FormatUint.simps [simp del]

text \<open>The \<^verbatim>\<open>fmt\<close> verbs of the CSV records: \<open>%d\<close>, and \<open>%0wX\<close> (upper
  case hexadecimal, padded with zeros to width \<open>w\<close>), which on a byte slice prints two digits
  per byte.\<close>

definition upper_digit :: "nat \<Rightarrow> char" where
  "upper_digit d = char_of (if d < 10 then 48 + d else 65 + d - 10)"

function FormatHexUpper :: "nat \<Rightarrow> string" where
  "FormatHexUpper n =
     (if n < 16 then [upper_digit n] else FormatHexUpper (n div 16) @ [upper_digit (n mod 16)])"
  by pat_completeness auto
termination
  by (relation "measure id") auto

declare FormatHexUpper.simps [simp del]

definition fmt_X :: "nat \<Rightarrow> nat \<Rightarrow> string" where
  "fmt_X w n = (let s = FormatHexUpper n in replicate (w - length s) CHR ''0'' @ s)"

definition fmt_d :: "nat \<Rightarrow> string" where
  "fmt_d n = FormatUint n 10"

text \<open>\<open>%wd\<close> pads with blanks on the left; the blank flag of \<open>% wd\<close> puts one in
  place of the sign first. An array of numbers prints in brackets.\<close>

definition fmt_pad :: "nat \<Rightarrow> string \<Rightarrow> string" where
  "fmt_pad w s = replicate (w - length s) CHR '' '' @ s"

definition fmt_wd :: "nat \<Rightarrow> nat \<Rightarrow> string" where
  "fmt_wd w n = fmt_pad w (fmt_d n)"

definition fmt_blank_wd :: "nat \<Rightarrow> nat \<Rightarrow> string" where
  "fmt_blank_wd w n = fmt_pad w (CHR '' '' # fmt_d n)"

fun join_with :: "string \<Rightarrow> string list \<Rightarrow> string" where
  "join_with sep [] = []"
| "join_with sep [s] = s"
| "join_with sep (s # t # ss) = s @ sep @ join_with sep (t # ss)"

definition fmt_array_d :: "nat list \<Rightarrow> string" where
  "fmt_array_d ns = ''['' @ join_with '' '' (map fmt_d ns) @ '']''"

definition fmt_bytes_X :: "u8 list \<Rightarrow> string" where
  "fmt_bytes_X bs = concat (map (\<lambda>b. fmt_X 2 (unat b)) bs)"

section \<open>Fixed-width big-endian bit fields\<close>

definition field_bits :: "nat \<Rightarrow> 'a::len word \<Rightarrow> bool list" where
  "field_bits k w = map (\<lambda>i. bit w (k - Suc i)) [0..<k]"

lemma length_field_bits [simp, len_simps]: "length (field_bits k w) = k"
  by (simp add: field_bits_def)

lemma bits_val_field_bits:
  assumes "unat w < 2 ^ k"
  shows "bits_val (field_bits k w) = unat w"
proof (rule bit_eqI)
  fix n
  show "bit (bits_val (field_bits k w)) n = bit (unat w) n"
  proof (cases "n < k")
    case True
    then have "k - Suc (k - Suc n) = n" "k - Suc n < k" by simp_all
    with True show ?thesis by (simp add: bit_bits_val field_bits_def bit_unsigned_iff)
  next
    case False
    have "take_bit k (unat w) = unat w" using assms by (simp add: take_bit_nat_eq_self_iff)
    then have "\<not> bit (unat w) n" using False by (metis bit_take_bit_iff)
    with False show ?thesis by (simp add: bit_bits_val)
  qed
qed

lemma field_bits_split:
  "i \<le> k \<Longrightarrow> field_bits k w = field_bits i (drop_bit (k - i) w) @ field_bits (k - i) w"
  by (rule nth_equalityI) (auto simp: field_bits_def nth_append bit_drop_bit_eq)

lemma byte_bits_field_bits: "byte_bits b = field_bits 8 b"
  by (simp add: byte_bits_def field_bits_def)

section \<open>Bit strings\<close>

definition chars_of_bits :: "bool list \<Rightarrow> string" where
  "chars_of_bits bs = map (\<lambda>b. if b then CHR ''1'' else CHR ''0'') bs"

lemma bit_char_bit: "bit_char b k = (if bit b k then CHR ''1'' else CHR ''0'')"
  by (auto simp: bit_char_def and_one_eq bit_iff_odd_drop_bit even_iff_mod_2_eq_zero)

lemma byte_chars_bits: "byte_chars b = chars_of_bits (byte_bits b)"
proof -
  have "rev [1..<9] = map (\<lambda>k. 8 - k) [0..<8 :: nat]" by code_simp
  then show ?thesis
    by (simp add: byte_chars_def chars_of_bits_def byte_bits_def bit_char_bit)
qed

lemma chars_of_bits_append [simp]: "chars_of_bits (xs @ ys) = chars_of_bits xs @ chars_of_bits ys"
  and length_chars_of_bits [simp, len_simps]: "length (chars_of_bits xs) = length xs"
  and chars_of_bits_Nil [simp]: "chars_of_bits [] = []"
  by (simp_all add: chars_of_bits_def)

lemma sub_chars_of_bits: "sub (chars_of_bits bs) i j = chars_of_bits (sub bs i j)"
  by (simp add: sub_def chars_of_bits_def take_map drop_map)

lemma newData_Bits: "Bits (newData data True) = chars_of_bits (bytes_bits data)"
  by (induction data) (simp_all add: newData_def byte_chars_bits)

lemma ParseUint_loop_bits:
  "n * 2 ^ length bs + bits_val bs \<le> maxVal \<Longrightarrow>
     ParseUint_loop 2 maxVal n (chars_of_bits bs) = n * 2 ^ length bs + bits_val bs"
proof (induction bs arbitrary: n)
  case Nil
  then show ?case by simp
next
  case (Cons b bs)
  have val: "bits_val (b # bs) = of_bool b * 2 ^ length bs + bits_val bs"
    using bits_val_append [of "[b]" bs] by (simp add: bits_val_def)
  have step: "(n * 2 + of_bool b) * 2 ^ length bs + bits_val bs = n * 2 ^ length (b # bs) + bits_val (b # bs)"
    by (simp add: val algebra_simps)
  have "n * 2 + of_bool b \<le> (n * 2 + of_bool b) * 2 ^ length bs" by simp
  also have "\<dots> \<le> maxVal" using Cons.prems step by simp
  finally have le: "n * 2 + of_bool b \<le> maxVal" .
  have d: "digit_val (if b then CHR ''1'' else CHR ''0'') = Some (of_bool b)"
    by (simp add: digit_val_def)
  have "ParseUint_loop 2 maxVal n (chars_of_bits (b # bs)) =
      ParseUint_loop 2 maxVal (n * 2 + of_bool b) (chars_of_bits bs)"
    using le d by (simp add: chars_of_bits_def)
  also have "\<dots> = (n * 2 + of_bool b) * 2 ^ length bs + bits_val bs"
    using Cons.IH Cons.prems step by simp
  finally show ?case using step by simp
qed

lemma ParseUint_bits: "length bs \<le> k \<Longrightarrow> ParseUint (chars_of_bits bs) 2 k = bits_val bs"
proof -
  assume "length bs \<le> k"
  then have "(2 :: nat) ^ length bs \<le> 2 ^ k" by simp
  with bits_val_less [of bs] have "bits_val bs < 2 ^ k" by (rule less_le_trans)
  then have "bits_val bs \<le> 2 ^ k - 1" by simp
  then show ?thesis
    using ParseUint_loop_bits [of 0 bs "2 ^ k - 1"] by (simp add: ParseUint_def)
qed

subsection \<open>Numerals read back\<close>

lemma digit_val_digit_char: "d < 36 \<Longrightarrow> digit_val (digit_char d) = Some d"
  by (auto simp: digit_val_def digit_char_def)

lemma ParseUint_err_loop_append:
  "ParseUint_err_loop base m n (s @ t) =
     bind_res (ParseUint_err_loop base m n s) (\<lambda>k. ParseUint_err_loop base m k t)"
  by (induction s arbitrary: n) (auto split: option.splits)

lemma ParseUint_err_loop_FormatUint:
  assumes base: "2 \<le> base" "base \<le> 36"
  shows "n \<le> m \<Longrightarrow> ParseUint_err_loop base m 0 (FormatUint n base) = Inr n"
proof (induction n rule: less_induct)
  case (less n)
  show ?case
  proof (cases "n < base")
    case True
    with less.prems base show ?thesis
      by (subst FormatUint.simps) (simp add: digit_val_digit_char)
  next
    case False
    with base have "n div base < n" by simp
    moreover have "n div base \<le> m" using less.prems by (meson div_le_dividend le_trans)
    ultimately have "ParseUint_err_loop base m 0 (FormatUint (n div base) base) = Inr (n div base)"
      by (rule less.IH)
    moreover have lt: "n mod base < base" using base by simp
    then have "\<not> base \<le> n mod base" "n mod base < 36" using base(2) by linarith+
    ultimately show ?thesis using \<open>\<not> base \<le> n mod base\<close> \<open>n mod base < 36\<close> False less.prems base
      by (subst FormatUint.simps) (simp add: ParseUint_err_loop_append digit_val_digit_char)
  qed
qed

lemma FormatUint_nonempty [simp]: "FormatUint n base \<noteq> []"
  by (subst FormatUint.simps) simp

lemma ParseUint_err_FormatUint:
  "2 \<le> base \<Longrightarrow> base \<le> 36 \<Longrightarrow> n < 2 ^ k \<Longrightarrow> ParseUint_err (FormatUint n base) base k = Inr n"
  by (simp add: ParseUint_err_def ParseUint_err_loop_FormatUint)

lemma ParseUint_loop_err:
  "ParseUint_err_loop base m n s = Inr v \<Longrightarrow> ParseUint_loop base m n s = v"
  by (induction s arbitrary: n) (auto split: option.splits if_splits)

lemma FormatUint_inject: "2 \<le> base \<Longrightarrow> base \<le> 36 \<Longrightarrow> FormatUint n base = FormatUint k base \<longleftrightarrow> n = k"
  by (metis ParseUint_err_loop_FormatUint le_add1 le_add2 sum.inject(2))

subsection \<open>Runs of equally wide fields\<close>

text \<open>The loop over the differential intervals in \<open>NewIDM\<close> and \<open>NewNetIDM\<close>: from
  \<open>offset\<close> on, \<open>n\<close> fields of \<open>width\<close> bits each.\<close>

fun bit_intervals :: "string \<Rightarrow> nat \<Rightarrow> nat \<Rightarrow> nat \<Rightarrow> u16 list res" where
  "bit_intervals bits width offset 0 = Inr []"
| "bit_intervals bits width offset (Suc n) =
     bind_res (slice_res bits offset (offset + width)) (\<lambda>s.
     bind_res (bit_intervals bits width (offset + width) n) (\<lambda>rest.
     Inr (of_nat (ParseUint s 2 width) # rest)))"

subsection \<open>Packets that carry their bit projection\<close>

definition projected :: "Data \<Rightarrow> bool" where
  "projected pkt \<longleftrightarrow> Bits pkt = Bits (newData (Bytes pkt) True)"

text \<open>The integer in the bits \<open>i\<close> to \<open>j - 1\<close> of a packet.\<close>

definition field :: "u8 list \<Rightarrow> nat \<Rightarrow> nat \<Rightarrow> nat" where
  "field bytes i j = bits_val (sub (bytes_bits bytes) i j)"

lemma projected_newData [simp]: "projected (newData bs True)"
  by (simp add: projected_def newData_def)

lemma projected_Bits: "projected pkt \<Longrightarrow> Bits pkt = chars_of_bits (bytes_bits (Bytes pkt))"
  by (simp add: projected_def newData_Bits)

lemma projected_length: "projected pkt \<Longrightarrow> length (Bits pkt) = 8 * length (Bytes pkt)"
  by (simp add: projected_Bits)

lemma field_less: "i \<le> j \<Longrightarrow> field bytes i j < 2 ^ (j - i)"
  using bits_val_less [of "sub (bytes_bits bytes) i j"]
  by (auto simp: field_def sub_def min_def elim!: less_le_trans intro!: power_increasing)

lemma sub_Bits_take:
  "projected pkt \<Longrightarrow> n \<le> length (Bytes pkt) \<Longrightarrow>
     sub (Bits pkt) 0 (8 * n) = chars_of_bits (bytes_bits (take n (Bytes pkt)))"
  by (simp add: projected_Bits sub_chars_of_bits bytes_bits_take) (simp add: sub_def)

lemma ParseUint_field:
  "j - i \<le> k \<Longrightarrow> j \<le> 8 * length bytes \<Longrightarrow>
     ParseUint (sub (chars_of_bits (bytes_bits bytes)) i j) 2 k = field bytes i j"
  by (simp add: sub_chars_of_bits ParseUint_bits field_def)

lemma Uint16_field: "j = i + 2 \<Longrightarrow> j \<le> length b \<Longrightarrow> Uint16 (sub b i j) = of_nat (field b (8 * i) (8 * j))"
  and Uint32_field: "j = i + 4 \<Longrightarrow> j \<le> length b \<Longrightarrow> Uint32 (sub b i j) = of_nat (field b (8 * i) (8 * j))"
  by (simp_all add: Uint16_bits Uint32_bits field_def bytes_bits_sub)

lemma byte_field: "i < length b \<Longrightarrow> b ! i = of_nat (field b (8 * i) (8 * i + 8))"
proof -
  assume i: "i < length b"
  then have "sub b i (Suc i) = [b ! i]" by (simp add: sub_def take_Suc_conv_app_nth flip: Cons_nth_drop_Suc)
  then have "sub (bytes_bits b) (8 * i) (8 * i + 8) = byte_bits (b ! i)"
    using bytes_bits_sub [of b i "Suc i"] by (simp add: add.commute)
  then show ?thesis by (simp add: field_def bits_val_byte_bits)
qed

lemma field_split:
  assumes "i \<le> j" "j \<le> k" "k \<le> 8 * length b"
  shows "field b i k = field b i j * 2 ^ (k - j) + field b j k"
proof -
  have "sub (bytes_bits b) i k = sub (bytes_bits b) i j @ sub (bytes_bits b) j k"
    using take_add [of "j - i" "k - j" "drop i (bytes_bits b)"] assms by (simp add: sub_def)
  then show ?thesis using assms by (simp add: field_def bits_val_append)
qed

lemma field_byte: "i < length b \<Longrightarrow> field b (8 * i) (8 * i + 8) = unat (b ! i)"
  using byte_field [of i b] field_less [of "8 * i" "8 * i + 8" b]
  by (simp add: unat_of_nat take_bit_nat_eq_self)

lemma low_nibble_field: "i < length b \<Longrightarrow> b ! i AND 0x0F = of_nat (field b (8 * i + 4) (8 * i + 8))"
proof -
  assume i: "i < length b"
  have split: "field b (8 * i) (8 * i + 8) = field b (8 * i) (8 * i + 4) * 2 ^ 4 + field b (8 * i + 4) (8 * i + 8)"
    using field_split [of "8 * i" "8 * i + 4" "8 * i + 8" b] i by simp
  have lt: "field b (8 * i + 4) (8 * i + 8) < 2 ^ 4" using field_less [of "8 * i + 4" "8 * i + 8" b] by simp
  have "(0x0F :: u8) = mask 4" by (simp add: mask_eq_exp_minus_1)
  then have "b ! i AND 0x0F = take_bit 4 (of_nat (field b (8 * i) (8 * i + 8)))"
    by (simp only: take_bit_eq_mask byte_field [OF i, symmetric])
  also have "\<dots> = of_nat (take_bit 4 (field b (8 * i) (8 * i + 8)))" by (simp add: take_bit_of_nat)
  also have "take_bit 4 (field b (8 * i) (8 * i + 8)) = field b (8 * i + 4) (8 * i + 8)"
    unfolding split take_bit_eq_mod using lt by simp
  finally show ?thesis .
qed

lemma field_sub: "j \<le> length b \<Longrightarrow> l \<le> 8 * (j - i) \<Longrightarrow> k \<le> l \<Longrightarrow> field (sub b i j) k l = field b (8 * i + k) (8 * i + l)"
  by (cases "i \<le> j") (simp_all add: field_def bytes_bits_sub sub_sub, simp add: sub_def)

lemma bit_intervals_field:
  "offset + n * width \<le> 8 * length b \<Longrightarrow>
     bit_intervals (chars_of_bits (bytes_bits b)) width offset n =
       Inr (map (\<lambda>k. of_nat (field b (offset + k * width) (offset + Suc k * width))) [0..<n])"
proof (induction n arbitrary: offset)
  case (Suc n)
  have "[0..<Suc n] = 0 # map Suc [0..<n]" by (simp add: upt_conv_Cons map_Suc_upt del: upt_Suc)
  moreover have "bit_intervals (chars_of_bits (bytes_bits b)) width (offset + width) n =
       Inr (map (\<lambda>k. of_nat (field b (offset + width + k * width) (offset + width + Suc k * width))) [0..<n])"
    using Suc.prems by (intro Suc.IH) simp
  ultimately show ?case using Suc.prems
    by (simp add: ParseUint_field add.assoc del: upt_Suc)
qed simp

section \<open>The deduplicating packet loop\<close>

text \<open>The loop state of a parser: its packet buffer (which outlives the call), the packets
  seen in this call, and the messages appended so far.\<close>

record 'm parse_state =
  buf :: "u8 list"
  seen :: "u8 list set"
  msgs :: "'m list"

text \<open>The distinct packets, as their first \<open>N\<close> bytes, in the order of first occurrence.\<close>

fun firsts :: "'a set \<Rightarrow> 'a list \<Rightarrow> 'a list" where
  "firsts S [] = []"
| "firsts S (x # xs) = (if x \<in> S then firsts S xs else x # firsts (insert x S) xs)"

definition distinct_packets :: "nat \<Rightarrow> Data list \<Rightarrow> u8 list list" where
  "distinct_packets N pkts = firsts {} (map (\<lambda>p. take N (Bytes p)) pkts)"

lemma set_firsts: "set (firsts S xs) = set xs - S"
  by (induction S xs rule: firsts.induct) auto

lemma distinct_firsts: "distinct (firsts S xs)"
  by (induction S xs rule: firsts.induct) (auto simp: set_firsts)

lemma distinct_packets_single [simp]: "distinct_packets N [p] = [take N (Bytes p)]"
  by (simp add: distinct_packets_def)

text \<open>The interface: on packets \<open>ok\<close> for the parser and a buffer of \<open>N\<close> bytes, one turn of
  the loop overwrites the buffer, skips bytes already seen, and appends what \<open>accept\<close> makes of
  the packet.\<close>

locale packet_loop =
  fixes step :: "'m parse_state \<Rightarrow> Data \<Rightarrow> 'm parse_state res"
    and N :: nat and ok :: "Data \<Rightarrow> bool"
    and accept :: "u8 list \<Rightarrow> 'm option"
  assumes step_ok: "ok pkt \<Longrightarrow> length (buf st) = N \<Longrightarrow> N \<le> length (Bytes pkt) \<Longrightarrow>
    step st pkt = Inr (let b = take N (Bytes pkt) in
      if b \<in> seen st then st\<lparr>buf := b\<rparr>
      else st\<lparr>buf := b, seen := insert b (seen st),
              msgs := msgs st @ (case accept b of None \<Rightarrow> [] | Some m \<Rightarrow> [m])\<rparr>)"
begin

lemma loop_general:
  "\<forall>p\<in>set pkts. ok p \<and> N \<le> length (Bytes p) \<Longrightarrow> length (buf st) = N \<Longrightarrow>
   \<exists>st'. fold_res step st pkts = Inr st' \<and> length (buf st') = N \<and>
     msgs st' = msgs st @ List.map_filter accept (firsts (seen st) (map (\<lambda>p. take N (Bytes p)) pkts))"
proof (induction pkts arbitrary: st)
  case Nil
  then show ?case by (simp add: map_filter_simps)
next
  case (Cons p pkts)
  then have p: "ok p" "N \<le> length (Bytes p)" by simp_all
  show ?case
  proof (cases "take N (Bytes p) \<in> seen st")
    case True
    with Cons.prems p Cons.IH [of "st\<lparr>buf := take N (Bytes p)\<rparr>"]
    show ?thesis by (simp add: step_ok Let_def)
  next
    case False
    let ?st = "st\<lparr>buf := take N (Bytes p), seen := insert (take N (Bytes p)) (seen st),
      msgs := msgs st @ (case accept (take N (Bytes p)) of None \<Rightarrow> [] | Some m \<Rightarrow> [m])\<rparr>"
    from False Cons.prems p Cons.IH [of ?st] show ?thesis
      by (auto simp: step_ok Let_def map_filter_simps split: option.splits)
  qed
qed

lemma loop_result:
  assumes "\<forall>p\<in>set pkts. ok p \<and> N \<le> length (Bytes p)" and "length b = N"
  shows "\<exists>st'. fold_res step \<lparr>buf = b, seen = {}, msgs = ms\<rparr> pkts = Inr st' \<and>
    length (buf st') = N \<and> msgs st' = ms @ List.map_filter accept (distinct_packets N pkts)"
  using loop_general [of pkts "\<lparr>buf = b, seen = {}, msgs = ms\<rparr>"] assms
  by (simp add: distinct_packets_def)

end

end
