(* ===== verification/Message.thy ===== *)
theory Message
  imports Packet
begin

text \<open>
  The messages the parsers produce (the structs \<open>SCM\<close>, \<open>IDM\<close>, \<open>NetIDM\<close>,
  \<open>R900\<close> and \<open>R900BCD\<close> of the protocol packages) and what
  \<^verbatim>\<open>src/protocol/parse.go\<close> and \<^verbatim>\<open>src/flags.go\<close> do with them: the
  \<open>Message\<close> interface as a datatype with one constructor per implementation, the digest that
  identifies a message, filter chains, and the filters selected by the command line.
\<close>

section \<open>The message structs\<close>

record SCM =
  ID :: u32
  Type :: u8
  TamperPhy :: u8
  TamperEnc :: u8
  Consumption :: u32
  ChecksumVal :: u16

record SCMPlus =
  FrameSync :: u16
  ProtocolID :: u8
  EndpointType :: u8
  EndpointID :: u32
  Consumption :: u32
  Tamper :: u16
  PacketCRC :: u16

record IDM =
  Preamble :: u32
  PacketTypeID :: u8
  PacketLength :: u8
  HammingCode :: u8
  ApplicationVersion :: u8
  ERTType :: u8
  ERTSerialNumber :: u32
  ConsumptionIntervalCount :: u8
  ModuleProgrammingState :: u8
  TamperCounters :: "u8 list"
  AsynchronousCounters :: u16
  PowerOutageFlags :: "u8 list"
  LastConsumptionCount :: u32
  DifferentialConsumptionIntervals :: "u16 list"
  TransmitTimeOffset :: u16
  SerialNumberCRC :: u16
  PacketCRC :: u16

record NetIDM =
  Preamble :: u32
  ProtocolID :: u8
  PacketLength :: u8
  HammingCode :: u8
  ApplicationVersion :: u8
  ERTType :: u8
  ERTSerialNumber :: u32
  ConsumptionIntervalCount :: u8
  ProgrammingState :: u8
  LastGeneration :: u32
  LastConsumption :: u32
  LastConsumptionNet :: u32
  DifferentialConsumptionIntervals :: "u16 list"
  TransmitTimeOffset :: u16
  SerialNumberCRC :: u16
  PacketCRC :: u16

record R900 =
  ID :: u32
  Unkn1 :: u8
  NoUse :: u8
  BackFlow :: u8
  Consumption :: u32
  Unkn3 :: u8
  Leak :: u8
  LeakNow :: u8
  checksum :: "u8 list"

text \<open>The interface \<^verbatim>\<open>protocol.Message\<close>; \<open>R900BCD\<close> embeds an \<open>R900\<close>.\<close>

datatype Message =
    MSCM SCM
  | MSCMPlus SCMPlus
  | MIDM IDM
  | MNetIDM NetIDM
  | MR900 R900
  | MR900BCD R900

section \<open>The interface methods\<close>

fun MsgType :: "Message \<Rightarrow> string" where
  "MsgType (MSCM m) = ''SCM''"
| "MsgType (MSCMPlus m) = ''SCM+''"
| "MsgType (MIDM m) = ''IDM''"
| "MsgType (MNetIDM m) = ''NetIDM''"
| "MsgType (MR900 m) = ''R900''"
| "MsgType (MR900BCD m) = ''R900BCD''"

fun MeterID :: "Message \<Rightarrow> u32" where
  "MeterID (MSCM m) = SCM.ID m"
| "MeterID (MSCMPlus m) = EndpointID m"
| "MeterID (MIDM m) = IDM.ERTSerialNumber m"
| "MeterID (MNetIDM m) = NetIDM.ERTSerialNumber m"
| "MeterID (MR900 m) = R900.ID m"
| "MeterID (MR900BCD m) = R900.ID m"

fun MeterType :: "Message \<Rightarrow> u8" where
  "MeterType (MSCM m) = Type m"
| "MeterType (MSCMPlus m) = EndpointType m"
| "MeterType (MIDM m) = IDM.ERTType m"
| "MeterType (MNetIDM m) = NetIDM.ERTType m"
| "MeterType (MR900 m) = Unkn1 m"
| "MeterType (MR900BCD m) = Unkn1 m"

fun msg_Checksum :: "Message \<Rightarrow> u8 list" where
  "msg_Checksum (MSCM m) = PutUint16 (ChecksumVal m)"
| "msg_Checksum (MSCMPlus m) = PutUint16 (SCMPlus.PacketCRC m)"
| "msg_Checksum (MIDM m) = PutUint16 (IDM.PacketCRC m)"
| "msg_Checksum (MNetIDM m) = PutUint16 (NetIDM.PacketCRC m)"
| "msg_Checksum (MR900 m) = checksum m"
| "msg_Checksum (MR900BCD m) = checksum m"

subsection \<open>CSV records\<close>

definition SCM_Record :: "SCM \<Rightarrow> string list" where
  "SCM_Record scm =
     [FormatUint (unat (SCM.ID scm)) 10,
      FormatUint (unat (Type scm)) 10,
      ''0x'' @ FormatUint (unat (TamperPhy scm)) 16,
      ''0x'' @ FormatUint (unat (TamperEnc scm)) 16,
      FormatUint (unat (SCM.Consumption scm)) 10,
      ''0x'' @ FormatUint (unat (ChecksumVal scm)) 16]"

definition SCMPlus_Record :: "SCMPlus \<Rightarrow> string list" where
  "SCMPlus_Record scm =
     [''0x'' @ FormatUint (unat (FrameSync scm)) 16,
      ''0x'' @ FormatUint (unat (SCMPlus.ProtocolID scm)) 16,
      ''0x'' @ FormatUint (unat (EndpointType scm)) 16,
      FormatUint (unat (EndpointID scm)) 10,
      FormatUint (unat (SCMPlus.Consumption scm)) 10,
      ''0x'' @ FormatUint (unat (Tamper scm)) 16,
      ''0x'' @ FormatUint (unat (SCMPlus.PacketCRC scm)) 16]"

definition Interval_Record :: "u16 list \<Rightarrow> string list" where
  "Interval_Record interval = map (\<lambda>val. FormatUint (unat val) 10) interval"

definition IDM_Record :: "IDM \<Rightarrow> string list" where
  "IDM_Record idm =
     [''0x'' @ fmt_X 8 (unat (IDM.Preamble idm)),
      ''0x'' @ fmt_X 2 (unat (PacketTypeID idm)),
      ''0x'' @ fmt_X 2 (unat (IDM.PacketLength idm)),
      ''0x'' @ fmt_X 2 (unat (IDM.HammingCode idm)),
      ''0x'' @ fmt_X 2 (unat (IDM.ApplicationVersion idm)),
      ''0x'' @ fmt_X 2 (unat (IDM.ERTType idm)),
      fmt_d (unat (IDM.ERTSerialNumber idm)),
      fmt_d (unat (IDM.ConsumptionIntervalCount idm)),
      ''0x'' @ fmt_X 2 (unat (ModuleProgrammingState idm)),
      fmt_bytes_X (TamperCounters idm),
      ''0x'' @ fmt_X 2 (unat (AsynchronousCounters idm)),
      fmt_bytes_X (PowerOutageFlags idm),
      fmt_d (unat (LastConsumptionCount idm))]
     @ Interval_Record (IDM.DifferentialConsumptionIntervals idm)
     @ [fmt_d (unat (IDM.TransmitTimeOffset idm)),
        ''0x'' @ fmt_X 4 (unat (IDM.SerialNumberCRC idm)),
        ''0x'' @ fmt_X 4 (unat (IDM.PacketCRC idm))]"

definition NetIDM_Record :: "NetIDM \<Rightarrow> string list" where
  "NetIDM_Record netidm =
     [''0x'' @ fmt_X 8 (unat (NetIDM.Preamble netidm)),
      ''0x'' @ fmt_X 2 (unat (NetIDM.ProtocolID netidm)),
      ''0x'' @ fmt_X 2 (unat (NetIDM.PacketLength netidm)),
      ''0x'' @ fmt_X 2 (unat (NetIDM.HammingCode netidm)),
      ''0x'' @ fmt_X 2 (unat (NetIDM.ApplicationVersion netidm)),
      ''0x'' @ fmt_X 2 (unat (NetIDM.ERTType netidm)),
      fmt_d (unat (NetIDM.ERTSerialNumber netidm)),
      fmt_d (unat (NetIDM.ConsumptionIntervalCount netidm)),
      ''0x'' @ fmt_X 2 (unat (ProgrammingState netidm)),
      fmt_d (unat (LastGeneration netidm)),
      fmt_d (unat (LastConsumption netidm)),
      fmt_d (unat (LastConsumptionNet netidm))]
     @ Interval_Record (NetIDM.DifferentialConsumptionIntervals netidm)
     @ [fmt_d (unat (NetIDM.TransmitTimeOffset netidm)),
        ''0x'' @ fmt_X 4 (unat (NetIDM.SerialNumberCRC netidm)),
        ''0x'' @ fmt_X 4 (unat (NetIDM.PacketCRC netidm))]"

definition R900_Record :: "R900 \<Rightarrow> string list" where
  "R900_Record r900 =
     [FormatUint (unat (R900.ID r900)) 10,
      FormatUint (unat (Unkn1 r900)) 10,
      FormatUint (unat (NoUse r900)) 10,
      FormatUint (unat (BackFlow r900)) 10,
      FormatUint (unat (R900.Consumption r900)) 10,
      FormatUint (unat (Unkn3 r900)) 10,
      FormatUint (unat (Leak r900)) 10,
      FormatUint (unat (LeakNow r900)) 10]"

fun Record :: "Message \<Rightarrow> string list" where
  "Record (MSCM m) = SCM_Record m"
| "Record (MSCMPlus m) = SCMPlus_Record m"
| "Record (MIDM m) = IDM_Record m"
| "Record (MNetIDM m) = NetIDM_Record m"
| "Record (MR900 m) = R900_Record m"
| "Record (MR900BCD m) = R900_Record m"

subsection \<open>Plain text\<close>

definition SCM_String :: "SCM \<Rightarrow> string" where
  "SCM_String scm =
     ''{ID:'' @ fmt_wd 8 (unat (SCM.ID scm)) @ '' Type:'' @ fmt_wd 2 (unat (Type scm))
     @ '' Tamper:{Phy:'' @ fmt_X 2 (unat (TamperPhy scm)) @ '' Enc:'' @ fmt_X 2 (unat (TamperEnc scm))
     @ ''} Consumption:'' @ fmt_wd 8 (unat (SCM.Consumption scm))
     @ '' CRC:0x'' @ fmt_X 4 (unat (ChecksumVal scm)) @ ''}''"

definition SCMPlus_String :: "SCMPlus \<Rightarrow> string" where
  "SCMPlus_String scm =
     ''{ProtocolID:0x'' @ fmt_X 2 (unat (SCMPlus.ProtocolID scm))
     @ '' EndpointType:0x'' @ fmt_X 2 (unat (EndpointType scm))
     @ '' EndpointID:'' @ fmt_wd 10 (unat (EndpointID scm))
     @ '' Consumption:'' @ fmt_wd 10 (unat (SCMPlus.Consumption scm))
     @ '' Tamper:0x'' @ fmt_X 4 (unat (Tamper scm))
     @ '' PacketCRC:0x'' @ fmt_X 4 (unat (SCMPlus.PacketCRC scm)) @ ''}''"

definition IDM_String :: "IDM \<Rightarrow> string" where
  "IDM_String idm = ''{'' @ join_with '' ''
     [''Preamble:0x'' @ fmt_X 8 (unat (IDM.Preamble idm)),
      ''PacketTypeID:0x'' @ fmt_X 2 (unat (PacketTypeID idm)),
      ''PacketLength:0x'' @ fmt_X 2 (unat (IDM.PacketLength idm)),
      ''HammingCode:0x'' @ fmt_X 2 (unat (IDM.HammingCode idm)),
      ''ApplicationVersion:0x'' @ fmt_X 2 (unat (IDM.ApplicationVersion idm)),
      ''ERTType:0x'' @ fmt_X 2 (unat (IDM.ERTType idm)),
      ''ERTSerialNumber:'' @ fmt_blank_wd 10 (unat (IDM.ERTSerialNumber idm)),
      ''ConsumptionIntervalCount:'' @ fmt_d (unat (IDM.ConsumptionIntervalCount idm)),
      ''ModuleProgrammingState:0x'' @ fmt_X 2 (unat (ModuleProgrammingState idm)),
      ''TamperCounters:'' @ fmt_bytes_X (TamperCounters idm),
      ''AsynchronousCounters:0x'' @ fmt_X 2 (unat (AsynchronousCounters idm)),
      ''PowerOutageFlags:'' @ fmt_bytes_X (PowerOutageFlags idm),
      ''LastConsumptionCount:'' @ fmt_d (unat (LastConsumptionCount idm)),
      ''DifferentialConsumptionIntervals:''
        @ fmt_array_d (map unat (IDM.DifferentialConsumptionIntervals idm)),
      ''TransmitTimeOffset:'' @ fmt_d (unat (IDM.TransmitTimeOffset idm)),
      ''SerialNumberCRC:0x'' @ fmt_X 4 (unat (IDM.SerialNumberCRC idm)),
      ''PacketCRC:0x'' @ fmt_X 4 (unat (IDM.PacketCRC idm))] @ ''}''"

definition NetIDM_String :: "NetIDM \<Rightarrow> string" where
  "NetIDM_String netidm = ''{'' @ join_with '' ''
     [''Preamble:0x'' @ fmt_X 8 (unat (NetIDM.Preamble netidm)),
      ''ProtocolID:0x'' @ fmt_X 2 (unat (NetIDM.ProtocolID netidm)),
      ''PacketLength:0x'' @ fmt_X 2 (unat (NetIDM.PacketLength netidm)),
      ''HammingCode:0x'' @ fmt_X 2 (unat (NetIDM.HammingCode netidm)),
      ''ApplicationVersion:0x'' @ fmt_X 2 (unat (NetIDM.ApplicationVersion netidm)),
      ''ERTType:0x'' @ fmt_X 2 (unat (NetIDM.ERTType netidm)),
      ''ERTSerialNumber:'' @ fmt_blank_wd 10 (unat (NetIDM.ERTSerialNumber netidm)),
      ''ConsumptionIntervalCount:'' @ fmt_d (unat (NetIDM.ConsumptionIntervalCount netidm)),
      ''ProgrammingState:0x'' @ fmt_X 2 (unat (ProgrammingState netidm)),
      ''LastGeneration:'' @ fmt_d (unat (LastGeneration netidm)),
      ''LastConsumption:'' @ fmt_d (unat (LastConsumption netidm)),
      ''LastConsumptionNet:'' @ fmt_d (unat (LastConsumptionNet netidm)),
      ''DifferentialConsumptionIntervals:''
        @ fmt_array_d (map unat (NetIDM.DifferentialConsumptionIntervals netidm)),
      ''TransmitTimeOffset:'' @ fmt_d (unat (NetIDM.TransmitTimeOffset netidm)),
      ''SerialNumberCRC:0x'' @ fmt_X 4 (unat (NetIDM.SerialNumberCRC netidm)),
      ''PacketCRC:0x'' @ fmt_X 4 (unat (NetIDM.PacketCRC netidm))] @ ''}''"

definition R900_String :: "R900 \<Rightarrow> string" where
  "R900_String r900 =
     ''{ID:'' @ fmt_wd 10 (unat (R900.ID r900)) @ '' Unkn1:0x'' @ fmt_X 2 (unat (Unkn1 r900))
     @ '' NoUse:'' @ fmt_wd 2 (unat (NoUse r900)) @ '' BackFlow:'' @ fmt_wd 1 (unat (BackFlow r900))
     @ '' Consumption:'' @ fmt_wd 8 (unat (R900.Consumption r900))
     @ '' Unkn3:0x'' @ fmt_X 2 (unat (Unkn3 r900))
     @ '' Leak:'' @ fmt_wd 2 (unat (Leak r900)) @ '' LeakNow:'' @ fmt_wd 1 (unat (LeakNow r900)) @ ''}''"

fun msg_String :: "Message \<Rightarrow> string" where
  "msg_String (MSCM m) = SCM_String m"
| "msg_String (MSCMPlus m) = SCMPlus_String m"
| "msg_String (MIDM m) = IDM_String m"
| "msg_String (MNetIDM m) = NetIDM_String m"
| "msg_String (MR900 m) = R900_String m"
| "msg_String (MR900BCD m) = R900_String m"

section \<open>Log messages and digests\<close>

text \<open>A log message carries its time; how the time prints in the two layouts the code uses
  (\<open>TimeFormat\<close> and RFC 3339) is an argument, since \<^verbatim>\<open>time.Time\<close> is not modelled.
  \<open>Offset\<close> and \<open>Length\<close> are signed; the receiver only stores naturals there.\<close>

record 't LogMessage =
  Time :: 't
  Offset :: nat
  Length :: nat
  LogType :: string
  Msg :: Message

definition LogMessage_String :: "('t \<Rightarrow> string) \<Rightarrow> 't LogMessage \<Rightarrow> string" where
  "LogMessage_String timeFormat msg =
     ''{Time:'' @ timeFormat (Time msg) @ '' Offset:'' @ fmt_d (Offset msg)
     @ '' Length:'' @ fmt_d (Length msg) @ '' '' @ MsgType (Msg msg) @ '':'' @ msg_String (Msg msg) @ ''}''"

definition StringNoOffset :: "('t \<Rightarrow> string) \<Rightarrow> 't LogMessage \<Rightarrow> string" where
  "StringNoOffset timeFormat msg =
     ''{Time:'' @ timeFormat (Time msg) @ '' '' @ MsgType (Msg msg) @ '':'' @ msg_String (Msg msg) @ ''}''"

definition LogMessage_Record :: "('t \<Rightarrow> string) \<Rightarrow> 't LogMessage \<Rightarrow> string list" where
  "LogMessage_Record rfc3339 msg =
     [rfc3339 (Time msg), FormatUint (Offset msg) 10, FormatUint (Length msg) 10] @ Record (Msg msg)"

record Digest =
  DMsgType :: string
  DMeterType :: u8
  DMeterID :: u32
  DChecksum :: "u8 list"

definition NewDigest :: "Message \<Rightarrow> Digest" where
  "NewDigest msg = \<lparr>DMsgType = MsgType msg, DMeterType = MeterType msg,
     DMeterID = MeterID msg, DChecksum = msg_Checksum msg\<rparr>"

section \<open>Command-line sets\<close>

definition to_lower_char :: "char \<Rightarrow> char" where
  "to_lower_char c = (let n = of_char c in if 65 \<le> n \<and> n \<le> (90 :: nat) then char_of (n + 32) else c)"

text \<open>\<^verbatim>\<open>strings.ToLower\<close> on ASCII text, and \<^verbatim>\<open>strings.Split(s, sep)\<close> for a
  separator of one character.\<close>

definition ToLower :: "string \<Rightarrow> string" where
  "ToLower s = map to_lower_char s"

fun split_on :: "char \<Rightarrow> string \<Rightarrow> string list" where
  "split_on sep [] = [[]]"
| "split_on sep (c # s) =
     (if c = sep then [] # split_on sep s
      else case split_on sep s of [] \<Rightarrow> [[c]] | w # ws \<Rightarrow> (c # w) # ws)"

text \<open>The maps to \<open>true\<close> of the source are sets.\<close>

definition StringMap_Set :: "string set \<Rightarrow> string \<Rightarrow> string set" where
  "StringMap_Set m value = set (map ToLower (split_on CHR '','' value))"

text \<open>\<open>UintMap.Set\<close> keeps what it added before the first value that does not parse, so the
  result is the map together with the error.\<close>

fun UintMap_Set_loop :: "nat set \<Rightarrow> string list \<Rightarrow> nat set \<times> go_error option" where
  "UintMap_Set_loop m [] = (m, None)"
| "UintMap_Set_loop m (v # values) =
     (case ParseUint_err v 10 64 of
        Inl err \<Rightarrow> (m, Some err)
      | Inr n \<Rightarrow> UintMap_Set_loop (insert n m) values)"

definition UintMap_Set :: "nat set \<Rightarrow> string \<Rightarrow> nat set \<times> go_error option" where
  "UintMap_Set m value = UintMap_Set_loop m (split_on CHR '','' value)"

definition validateDirectKernelBatchBlocks :: "int \<Rightarrow> unit res" where
  "validateDirectKernelBatchBlocks blocks =
     (if blocks < 1 \<or> blocks > 256
      then Inl (Err ''directkernelbatchblocks must be between 1 and 256'') else Inr ())"

section \<open>Filters\<close>

datatype MessageFilter =
    MeterIDFilter "nat set"
  | MeterTypeFilter "nat set"
  | UniqueFilter "nat \<rightharpoonup> u8 list"

definition NewUniqueFilter :: MessageFilter where
  "NewUniqueFilter = UniqueFilter Map.empty"

text \<open>\<open>Filter\<close> returns the verdict and the filter with its state: only the unique filter
  writes to its map.\<close>

fun Filter :: "MessageFilter \<Rightarrow> Message \<Rightarrow> bool \<times> MessageFilter" where
  "Filter (MeterIDFilter m) msg = (unat (MeterID msg) \<in> m, MeterIDFilter m)"
| "Filter (MeterTypeFilter m) msg = (unat (MeterType msg) \<in> m, MeterTypeFilter m)"
| "Filter (UniqueFilter uf) msg =
     (let mid = unat (MeterID msg) in
      if uf mid = Some (msg_Checksum msg) then (False, UniqueFilter uf)
      else (True, UniqueFilter (uf(mid \<mapsto> msg_Checksum msg))))"

definition Add_filter :: "MessageFilter list \<Rightarrow> MessageFilter \<Rightarrow> MessageFilter list" where
  "Add_filter fc f = fc @ [f]"

fun Match :: "MessageFilter list \<Rightarrow> Message \<Rightarrow> bool \<times> MessageFilter list" where
  "Match [] msg = (True, [])"
| "Match (f # fc) msg =
     (let (ok, f') = Filter f msg in
      if \<not> ok then (False, f' # fc)
      else let (ok', fc') = Match fc msg in (ok', f' # fc'))"

text \<open>What \<open>NewReceiver\<close> adds: \<^verbatim>\<open>flag.Visit\<close> calls back in lexicographic order
  of the flag names, so \<open>filterid\<close> comes before \<open>filtertype\<close> and \<open>unique\<close>.\<close>

definition receiver_filters :: "nat set option \<Rightarrow> nat set option \<Rightarrow> bool \<Rightarrow> MessageFilter list" where
  "receiver_filters filterid filtertype unique =
     (let fc0 = [];
          fc1 = (case filterid of None \<Rightarrow> fc0 | Some m \<Rightarrow> Add_filter fc0 (MeterIDFilter m));
          fc2 = (case filtertype of None \<Rightarrow> fc1 | Some m \<Rightarrow> Add_filter fc1 (MeterTypeFilter m))
      in if unique then Add_filter fc2 NewUniqueFilter else fc2)"

fun match_all :: "MessageFilter list \<Rightarrow> Message list \<Rightarrow> Message list" where
  "match_all fc [] = []"
| "match_all fc (m # ms) =
     (let (ok, fc') = Match fc m in if ok then m # match_all fc' ms else match_all fc' ms)"

section \<open>Correctness of the filters\<close>

text \<open>What the command line asks for: messages whose meter and type are listed, and with
  \<open>unique\<close> only those whose checksum differs from that of the previous listed message of the
  same meter.\<close>

definition listed :: "nat set option \<Rightarrow> nat set option \<Rightarrow> Message \<Rightarrow> bool" where
  "listed filterid filtertype m \<longleftrightarrow>
     (case filterid of None \<Rightarrow> True | Some ids \<Rightarrow> unat (MeterID m) \<in> ids) \<and>
     (case filtertype of None \<Rightarrow> True | Some types \<Rightarrow> unat (MeterType m) \<in> types)"

definition repeats :: "Message list \<Rightarrow> Message \<Rightarrow> bool" where
  "repeats past m \<longleftrightarrow> (case find (\<lambda>p. MeterID p = MeterID m) past of
     None \<Rightarrow> False | Some p \<Rightarrow> msg_Checksum p = msg_Checksum m)"

fun unique_changes :: "Message list \<Rightarrow> Message list \<Rightarrow> Message list" where
  "unique_changes past [] = []"
| "unique_changes past (m # ms) =
     (if repeats past m then unique_changes (m # past) ms else m # unique_changes (m # past) ms)"

definition remembers :: "(nat \<rightharpoonup> u8 list) \<Rightarrow> Message list \<Rightarrow> bool" where
  "remembers uf past \<longleftrightarrow>
     (\<forall>i. uf (unat i) = map_option msg_Checksum (find (\<lambda>p. MeterID p = i) past))"

lemma remembers_repeats: "remembers uf past \<Longrightarrow> uf (unat (MeterID m)) = Some (msg_Checksum m) \<longleftrightarrow> repeats past m"
  by (auto simp: remembers_def repeats_def split: option.splits)

lemma remembers_Cons:
  "remembers uf past \<Longrightarrow> remembers (uf(unat (MeterID m) \<mapsto> msg_Checksum m)) (m # past)"
  by (auto simp: remembers_def dest: unsigned_word_eqI)

lemma remembers_repeat:
  "remembers uf past \<Longrightarrow> repeats past m \<Longrightarrow> remembers uf (m # past)"
  using remembers_repeats [of uf past m] remembers_Cons [of uf past m]
  by (simp add: fun_upd_idem)

lemma Match_append:
  "Match (fc @ [f]) m = (if fst (Match fc m) then (fst (Filter f m), snd (Match fc m) @ [snd (Filter f m)])
     else (False, snd (Match fc m) @ [f]))"
  by (induction fc) (auto simp: Let_def split: prod.splits)

abbreviation static_filters :: "nat set option \<Rightarrow> nat set option \<Rightarrow> MessageFilter list" where
  "static_filters filterid filtertype \<equiv> receiver_filters filterid filtertype False"

lemma Match_static: "Match (static_filters a b) m = (listed a b m, static_filters a b)"
  by (auto simp: receiver_filters_def Add_filter_def listed_def Let_def split: option.splits)

lemma match_all_static: "match_all (static_filters a b) ms = filter (listed a b) ms"
  by (induction ms) (auto simp: Match_static)

lemma match_all_unique:
  "remembers uf past \<Longrightarrow> match_all (static_filters a b @ [UniqueFilter uf]) ms
     = unique_changes past (filter (listed a b) ms)"
proof (induction ms arbitrary: uf past)
  case (Cons m ms)
  show ?case
  proof (cases "listed a b m \<and> repeats past m")
    case True
    with Cons.IH [OF remembers_repeat] Cons.prems show ?thesis
      by (simp add: Match_append Match_static remembers_repeats)
  next
    case False
    then show ?thesis
      by (auto simp: Match_append Match_static Cons.IH [OF Cons.prems]
        Cons.IH [OF remembers_Cons [OF Cons.prems]] remembers_repeats [OF Cons.prems] Let_def
        simp del: fun_upd_apply)
  qed
qed simp

text \<open>C9: the filter chain the receiver builds from the flags passes exactly the messages whose
  meter id and type are listed, in order, and with \<open>-unique\<close> it drops from those exactly the
  messages that repeat the checksum of the previous listed message of the same meter: a message
  that another filter rejects never disturbs the memory of the unique filter.\<close>

theorem receiver_filters_pass_listed_changes:
  "match_all (receiver_filters filterid filtertype unique) ms =
     (if unique then unique_changes [] (filter (listed filterid filtertype) ms)
      else filter (listed filterid filtertype) ms)"
proof (cases unique)
  case True
  have "receiver_filters filterid filtertype True = static_filters filterid filtertype @ [UniqueFilter Map.empty]"
    by (auto simp: receiver_filters_def Add_filter_def NewUniqueFilter_def Let_def split: option.splits)
  moreover have "remembers Map.empty []" by (simp add: remembers_def)
  ultimately show ?thesis using True by (simp add: match_all_unique)
qed (simp add: match_all_static)

end
