(* ===== verification/Scm.thy ===== *)
theory Scm
  imports Message
begin

text \<open>
  The parser of the standard consumption message, \<^verbatim>\<open>src/scm/scm.go\<close>: the packet
  layout read by \<open>NewSCM\<close>, the loop of \<open>Parse\<close>, and the round trip of a sealed
  packet through both.
\<close>

section \<open>The code\<close>

definition scm_NewParser :: "nat \<Rightarrow> Parser" where
  "scm_NewParser chipLength =
     \<lparr>pcrc = NewCRC ''BCH'' 0 0x6F63 0,
      pcfg = zeroPacketConfig\<lparr>Protocol := ''scm'', CenterFreq := 912600155, DataRate := 32768,
        ChipLength := chipLength, PreambleSymbols := 21, PacketSymbols := 96,
        PacketConfig.Preamble := ''111110010101001100000''\<rparr>,
      pdata = \<lparr>Idx = 0, Bits = [], Bytes = replicate (96 div 8) 0\<rparr>\<rparr>"

text \<open>\<open>NewSCM\<close> slices the bit string; a packet with fewer than 96 bits makes it panic.\<close>

definition scm_NewSCM :: "Data \<Rightarrow> SCM res" where
  "scm_NewSCM data =
     bind_res (slice_res (Bits data) 21 23) (\<lambda>idHi.
     bind_res (slice_res (Bits data) 56 80) (\<lambda>idLo.
     bind_res (slice_res (Bits data) 26 30) (\<lambda>typeBits.
     bind_res (slice_res (Bits data) 24 26) (\<lambda>phyBits.
     bind_res (slice_res (Bits data) 30 32) (\<lambda>encBits.
     bind_res (slice_res (Bits data) 32 56) (\<lambda>consBits.
     bind_res (slice_res (Bits data) 80 96) (\<lambda>checkBits.
     let ertid = ParseUint (idHi @ idLo) 2 26;
         erttype = ParseUint typeBits 2 4;
         tamperphy = ParseUint phyBits 2 2;
         tamperenc = ParseUint encBits 2 2;
         consumption = ParseUint consBits 2 24;
         checksum = ParseUint checkBits 2 16
     in Inr \<lparr>SCM.ID = of_nat ertid, Type = of_nat erttype, TamperPhy = of_nat tamperphy,
              TamperEnc = of_nat tamperenc, Consumption = of_nat consumption,
              ChecksumVal = of_nat checksum\<rparr>)))))))"

definition scm_parse_step ::
    "Parser \<Rightarrow> Message parse_state \<Rightarrow> Data \<Rightarrow> Message parse_state res" where
  "scm_parse_step p st pkt =
     bind_res (slice_res (Bits pkt) 0 (PacketSymbols (pcfg p))) (\<lambda>bits.
     let data = \<lparr>Idx = Idx pkt, Bits = bits, Bytes = copy_into (buf st) (Bytes pkt)\<rparr>;
         s = Bytes data;
         st = st\<lparr>buf := s\<rparr>
     in if s \<in> seen st then Inr st
        else let st = st\<lparr>seen := insert s (seen st)\<rparr> in
          bind_res (slice_res s 2 12) (\<lambda>body.
          if crc_Checksum (pcrc p) body \<noteq> 0 then Inr st
          else bind_res (scm_NewSCM data) (\<lambda>scm.
            if SCM.ID scm = 0 then Inr st
            else Inr (st\<lparr>msgs := msgs st @ [MSCM scm]\<rparr>))))"

text \<open>\<open>Parse\<close> has a value receiver: of what it does to the parser only the packet buffer,
  which the copy shares, outlives the call.\<close>

definition scm_Parse :: "Parser \<Rightarrow> Data list \<Rightarrow> Message list \<Rightarrow> (Parser \<times> Message list) res" where
  "scm_Parse p pkts messages =
     bind_res (fold_res (scm_parse_step p)
         \<lparr>buf = Bytes (pdata p), seen = {}, msgs = messages\<rparr> pkts) (\<lambda>st.
     Inr (p\<lparr>pdata := (pdata p)\<lparr>Bytes := buf st\<rparr>\<rparr>, msgs st))"

section \<open>The packet layout\<close>

definition scm_layout :: "u8 list \<Rightarrow> SCM" where
  "scm_layout b =
     \<lparr>SCM.ID = of_nat (field b 21 23 * 2 ^ 24 + field b 56 80), Type = of_nat (field b 26 30),
      TamperPhy = of_nat (field b 24 26), TamperEnc = of_nat (field b 30 32),
      Consumption = of_nat (field b 32 56), ChecksumVal = of_nat (field b 80 96)\<rparr>"

definition scm_accept :: "u8 list \<Rightarrow> Message option" where
  "scm_accept b =
     (if crc_Checksum BCH (sub b 2 12) = 0 \<and> SCM.ID (scm_layout b) \<noteq> 0
      then Some (MSCM (scm_layout b)) else None)"

lemma scm_NewSCM_layout:
  assumes "length b = 12" and "Bits d = chars_of_bits (bytes_bits b)"
  shows "scm_NewSCM d = Inr (scm_layout b)"
proof -
  have "ParseUint (sub (Bits d) 21 23 @ sub (Bits d) 56 80) 2 26 = field b 21 23 * 2 ^ 24 + field b 56 80"
    using assms by (simp add: sub_chars_of_bits ParseUint_bits field_def bits_val_append
        flip: chars_of_bits_append)
  then show ?thesis using assms
    by (simp add: scm_NewSCM_def scm_layout_def ParseUint_field)
qed

abbreviation scm_ready :: "Parser \<Rightarrow> bool" where
  "scm_ready p \<equiv> pcrc p = BCH \<and> PacketSymbols (pcfg p) = 96"

lemma scm_step_ok:
  assumes "scm_ready p" "projected pkt" "length (buf st) = 12" "12 \<le> length (Bytes pkt)"
  shows "scm_parse_step p st pkt = Inr (let b = take 12 (Bytes pkt) in
      if b \<in> seen st then st\<lparr>buf := b\<rparr>
      else st\<lparr>buf := b, seen := insert b (seen st),
              msgs := msgs st @ (case scm_accept b of None \<Rightarrow> [] | Some m \<Rightarrow> [m])\<rparr>)"
proof -
  let ?b = "take 12 (Bytes pkt)"
  have bits: "sub (Bits pkt) 0 96 = chars_of_bits (bytes_bits ?b)"
    using sub_Bits_take [of pkt 12] assms by simp
  have "length (Bits pkt) \<ge> 96" using assms projected_length [of pkt] by simp
  moreover have "copy_into (buf st) (Bytes pkt) = ?b" using assms by (simp add: copy_into_ge)
  ultimately show ?thesis using assms bits
    by (simp add: scm_parse_step_def scm_NewSCM_layout [of ?b] scm_accept_def Let_def)
qed

interpretation scm_loop: packet_loop "scm_parse_step (scm_NewParser n)" 12 projected scm_accept
  by unfold_locales (rule scm_step_ok, simp_all add: scm_NewParser_def BCH_def)

text \<open>The parser between calls: its configuration is that of \<open>NewParser\<close> and its buffer holds
  one packet.\<close>

definition scm_inv :: "Parser \<Rightarrow> bool" where
  "scm_inv p \<longleftrightarrow> scm_ready p \<and> length (Bytes (pdata p)) = 12"

lemma scm_inv_NewParser: "scm_inv (scm_NewParser n)"
  by (simp add: scm_inv_def scm_NewParser_def BCH_def)

lemma scm_parse_step_ready:
  assumes "scm_ready p" "scm_ready q"
  shows "scm_parse_step p = scm_parse_step q"
  unfolding scm_parse_step_def assms [THEN conjunct1] assms [THEN conjunct2] by simp

lemma scm_Parse_result:
  assumes "scm_inv p" and "\<forall>pkt\<in>set pkts. projected pkt \<and> 12 \<le> length (Bytes pkt)"
  shows "\<exists>p'. scm_Parse p pkts messages =
      Inr (p', messages @ List.map_filter scm_accept (distinct_packets 12 pkts)) \<and> scm_inv p'"
  using scm_loop.loop_result [of pkts "Bytes (pdata p)" 0 messages] assms
    scm_parse_step_ready [of p "scm_NewParser 0"] scm_inv_NewParser [of 0]
  by (auto simp: scm_Parse_def scm_inv_def)

section \<open>Sealed packets\<close>

text \<open>The transmitter's side: the fields in their places, bit 23 unused, and the checksum of
  bytes 2 to 9 at the end.\<close>

definition scm_preamble_bits :: "bool list" where
  "scm_preamble_bits = map (\<lambda>c. c = CHR ''1'') ''111110010101001100000''"

definition scm_frame :: "SCM \<Rightarrow> bool list" where
  "scm_frame scm =
     scm_preamble_bits @ field_bits 2 (drop_bit 24 (SCM.ID scm)) @ [False]
     @ field_bits 2 (TamperPhy scm) @ field_bits 4 (Type scm) @ field_bits 2 (TamperEnc scm)
     @ field_bits 24 (SCM.Consumption scm) @ field_bits 24 (SCM.ID scm)"

definition scm_packet :: "SCM \<Rightarrow> u8 list" where
  "scm_packet scm =
     (let body = pack_bits (scm_frame scm) in body @ PutUint16 (crc_Checksum BCH (drop 2 body)))"

definition scm_ranges :: "SCM \<Rightarrow> bool" where
  "scm_ranges scm \<longleftrightarrow> SCM.ID scm \<noteq> 0 \<and> unat (SCM.ID scm) < 2 ^ 26 \<and> unat (Type scm) < 2 ^ 4 \<and>
     unat (TamperPhy scm) < 2 ^ 2 \<and> unat (TamperEnc scm) < 2 ^ 2 \<and> unat (SCM.Consumption scm) < 2 ^ 24"

lemma length_scm_frame [simp]: "length (scm_frame scm) = 80"
  by (simp add: scm_frame_def scm_preamble_bits_def)

lemma bytes_bits_scm_packet:
  "bytes_bits (scm_packet scm) = scm_frame scm
     @ bytes_bits (PutUint16 (crc_Checksum BCH (drop 2 (pack_bits (scm_frame scm)))))"
  by (simp add: scm_packet_def Let_def bytes_bits_pack_bits)

lemma length_scm_preamble_bits: "length scm_preamble_bits = 21"
  by (simp add: scm_preamble_bits_def)

lemma field_scm_packet:
  "field (scm_packet scm) 21 23 = bits_val (field_bits 2 (drop_bit 24 (SCM.ID scm)))"
  "field (scm_packet scm) 56 80 = bits_val (field_bits 24 (SCM.ID scm))"
  "field (scm_packet scm) 26 30 = bits_val (field_bits 4 (Type scm))"
  "field (scm_packet scm) 24 26 = bits_val (field_bits 2 (TamperPhy scm))"
  "field (scm_packet scm) 30 32 = bits_val (field_bits 2 (TamperEnc scm))"
  "field (scm_packet scm) 32 56 = bits_val (field_bits 24 (SCM.Consumption scm))"
  "field (scm_packet scm) 80 96 =
     bits_val (bytes_bits (PutUint16 (crc_Checksum BCH (drop 2 (pack_bits (scm_frame scm))))))"
  unfolding field_def bytes_bits_scm_packet
  by (simp_all add: sub_append_right sub_append_left del: append_assoc)
    (simp_all add: scm_frame_def length_scm_preamble_bits sub_append_right sub_append_left sub_Cons)

lemma of_nat_bits_val_PutUint16: "of_nat (bits_val (bytes_bits (PutUint16 c))) = c"
  using Uint16_bits [of "PutUint16 c"] Uint16_PutUint16 [of c] by simp

lemma scm_layout_packet:
  assumes "scm_ranges scm"
  shows "scm_layout (scm_packet scm) =
    scm\<lparr>ChecksumVal := crc_Checksum BCH (sub (scm_packet scm) 2 10)\<rparr>"
proof -
  have "bits_val (field_bits 2 (drop_bit 24 (SCM.ID scm))) * 2 ^ 24 + bits_val (field_bits 24 (SCM.ID scm))
      = bits_val (field_bits 26 (SCM.ID scm))"
    using field_bits_split [of 2 26 "SCM.ID scm"] by (simp add: bits_val_append)
  moreover have "sub (scm_packet scm) 2 10 = drop 2 (pack_bits (scm_frame scm))"
    by (simp add: scm_packet_def Let_def sub_def)
  ultimately show ?thesis using assms
    by (simp add: scm_layout_def field_scm_packet bits_val_field_bits scm_ranges_def
        of_nat_bits_val_PutUint16)
qed

lemma scm_accept_packet:
  assumes "scm_ranges scm"
  shows "scm_accept (scm_packet scm) =
    Some (MSCM (scm\<lparr>ChecksumVal := crc_Checksum BCH (sub (scm_packet scm) 2 10)\<rparr>))"
proof -
  have "sub (scm_packet scm) 2 12 =
      drop 2 (pack_bits (scm_frame scm)) @ PutUint16 (crc_Checksum BCH (drop 2 (pack_bits (scm_frame scm))))"
    by (simp add: scm_packet_def Let_def sub_def)
  then show ?thesis using assms bch.sealed_accepted
    by (simp add: scm_accept_def scm_layout_packet scm_ranges_def)
qed

lemma length_scm_packet [simp]: "length (scm_packet scm) = 12"
  by (simp add: scm_packet_def Let_def)

lemma scm_accept_burst:
  assumes "scm_accept b \<noteq> None" "bytes_bits (sub b 2 12) = p @ x @ s" "bytes_bits (sub b' 2 12) = p @ y @ s"
    and "length x = length y" "length x \<le> 16" "x \<noteq> y"
  shows "scm_accept b' = None"
  using assms bch_burst [OF assms(2-6)] by (auto simp: scm_accept_def crc_Checksum_BCH split: if_splits)

section \<open>Properties\<close>

text \<open>C6: \<open>Parse\<close> returns for every list of packets of at least 96 bits that carry their own
  bit projection: it appends, in order and once for each distinct packet of the call, the message
  laid out in the packet when the BCH checksum of bytes 2 to 11 is zero and the meter id is not
  zero, and it leaves the parser ready for the next call.\<close>

theorem scm_parse_appends_valid_packets:
  assumes "scm_inv p" and "\<forall>pkt\<in>set pkts. projected pkt \<and> 12 \<le> length (Bytes pkt)"
  shows "\<exists>p'. scm_Parse p pkts messages =
      Inr (p', messages @ List.map_filter scm_accept (distinct_packets 12 pkts)) \<and> scm_inv p'"
  using assms by (rule scm_Parse_result)

theorem scm_parse_appends_valid_packets_witness:
  "\<exists>p'. scm_Parse (scm_NewParser 72) [NewData (replicate 12 0), NewData (replicate 13 1)] [] =
      Inr (p', [] @ List.map_filter scm_accept
        (distinct_packets 12 [NewData (replicate 12 0), NewData (replicate 13 1)])) \<and> scm_inv p'"
  by (rule scm_parse_appends_valid_packets [OF scm_inv_NewParser])
    (simp add: NewData_def, simp add: newData_def)

text \<open>C5: a packet laid out and sealed by the transmitter's side from fields in range and a
  meter id that is not zero is parsed back to exactly those fields and its checksum.\<close>

theorem scm_round_trip:
  assumes "scm_ranges scm"
  shows "\<exists>p'. scm_Parse (scm_NewParser n) [NewData (scm_packet scm)] messages =
    Inr (p', messages @ [MSCM (scm\<lparr>ChecksumVal := crc_Checksum BCH (sub (scm_packet scm) 2 10)\<rparr>)])"
  using scm_Parse_result [OF scm_inv_NewParser, of "[NewData (scm_packet scm)]" n messages]
  by (auto simp: NewData_def newData_def projected_def scm_accept_packet [OF assms] map_filter_simps)

theorem scm_round_trip_witness:
  "\<exists>p'. scm_Parse (scm_NewParser 72) [NewData (scm_packet
      \<lparr>SCM.ID = 17581447, Type = 4, TamperPhy = 1, TamperEnc = 2, Consumption = 1213,
       ChecksumVal = 0\<rparr>)] [] =
    Inr (p', [] @ [MSCM (\<lparr>SCM.ID = 17581447, Type = 4, TamperPhy = 1, TamperEnc = 2,
       Consumption = 1213, ChecksumVal = 0\<rparr>\<lparr>ChecksumVal := crc_Checksum BCH (sub (scm_packet
      \<lparr>SCM.ID = 17581447, Type = 4, TamperPhy = 1, TamperEnc = 2, Consumption = 1213,
       ChecksumVal = 0\<rparr>) 2 10)\<rparr>)])"
  by (rule scm_round_trip) (simp add: scm_ranges_def)

end
