(* ===== verification/ScmPlus.thy ===== *)
theory ScmPlus
  imports Message
begin

text \<open>
  The parser of the standard consumption message plus, \<^verbatim>\<open>src/scmplus/scmplus.go\<close>.
\<close>

section \<open>The code\<close>

definition scmplus_NewParser :: "nat \<Rightarrow> Parser" where
  "scmplus_NewParser chipLength =
     \<lparr>pcrc = NewCRC ''CCITT'' 0xFFFF 0x1021 0x1D0F,
      pcfg = zeroPacketConfig\<lparr>Protocol := ''scm+'', CenterFreq := 912600155, DataRate := 32768,
        ChipLength := chipLength, PreambleSymbols := 16, PacketSymbols := 16 * 8,
        PacketConfig.Preamble := ''0001011010100011''\<rparr>,
      pdata = \<lparr>Idx = 0, Bits = [], Bytes = replicate 16 0\<rparr>\<rparr>"

text \<open>\<^verbatim>\<open>binary.Read\<close> fills the exported fields in order, big endian, from the first 16
  bytes; when the data is shorter it reads nothing into the struct.\<close>

definition scmplus_NewSCM :: "Data \<Rightarrow> SCMPlus" where
  "scmplus_NewSCM data =
     (let b = Bytes data in
      if length b < 16
      then \<lparr>FrameSync = 0, ProtocolID = 0, EndpointType = 0, EndpointID = 0, Consumption = 0,
            Tamper = 0, PacketCRC = 0\<rparr>
      else \<lparr>FrameSync = Uint16 (sub b 0 2), ProtocolID = b ! 2, EndpointType = b ! 3,
            EndpointID = Uint32 (sub b 4 8), Consumption = Uint32 (sub b 8 12),
            Tamper = Uint16 (sub b 12 14), PacketCRC = Uint16 (sub b 14 16)\<rparr>)"

definition scmplus_parse_step ::
    "Parser \<Rightarrow> Message parse_state \<Rightarrow> Data \<Rightarrow> Message parse_state res" where
  "scmplus_parse_step p st pkt =
     bind_res (slice_res (Bits pkt) 0 (PacketSymbols (pcfg p))) (\<lambda>bits.
     let data = \<lparr>Idx = Idx pkt, Bits = bits, Bytes = copy_into (buf st) (Bytes pkt)\<rparr>;
         s = Bytes data;
         st = st\<lparr>buf := s\<rparr>
     in if s \<in> seen st then Inr st
        else let st = st\<lparr>seen := insert s (seen st)\<rparr> in
          bind_res (slice_res s 2 (length s)) (\<lambda>body.
          if crc_Checksum (pcrc p) body \<noteq> Residue (pcrc p) then Inr st
          else let scm = scmplus_NewSCM data in
            if EndpointID scm = 0 \<or> SCMPlus.ProtocolID scm \<noteq> 0x1E then Inr st
            else Inr (st\<lparr>msgs := msgs st @ [MSCMPlus scm]\<rparr>)))"

definition scmplus_Parse :: "Parser \<Rightarrow> Data list \<Rightarrow> Message list \<Rightarrow> (Parser \<times> Message list) res" where
  "scmplus_Parse p pkts messages =
     bind_res (fold_res (scmplus_parse_step p)
         \<lparr>buf = Bytes (pdata p), seen = {}, msgs = messages\<rparr> pkts) (\<lambda>st.
     Inr (p\<lparr>pdata := (pdata p)\<lparr>Bytes := buf st\<rparr>\<rparr>, msgs st))"

section \<open>The packet layout\<close>

definition scmplus_layout :: "u8 list \<Rightarrow> SCMPlus" where
  "scmplus_layout b =
     \<lparr>FrameSync = of_nat (field b 0 16), ProtocolID = of_nat (field b 16 24),
      EndpointType = of_nat (field b 24 32), EndpointID = of_nat (field b 32 64),
      Consumption = of_nat (field b 64 96), Tamper = of_nat (field b 96 112),
      PacketCRC = of_nat (field b 112 128)\<rparr>"

definition scmplus_accept :: "u8 list \<Rightarrow> Message option" where
  "scmplus_accept b =
     (if crc_Checksum CCITT (sub b 2 16) = 0x1D0F \<and> EndpointID (scmplus_layout b) \<noteq> 0 \<and>
         SCMPlus.ProtocolID (scmplus_layout b) = 0x1E
      then Some (MSCMPlus (scmplus_layout b)) else None)"

lemma scmplus_NewSCM_layout: "length (Bytes d) = 16 \<Longrightarrow> scmplus_NewSCM d = scmplus_layout (Bytes d)"
  by (simp add: scmplus_NewSCM_def scmplus_layout_def Uint16_field Uint32_field byte_field Let_def)

abbreviation scmplus_ready :: "Parser \<Rightarrow> bool" where
  "scmplus_ready p \<equiv> pcrc p = CCITT \<and> PacketSymbols (pcfg p) = 128"

lemma scmplus_step_ok:
  assumes "scmplus_ready p" "projected pkt" "length (buf st) = 16" "16 \<le> length (Bytes pkt)"
  shows "scmplus_parse_step p st pkt = Inr (let b = take 16 (Bytes pkt) in
      if b \<in> seen st then st\<lparr>buf := b\<rparr>
      else st\<lparr>buf := b, seen := insert b (seen st),
              msgs := msgs st @ (case scmplus_accept b of None \<Rightarrow> [] | Some m \<Rightarrow> [m])\<rparr>)"
proof -
  let ?b = "take 16 (Bytes pkt)"
  have "length (Bits pkt) \<ge> 128" using assms projected_length [of pkt] by simp
  moreover have "copy_into (buf st) (Bytes pkt) = ?b" using assms by (simp add: copy_into_ge)
  ultimately show ?thesis using assms
    by (simp add: scmplus_parse_step_def scmplus_NewSCM_layout scmplus_accept_def Residue_CCITT Let_def)
qed

interpretation scmplus_loop: packet_loop "scmplus_parse_step (scmplus_NewParser n)" 16 projected scmplus_accept
  by unfold_locales (rule scmplus_step_ok, simp_all add: scmplus_NewParser_def CCITT_def)

definition scmplus_inv :: "Parser \<Rightarrow> bool" where
  "scmplus_inv p \<longleftrightarrow> scmplus_ready p \<and> length (Bytes (pdata p)) = 16"

lemma scmplus_inv_NewParser: "scmplus_inv (scmplus_NewParser n)"
  by (simp add: scmplus_inv_def scmplus_NewParser_def CCITT_def)

lemma scmplus_parse_step_ready:
  assumes "scmplus_ready p" "scmplus_ready q"
  shows "scmplus_parse_step p = scmplus_parse_step q"
  unfolding scmplus_parse_step_def assms [THEN conjunct1] assms [THEN conjunct2] by simp

lemma scmplus_Parse_result:
  assumes "scmplus_inv p" and "\<forall>pkt\<in>set pkts. projected pkt \<and> 16 \<le> length (Bytes pkt)"
  shows "\<exists>p'. scmplus_Parse p pkts messages =
      Inr (p', messages @ List.map_filter scmplus_accept (distinct_packets 16 pkts)) \<and> scmplus_inv p'"
  using scmplus_loop.loop_result [of pkts "Bytes (pdata p)" 0 messages] assms
    scmplus_parse_step_ready [of p "scmplus_NewParser 0"] scmplus_inv_NewParser [of 0]
  by (auto simp: scmplus_Parse_def scmplus_inv_def)

section \<open>Sealed packets\<close>

definition scmplus_body :: "SCMPlus \<Rightarrow> u8 list" where
  "scmplus_body scm =
     PutUint16 (FrameSync scm) @ [SCMPlus.ProtocolID scm, EndpointType scm]
     @ PutUint32 (EndpointID scm) @ PutUint32 (SCMPlus.Consumption scm) @ PutUint16 (Tamper scm)"

definition scmplus_packet :: "SCMPlus \<Rightarrow> u8 list" where
  "scmplus_packet scm =
     scmplus_body scm @ PutUint16 (NOT (crc_Checksum CCITT (drop 2 (scmplus_body scm))))"

lemma length_scmplus_body [simp]: "length (scmplus_body scm) = 14"
  by (simp add: scmplus_body_def)

lemma length_scmplus_packet [simp]: "length (scmplus_packet scm) = 16"
  by (simp add: scmplus_packet_def)

lemma scmplus_layout_packet:
  "scmplus_layout (scmplus_packet scm) =
     scm\<lparr>SCMPlus.PacketCRC := NOT (crc_Checksum CCITT (sub (scmplus_packet scm) 2 14))\<rparr>"
proof -
  let ?d = "\<lparr>Idx = 0, Bits = [], Bytes = scmplus_packet scm\<rparr>"
  have "scmplus_layout (scmplus_packet scm) = scmplus_NewSCM ?d"
    by (simp add: scmplus_NewSCM_layout)
  also have "\<dots> = scm\<lparr>SCMPlus.PacketCRC := NOT (crc_Checksum CCITT (drop 2 (scmplus_body scm)))\<rparr>"
    by (simp add: scmplus_NewSCM_def scmplus_packet_def scmplus_body_def sub_append_left
        sub_append_right sub_Cons nth_append Uint16_PutUint16 Uint32_PutUint32)
  also have "drop 2 (scmplus_body scm) = sub (scmplus_packet scm) 2 14"
    by (simp add: scmplus_packet_def sub_def)
  finally show ?thesis .
qed

lemma scmplus_accept_packet:
  assumes "EndpointID scm \<noteq> 0" "SCMPlus.ProtocolID scm = 0x1E"
  shows "scmplus_accept (scmplus_packet scm) =
    Some (MSCMPlus (scm\<lparr>SCMPlus.PacketCRC := NOT (crc_Checksum CCITT (sub (scmplus_packet scm) 2 14))\<rparr>))"
proof -
  have "sub (scmplus_packet scm) 2 16 = drop 2 (scmplus_body scm)
      @ PutUint16 (NOT (crc_Checksum CCITT (drop 2 (scmplus_body scm))))"
    by (simp add: scmplus_packet_def sub_def)
  then show ?thesis using assms ccitt.sealed_accepted
    by (simp add: scmplus_accept_def scmplus_layout_packet Residue_CCITT)
qed

lemma scmplus_accept_burst:
  assumes "scmplus_accept b \<noteq> None"
    and "bytes_bits (sub b 2 16) = p @ x @ s" "bytes_bits (sub b' 2 16) = p @ y @ s"
    and "length x = length y" "length x \<le> 16" "x \<noteq> y"
  shows "scmplus_accept b' = None"
  using assms ccitt_burst [OF assms(2-6)]
  by (auto simp: scmplus_accept_def crc_Checksum_CCITT split: if_splits)

section \<open>Properties\<close>

text \<open>\<open>Parse\<close> returns for every list of projected packets of at least 128 bits and appends,
  once for each distinct packet, the big-endian fields of those whose CCITT residue over bytes 2
  to 15 is \<open>0x1D0F\<close>, whose endpoint id is not zero and whose protocol id is \<open>0x1E\<close>.\<close>

theorem scmplus_parse_appends_valid_packets:
  assumes "scmplus_inv p" and "\<forall>pkt\<in>set pkts. projected pkt \<and> 16 \<le> length (Bytes pkt)"
  shows "\<exists>p'. scmplus_Parse p pkts messages =
      Inr (p', messages @ List.map_filter scmplus_accept (distinct_packets 16 pkts)) \<and> scmplus_inv p'"
  using assms by (rule scmplus_Parse_result)

theorem scmplus_parse_appends_valid_packets_witness:
  "\<exists>p'. scmplus_Parse (scmplus_NewParser 72) [NewData (replicate 16 0), NewData (replicate 16 1)] [] =
      Inr (p', [] @ List.map_filter scmplus_accept
        (distinct_packets 16 [NewData (replicate 16 0), NewData (replicate 16 1)])) \<and> scmplus_inv p'"
  by (rule scmplus_parse_appends_valid_packets [OF scmplus_inv_NewParser])
    (simp add: NewData_def, simp add: newData_def)

text \<open>A sealed SCM+ packet with protocol id \<open>0x1E\<close> and an endpoint id that is not zero
  parses back to its fields and its checksum.\<close>

theorem scmplus_round_trip:
  assumes "EndpointID scm \<noteq> 0" and "SCMPlus.ProtocolID scm = 0x1E"
  shows "\<exists>p'. scmplus_Parse (scmplus_NewParser n) [NewData (scmplus_packet scm)] messages =
    Inr (p', messages @ [MSCMPlus
      (scm\<lparr>SCMPlus.PacketCRC := NOT (crc_Checksum CCITT (sub (scmplus_packet scm) 2 14))\<rparr>)])"
  using scmplus_Parse_result [OF scmplus_inv_NewParser, of "[NewData (scmplus_packet scm)]" n messages]
  by (auto simp: NewData_def newData_def projected_def scmplus_accept_packet [OF assms] map_filter_simps)

definition scmplus_sample :: SCMPlus where
  "scmplus_sample = \<lparr>FrameSync = 0x16A3, ProtocolID = 0x1E, EndpointType = 0x9C,
     EndpointID = 68211547, Consumption = 6883, Tamper = 0x4900, PacketCRC = 0\<rparr>"

theorem scmplus_round_trip_witness:
  "\<exists>p'. scmplus_Parse (scmplus_NewParser 72) [NewData (scmplus_packet scmplus_sample)] [] =
    Inr (p', [] @ [MSCMPlus (scmplus_sample\<lparr>SCMPlus.PacketCRC :=
      NOT (crc_Checksum CCITT (sub (scmplus_packet scmplus_sample) 2 14))\<rparr>)])"
  by (rule scmplus_round_trip) (simp_all add: scmplus_sample_def)

end
