(* ===== verification/Idm.thy ===== *)
theory Idm
  imports Message
begin

text \<open>
  The parser of the interval data message, \<^verbatim>\<open>src/idm/idm.go\<close>. Its streaming decoder
  of the 9-bit intervals, \<open>decodeIntervals\<close>, is proved equal to reading the fields from the
  packet's bits, which is what the branch of \<open>NewIDM\<close> with a bit string does.
\<close>

section \<open>The code\<close>

record IdmParser = Parser +
  pseen :: "u8 list set"

definition idm_NewParser :: "nat \<Rightarrow> IdmParser" where
  "idm_NewParser chipLength =
     \<lparr>pcrc = NewCRC ''CCITT'' 0xFFFF 0x1021 0x1D0F,
      pcfg = zeroPacketConfig\<lparr>Protocol := ''idm'', CenterFreq := 912600155, DataRate := 32768,
        ChipLength := chipLength, PreambleSymbols := 32, PacketSymbols := 92 * 8,
        PacketConfig.Preamble := ''01010101010101010001011010100011''\<rparr>,
      pdata = \<lparr>Idx = 0, Bits = [], Bytes = replicate 92 0\<rparr>,
      pseen = {}\<rparr>"

text \<open>The inner loop of \<open>decodeIntervals\<close>: shift in whole bytes until nine bits are there.\<close>

function refill :: "u8 list \<Rightarrow> u32 \<Rightarrow> nat \<Rightarrow> nat \<Rightarrow> (u32 \<times> nat \<times> nat) res" where
  "refill data bits available byteIndex =
     (if available < 9
      then bind_res (index_res data byteIndex) (\<lambda>b.
        refill data (push_bit 8 bits OR ucast b) (available + 8) (byteIndex + 1))
      else Inr (bits, available, byteIndex))"
  by pat_completeness auto
termination
  by (relation "measure (\<lambda>(_, _, available, _). 9 - available)") auto

declare refill.simps [simp del]

fun decodeIntervals_loop :: "u8 list \<Rightarrow> nat \<Rightarrow> u32 \<Rightarrow> nat \<Rightarrow> nat \<Rightarrow> u16 list res" where
  "decodeIntervals_loop data 0 bits available byteIndex = Inr []"
| "decodeIntervals_loop data (Suc n) bits available byteIndex =
     bind_res (refill data bits available byteIndex) (\<lambda>(bits, available, byteIndex).
     let available = available - 9;
         interval = ucast (drop_bit available bits) AND 0x01ff;
         bits = (if available = 0 then 0 else bits AND (push_bit available 1 - 1))
     in bind_res (decodeIntervals_loop data n bits available byteIndex) (\<lambda>rest.
        Inr (interval # rest)))"

definition decodeIntervals :: "u8 list \<Rightarrow> u16 list res" where
  "decodeIntervals data = decodeIntervals_loop data 47 0 0 0"

text \<open>A packet of fewer than 92 bytes makes one of the index or slice expressions of
  \<open>NewIDM\<close> panic, the last one at the latest.\<close>

definition NewIDM :: "Data \<Rightarrow> IDM res" where
  "NewIDM data =
     (let b = Bytes data in
      if length b < 92 then Inl (Panic ''slice bounds out of range'')
      else bind_res
        (if Bits data = [] then decodeIntervals (sub b 33 86) else bit_intervals (Bits data) 9 264 47)
        (\<lambda>intervals. Inr
          \<lparr>IDM.Preamble = Uint32 (sub b 0 4),
           PacketTypeID = b ! 4,
           PacketLength = b ! 5,
           HammingCode = b ! 6,
           ApplicationVersion = b ! 7,
           ERTType = b ! 8 AND 0x0F,
           ERTSerialNumber = Uint32 (sub b 9 13),
           ConsumptionIntervalCount = b ! 13,
           ModuleProgrammingState = b ! 14,
           TamperCounters = sub b 15 21,
           AsynchronousCounters = Uint16 (sub b 21 23),
           PowerOutageFlags = sub b 23 29,
           LastConsumptionCount = Uint32 (sub b 29 33),
           DifferentialConsumptionIntervals = intervals,
           TransmitTimeOffset = Uint16 (sub b 86 88),
           SerialNumberCRC = Uint16 (sub b 88 90),
           PacketCRC = Uint16 (sub b 90 92)\<rparr>))"

text \<open>The parser never sets the bits of its own \<open>Data\<close>, so \<open>bits\<close> below is the value they
  had when the parser was made.\<close>

definition idm_parse_step ::
    "'a Parser_scheme \<Rightarrow> Message parse_state \<Rightarrow> Data \<Rightarrow> Message parse_state res" where
  "idm_parse_step p st pkt =
     (let data = \<lparr>Idx = Idx pkt, Bits = Bits (pdata p), Bytes = copy_into (buf st) (Bytes pkt)\<rparr>;
          st = st\<lparr>buf := Bytes data\<rparr>;
          packet = copy_into (replicate 92 0) (Bytes data)
      in if packet \<in> seen st then Inr st
         else let st = st\<lparr>seen := insert packet (seen st)\<rparr> in
           bind_res (slice_res (Bytes data) 4 92) (\<lambda>body.
           if crc_Checksum (pcrc p) body \<noteq> Residue (pcrc p) then Inr st
           else
             let serial = sub (Bytes data) 9 13 @ sub (Bytes data) 88 90 in
             if crc_Checksum (pcrc p) serial \<noteq> Residue (pcrc p) then Inr st
             else bind_res (NewIDM data) (\<lambda>idm.
               if IDM.ERTSerialNumber idm = 0 then Inr st
               else Inr (st\<lparr>msgs := msgs st @ [MIDM idm]\<rparr>))))"

text \<open>\<open>Parse\<close> has a pointer receiver: the index of the last packet and the set of packets seen
  stay in the parser; the set is emptied on entry.\<close>

definition idm_Parse :: "IdmParser \<Rightarrow> Data list \<Rightarrow> Message list \<Rightarrow> (IdmParser \<times> Message list) res" where
  "idm_Parse p pkts messages =
     bind_res (fold_res (idm_parse_step p)
         \<lparr>buf = Bytes (pdata p), seen = {}, msgs = messages\<rparr> pkts) (\<lambda>st.
     Inr (p\<lparr>pdata := (pdata p)\<lparr>Idx := (if pkts = [] then Idx (pdata p) else Idx (last pkts)),
                                Bytes := buf st\<rparr>, pseen := seen st\<rparr>, msgs st))"

section \<open>The streaming interval decoder\<close>

lemma unat_shift_in:
  assumes "unat (bits :: u32) < 2 ^ 24"
  shows "unat (push_bit 8 bits OR ucast (b :: u8)) = unat bits * 256 + unat b"
proof -
  have "push_bit 8 bits OR ucast b = push_bit 8 bits + (ucast b :: u32)"
    by (rule disjunctive_add [symmetric]) (auto simp: bit_simps)
  moreover have "unat (push_bit 8 bits) = unat bits * 256"
    using assms by (simp add: push_bit_eq_mult unat_mult_lem [THEN iffD1])
  moreover have "unat b < 256" using unsigned_less [of b] by simp
  moreover from this have "unat (ucast b :: u32) = unat b"
    by (simp add: unsigned_ucast_eq take_bit_nat_eq_self)
  ultimately show ?thesis using assms by (simp add: unat_plus_if')
qed

text \<open>Between two intervals the register holds the bits from the next interval's first bit to the
  next unread byte.\<close>

definition holds :: "u8 list \<Rightarrow> nat \<Rightarrow> u32 \<Rightarrow> nat \<Rightarrow> nat \<Rightarrow> bool" where
  "holds data start bits available byteIndex \<longleftrightarrow>
     8 * byteIndex = start + available \<and> byteIndex \<le> length data \<and> available \<le> 16 \<and>
     unat bits = field data start (start + available)"

lemma holds_shift_in:
  assumes "holds data start bits available byteIndex" "available < 9" "byteIndex < length data"
  shows "holds data start (push_bit 8 bits OR ucast (data ! byteIndex)) (available + 8) (byteIndex + 1)"
proof -
  have idx: "8 * byteIndex = start + available" and v: "unat bits = field data start (start + available)"
    using assms by (simp_all add: holds_def)
  have "unat bits < 2 ^ available"
    unfolding v using field_less [of start "start + available" data] by simp
  also have "\<dots> \<le> 2 ^ 24" using assms by (intro power_increasing) simp_all
  finally have "unat (push_bit 8 bits OR ucast (data ! byteIndex)) = unat bits * 256 + unat (data ! byteIndex)"
    by (rule unat_shift_in)
  also have "\<dots> = field data start (start + available) * 2 ^ 8 + field data (start + available) (start + available + 8)"
    using field_byte [OF assms(3)] by (simp add: v idx)
  also have "\<dots> = field data start (start + available + 8)"
    using field_split [of start "start + available" "start + available + 8" data] idx assms by simp
  finally show ?thesis using assms idx by (simp add: holds_def add.assoc)
qed

lemma refill_holds:
  assumes "holds data start bits available byteIndex" "start + 9 \<le> 8 * length data"
  shows "\<exists>bits' available' byteIndex'. refill data bits available byteIndex = Inr (bits', available', byteIndex') \<and>
    holds data start bits' available' byteIndex' \<and> 9 \<le> available'"
  using assms
proof (induction data bits available byteIndex rule: refill.induct)
  case (1 data bits available byteIndex)
  show ?case
  proof (cases "available < 9")
    case True
    have lt: "byteIndex < length data" using 1 True by (simp add: holds_def)
    then show ?thesis
      using 1 True holds_shift_in [OF _ True lt] by (simp add: refill.simps [of _ _ available])
  next
    case False
    then show ?thesis using 1 by (simp add: refill.simps [of _ _ available])
  qed
qed

lemma holds_take:
  assumes "holds data start bits (a + 9) byteIndex"
  shows "(ucast (drop_bit a bits) AND 0x01ff :: u16) = of_nat (field data start (start + 9))"
    and "holds data (start + 9) (if a = 0 then 0 else bits AND (push_bit a 1 - 1)) a byteIndex"
proof -
  have a: "a \<le> 7" and v: "unat bits = field data start (start + (a + 9))" and len: "start + (a + 9) \<le> 8 * length data"
    using assms by (simp_all add: holds_def)
  have split: "unat bits = field data start (start + 9) * 2 ^ a + field data (start + 9) (start + 9 + a)"
    using field_split [of start "start + 9" "start + (a + 9)" data] v len by (simp add: ac_simps)
  have lt9: "field data start (start + 9) < 2 ^ 9" and lta: "field data (start + 9) (start + 9 + a) < 2 ^ a"
    using field_less [of start "start + 9" data] field_less [of "start + 9" "start + 9 + a" data] by simp_all
  have hi: "unat (drop_bit a bits) = field data start (start + 9)"
  proof -
    have "unat (drop_bit a bits) = drop_bit a (unat bits)" by (rule unat_drop_bit_eq)
    also have "\<dots> = unat bits div 2 ^ a" by (rule drop_bit_eq_div)
    finally show ?thesis using lta by (simp add: split)
  qed
  show "(ucast (drop_bit a bits) AND 0x01ff :: u16) = of_nat (field data start (start + 9))"
  proof -
    have "(0x01ff :: u16) = mask 9" by (simp add: mask_eq_exp_minus_1)
    moreover have "(ucast (drop_bit a bits) :: u16) = of_nat (unat (drop_bit a bits))" by simp
    ultimately have "(ucast (drop_bit a bits) AND 0x01ff :: u16) = take_bit 9 (of_nat (field data start (start + 9)))"
      by (simp only: take_bit_eq_mask hi)
    also have "\<dots> = of_nat (field data start (start + 9))"
      using lt9 by (simp add: take_bit_of_nat take_bit_nat_eq_self)
    finally show ?thesis .
  qed
  have "unat (take_bit a bits) = take_bit a (unat bits)" by (rule unsigned_take_bit_eq)
  also have "\<dots> = unat bits mod 2 ^ a" by (rule take_bit_eq_mod)
  also have "take_bit a bits = bits AND (push_bit a 1 - 1)"
    by (simp add: take_bit_eq_mask mask_eq_exp_minus_1)
  finally have "unat (if a = 0 then 0 else bits AND (push_bit a 1 - 1)) = unat bits mod 2 ^ a"
    by simp
  then show "holds data (start + 9) (if a = 0 then 0 else bits AND (push_bit a 1 - 1)) a byteIndex"
    using assms split lta a by (simp add: holds_def)
qed

lemma decodeIntervals_loop_fields:
  assumes "holds data start bits available byteIndex" "start + n * 9 \<le> 8 * length data" "available < 9"
  shows "decodeIntervals_loop data n bits available byteIndex =
    Inr (map (\<lambda>k. of_nat (field data (start + k * 9) (start + Suc k * 9))) [0..<n])"
  using assms
proof (induction n arbitrary: start bits available byteIndex)
  case (Suc n)
  obtain bits' a' byteIndex' where r': "refill data bits available byteIndex = Inr (bits', a', byteIndex')"
    and h': "holds data start bits' a' byteIndex'" and "9 \<le> a'"
    using refill_holds [OF Suc.prems(1)] Suc.prems(2) by auto
  then obtain a where "a' = a + 9" by (metis add.commute le_Suc_ex)
  with r' h' have r: "refill data bits available byteIndex = Inr (bits', a + 9, byteIndex')"
    and h: "holds data start bits' (a + 9) byteIndex'" by simp_all
  have "a < 9" using h by (simp add: holds_def)
  with Suc.IH [OF holds_take(2) [OF h]] Suc.prems have
    "decodeIntervals_loop data n (if a = 0 then 0 else bits' AND (push_bit a 1 - 1)) a byteIndex' =
     Inr (map (\<lambda>k. of_nat (field data (start + 9 + k * 9) (start + 9 + Suc k * 9))) [0..<n])"
    by simp
  moreover have "[0..<Suc n] = 0 # map Suc [0..<n]" by (simp add: upt_conv_Cons map_Suc_upt del: upt_Suc)
  ultimately show ?case using r holds_take(1) [OF h]
    by (cases "a = 0") (simp_all add: Let_def add.assoc o_def del: upt_Suc push_bit_of_1)
qed simp

lemma decodeIntervals_fields:
  "length data = 53 \<Longrightarrow> decodeIntervals data =
     Inr (map (\<lambda>k. of_nat (field data (k * 9) (Suc k * 9))) [0..<47])"
  using decodeIntervals_loop_fields [of data 0 0 0 0 47]
  by (simp add: decodeIntervals_def holds_def field_def sub_def)

section \<open>The packet layout\<close>

definition idm_intervals :: "u8 list \<Rightarrow> u16 list" where
  "idm_intervals b = map (\<lambda>k. of_nat (field b (264 + k * 9) (264 + Suc k * 9))) [0..<47]"

definition idm_layout :: "u8 list \<Rightarrow> IDM" where
  "idm_layout b =
     \<lparr>IDM.Preamble = of_nat (field b 0 32), PacketTypeID = of_nat (field b 32 40),
      PacketLength = of_nat (field b 40 48), HammingCode = of_nat (field b 48 56),
      ApplicationVersion = of_nat (field b 56 64), ERTType = of_nat (field b 68 72),
      ERTSerialNumber = of_nat (field b 72 104), ConsumptionIntervalCount = of_nat (field b 104 112),
      ModuleProgrammingState = of_nat (field b 112 120), TamperCounters = sub b 15 21,
      AsynchronousCounters = of_nat (field b 168 184), PowerOutageFlags = sub b 23 29,
      LastConsumptionCount = of_nat (field b 232 264),
      DifferentialConsumptionIntervals = idm_intervals b,
      TransmitTimeOffset = of_nat (field b 688 704), SerialNumberCRC = of_nat (field b 704 720),
      PacketCRC = of_nat (field b 720 736)\<rparr>"

definition idm_accept :: "u8 list \<Rightarrow> Message option" where
  "idm_accept b =
     (if crc_Checksum CCITT (sub b 4 92) = 0x1D0F \<and>
         crc_Checksum CCITT (sub b 9 13 @ sub b 88 90) = 0x1D0F \<and>
         IDM.ERTSerialNumber (idm_layout b) \<noteq> 0
      then Some (MIDM (idm_layout b)) else None)"

lemma idm_intervals_bytes: "length b = 92 \<Longrightarrow> decodeIntervals (sub b 33 86) = Inr (idm_intervals b)"
  by (simp add: decodeIntervals_fields idm_intervals_def field_sub)

lemma idm_intervals_bits:
  "length b = 92 \<Longrightarrow> bit_intervals (chars_of_bits (bytes_bits b)) 9 264 47 = Inr (idm_intervals b)"
  by (simp add: bit_intervals_field idm_intervals_def)

lemma NewIDM_layout:
  assumes "length (Bytes d) = 92" and "Bits d = [] \<or> Bits d = chars_of_bits (bytes_bits (Bytes d))"
  shows "NewIDM d = Inr (idm_layout (Bytes d))"
proof -
  let ?b = "Bytes d"
  have "(if Bits d = [] then decodeIntervals (sub ?b 33 86) else bit_intervals (Bits d) 9 264 47)
      = Inr (idm_intervals ?b)"
    using assms by (auto simp: idm_intervals_bytes idm_intervals_bits)
  moreover have "(of_nat (field ?b 64 72) AND 0x0F :: u8) = of_nat (field ?b 68 72)"
    using low_nibble_field [of 8 ?b] byte_field [of 8 ?b] assms(1) by simp
  ultimately show ?thesis using assms(1)
    by (simp add: NewIDM_def idm_layout_def Uint16_field Uint32_field byte_field Let_def)
qed

abbreviation idm_ready :: "'a Parser_scheme \<Rightarrow> bool" where
  "idm_ready p \<equiv> pcrc p = CCITT \<and> Bits (pdata p) = []"

lemma idm_step_ok:
  assumes "idm_ready p" "length (buf st) = 92" "92 \<le> length (Bytes pkt)"
  shows "idm_parse_step p st pkt = Inr (let b = take 92 (Bytes pkt) in
      if b \<in> seen st then st\<lparr>buf := b\<rparr>
      else st\<lparr>buf := b, seen := insert b (seen st),
              msgs := msgs st @ (case idm_accept b of None \<Rightarrow> [] | Some m \<Rightarrow> [m])\<rparr>)"
proof -
  have "copy_into (buf st) (Bytes pkt) = take 92 (Bytes pkt)" using assms by (simp add: copy_into_ge)
  then show ?thesis using assms
    by (simp add: idm_parse_step_def NewIDM_layout idm_accept_def Residue_CCITT Let_def)
qed

interpretation idm_loop: packet_loop "idm_parse_step (idm_NewParser n)" 92 "\<lambda>_. True" idm_accept
  by unfold_locales (rule idm_step_ok, simp_all add: idm_NewParser_def CCITT_def)

definition idm_inv :: "IdmParser \<Rightarrow> bool" where
  "idm_inv p \<longleftrightarrow> idm_ready p \<and> length (Bytes (pdata p)) = 92"

lemma idm_inv_NewParser: "idm_inv (idm_NewParser n)"
  by (simp add: idm_inv_def idm_NewParser_def CCITT_def)

lemma idm_parse_step_ready:
  assumes "idm_ready p" "idm_ready q"
  shows "idm_parse_step p = idm_parse_step q"
  unfolding idm_parse_step_def assms [THEN conjunct1] assms [THEN conjunct2] by simp

lemma idm_Parse_result:
  assumes "idm_inv p" and "\<forall>pkt\<in>set pkts. 92 \<le> length (Bytes pkt)"
  shows "\<exists>p'. idm_Parse p pkts messages =
      Inr (p', messages @ List.map_filter idm_accept (distinct_packets 92 pkts)) \<and> idm_inv p'"
  using idm_loop.loop_result [of pkts "Bytes (pdata p)" 0 messages] assms
    idm_parse_step_ready [of p "idm_NewParser 0"] idm_inv_NewParser [of 0]
  by (auto simp: idm_Parse_def idm_inv_def)

lemma idm_accept_burst:
  assumes "idm_accept b \<noteq> None"
    and "bytes_bits (sub b 4 92) = p @ x @ s" "bytes_bits (sub b' 4 92) = p @ y @ s"
    and "length x = length y" "length x \<le> 16" "x \<noteq> y"
  shows "idm_accept b' = None"
  using assms ccitt_burst [OF assms(2-6)]
  by (auto simp: idm_accept_def crc_Checksum_CCITT split: if_splits)

section \<open>Properties\<close>

text \<open>C8: the streaming decoder of the 53 interval bytes, with its 32-bit register and its inner
  refill loop, returns and yields exactly the 47 consecutive 9-bit fields of those bytes, most
  significant bit first.\<close>

theorem idm_streaming_intervals_are_bit_fields:
  assumes "length data = 53"
  shows "decodeIntervals data = Inr (map (\<lambda>k. of_nat (field data (k * 9) (Suc k * 9))) [0..<47])"
  using assms by (rule decodeIntervals_fields)

theorem idm_streaming_intervals_are_bit_fields_witness:
  "decodeIntervals (map of_nat [0..<53]) =
     Inr (map (\<lambda>k. of_nat (field (map of_nat [0..<53]) (k * 9) (Suc k * 9))) [0..<47])"
  by (rule idm_streaming_intervals_are_bit_fields) simp

text \<open>\<open>NewIDM\<close> gives the same message whether it is handed the bit projection of the packet
  or only its bytes, so the decoder may omit the projection for this protocol.\<close>

theorem NewIDM_needs_no_bits:
  assumes "length bytes = 92"
  shows "NewIDM (newData bytes False) = NewIDM (newData bytes True)"
proof -
  have "Bits (newData bytes False) = []" "Bytes (newData bytes b) = bytes" for b
    by (simp_all add: newData_def)
  then show ?thesis using assms by (simp add: NewIDM_layout newData_Bits)
qed

theorem NewIDM_needs_no_bits_witness:
  "NewIDM (newData (replicate 92 7) False) = NewIDM (newData (replicate 92 7) True)"
  by (rule NewIDM_needs_no_bits) simp

text \<open>C7: \<open>Parse\<close> returns for every list of packets of at least 92 bytes, with or without their
  bit projection, and appends, once for each distinct packet of the call, the fields of those
  whose packet checksum over bytes 4 to 91 and serial number checksum over bytes 9 to 12 and 88
  to 89 both leave the CCITT residue and whose serial number is not zero; packets seen in
  earlier calls do not matter.\<close>

theorem idm_parse_appends_valid_packets:
  assumes "idm_inv p" and "\<forall>pkt\<in>set pkts. 92 \<le> length (Bytes pkt)"
  shows "\<exists>p'. idm_Parse p pkts messages =
      Inr (p', messages @ List.map_filter idm_accept (distinct_packets 92 pkts)) \<and> idm_inv p'"
  using assms by (rule idm_Parse_result)

theorem idm_parse_appends_valid_packets_witness:
  "\<exists>p'. idm_Parse (idm_NewParser 72) [NewData (replicate 92 0), newData (replicate 92 1) False] [] =
      Inr (p', [] @ List.map_filter idm_accept
        (distinct_packets 92 [NewData (replicate 92 0), newData (replicate 92 1) False])) \<and> idm_inv p'"
  by (rule idm_parse_appends_valid_packets [OF idm_inv_NewParser])
    (simp add: NewData_def newData_def)

end
