(* ===== verification/NetIdm.thy ===== *)
theory NetIdm
  imports Message
begin

text \<open>
  The parser of the net meter interval data message, \<^verbatim>\<open>src/netidm/netidm.go\<close>. It
  shares its preamble with IDM but reads its intervals from the bit projection of the packet.
\<close>

section \<open>The code\<close>

definition netidm_NewPacketConfig :: "nat \<Rightarrow> PacketConfig" where
  "netidm_NewPacketConfig chipLength =
     zeroPacketConfig\<lparr>CenterFreq := 912600155, DataRate := 32768, ChipLength := chipLength,
       PreambleSymbols := 32, PacketSymbols := 92 * 8,
       PacketConfig.Preamble := ''01010101010101010001011010100011''\<rparr>"

definition netidm_NewParser :: "nat \<Rightarrow> Parser" where
  "netidm_NewParser chipLength =
     \<lparr>pcrc = NewCRC ''CCITT'' 0xFFFF 0x1021 0x1D0F,
      pcfg = zeroPacketConfig\<lparr>Protocol := ''netidm'', CenterFreq := 912600155, DataRate := 32768,
        ChipLength := chipLength, PreambleSymbols := 32, PacketSymbols := 92 * 8,
        PacketConfig.Preamble := ''01010101010101010001011010100011''\<rparr>,
      pdata = \<lparr>Idx = 0, Bits = [], Bytes = replicate 92 0\<rparr>\<rparr>"

definition uint24 :: "u8 \<Rightarrow> u8 \<Rightarrow> u8 \<Rightarrow> u32" where
  "uint24 x y z = push_bit 16 (ucast x) OR push_bit 8 (ucast y) OR ucast z"

definition NewNetIDM :: "Data \<Rightarrow> NetIDM res" where
  "NewNetIDM data =
     (let b = Bytes data in
      if length b < 92 then Inl (Panic ''slice bounds out of range'')
      else bind_res (bit_intervals (Bits data) 14 (38 * 8) 27) (\<lambda>intervals. Inr
        \<lparr>NetIDM.Preamble = Uint32 (sub b 0 4),
         ProtocolID = b ! 4,
         PacketLength = b ! 5,
         HammingCode = b ! 6,
         ApplicationVersion = b ! 7,
         ERTType = b ! 8 AND 0x0F,
         ERTSerialNumber = Uint32 (sub b 9 13),
         ConsumptionIntervalCount = b ! 13,
         ProgrammingState = b ! 14,
         LastGeneration = uint24 (b ! 28) (b ! 29) (b ! 30),
         LastConsumption = uint24 (b ! 25) (b ! 26) (b ! 27),
         LastConsumptionNet = Uint32 (sub b 34 38),
         DifferentialConsumptionIntervals = intervals,
         TransmitTimeOffset = Uint16 (sub b 86 88),
         SerialNumberCRC = Uint16 (sub b 88 90),
         PacketCRC = Uint16 (sub b 90 92)\<rparr>))"

definition netidm_parse_step ::
    "Parser \<Rightarrow> Message parse_state \<Rightarrow> Data \<Rightarrow> Message parse_state res" where
  "netidm_parse_step p st pkt =
     bind_res (slice_res (Bits pkt) 0 (PacketSymbols (pcfg p))) (\<lambda>bits.
     let data = \<lparr>Idx = Idx pkt, Bits = bits, Bytes = copy_into (buf st) (Bytes pkt)\<rparr>;
         s = Bytes data;
         st = st\<lparr>buf := s\<rparr>
     in if s \<in> seen st then Inr st
        else let st = st\<lparr>seen := insert s (seen st)\<rparr> in
          bind_res (slice_res s 4 92) (\<lambda>body.
          if crc_Checksum (pcrc p) body \<noteq> Residue (pcrc p) then Inr st
          else
            let serial = sub s 9 13 @ sub s 88 90 in
            if crc_Checksum (pcrc p) serial \<noteq> Residue (pcrc p) then Inr st
            else bind_res (NewNetIDM data) (\<lambda>netidm.
              if NetIDM.ERTSerialNumber netidm = 0 then Inr st
              else Inr (st\<lparr>msgs := msgs st @ [MNetIDM netidm]\<rparr>))))"

definition netidm_Parse :: "Parser \<Rightarrow> Data list \<Rightarrow> Message list \<Rightarrow> (Parser \<times> Message list) res" where
  "netidm_Parse p pkts messages =
     bind_res (fold_res (netidm_parse_step p)
         \<lparr>buf = Bytes (pdata p), seen = {}, msgs = messages\<rparr> pkts) (\<lambda>st.
     Inr (p\<lparr>pdata := (pdata p)\<lparr>Bytes := buf st\<rparr>\<rparr>, msgs st))"

section \<open>The packet layout\<close>

definition netidm_layout :: "u8 list \<Rightarrow> NetIDM" where
  "netidm_layout b =
     \<lparr>NetIDM.Preamble = of_nat (field b 0 32), ProtocolID = of_nat (field b 32 40),
      PacketLength = of_nat (field b 40 48), HammingCode = of_nat (field b 48 56),
      ApplicationVersion = of_nat (field b 56 64), ERTType = of_nat (field b 68 72),
      ERTSerialNumber = of_nat (field b 72 104), ConsumptionIntervalCount = of_nat (field b 104 112),
      ProgrammingState = of_nat (field b 112 120), LastGeneration = of_nat (field b 224 248),
      LastConsumption = of_nat (field b 200 224), LastConsumptionNet = of_nat (field b 272 304),
      DifferentialConsumptionIntervals =
        map (\<lambda>k. of_nat (field b (304 + k * 14) (304 + Suc k * 14))) [0..<27],
      TransmitTimeOffset = of_nat (field b 688 704), SerialNumberCRC = of_nat (field b 704 720),
      PacketCRC = of_nat (field b 720 736)\<rparr>"

definition netidm_accept :: "u8 list \<Rightarrow> Message option" where
  "netidm_accept b =
     (if crc_Checksum CCITT (sub b 4 92) = 0x1D0F \<and>
         crc_Checksum CCITT (sub b 9 13 @ sub b 88 90) = 0x1D0F \<and>
         NetIDM.ERTSerialNumber (netidm_layout b) \<noteq> 0
      then Some (MNetIDM (netidm_layout b)) else None)"

lemma uint24_field:
  assumes "i + 3 \<le> length b"
  shows "uint24 (b ! i) (b ! Suc i) (b ! Suc (Suc i)) = of_nat (field b (8 * i) (8 * i + 24))"
proof -
  have "sub b i (i + 3) = [b ! i, b ! Suc i, b ! Suc (Suc i)]"
    using assms by (intro nth_equalityI) (auto simp: less_Suc_eq numeral_3_eq_3)
  then have "field b (8 * i) (8 * i + 24) = bits_val (bytes_bits [b ! i, b ! Suc i, b ! Suc (Suc i)])"
    using bytes_bits_sub [of b i "i + 3"] by (simp add: field_def algebra_simps)
  also have "\<dots> = bits_val (bytes_bits [0, b ! i, b ! Suc i, b ! Suc (Suc i)])"
    by (simp add: bits_val_append bits_val_byte_bits)
  finally have "of_nat (field b (8 * i) (8 * i + 24)) = Uint32 [0, b ! i, b ! Suc i, b ! Suc (Suc i)]"
    by (simp add: Uint32_bits)
  then show ?thesis by (simp add: uint24_def Uint32_def numeral_eq_Suc)
qed

lemma NewNetIDM_layout:
  assumes "length (Bytes d) = 92" and "Bits d = chars_of_bits (bytes_bits (Bytes d))"
  shows "NewNetIDM d = Inr (netidm_layout (Bytes d))"
proof -
  let ?b = "Bytes d"
  have "(of_nat (field ?b 64 72) AND 0x0F :: u8) = of_nat (field ?b 68 72)"
    using low_nibble_field [of 8 ?b] byte_field [of 8 ?b] assms(1) by simp
  moreover have "uint24 (?b ! 28) (?b ! 29) (?b ! 30) = of_nat (field ?b 224 248)"
    "uint24 (?b ! 25) (?b ! 26) (?b ! 27) = of_nat (field ?b 200 224)"
    using uint24_field [of 28 ?b] uint24_field [of 25 ?b] assms(1) by (simp_all add: numeral_eq_Suc)
  ultimately show ?thesis using assms
    by (simp add: NewNetIDM_def netidm_layout_def Uint16_field Uint32_field bit_intervals_field Let_def)
      (simp add: byte_field)
qed

abbreviation netidm_ready :: "Parser \<Rightarrow> bool" where
  "netidm_ready p \<equiv> pcrc p = CCITT \<and> PacketSymbols (pcfg p) = 736"

lemma netidm_step_ok:
  assumes "netidm_ready p" "projected pkt" "length (buf st) = 92" "92 \<le> length (Bytes pkt)"
  shows "netidm_parse_step p st pkt = Inr (let b = take 92 (Bytes pkt) in
      if b \<in> seen st then st\<lparr>buf := b\<rparr>
      else st\<lparr>buf := b, seen := insert b (seen st),
              msgs := msgs st @ (case netidm_accept b of None \<Rightarrow> [] | Some m \<Rightarrow> [m])\<rparr>)"
proof -
  let ?b = "take 92 (Bytes pkt)"
  have bits: "sub (Bits pkt) 0 736 = chars_of_bits (bytes_bits ?b)"
    using sub_Bits_take [of pkt 92] assms by simp
  have "length (Bits pkt) \<ge> 736" using assms projected_length [of pkt] by simp
  moreover have "copy_into (buf st) (Bytes pkt) = ?b" using assms by (simp add: copy_into_ge)
  ultimately show ?thesis using assms bits
    by (simp add: netidm_parse_step_def NewNetIDM_layout netidm_accept_def Residue_CCITT Let_def)
qed

interpretation netidm_loop: packet_loop "netidm_parse_step (netidm_NewParser n)" 92 projected netidm_accept
  by unfold_locales (rule netidm_step_ok, simp_all add: netidm_NewParser_def CCITT_def)

definition netidm_inv :: "Parser \<Rightarrow> bool" where
  "netidm_inv p \<longleftrightarrow> netidm_ready p \<and> length (Bytes (pdata p)) = 92"

lemma netidm_inv_NewParser: "netidm_inv (netidm_NewParser n)"
  by (simp add: netidm_inv_def netidm_NewParser_def CCITT_def)

lemma netidm_parse_step_ready:
  assumes "netidm_ready p" "netidm_ready q"
  shows "netidm_parse_step p = netidm_parse_step q"
  unfolding netidm_parse_step_def assms [THEN conjunct1] assms [THEN conjunct2] by simp

lemma netidm_Parse_result:
  assumes "netidm_inv p" and "\<forall>pkt\<in>set pkts. projected pkt \<and> 92 \<le> length (Bytes pkt)"
  shows "\<exists>p'. netidm_Parse p pkts messages =
      Inr (p', messages @ List.map_filter netidm_accept (distinct_packets 92 pkts)) \<and> netidm_inv p'"
  using netidm_loop.loop_result [of pkts "Bytes (pdata p)" 0 messages] assms
    netidm_parse_step_ready [of p "netidm_NewParser 0"] netidm_inv_NewParser [of 0]
  by (auto simp: netidm_Parse_def netidm_inv_def)

lemma netidm_accept_burst:
  assumes "netidm_accept b \<noteq> None"
    and "bytes_bits (sub b 4 92) = p @ x @ s" "bytes_bits (sub b' 4 92) = p @ y @ s"
    and "length x = length y" "length x \<le> 16" "x \<noteq> y"
  shows "netidm_accept b' = None"
  using assms ccitt_burst [OF assms(2-6)]
  by (auto simp: netidm_accept_def crc_Checksum_CCITT split: if_splits)

section \<open>Properties\<close>

text \<open>\<open>Parse\<close> returns for every list of projected packets of at least 92 bytes and appends,
  once for each distinct packet, the fields of those whose packet and serial number checksums
  leave the CCITT residue and whose serial number is not zero, the 27 intervals being the
  14-bit fields from bit 304 on.\<close>

theorem netidm_parse_appends_valid_packets:
  assumes "netidm_inv p" and "\<forall>pkt\<in>set pkts. projected pkt \<and> 92 \<le> length (Bytes pkt)"
  shows "\<exists>p'. netidm_Parse p pkts messages =
      Inr (p', messages @ List.map_filter netidm_accept (distinct_packets 92 pkts)) \<and> netidm_inv p'"
  using assms by (rule netidm_Parse_result)

theorem netidm_parse_appends_valid_packets_witness:
  "\<exists>p'. netidm_Parse (netidm_NewParser 72) [NewData (replicate 92 0), NewData (replicate 92 1)] [] =
      Inr (p', [] @ List.map_filter netidm_accept
        (distinct_packets 92 [NewData (replicate 92 0), NewData (replicate 92 1)])) \<and> netidm_inv p'"
  by (rule netidm_parse_appends_valid_packets [OF netidm_inv_NewParser])
    (simp add: NewData_def, simp add: newData_def)

text \<open>A packet without its bit projection makes \<open>Parse\<close> panic, so NetIDM must never be
  handed packets whose projection was omitted.\<close>

theorem netidm_needs_bits:
  "netidm_Parse (netidm_NewParser n) (newData bytes False # pkts) messages =
     Inl (Panic ''slice bounds out of range'')"
  by (simp add: netidm_Parse_def netidm_parse_step_def netidm_NewParser_def newData_def slice_res_def)

end
