(* ===== verification/Files.thy ===== *)
theory Files
  imports Prelude
begin

text \<open>
  The files that the receiver writes for good: \<open>writeExclusiveSynced\<close>, \<open>syncDirectory\<close> and
  \<open>writeAtomicSynced\<close> of \<^verbatim>\<open>src/duty_runtime.go\<close>. The operating system answers every call
  with success or with an error; which, and how much of a failed write reaches the file, is a parameter. The
  state keeps, next to the files, what a reader could have seen after each call so far.
\<close>

section \<open>Calls of the operating system\<close>

type_synonym directory = "string \<Rightarrow> u8 list option"

record disk =
  files :: directory
  past :: "directory list"

record os =
  answer :: "nat \<Rightarrow> (string \<times> nat) option"
  temp_name :: "nat \<Rightarrow> string \<Rightarrow> string"

definition os_call :: "os \<Rightarrow> ((string \<times> nat) option \<Rightarrow> directory \<Rightarrow> directory) \<Rightarrow> disk \<Rightarrow> disk \<times> string option" where
  "os_call os f d =
     (let a = answer os (length (past d)); fs = f a (files d)
      in (\<lparr>files = fs, past = past d @ [fs]\<rparr>, map_option fst a))"

text \<open>A file created exclusively did not exist before. A temporary file has a name that the library makes up.\<close>

definition os_create :: "os \<Rightarrow> string \<Rightarrow> disk \<Rightarrow> disk \<times> string option" where
  "os_create os p d =
     (if files d p \<noteq> None then (d, Some ''file exists'')
      else os_call os (\<lambda>a fs. if a = None then fs(p := Some []) else fs) d)"

definition os_create_temp :: "os \<Rightarrow> string \<Rightarrow> disk \<Rightarrow> disk \<times> string \<times> string option" where
  "os_create_temp os pattern d =
     (let p = temp_name os (length (past d)) pattern; (d, err) = os_create os p d in (d, p, err))"

definition os_write :: "os \<Rightarrow> string \<Rightarrow> u8 list \<Rightarrow> disk \<Rightarrow> disk \<times> string option" where
  "os_write os p contents =
     os_call os (\<lambda>a fs. fs(p := Some (case a of None \<Rightarrow> contents | Some (_, n) \<Rightarrow> take n contents)))"

text \<open>Changing the mode of a file, synchronising it, closing it, or opening a directory does not change
  the contents.\<close>

definition os_other :: "os \<Rightarrow> disk \<Rightarrow> disk \<times> string option" where
  "os_other os = os_call os (\<lambda>a fs. fs)"

definition os_rename :: "os \<Rightarrow> string \<Rightarrow> string \<Rightarrow> disk \<Rightarrow> disk \<times> string option" where
  "os_rename os p q = os_call os (\<lambda>a fs. if a = None then fs(p := None, q := fs p) else fs)"

definition os_remove :: "os \<Rightarrow> string \<Rightarrow> disk \<Rightarrow> disk \<times> string option" where
  "os_remove os p = os_call os (\<lambda>a fs. if a = None then fs(p := None) else fs)"

section \<open>The writers\<close>

definition writeExclusiveSynced :: "os \<Rightarrow> string \<Rightarrow> u8 list \<Rightarrow> disk \<Rightarrow> disk \<times> string option" where
  "writeExclusiveSynced os path contents d =
     (case os_create os path d of
        (d, Some err) \<Rightarrow> (d, Some err)
      | (d, None) \<Rightarrow>
        let (d, encodeErr) = os_write os path contents d;
            (d, syncErr) = os_other os d;
            (d, closeErr) = os_other os d
        in if encodeErr \<noteq> None then (d, encodeErr) else if syncErr \<noteq> None then (d, syncErr) else (d, closeErr))"

definition syncDirectory :: "os \<Rightarrow> disk \<Rightarrow> disk \<times> string option" where
  "syncDirectory os d =
     (case os_other os d of
        (d, Some err) \<Rightarrow> (d, Some err)
      | (d, None) \<Rightarrow>
        let (d, syncErr) = os_other os d;
            (d, closeErr) = os_other os d
        in if syncErr \<noteq> None then (d, syncErr) else (d, closeErr))"

text \<open>The deferred removal of the temporary file, whose own error is dropped, and a failed step that closes the
  file first.\<close>

definition abandon :: "os \<Rightarrow> string \<Rightarrow> string \<Rightarrow> disk \<Rightarrow> disk \<times> string option" where
  "abandon os p err d = (let (d, _) = os_remove os p d in (d, Some err))"

definition close_abandon :: "os \<Rightarrow> string \<Rightarrow> string \<Rightarrow> disk \<Rightarrow> disk \<times> string option" where
  "close_abandon os p err d = (let (d, _) = os_other os d in abandon os p err d)"

definition writeAtomicSynced :: "os \<Rightarrow> string \<Rightarrow> string \<Rightarrow> u8 list \<Rightarrow> disk \<Rightarrow> disk \<times> string option" where
  "writeAtomicSynced os pattern path contents d =
     (case os_create_temp os pattern d of
        (d, p, Some err) \<Rightarrow> (d, Some err)
      | (d, p, None) \<Rightarrow>
     (case os_other os d of
        (d, Some err) \<Rightarrow> close_abandon os p err d
      | (d, None) \<Rightarrow>
     (case os_write os p contents d of
        (d, Some err) \<Rightarrow> close_abandon os p err d
      | (d, None) \<Rightarrow>
     (case os_other os d of
        (d, Some err) \<Rightarrow> close_abandon os p err d
      | (d, None) \<Rightarrow>
     (case os_other os d of
        (d, Some err) \<Rightarrow> abandon os p err d
      | (d, None) \<Rightarrow>
     (case os_rename os p path d of
        (d, Some err) \<Rightarrow> abandon os p err d
      | (d, None) \<Rightarrow> syncDirectory os d))))))"

section \<open>What a call may change\<close>

text \<open>Between two states only the names in a set may have changed, at every moment in between.\<close>

definition only :: "string set \<Rightarrow> disk \<Rightarrow> disk \<Rightarrow> bool" where
  "only S d d' \<longleftrightarrow> (\<exists>hs. past d' = past d @ hs \<and> (\<forall>fs \<in> set (files d' # hs). \<forall>q. q \<notin> S \<longrightarrow> fs q = files d q))"

lemma only_trans: "only S d d' \<Longrightarrow> only S d' d'' \<Longrightarrow> only S d d''"
  unfolding only_def by fastforce

lemma only_mono: "only S d d' \<Longrightarrow> S \<subseteq> T \<Longrightarrow> only T d d'"
  unfolding only_def by blast

lemma only_files: "only S d d' \<Longrightarrow> q \<notin> S \<Longrightarrow> files d' q = files d q"
  unfolding only_def by auto

lemma os_call_only:
  assumes "os_call os f d = (d', err)" "\<And>a q. q \<notin> S \<Longrightarrow> f a (files d) q = files d q"
  shows "only S d d'"
  using assms by (auto simp: os_call_def only_def Let_def)

lemma os_create_only: "os_create os p d = (d', err) \<Longrightarrow> only {p} d d'"
  unfolding os_create_def by (auto simp: only_def split: if_splits dest!: os_call_only [where S = "{p}"])

lemma os_write_only: "os_write os p c d = (d', err) \<Longrightarrow> only {p} d d'"
  unfolding os_write_def by (erule os_call_only) simp

lemma os_other_only: "os_other os d = (d', err) \<Longrightarrow> only {} d d'"
  unfolding os_other_def by (erule os_call_only) simp

lemma os_remove_only: "os_remove os p d = (d', err) \<Longrightarrow> only {p} d d'"
  unfolding os_remove_def by (erule os_call_only) simp

lemma os_write_done: "os_write os p c d = (d', None) \<Longrightarrow> files d' p = Some c"
  by (auto simp: os_write_def os_call_def Let_def)

lemma os_rename_cases:
  assumes "os_rename os p q d = (d', err)"
  shows "\<exists>fs. files d' = fs \<and> past d' = past d @ [fs] \<and> fs = (if err = None then (files d)(p := None, q := files d p) else files d)"
  using assms by (auto simp: os_rename_def os_call_def Let_def)

lemma abandon_only: "abandon os p err d = (d', e) \<Longrightarrow> only {p} d d' \<and> e = Some err"
  by (auto simp: abandon_def split: prod.splits dest: os_remove_only)

lemma close_abandon_only: "close_abandon os p err d = (d', e) \<Longrightarrow> only {p} d d' \<and> e = Some err"
  unfolding close_abandon_def
  by (auto split: prod.splits dest!: abandon_only os_other_only intro: only_trans only_mono [of "{}"])

lemma syncDirectory_only: "syncDirectory os d = (d', e) \<Longrightarrow> only {} d d'"
  unfolding syncDirectory_def
  by (auto split: prod.splits option.splits if_splits dest!: os_other_only intro: only_trans)

text \<open>Up to the renaming only the temporary file changes; the renaming installs the contents at once.\<close>

lemma writeAtomicSynced_cases:
  assumes "writeAtomicSynced os pattern path contents d = (d', err)"
  defines "p \<equiv> temp_name os (length (past d)) pattern"
  shows "err \<noteq> None \<and> only {p} d d' \<or>
    (\<exists>d1 d2. only {p} d d1 \<and> files d p = None \<and> files d1 p = Some contents \<and>
       files d2 = (files d1)(p := None, path := Some contents) \<and> past d2 = past d1 @ [files d2] \<and> only {} d2 d')"
proof -
  obtain d1 e1 where s1: "os_create os p d = (d1, e1)" by fastforce
  obtain d2 e2 where s2: "os_other os d1 = (d2, e2)" by fastforce
  obtain d3 e3 where s3: "os_write os p contents d2 = (d3, e3)" by fastforce
  obtain d4 e4 where s4: "os_other os d3 = (d4, e4)" by fastforce
  obtain d5 e5 where s5: "os_other os d4 = (d5, e5)" by fastforce
  obtain d6 e6 where s6: "os_rename os p path d5 = (d6, e6)" by fastforce
  have p0: "only {} a b \<Longrightarrow> only {p} a b" for a b using only_mono [of "{}" a b "{p}"] by blast
  have o1: "only {p} d d1" by (rule os_create_only [OF s1])
  have o2: "only {p} d d2" using o1 os_other_only [OF s2] by (blast intro: only_trans p0)
  have o3: "only {p} d d3" using o2 os_write_only [OF s3] by (rule only_trans)
  have o4: "only {p} d d4" using o3 os_other_only [OF s4] by (blast intro: only_trans p0)
  have o5: "only {p} d d5" using o4 os_other_only [OF s5] by (blast intro: only_trans p0)
  note r = os_rename_cases [OF s6]
  have o6: "e6 \<noteq> None \<Longrightarrow> only {p} d d6"
    using o5 r by (elim only_trans) (auto simp: only_def)
  note w = assms(1) [unfolded writeAtomicSynced_def os_create_temp_def Let_def, folded p_def, unfolded s1, simplified]
  consider (fail) x c where "only {p} d x" "abandon os p c x = (d', err) \<or> close_abandon os p c x = (d', err) \<or> (d', err) = (x, Some c)"
    | (ok) "e1 = None" "e3 = None" "e6 = None" "e4 = None" "e5 = None" "syncDirectory os d6 = (d', err)"
    using w o1 o2 o3 o4 o5 o6 unfolding s2 s3 s4 s5 s6
    by (cases e1; simp; cases e2; simp add: s2 s3; cases e3; simp add: s3 s4; cases e4; simp add: s4 s5; cases e5; simp add: s5 s6; cases e6; simp add: s6) blast+
  then show ?thesis
  proof cases
    case fail
    then show ?thesis using abandon_only close_abandon_only by (fast intro: only_trans)
  next
    case ok
    have "files d p = None" using s1 ok(1) by (auto simp: os_create_def split: if_splits)
    moreover have "files d5 p = Some contents"
      using os_write_done s3 ok(2) only_files [OF os_other_only [OF s4], of p] only_files [OF os_other_only [OF s5], of p] by fastforce
    ultimately show ?thesis using ok(3) r o5 syncDirectory_only [OF ok(6)] by (intro disjI2 exI [of _ d5] exI [of _ d6]) simp
  qed
qed

section \<open>Property\<close>

text \<open>C32: A report or the file \<^verbatim>\<open>latest.json\<close> is replaced all at once: whichever calls of the operating system fail,
  and however much of a failed write reaches the disk, a reader of the path sees the old contents or the
  complete new contents after every single call; success means that exactly this file has changed and that no temporary
  file is left; and no file but the path and a temporary file is ever touched.\<close>
theorem atomic_write_all_or_nothing:
  assumes w: "writeAtomicSynced os pattern path contents d = (d', err)" and temp: "\<forall>n. temp_name os n pattern \<noteq> path"
  shows "(\<exists>hs. past d' = past d @ hs \<and> (\<forall>fs \<in> set (files d' # hs). fs path = files d path \<or> fs path = Some contents)) \<and>
    (err = None \<longrightarrow> files d' = (files d)(path := Some contents)) \<and>
    (\<forall>q. q \<noteq> path \<and> (\<forall>n. q \<noteq> temp_name os n pattern) \<longrightarrow> files d' q = files d q)"
  using writeAtomicSynced_cases [OF w]
proof (elim disjE conjE exE)
  assume "err \<noteq> None" "only {temp_name os (length (past d)) pattern} d d'"
  then obtain hs where "past d' = past d @ hs"
      "\<forall>fs \<in> set (files d' # hs). \<forall>q. q \<noteq> temp_name os (length (past d)) pattern \<longrightarrow> fs q = files d q"
    unfolding only_def by auto
  moreover have "path \<noteq> temp_name os (length (past d)) pattern" using temp by metis
  ultimately show ?thesis using \<open>err \<noteq> None\<close> by auto
next
  let ?p = "temp_name os (length (past d)) pattern"
  fix d1 d2
  assume a: "only {?p} d d1" "files d ?p = None" "files d1 ?p = Some contents"
    "files d2 = (files d1)(?p := None, path := Some contents)" "past d2 = past d1 @ [files d2]" "only {} d2 d'"
  obtain hs where hs: "past d1 = past d @ hs" "\<forall>fs \<in> set (files d1 # hs). \<forall>q. q \<noteq> ?p \<longrightarrow> fs q = files d q"
    using a(1) unfolding only_def by auto
  obtain ks where ks: "past d' = past d2 @ ks" "\<forall>fs \<in> set (files d' # ks). \<forall>q. fs q = files d2 q"
    using a(6) unfolding only_def by auto
  have ne: "path \<noteq> ?p" using temp by metis
  have "past d' = past d @ (hs @ [files d2] @ ks)" using hs(1) ks(1) a(5) by simp
  moreover have "\<forall>fs \<in> set (files d' # hs @ [files d2] @ ks). fs path = files d path \<or> fs path = Some contents"
    using hs(2) ks(2) a(4) ne by auto
  moreover have "files d' = (files d)(path := Some contents)"
    using ks(2) hs(2) a(2,4) by (intro ext) simp
  ultimately show ?thesis by auto
qed

definition demo_os :: os where
  "demo_os = \<lparr>answer = (\<lambda>n. if n = 2 then Some (''disk full'', 1) else None), temp_name = (\<lambda>n pattern. pattern @ replicate n (CHR ''0''))\<rparr>"

definition demo_disk :: disk where
  "demo_disk = \<lparr>files = Map.empty(''r'' \<mapsto> [1, 2]), past = []\<rparr>"

theorem atomic_write_all_or_nothing_witness:
  "\<exists>d'. writeAtomicSynced demo_os ''.report-'' ''r'' [3, 4] demo_disk = (d', Some ''disk full'') \<and>
     (files d' ''r'' = Some [1, 2] \<or> files d' ''r'' = Some [3, 4])"
proof -
  obtain d' where w: "writeAtomicSynced demo_os ''.report-'' ''r'' [3, 4] demo_disk = (d', Some ''disk full'')"
    by (simp add: writeAtomicSynced_def os_create_temp_def os_create_def os_call_def os_other_def os_write_def close_abandon_def
      abandon_def os_remove_def demo_os_def demo_disk_def Let_def)
  have "\<forall>n. temp_name demo_os n ''.report-'' \<noteq> ''r''" by (simp add: demo_os_def)
  from atomic_write_all_or_nothing [OF w this] show ?thesis using w by (auto simp: demo_disk_def)
qed

end
