(* ===== verification/Window.thy ===== *)
theory Window
  imports Packet
begin

text \<open>
  The histories of the decoder, \<^verbatim>\<open>src/protocol/decode.go\<close> and
  \<^verbatim>\<open>src/protocol/power16.go\<close>: every buffer that a block of samples is appended to is
  meant to be a sliding window over the stream of blocks. The interface says so, and each of
  the ring buffers of the code (the decision ring, its direct-write variant, the packed ring,
  the sample history) is an interpretation of it.
\<close>

section \<open>The interface\<close>

locale sliding_window =
  fixes inv :: "'s \<Rightarrow> bool" and view :: "'s \<Rightarrow> 'a list" and push :: "'s \<Rightarrow> 'a list \<Rightarrow> 's res"
    and N :: nat
  assumes push_view: "inv s \<Longrightarrow> length b = N \<Longrightarrow>
      \<exists>s'. push s b = Inr s' \<and> inv s' \<and> view s' = drop N (view s) @ b"
    and view_length: "inv s \<Longrightarrow> N \<le> length (view s)"
begin

text \<open>After any number of blocks the window shows the end of the stream.\<close>

lemma view_pushes:
  "inv s \<Longrightarrow> \<forall>b\<in>set bs. length b = N \<Longrightarrow>
     \<exists>s'. fold_res push s bs = Inr s' \<and> inv s' \<and> view s' = drop (N * length bs) (view s @ concat bs)"
proof (induction bs arbitrary: s)
  case (Cons b bs)
  obtain s1 where s1: "push s b = Inr s1" "inv s1" "view s1 = drop N (view s) @ b"
    using push_view [OF Cons.prems(1)] Cons.prems(2) by auto
  obtain s' where s': "fold_res push s1 bs = Inr s'" "inv s'"
    "view s' = drop (N * length bs) (view s1 @ concat bs)"
    using Cons.IH [OF s1(2)] Cons.prems(2) by auto
  have "view s1 @ concat bs = drop N (view s @ concat (b # bs))"
    using s1(3) Cons.prems view_length [of s] by simp
  then have "view s' = drop (N * length (b # bs)) (view s @ concat (b # bs))"
    using s'(3) by (simp only: drop_drop list.size) (simp add: add.commute)
  with s1 s' show ?case by simp
qed simp

lemma length_view_pushes:
  "inv s \<Longrightarrow> \<forall>b\<in>set bs. length b = N \<Longrightarrow> fold_res push s bs = Inr s' \<Longrightarrow> length (view s') = length (view s)"
proof (induction bs arbitrary: s)
  case (Cons b bs)
  obtain s1 where s1: "push s b = Inr s1" "inv s1" "view s1 = drop N (view s) @ b"
    using push_view [OF Cons.prems(1)] Cons.prems(2) by auto
  then show ?case using Cons view_length [of s] by simp
qed simp

end

section \<open>Rotations\<close>

text \<open>A ring of which logical position \<open>k\<close> is stored at \<open>start + k\<close>, modulo the length.\<close>

definition rotated :: "'a list \<Rightarrow> nat \<Rightarrow> 'a list" where
  "rotated xs start = drop start xs @ take start xs"

lemma length_rotated [simp, len_simps]: "length (rotated xs start) = length xs"
  by (simp add: rotated_def)

lemma nth_rotated:
  assumes "start \<le> length xs" "k < length xs"
  shows "rotated xs start ! k = xs ! (if start + k \<ge> length xs then start + k - length xs else start + k)"
proof (cases "start + k \<ge> length xs")
  case True
  then have "\<not> k < length xs - start" by simp
  with True assms show ?thesis by (simp add: rotated_def nth_append add.commute)
next
  case False
  then have "k < length xs - start" by simp
  with False assms show ?thesis by (simp add: rotated_def nth_append)
qed

definition wrap :: "nat \<Rightarrow> nat \<Rightarrow> nat" where
  "wrap n i = (if i \<ge> n then i - n else i)"

lemma wrap_less: "i < 2 * n \<Longrightarrow> wrap n i < n"
  by (auto simp: wrap_def)

lemma dvd_wrap: "k dvd n \<Longrightarrow> k dvd i \<Longrightarrow> k dvd wrap n i"
  by (simp add: wrap_def dvd_diff_nat)

lemma nth_rotated_wrap:
  "start \<le> length xs \<Longrightarrow> k < length xs \<Longrightarrow> rotated xs start ! k = xs ! wrap (length xs) (start + k)"
  by (simp add: nth_rotated wrap_def)

text \<open>Advancing the start by \<open>n\<close> and overwriting the \<open>n\<close> oldest cells, which lie at the
  new logical end, shows the window slid by \<open>n\<close>.\<close>

lemma rotated_slide:
  assumes len: "length ys = length xs" "length b = n" "n \<le> length xs" "start < length xs"
    and new: "\<And>k. k < n \<Longrightarrow> ys ! wrap (length xs) (start + k) = b ! k"
    and old: "\<And>k. n \<le> k \<Longrightarrow> k < length xs \<Longrightarrow> ys ! wrap (length xs) (start + k) = xs ! wrap (length xs) (start + k)"
  shows "rotated ys (wrap (length xs) (start + n)) = drop n (rotated xs start) @ b"
proof (rule nth_equalityI)
  show "length (rotated ys (wrap (length xs) (start + n))) = length (drop n (rotated xs start) @ b)"
    using len by simp
  fix k assume "k < length (rotated ys (wrap (length xs) (start + n)))"
  then have k: "k < length xs" using len by simp
  have s: "wrap (length xs) (start + n) \<le> length ys" using len by (auto simp: wrap_def)
  show "rotated ys (wrap (length xs) (start + n)) ! k = (drop n (rotated xs start) @ b) ! k"
  proof (cases "k < length xs - n")
    case True
    have "wrap (length xs) (wrap (length xs) (start + n) + k) = wrap (length xs) (start + (n + k))"
      using len True by (auto simp: wrap_def)
    then show ?thesis using len k s True old [of "n + k"]
      by (simp add: nth_rotated_wrap nth_append)
  next
    case False
    have "wrap (length xs) (wrap (length xs) (start + n) + k) = wrap (length xs) (start + (k - (length xs - n)))"
      using len False k by (auto simp: wrap_def)
    then show ?thesis using len k s False new [of "k - (length xs - n)"]
      by (simp add: nth_rotated_wrap nth_append)
  qed
qed

text \<open>The cells of a ring of length \<open>P\<close> after a block was written at \<open>t\<close>, wrapping.\<close>

lemma ring_cells:
  assumes "t < P" "B \<le> P"
    and cell: "\<And>j. j < P \<Longrightarrow> ys ! j = (if j + P < t + B then block ! (j + P - t)
      else if t \<le> j \<and> j < t + B then block ! (j - t) else xs ! j)"
  shows "k < B \<Longrightarrow> ys ! wrap P (t + k) = block ! k"
    and "B \<le> k \<Longrightarrow> k < P \<Longrightarrow> ys ! wrap P (t + k) = xs ! wrap P (t + k)"
proof -
  have lt: "wrap P (t + k) < P" if "k < P" for k using assms(1) that by (auto simp: wrap_def)
  show "ys ! wrap P (t + k) = block ! k" if "k < B"
    unfolding cell [OF lt [OF less_le_trans [OF that assms(2)]]] using that assms(1,2) by (auto simp: wrap_def)
  show "ys ! wrap P (t + k) = xs ! wrap P (t + k)" if "B \<le> k" "k < P"
    unfolding cell [OF lt [OF that(2)]] using that assms(1,2) by (auto simp: wrap_def)
qed

section \<open>The decision ring\<close>

text \<open>The fields of the decoder that hold the bit decisions. When \<open>quantizedBacking\<close> has been
  allocated, \<open>Quantized\<close> is its prefix of \<open>BufferLength\<close> bytes (\<open>quantizedAliased\<close>);
  otherwise, or when a caller replaced the exported slice, it is storage of its own.\<close>

record Ring =
  Cfg :: PacketConfig
  quantizedBacking :: "u8 list"
  quantizedAliased :: bool
  QuantizedOwn :: "u8 list"
  quantizedStart :: nat

definition Quantized :: "'a Ring_scheme \<Rightarrow> u8 list" where
  "Quantized d = (if quantizedAliased d then take (BufferLength (Cfg d)) (quantizedBacking d)
     else QuantizedOwn d)"

definition set_Quantized :: "'a Ring_scheme \<Rightarrow> u8 list \<Rightarrow> 'a Ring_scheme" where
  "set_Quantized d q = (if quantizedAliased d
     then d\<lparr>quantizedBacking := q @ drop (length q) (quantizedBacking d)\<rparr>
     else d\<lparr>QuantizedOwn := q\<rparr>)"

definition appendQuantized :: "'a Ring_scheme \<Rightarrow> u8 list \<Rightarrow> 'a Ring_scheme res" where
  "appendQuantized d block =
     (let n = length (Quantized d);
          start0 = quantizedStart d + BlockSize (Cfg d);
          start = (if start0 \<ge> n then start0 - n else start0);
          tail0 = start + PacketConfig.PacketLength (Cfg d);
          tail = (if tail0 \<ge> n then tail0 - n else tail0);
          first = (if n - tail < length block then n - tail else length block)
      in if tail > n then Inl (Panic ''slice bounds out of range'')
         else
           let q = write_at (Quantized d) tail (take first block);
               q = copy_into q (drop first block)
           in Inr (set_Quantized (d\<lparr>quantizedStart := start\<rparr>) q))"

definition quantizedAt :: "'a Ring_scheme \<Rightarrow> nat \<Rightarrow> u8 res" where
  "quantizedAt d idx =
     (let idx = idx + quantizedStart d;
          idx = (if idx \<ge> length (Quantized d) then idx - length (Quantized d) else idx)
      in index_res (Quantized d) idx)"

definition ownsQuantizedRing :: "'a Ring_scheme \<Rightarrow> bool" where
  "ownsQuantizedRing d \<longleftrightarrow>
     length (Quantized d) = BufferLength (Cfg d) \<and> length (Quantized d) \<noteq> 0 \<and>
     length (quantizedBacking d) = BufferLength (Cfg d) + BlockSize (Cfg d) \<and> quantizedAliased d"

text \<open>The destination is returned as the position \<open>tail\<close> of its first byte.\<close>

definition nextQuantizedOutput :: "'a Ring_scheme \<Rightarrow> (nat \<times> nat) res" where
  "nextQuantizedOutput d =
     (let n = length (Quantized d);
          next0 = quantizedStart d + BlockSize (Cfg d);
          nextStart = (if next0 \<ge> n then next0 - n else next0);
          tail0 = nextStart + PacketConfig.PacketLength (Cfg d);
          tail = (if tail0 \<ge> n then tail0 - n else tail0)
      in if tail + BlockSize (Cfg d) > length (quantizedBacking d)
         then Inl (Panic ''slice bounds out of range'')
         else Inr (nextStart, tail))"

definition commitQuantizedOutput :: "'a Ring_scheme \<Rightarrow> nat \<Rightarrow> nat \<Rightarrow> nat \<Rightarrow> 'a Ring_scheme" where
  "commitQuantizedOutput d nextStart tail count =
     (let n = length (Quantized d);
          endPos = tail + count;
          d' = (if endPos > n
                then set_Quantized d (copy_into (Quantized d) (sub (quantizedBacking d) n endPos))
                else d)
      in d'\<lparr>quantizedStart := nextStart\<rparr>)"

text \<open>What the packed producer does with the two: it writes a block at the destination, and the
  decoder commits it.\<close>

definition direct_write :: "'a Ring_scheme \<Rightarrow> u8 list \<Rightarrow> 'a Ring_scheme res" where
  "direct_write d block =
     bind_res (nextQuantizedOutput d) (\<lambda>(nextStart, tail).
     Inr (commitQuantizedOutput (d\<lparr>quantizedBacking := write_at (quantizedBacking d) tail block\<rparr>)
       nextStart tail (length block)))"

section \<open>The decision ring is a sliding window\<close>

definition ring_inv :: "PacketConfig \<Rightarrow> 'a Ring_scheme \<Rightarrow> bool" where
  "ring_inv c d \<longleftrightarrow> Cfg d = c \<and> 0 < BlockSize c \<and>
     8 dvd BlockSize c \<and> 8 dvd PacketConfig.PacketLength c \<and> 8 dvd quantizedStart d \<and>
     BufferLength c = PacketConfig.PacketLength c + BlockSize c \<and>
     length (Quantized d) = BufferLength c \<and> quantizedStart d < BufferLength c \<and>
     (quantizedAliased d \<longrightarrow> length (quantizedBacking d) = BufferLength c + BlockSize c)"

definition decisions :: "'a Ring_scheme \<Rightarrow> u8 list" where
  "decisions d = rotated (Quantized d) (quantizedStart d)"

lemma length_decisions [simp]: "length (decisions d) = length (Quantized d)"
  by (simp add: decisions_def)

lemma Quantized_set: "length q = length (Quantized d) \<Longrightarrow> Quantized (set_Quantized d q) = q"
  by (auto simp: Quantized_def set_Quantized_def)

lemma set_Quantized_other [simp]:
  "Cfg (set_Quantized d q) = Cfg d" "quantizedStart (set_Quantized d q) = quantizedStart d"
  "quantizedAliased (set_Quantized d q) = quantizedAliased d"
  by (simp_all add: set_Quantized_def)

lemma Quantized_start [simp]: "Quantized (d\<lparr>quantizedStart := s\<rparr>) = Quantized d"
  by (simp add: Quantized_def)

lemma length_backing_set:
  "length q = length (Quantized d) \<Longrightarrow> quantizedAliased d \<Longrightarrow> length (Quantized d) \<le> length (quantizedBacking d) \<Longrightarrow>
     length (quantizedBacking (set_Quantized d q)) = length (quantizedBacking d)"
  by (simp add: set_Quantized_def)

lemma ring_tail:
  assumes "n = p + (b :: nat)" "start < n"
  shows "wrap n (wrap n (start + b) + p) = start"
  using assms by (auto simp: wrap_def)

lemma appendQuantized_view:
  assumes inv: "ring_inv c d" and len: "length block = BlockSize c"
  shows "\<exists>d'. appendQuantized d block = Inr d' \<and> ring_inv c d' \<and>
    decisions d' = drop (BlockSize c) (decisions d) @ block"
proof -
  let ?n = "length (Quantized d)" and ?s = "quantizedStart d"
  let ?first = "if ?n - ?s < length block then ?n - ?s else length block"
  let ?q = "copy_into (write_at (Quantized d) ?s (take ?first block)) (drop ?first block)"
  let ?start = "wrap ?n (?s + BlockSize c)"
  let ?d' = "set_Quantized (d\<lparr>quantizedStart := ?start\<rparr>) ?q"
  have n: "?n = PacketConfig.PacketLength c + BlockSize c" "?s < ?n" "Cfg d = c"
    using inv by (auto simp: ring_inv_def)
  have "wrap ?n (?start + PacketConfig.PacketLength c) = ?s" by (rule ring_tail [OF n(1,2)])
  then have app: "appendQuantized d block = Inr ?d'"
    using n by (simp add: appendQuantized_def Let_def flip: wrap_def)
  have q: "Quantized ?d' = ?q" by (simp add: Quantized_set)
  have inv': "ring_inv c ?d'"
    using inv q wrap_less [of "?s + BlockSize c" ?n] length_backing_set [of ?q "d\<lparr>quantizedStart := ?start\<rparr>"]
    by (auto simp: ring_inv_def dvd_wrap)
  have nth: "?q ! j = (if j + ?n < ?s + BlockSize c then block ! (j + ?n - ?s)
      else if ?s \<le> j \<and> j < ?s + BlockSize c then block ! (j - ?s) else Quantized d ! j)" if "j < ?n" for j
    using that n len by (auto simp: copy_into_def nth_append nth_write_at add.commute)
  have "rotated ?q (wrap ?n (?s + BlockSize c)) = drop (BlockSize c) (rotated (Quantized d) ?s) @ block"
    using n ring_cells [of ?s ?n "BlockSize c" ?q block "Quantized d", OF n(2) _ nth] len
    by (intro rotated_slide) simp_all
  then show ?thesis using app inv' q by (simp add: decisions_def)
qed

interpretation appended: sliding_window "ring_inv c" decisions appendQuantized "BlockSize c"
  by unfold_locales (rule appendQuantized_view, auto simp: ring_inv_def)

lemma direct_write_view:
  assumes inv: "ring_inv c d" and own: "quantizedAliased d" and len: "length block = BlockSize c"
  shows "\<exists>d'. direct_write d block = Inr d' \<and> (ring_inv c d' \<and> quantizedAliased d') \<and>
    decisions d' = drop (BlockSize c) (decisions d) @ block"
proof -
  let ?n = "length (Quantized d)" and ?s = "quantizedStart d" and ?B = "BlockSize c"
  let ?start = "wrap ?n (?s + ?B)"
  let ?bk = "write_at (quantizedBacking d) ?s block"
  let ?d1 = "d\<lparr>quantizedBacking := ?bk\<rparr>"
  let ?d' = "commitQuantizedOutput ?d1 ?start ?s ?B"
  have n: "?n = PacketConfig.PacketLength c + ?B" "?n = BufferLength c" "?s < ?n" "Cfg d = c"
      "length (quantizedBacking d) = ?n + ?B"
    using inv own by (auto simp: ring_inv_def)
  have "wrap ?n (?start + PacketConfig.PacketLength c) = ?s" by (rule ring_tail [OF n(1,3)])
  then have app: "direct_write d block = Inr ?d'"
    using n len by (simp add: direct_write_def nextQuantizedOutput_def Let_def flip: wrap_def)
  have Q1: "Quantized ?d1 = take ?n ?bk" using own n(4) by (simp add: Quantized_def [of ?d1] n(2))
  let ?q = "if ?s + ?B > ?n then copy_into (take ?n ?bk) (sub ?bk ?n (?s + ?B)) else take ?n ?bk"
  have lq: "length ?q = ?n" using n by auto
  have q: "Quantized ?d' = ?q"
    using n Q1 by (auto simp: commitQuantizedOutput_def Let_def Quantized_set)
  have own': "quantizedAliased ?d'" and "Cfg ?d' = c" and start': "quantizedStart ?d' = ?start"
    using own n(4) by (simp_all add: commitQuantizedOutput_def Let_def)
  moreover have "length (quantizedBacking ?d') = ?n + ?B"
    using n own Q1 length_backing_set [of "copy_into (take ?n ?bk) (sub ?bk ?n (?s + ?B))" ?d1]
    by (simp add: commitQuantizedOutput_def Let_def)
  moreover have "?start < ?n" using n by (intro wrap_less) simp
  ultimately have inv': "ring_inv c ?d'" using inv q lq n by (simp add: ring_inv_def dvd_wrap)
  have bk: "?bk ! j = (if ?s \<le> j \<and> j < ?s + ?B then block ! (j - ?s) else quantizedBacking d ! j)"
    if "j < ?n + ?B" for j
    using that n len nth_write_at [of ?s block "quantizedBacking d" j] by simp
  have nth: "?q ! j = (if j + ?n < ?s + ?B then block ! (j + ?n - ?s)
      else if ?s \<le> j \<and> j < ?s + ?B then block ! (j - ?s) else Quantized d ! j)" if j: "j < ?n" for j
  proof -
    have "?q ! j = (if j + ?n < ?s + ?B then ?bk ! (?n + j) else ?bk ! j)"
    proof (cases "?s + ?B > ?n")
      case True
      moreover have "length (sub ?bk ?n (?s + ?B)) = ?s + ?B - ?n" using n by simp
      moreover have "j + ?n < ?s + ?B \<Longrightarrow> sub ?bk ?n (?s + ?B) ! j = ?bk ! (?n + j)" using n by simp
      ultimately show ?thesis using j n by (auto simp: copy_into_def nth_append)
    next
      case False
      then show ?thesis using j by simp
    qed
    moreover have "quantizedBacking d ! j = Quantized d ! j" using j own by (simp add: Quantized_def)
    ultimately show ?thesis using j n(3) bk [of j] bk [of "?n + j"] by (auto simp: add.commute)
  qed
  have "rotated ?q (wrap ?n (?s + ?B)) = drop ?B (rotated (Quantized d) ?s) @ block"
    using n ring_cells [of ?s ?n ?B ?q block "Quantized d", OF n(3) _ nth] lq len
    by (intro rotated_slide) simp_all
  then show ?thesis using app inv' own' q start' by (simp add: decisions_def)
qed

interpretation direct: sliding_window "\<lambda>d. ring_inv c d \<and> quantizedAliased d" decisions direct_write "BlockSize c"
  by unfold_locales (metis direct_write_view, auto simp: ring_inv_def)

section \<open>Properties\<close>

text \<open>C20: the decision ring refines a sliding window over the stream of decisions: after any
  sequence of blocks, \<open>appendQuantized\<close> has never panicked, its ring invariant holds, and the
  logical contents are the end of the stream, whatever the physical start.\<close>

theorem appendQuantized_slides:
  assumes "ring_inv c d" and "\<forall>b\<in>set blocks. length b = BlockSize c"
  shows "\<exists>d'. fold_res appendQuantized d blocks = Inr d' \<and> ring_inv c d' \<and>
    decisions d' = drop (BlockSize c * length blocks) (decisions d @ concat blocks)"
  using assms by (rule appended.view_pushes)

definition sample_cfg :: PacketConfig where
  "sample_cfg = zeroPacketConfig\<lparr>BlockSize := 8, PacketConfig.PacketLength := 16, BufferLength := 24\<rparr>"

definition sample_ring :: Ring where
  "sample_ring = \<lparr>Cfg = sample_cfg, quantizedBacking = [], quantizedAliased = False,
     QuantizedOwn = replicate 24 0, quantizedStart = 0\<rparr>"

lemma sample_ring_inv: "ring_inv sample_cfg sample_ring"
  by (simp add: ring_inv_def sample_cfg_def sample_ring_def Quantized_def)

theorem appendQuantized_slides_witness:
  "\<exists>d'. fold_res appendQuantized sample_ring [replicate 8 1, replicate 8 0] = Inr d' \<and>
    ring_inv sample_cfg d' \<and>
    decisions d' = drop (BlockSize sample_cfg * length [replicate 8 (1 :: u8), replicate 8 0])
      (decisions sample_ring @ concat [replicate 8 1, replicate 8 0])"
  by (rule appendQuantized_slides [OF sample_ring_inv]) (simp add: sample_cfg_def)

end
