(* ===== verification/Packing.thy ===== *)
theory Packing
  imports Window
begin

text \<open>
  Packing the decisions eight to a byte: the multiply trick of \<open>packQuantized\<close>, packing out of
  the ring in \<open>packQuantizedRing\<close>, and the incremental packed ring of
  \<^verbatim>\<open>src/protocol/power16.go\<close> with its mirrored prefix. All of them produce the packed
  form of the logical decision history.
\<close>

section \<open>Packing blocks\<close>

text \<open>\<^verbatim>\<open>binary.LittleEndian.Uint64\<close>.\<close>

definition Uint64LE :: "u8 list \<Rightarrow> u64" where
  "Uint64LE b = foldr (\<lambda>x acc. push_bit 8 acc OR ucast x) (take 8 b) 0"

definition packQuantized :: "nat \<Rightarrow> u8 list \<Rightarrow> u8 list res" where
  "packQuantized dstLen src =
     mapM_res (\<lambda>byteIdx.
       let srcIdx = 8 * byteIdx in
       bind_res (slice_res src srcIdx (srcIdx + 8)) (\<lambda>chunk.
       let decisions = Uint64LE chunk in
       Inr (ucast (drop_bit 56 (decisions * 0x8040201008040201)))))
     [0..<dstLen]"

definition packQuantizedRing :: "nat \<Rightarrow> u8 list \<Rightarrow> nat \<Rightarrow> u8 list res" where
  "packQuantizedRing dstLen src start =
     (if start = 0 then packQuantized dstLen src
      else
        let bitsNeeded = 8 * dstLen;
            bitsBeforeWrap = length src - start
        in if bitsNeeded \<le> bitsBeforeWrap
           then bind_res (slice_res src start (start + bitsNeeded)) (packQuantized dstLen)
           else
             let firstBytes = bitsBeforeWrap div 8 in
             bind_res (slice_res src start (length src)) (\<lambda>a.
             bind_res (packQuantized firstBytes a) (\<lambda>x.
             bind_res (slice_res src 0 (bitsNeeded - bitsBeforeWrap)) (\<lambda>b.
             bind_res (packQuantized (dstLen - firstBytes) b) (\<lambda>y.
             Inr (x @ y))))))"

section \<open>The packed form of a list of decisions\<close>

definition binary :: "u8 list \<Rightarrow> bool" where
  "binary q \<longleftrightarrow> set q \<subseteq> {0, 1}"

definition packed_of :: "u8 list \<Rightarrow> u8 list" where
  "packed_of q = pack_bits (map (\<lambda>b. b = 1) q)"

lemma multiply_packs_all:
  "list_all (\<lambda>c. ucast (drop_bit 56 (Uint64LE c * 0x8040201008040201)) = (of_nat (bits_val (map (\<lambda>b. b = 1) c)) :: u8))
     (product_lists (replicate 8 [0, 1]))"
  by code_simp

lemma multiply_packs:
  assumes "binary c" "length c = 8"
  shows "ucast (drop_bit 56 (Uint64LE c * 0x8040201008040201)) = (of_nat (bits_val (map (\<lambda>b. b = 1) c)) :: u8)"
proof -
  have "c \<in> set (product_lists (replicate 8 [0, 1]))"
  proof -
    have "c ! i \<in> {0, 1}" if "i < 8" for i
      using assms that nth_mem [of i c] by (simp add: binary_def subset_iff)
    then have "list_all2 (\<lambda>x ys. x \<in> set ys) c (replicate 8 [0, 1])"
      using assms(2) by (simp add: list_all2_conv_all_nth)
    then show ?thesis by (simp add: product_lists_set)
  qed
  then show ?thesis using multiply_packs_all by (simp only: list_all_iff)
qed

lemma length_packed_of [simp]: "length (packed_of q) = length q div 8"
  by (simp add: packed_of_def)

lemma nth_packed_of:
  "i < length q div 8 \<Longrightarrow> packed_of q ! i = of_nat (bits_val (map (\<lambda>b. b = 1) (take 8 (drop (8 * i) q))))"
  by (simp add: packed_of_def pack_bits_def take_map drop_map)

lemma packed_of_append: "8 dvd length a \<Longrightarrow> packed_of (a @ b) = packed_of a @ packed_of b"
proof (rule nth_equalityI)
  assume dvd: "8 dvd length a"
  show "length (packed_of (a @ b)) = length (packed_of a @ packed_of b)"
    using dvd by (simp add: div_plus_div_distrib_dvd_left)
  fix i assume "i < length (packed_of (a @ b))"
  then have i: "i < (length a + length b) div 8" by simp
  show "packed_of (a @ b) ! i = (packed_of a @ packed_of b) ! i"
  proof (cases "i < length a div 8")
    case True
    then have "8 * i + 8 \<le> length a" by linarith
    then show ?thesis using True i by (simp add: nth_append nth_packed_of)
  next
    case False
    then have "length a \<le> 8 * i" "8 * i - length a = 8 * (i - length a div 8)" using dvd by auto
    moreover have "i - length a div 8 < length b div 8" using i False dvd by auto
    ultimately show ?thesis using False i by (simp add: nth_append nth_packed_of)
  qed
qed

lemma packed_of_drop: "packed_of (drop (8 * k) q) = drop k (packed_of q)"
proof (rule nth_equalityI)
  show "length (packed_of (drop (8 * k) q)) = length (drop k (packed_of q))" by simp
  fix i assume "i < length (packed_of (drop (8 * k) q))"
  then show "packed_of (drop (8 * k) q) ! i = drop k (packed_of q) ! i"
    by (simp add: nth_packed_of add.commute distrib_left)
qed

lemma packed_of_take: "packed_of (take (8 * k) q) = take k (packed_of q)"
proof (rule nth_equalityI)
  show len: "length (packed_of (take (8 * k) q)) = length (take k (packed_of q))" by (simp add: min_def) auto
  fix i assume "i < length (packed_of (take (8 * k) q))"
  then have "i < k" "i < length q div 8" using len by simp_all
  moreover from this have "min 8 (8 * k - 8 * i) = 8" by simp
  ultimately show "packed_of (take (8 * k) q) ! i = take k (packed_of q) ! i"
    using len by (simp add: nth_packed_of drop_take)
qed

lemma binary_append [simp]: "binary (a @ b) \<longleftrightarrow> binary a \<and> binary b"
  and binary_take: "binary a \<Longrightarrow> binary (take n a)" and binary_drop: "binary a \<Longrightarrow> binary (drop n a)"
  by (auto simp: binary_def dest: in_set_takeD in_set_dropD)

lemma binary_nth: "binary a \<Longrightarrow> k < length a \<Longrightarrow> a ! k \<in> {0, 1}"
  unfolding binary_def using nth_mem by blast

lemma binary_rotated [simp]: "binary (rotated q k) \<longleftrightarrow> binary q"
proof -
  have "set (rotated q k) = set (take k q @ drop k q)" by (auto simp: rotated_def simp del: append_take_drop_id)
  then show ?thesis by (simp add: binary_def)
qed

lemma packQuantized_ok:
  assumes "binary src" "8 * n \<le> length src"
  shows "packQuantized n src = Inr (packed_of (take (8 * n) src))"
proof -
  have "packQuantized n src = Inr (map (\<lambda>i. of_nat (bits_val (map (\<lambda>b. b = 1) (take 8 (drop (8 * i) src))))) [0..<n])"
    unfolding packQuantized_def
  proof (rule mapM_res_Inr)
    fix i assume "i \<in> set [0..<n]"
    then have "8 * i + 8 \<le> length src" using assms by simp
    moreover from this have "length (sub src (8 * i) (8 * i + 8)) = 8" by simp
    moreover have "binary (sub src (8 * i) (8 * i + 8))"
      using assms(1) by (simp add: sub_def binary_take binary_drop)
    ultimately show "(let srcIdx = 8 * i in bind_res (slice_res src srcIdx (srcIdx + 8)) (\<lambda>chunk.
        let decisions = Uint64LE chunk in
        Inr (ucast (drop_bit 56 (decisions * 0x8040201008040201))))) =
        (Inr (of_nat (bits_val (map (\<lambda>b. b = 1) (take 8 (drop (8 * i) src))))) :: u8 res)"
      using multiply_packs [of "sub src (8 * i) (8 * i + 8)"] by (simp add: Let_def) (simp add: sub_def)
  qed
  also have "map (\<lambda>i. of_nat (bits_val (map (\<lambda>b. b = 1) (take 8 (drop (8 * i) src))))) [0..<n]
      = take n (packed_of src)"
    using assms(2) by (intro nth_equalityI) (auto simp: nth_packed_of)
  finally show ?thesis by (simp add: packed_of_take)
qed

lemma packQuantizedRing_ok:
  assumes bin: "binary src" and len: "8 * n \<le> length src" "start \<le> length src" "8 dvd length src - start"
  shows "packQuantizedRing n src start = Inr (packed_of (take (8 * n) (rotated src start)))"
proof (cases "start = 0 \<or> 8 * n \<le> length src - start")
  case True
  then show ?thesis using bin len
    by (auto simp: packQuantizedRing_def Let_def packQuantized_ok rotated_def sub_def binary_take binary_drop)
next
  case False
  let ?m = "(length src - start) div 8"
  have m: "8 * ?m = length src - start" using len by simp
  have "?m \<le> n" using False m by linarith
  have "packed_of (take (8 * n) (rotated src start)) =
      packed_of (drop start src) @ packed_of (take (8 * (n - ?m)) src)"
  proof -
    have "take (8 * n) (rotated src start) = drop start src @ take (8 * n - 8 * ?m) src"
      using False len m by (simp add: rotated_def)
    then show ?thesis using len by (simp add: packed_of_append diff_mult_distrib2)
  qed
  moreover have "packQuantized ?m (drop start src) = Inr (packed_of (drop start src))"
    using bin m packQuantized_ok [of "drop start src" ?m] by (simp add: binary_drop)
  moreover have "packQuantized (n - ?m) (take (8 * n - (length src - start)) src) =
      Inr (packed_of (take (8 * (n - ?m)) src))"
  proof -
    have "8 * n - (length src - start) = 8 * (n - ?m)" using m by simp
    moreover have "8 * (n - ?m) \<le> length src" using len by simp
    ultimately show ?thesis using packQuantized_ok [OF binary_take [OF bin], of "n - ?m" "8 * (n - ?m)"]
      by simp
  qed
  ultimately show ?thesis using False len
    by (simp add: packQuantizedRing_def Let_def sub_def)
qed

section \<open>The packed ring\<close>

text \<open>The fields of \<open>power16State\<close> for the packed decisions. The last \<open>packedLookahead\<close>
  bytes of the backing mirror the first ones, so that the search window is contiguous.\<close>

record Packed =
  packedBacking :: "u8 list"
  packedLength :: nat
  packedStart :: nat
  packedLookahead :: nat

definition nextPackedOutput :: "'a Packed_scheme \<Rightarrow> PacketConfig \<Rightarrow> (nat \<times> nat) res" where
  "nextPackedOutput s cfg =
     (let blockBytes = BlockSize cfg div 8;
          next0 = packedStart s + blockBytes;
          nextStart = (if next0 \<ge> packedLength s then next0 - packedLength s else next0);
          tail0 = nextStart + PacketConfig.PacketLength cfg div 8;
          tail = (if tail0 \<ge> packedLength s then tail0 - packedLength s else tail0)
      in if tail + blockBytes > length (packedBacking s)
         then Inl (Panic ''slice bounds out of range'')
         else Inr (nextStart, tail))"

definition commitPackedOutput :: "'a Packed_scheme \<Rightarrow> nat \<Rightarrow> nat \<Rightarrow> nat \<Rightarrow> 'a Packed_scheme" where
  "commitPackedOutput s nextStart tail count =
     (let n = packedLength s;
          end0 = tail + count;
          b0 = packedBacking s;
          b1 = (if end0 > n then write_at b0 0 (sub b0 n end0) else b0);
          endPos = (if end0 > n then n else end0);
          b2 = (if tail < packedLookahead s
                then let mirrorEnd = (if endPos > packedLookahead s then packedLookahead s else endPos)
                     in write_at b1 (n + tail) (sub b1 tail mirrorEnd)
                else b1)
      in s\<lparr>packedBacking := b2, packedStart := nextStart\<rparr>)"

definition packedSearchWindow :: "'a Packed_scheme \<Rightarrow> u8 list" where
  "packedSearchWindow s = sub (packedBacking s) (packedStart s) (packedStart s + packedLookahead s)"

text \<open>One block: the producer writes its bytes at the destination, and the decoder commits them.\<close>

definition packed_write :: "PacketConfig \<Rightarrow> 'a Packed_scheme \<Rightarrow> u8 list \<Rightarrow> 'a Packed_scheme res" where
  "packed_write cfg s block =
     bind_res (nextPackedOutput s cfg) (\<lambda>(nextStart, tail).
     Inr (commitPackedOutput (s\<lparr>packedBacking := write_at (packedBacking s) tail block\<rparr>)
       nextStart tail (length block)))"

definition packed_inv :: "PacketConfig \<Rightarrow> 'a Packed_scheme \<Rightarrow> bool" where
  "packed_inv c s \<longleftrightarrow>
     packedLength s = PacketConfig.PacketLength c div 8 + BlockSize c div 8 \<and>
     length (packedBacking s) = packedLength s + packedLookahead s \<and>
     BlockSize c div 8 \<le> packedLookahead s \<and> packedLookahead s \<le> packedLength s \<and>
     packedStart s < packedLength s \<and>
     (\<forall>j < packedLookahead s. packedBacking s ! (packedLength s + j) = packedBacking s ! j)"

definition packed_decisions :: "'a Packed_scheme \<Rightarrow> u8 list" where
  "packed_decisions s = rotated (take (packedLength s) (packedBacking s)) (packedStart s)"

lemma packedSearchWindow_prefix:
  assumes "packed_inv c s"
  shows "packedSearchWindow s = take (packedLookahead s) (packed_decisions s)"
proof (rule nth_equalityI)
  have i: "length (packedBacking s) = packedLength s + packedLookahead s"
    "packedLookahead s \<le> packedLength s" "packedStart s < packedLength s"
    "\<forall>j < packedLookahead s. packedBacking s ! (packedLength s + j) = packedBacking s ! j"
    using assms unfolding packed_inv_def by blast+
  then show "length (packedSearchWindow s) = length (take (packedLookahead s) (packed_decisions s))"
    by (simp add: packedSearchWindow_def packed_decisions_def)
  fix k assume "k < length (packedSearchWindow s)"
  then have k: "k < packedLookahead s" using i by (simp add: packedSearchWindow_def)
  have "packedSearchWindow s ! k = packedBacking s ! (packedStart s + k)"
    using k i by (simp add: packedSearchWindow_def)
  also have "\<dots> = take (packedLength s) (packedBacking s) ! wrap (packedLength s) (packedStart s + k)"
  proof (cases "packedStart s + k \<ge> packedLength s")
    case True
    then obtain j where j: "packedStart s + k = packedLength s + j" using le_Suc_ex by blast
    then have "j < packedLookahead s" using k i by simp
    with i j show ?thesis by (simp add: wrap_def)
  next
    case False
    with i show ?thesis by (simp add: wrap_def)
  qed
  also have "\<dots> = packed_decisions s ! k"
    using k i by (simp add: packed_decisions_def nth_rotated_wrap min_def)
  finally show "packedSearchWindow s ! k = take (packedLookahead s) (packed_decisions s) ! k"
    using k by simp
qed

text \<open>The cells after a commit, with ring length \<open>P\<close>, look-ahead \<open>L\<close>, old start \<open>t\<close>.\<close>

lemma commit_cells:
  assumes len: "length old = P + L" "length block = B" "B \<le> L" "L \<le> P" "t < P"
    and mirror: "\<forall>j < L. old ! (P + j) = old ! j"
    and s: "packedBacking s = write_at old t block" "packedLength s = P" "packedLookahead s = L"
    and b2_def: "b2 = packedBacking (commitPackedOutput s nxt t B)"
  shows "length b2 = P + L"
    and "j < P \<Longrightarrow> b2 ! j = (if j + P < t + B then block ! (j + P - t)
           else if t \<le> j \<and> j < t + B then block ! (j - t) else old ! j)"
    and "j < L \<Longrightarrow> b2 ! (P + j) = b2 ! j"
proof -
  define b0 where "b0 = write_at old t block"
  define b1 where "b1 = (if t + B > P then write_at b0 0 (sub b0 P (t + B)) else b0)"
  define e where "e = (if t + B > P then P else t + B)"
  define m where "m = (if e > L then L else e)"
  have b2: "b2 = (if t < L then write_at b1 (P + t) (sub b1 t m) else b1)"
    by (simp add: b2_def commitPackedOutput_def s Let_def b0_def b1_def e_def m_def)
  have l0: "length b0 = P + L" and l1: "length b1 = P + L" using len by (simp_all add: b0_def b1_def)
  show len2: "length b2 = P + L" using l1 by (simp add: b2)
  have n0: "b0 ! k = (if t \<le> k \<and> k < t + B then block ! (k - t) else old ! k)" if "k < P + L" for k
    using that len nth_write_at [of t block old k] by (simp add: b0_def)
  have n1: "b1 ! k = (if k + P < t + B then b0 ! (P + k) else b0 ! k)" if "k < P + L" for k
  proof (cases "t + B > P")
    case True
    moreover have "length (sub b0 P (t + B)) = t + B - P" using len l0 by simp
    moreover have "k + P < t + B \<Longrightarrow> sub b0 P (t + B) ! k = b0 ! (P + k)" using len l0 by simp
    ultimately show ?thesis using that len l0 nth_write_at [of 0 "sub b0 P (t + B)" b0 k]
      by (auto simp: b1_def)
  qed (use that in \<open>auto simp: b1_def\<close>)
  have me: "m \<le> P" "m \<le> L" "m \<le> t + B" "j < L \<Longrightarrow> m \<le> j \<Longrightarrow> t + B \<le> j" for j
    using len by (auto simp: m_def e_def split: if_splits)
  have n2: "b2 ! k = (if P + t \<le> k \<and> k < P + m then b1 ! (k - P) else b1 ! k)" if "k < P + L" for k
  proof (cases "t < L \<and> t \<le> m")
    case True
    have lm: "length (sub b1 t m) = m - t" using l1 me by simp
    have "P + t + length (sub b1 t m) \<le> length b1" using lm l1 me True by linarith
    from nth_write_at [OF this, of k]
    have "b2 ! k = (if P + t \<le> k \<and> k < P + t + (m - t) then sub b1 t m ! (k - (P + t)) else b1 ! k)"
      using True that l1 lm by (simp only: b2 if_True)
    moreover have "sub b1 t m ! (k - (P + t)) = b1 ! (k - P)" if "P + t \<le> k" "k < P + m"
      using nth_sub [of t "k - (P + t)" m b1] that l1 me by simp
    moreover have "P + t + (m - t) = P + m" using True by simp
    ultimately show ?thesis by simp
  next
    case False
    then have "b2 = b1" by (auto simp: b2 sub_def)
    moreover have "\<not> (P + t \<le> k \<and> k < P + m)" using False me by linarith
    ultimately show ?thesis by auto
  qed
  have c2: "b2 ! j = (if j + P < t + B then block ! (j + P - t)
           else if t \<le> j \<and> j < t + B then block ! (j - t) else old ! j)" if "j < P" for j
  proof -
    have "b2 ! j = b1 ! j" using n2 [of j] that by simp
    then show ?thesis using n1 [of j] n0 [of j] n0 [of "P + j"] that len by (auto simp: add.commute)
  qed
  then show "j < P \<Longrightarrow> b2 ! j = (if j + P < t + B then block ! (j + P - t)
           else if t \<le> j \<and> j < t + B then block ! (j - t) else old ! j)" by blast
  show "b2 ! (P + j) = b2 ! j" if "j < L"
  proof (cases "t \<le> j \<and> j < m")
    case True
    then show ?thesis using n2 [of "P + j"] n2 [of j] that len by simp
  next
    case False
    have "b2 ! (P + j) = b1 ! (P + j)" using n2 [of "P + j"] that False by auto
    also have "\<dots> = b0 ! (P + j)" using n1 [of "P + j"] that len by simp
    also have "\<dots> = (if j + P < t + B then block ! (j + P - t) else old ! j)"
      using n0 [of "P + j"] that len mirror [rule_format, OF that] by (simp add: add.commute [of j P])
    also have "\<dots> = b2 ! j" using c2 [of j] that len False me(4) [OF that] by auto
    finally show ?thesis .
  qed
qed

lemma packed_write_view:
  assumes inv: "packed_inv c s" and len: "length block = BlockSize c div 8"
  shows "\<exists>s'. packed_write c s block = Inr s' \<and> packed_inv c s' \<and>
    packed_decisions s' = drop (BlockSize c div 8) (packed_decisions s) @ block"
proof -
  let ?P = "packedLength s" and ?L = "packedLookahead s" and ?t = "packedStart s" and ?B = "BlockSize c div 8"
  let ?old = "packedBacking s"
  let ?s1 = "s\<lparr>packedBacking := write_at ?old ?t block\<rparr>"
  let ?s' = "commitPackedOutput ?s1 (wrap ?P (?t + ?B)) ?t ?B"
  have i: "?P = PacketConfig.PacketLength c div 8 + ?B" "length ?old = ?P + ?L" "?B \<le> ?L" "?L \<le> ?P" "?t < ?P"
    and m: "\<forall>j < ?L. ?old ! (?P + j) = ?old ! j"
    using inv unfolding packed_inv_def by blast+
  have "wrap ?P (wrap ?P (?t + ?B) + PacketConfig.PacketLength c div 8) = ?t" by (rule ring_tail [OF i(1,5)])
  then have app: "packed_write c s block = Inr ?s'"
    using i(2-5) len by (simp add: packed_write_def nextPackedOutput_def Let_def flip: wrap_def)
  have s1: "packedBacking ?s1 = write_at ?old ?t block" "packedLength ?s1 = ?P" "packedLookahead ?s1 = ?L"
    by simp_all
  note cells = commit_cells [OF i(2) len i(3-5) m s1 refl]
  have fields: "packedLength ?s' = ?P" "packedLookahead ?s' = ?L" "packedStart ?s' = wrap ?P (?t + ?B)"
    by (simp_all add: commitPackedOutput_def Let_def)
  have lt: "wrap ?P (?t + ?B) < ?P" using i by (intro wrap_less) simp
  have inv': "packed_inv c ?s'"
    unfolding packed_inv_def fields using i(1,3,4) lt cells(1,3) by blast
  have lenP: "length (take ?P ?old) = ?P" "length (take ?P (packedBacking ?s')) = ?P"
    using i(2) cells(1) by simp_all
  have nth: "take ?P (packedBacking ?s') ! j = (if j + ?P < ?t + ?B then block ! (j + ?P - ?t)
      else if ?t \<le> j \<and> j < ?t + ?B then block ! (j - ?t) else take ?P ?old ! j)" if "j < ?P" for j
    using cells(2) [OF that] that by simp
  have BP: "?B \<le> ?P" using i(3,4) by (rule le_trans)
  have "rotated (take ?P (packedBacking ?s')) (wrap ?P (?t + ?B)) = drop ?B (rotated (take ?P ?old) ?t) @ block"
    using ring_cells [OF i(5) BP nth] lenP len BP i(5)
      rotated_slide [of "take ?P (packedBacking ?s')" "take ?P ?old" block ?B ?t] by simp
  then show ?thesis using app fields inv' by (simp add: packed_decisions_def)
qed

interpretation packed: sliding_window "packed_inv c" packed_decisions "packed_write c" "BlockSize c div 8"
  by unfold_locales (rule packed_write_view, auto simp: packed_inv_def packed_decisions_def)

section \<open>The packed ring tracks the decision ring\<close>

lemma packed_of_slide:
  assumes "8 dvd B" "8 dvd length v" "length v \<ge> B" "length b = B"
  shows "packed_of (drop B v @ b) = drop (B div 8) (packed_of v) @ packed_of b"
proof -
  have "8 dvd length (drop B v)" using assms by (simp add: dvd_diff_nat)
  moreover have "drop B v = drop (8 * (B div 8)) v" using assms(1) by simp
  ultimately show ?thesis by (simp only: packed_of_append packed_of_drop)
qed

lemma rings_in_step:
  assumes "ring_inv c d \<and> quantizedAliased d" "packed_inv c s" "packed_decisions s = packed_of (decisions d)"
    and "binary (decisions d)" and "\<forall>b\<in>set blocks. length b = BlockSize c \<and> binary b"
  shows "\<exists>d' s'. fold_res direct_write d blocks = Inr d' \<and> fold_res (packed_write c) s (map packed_of blocks) = Inr s' \<and>
    ring_inv c d' \<and> packed_inv c s' \<and> packed_decisions s' = packed_of (decisions d') \<and> binary (decisions d') \<and>
    packedLookahead s' = packedLookahead s"
  using assms
proof (induction blocks arbitrary: d s)
  case (Cons b bs)
  then have b: "length b = BlockSize c" "binary b" and len: "length (packed_of b) = BlockSize c div 8" by simp_all
  obtain d1 where d1: "direct_write d b = Inr d1" "ring_inv c d1 \<and> quantizedAliased d1"
      "decisions d1 = drop (BlockSize c) (decisions d) @ b"
    using direct_write_view [of c d b] Cons.prems(1) b by auto
  obtain s1 where s1: "packed_write c s (packed_of b) = Inr s1" "packed_inv c s1"
      "packed_decisions s1 = drop (BlockSize c div 8) (packed_decisions s) @ packed_of b"
    using packed_write_view [OF Cons.prems(2) len] by auto
  have la: "packedLookahead s1 = packedLookahead s"
    using s1(1) by (auto simp: packed_write_def commitPackedOutput_def Let_def bind_res_eq_Inr)
  have "packed_decisions s1 = packed_of (decisions d1)"
    unfolding s1(3) d1(3) Cons.prems(3) using Cons.prems(1) b
    by (intro packed_of_slide [symmetric]) (auto simp: ring_inv_def)
  moreover have "binary (decisions d1)" using d1(3) Cons.prems(4) b by (simp add: binary_drop)
  ultimately show ?case using Cons.IH [of d1 s1] Cons.prems(5) d1(1,2) s1(1,2) la by auto
qed simp

text \<open>C21: the packed ring that the fused producer fills incrementally, with its wrap-around copy and
  its mirrored prefix, always shows the decoder the same search window as repacking the decision
  ring from scratch with \<open>packQuantizedRing\<close>, for every sequence of blocks of decisions.\<close>

theorem packed_window_equals_repacking:
  assumes "ring_inv c d \<and> quantizedAliased d" "packed_inv c s" "packed_decisions s = packed_of (decisions d)"
    and "binary (decisions d)" and "\<forall>b\<in>set blocks. length b = BlockSize c \<and> binary b"
  shows "\<exists>d' s'. fold_res direct_write d blocks = Inr d' \<and>
    fold_res (packed_write c) s (map packed_of blocks) = Inr s' \<and>
    packQuantizedRing (packedLookahead s') (Quantized d') (quantizedStart d') = Inr (packedSearchWindow s')"
proof -
  obtain d' s' where r: "fold_res direct_write d blocks = Inr d'"
      "fold_res (packed_write c) s (map packed_of blocks) = Inr s'"
      "ring_inv c d'" "packed_inv c s'" "packed_decisions s' = packed_of (decisions d')" "binary (decisions d')"
    using rings_in_step [OF assms] by blast
  have "binary (Quantized d')" using r(6) by (simp add: decisions_def binary_rotated)
  moreover have "8 * packedLookahead s' \<le> length (Quantized d')" "quantizedStart d' \<le> length (Quantized d')"
    "8 dvd length (Quantized d') - quantizedStart d'"
    using r(3,4) by (auto simp: ring_inv_def packed_inv_def)
  ultimately have "packQuantizedRing (packedLookahead s') (Quantized d') (quantizedStart d') =
      Inr (packed_of (take (8 * packedLookahead s') (decisions d')))"
    unfolding decisions_def by (rule packQuantizedRing_ok)
  also have "packed_of (take (8 * packedLookahead s') (decisions d')) = packedSearchWindow s'"
    using r(5) packedSearchWindow_prefix [OF r(4)] by (simp add: packed_of_take)
  finally show ?thesis using r(1,2) by blast
qed

definition sample_direct :: Ring where
  "sample_direct = \<lparr>Cfg = sample_cfg, quantizedBacking = replicate 32 0, quantizedAliased = True,
     QuantizedOwn = [], quantizedStart = 0\<rparr>"

definition sample_packed :: Packed where
  "sample_packed = \<lparr>packedBacking = replicate 5 0, packedLength = 3, packedStart = 0, packedLookahead = 2\<rparr>"

theorem packed_window_equals_repacking_witness:
  "\<exists>d' s'. fold_res direct_write sample_direct [replicate 8 1, replicate 8 0] = Inr d' \<and>
    fold_res (packed_write sample_cfg) sample_packed (map packed_of [replicate 8 1, replicate 8 0]) = Inr s' \<and>
    packQuantizedRing (packedLookahead s') (Quantized d') (quantizedStart d') = Inr (packedSearchWindow s')"
proof (rule packed_window_equals_repacking)
  show "ring_inv sample_cfg sample_direct \<and> quantizedAliased sample_direct"
    by (simp add: ring_inv_def sample_cfg_def sample_direct_def Quantized_def)
  show "packed_inv sample_cfg sample_packed"
    by (simp add: packed_inv_def sample_cfg_def sample_packed_def)
  show "packed_decisions sample_packed = packed_of (decisions sample_direct)" by code_simp
  show "binary (decisions sample_direct)" by code_simp
  show "\<forall>b\<in>set [replicate 8 1, replicate 8 0]. length b = BlockSize sample_cfg \<and> binary b" by code_simp
qed

end
