(* ===== verification/Search.thy ===== *)
theory Search
  imports Packing
begin

text \<open>
  The preamble search of \<^verbatim>\<open>src/protocol/decode.go\<close>: the byte-aligned search that tests
  eight sample phases at once, its four-symbol prefix and thirty-two-symbol variants, and the
  legacy search. The native leaves of \<^verbatim>\<open>src/protocol/search_platform_arm64.go\<close> are
  assembly: they are a parameter, of which the portable build is one instance.
\<close>

section \<open>The code\<close>

text \<open>\<^verbatim>\<open>bits.LeadingZeros8\<close>.\<close>

definition LeadingZeros8 :: "u8 \<Rightarrow> nat" where
  "LeadingZeros8 c = length (takeWhile (\<lambda>p. \<not> bit c (7 - p)) [0..<8])"

definition clear_phase :: "u8 \<Rightarrow> u8" where
  "clear_phase c = c AND NOT (drop_bit (LeadingZeros8 c) 0x80)"

lemma all_u8: "list_all P (map of_nat [0..<256]) \<Longrightarrow> P (c :: u8)"
proof -
  assume a: "list_all P (map of_nat [0..<256])"
  have "unat c < 256" using unsigned_less [of c] by simp
  then have "c \<in> set (map of_nat [0..<256])" by (auto intro!: image_eqI [of _ _ "unat c"])
  with a show ?thesis by (auto simp: list_all_iff)
qed

lemma clear_phase_less: "c \<noteq> 0 \<Longrightarrow> unat (clear_phase c) < unat c"
proof -
  have "c \<noteq> 0 \<longrightarrow> unat (clear_phase c) < unat c" by (rule all_u8) code_simp
  then show "c \<noteq> 0 \<Longrightarrow> unat (clear_phase c) < unat c" by simp
qed

text \<open>The loop that turns the candidate phases of one byte into sample indices, the earliest
  phase first.\<close>

function phases :: "nat \<Rightarrow> u8 \<Rightarrow> nat list" where
  "phases qByte candidates =
     (if candidates \<noteq> 0
      then (8 * qByte + LeadingZeros8 candidates) # phases qByte (clear_phase candidates)
      else [])"
  by pat_completeness auto
termination
  by (relation "measure (\<lambda>(_, c). unat c)") (simp_all add: clear_phase_less)

declare phases.simps [simp del]

definition sym_mask :: "u8 \<Rightarrow> u8" where
  "sym_mask pBit = (pBit XOR 1) * 0xff"

text \<open>The inner loops over the symbols of the preamble, from symbol \<open>pIdx\<close> on: with and without
  the early exit.\<close>

fun match_rest :: "u8 list \<Rightarrow> nat \<Rightarrow> nat \<Rightarrow> nat \<Rightarrow> u8 list \<Rightarrow> u8 \<Rightarrow> u8 res" where
  "match_rest packed symLenByte qByte pIdx [] candidates = Inr candidates"
| "match_rest packed symLenByte qByte pIdx (pBit # ps) candidates =
     bind_res (index_res packed (qByte + pIdx * symLenByte)) (\<lambda>signal.
     let candidates = candidates AND (signal XOR sym_mask pBit) in
     if candidates = 0 then Inr candidates
     else match_rest packed symLenByte qByte (pIdx + 1) ps candidates)"

fun match_all_symbols :: "u8 list \<Rightarrow> nat \<Rightarrow> nat \<Rightarrow> nat \<Rightarrow> u8 list \<Rightarrow> u8 \<Rightarrow> u8 res" where
  "match_all_symbols packed symLenByte qByte pIdx [] candidates = Inr candidates"
| "match_all_symbols packed symLenByte qByte pIdx (symMask # ms) candidates =
     bind_res (index_res packed (qByte + pIdx * symLenByte)) (\<lambda>signal.
     match_all_symbols packed symLenByte qByte (pIdx + 1) ms (candidates AND (signal XOR symMask)))"

definition match_first4 :: "u8 list \<Rightarrow> nat \<Rightarrow> nat \<Rightarrow> u8 list \<Rightarrow> u8 res" where
  "match_first4 packed symLenByte qByte masks =
     bind_res (index_res packed qByte) (\<lambda>s0.
     bind_res (index_res packed (qByte + symLenByte)) (\<lambda>s1.
     bind_res (index_res packed (qByte + symLenByte * 2)) (\<lambda>s2.
     bind_res (index_res packed (qByte + symLenByte * 3)) (\<lambda>s3.
     Inr ((s0 XOR masks ! 0) AND (s1 XOR masks ! 1) AND (s2 XOR masks ! 2) AND (s3 XOR masks ! 3))))))"

definition searchAlignedCandidates4Go :: "nat \<Rightarrow> u8 list \<Rightarrow> nat \<Rightarrow> u8 list \<Rightarrow> u8 list res" where
  "searchAlignedCandidates4Go dstLen packed symLenByte masks =
     mapM_res (\<lambda>qByte. match_first4 packed symLenByte qByte masks) [0..<dstLen]"

definition searchAlignedCandidates32Go :: "nat \<Rightarrow> u8 list \<Rightarrow> nat \<Rightarrow> u8 list \<Rightarrow> u8 list res" where
  "searchAlignedCandidates32Go dstLen packed symLenByte masks =
     (if dstLen = 0 then Inr []
      else if length masks \<noteq> 32 then Inl (Panic ''protocol: 32-symbol search requires exactly 32 masks'')
      else mapM_res (\<lambda>qByte. match_all_symbols packed symLenByte qByte 0 masks 0xff) [0..<dstLen])"

definition expandAlignedCandidates :: "u8 list \<Rightarrow> nat list" where
  "expandAlignedCandidates masks = concat (map (\<lambda>(qByte, c). phases qByte c) (zip [0..<length masks] masks))"

definition finishAlignedCandidates :: "u8 list \<Rightarrow> u8 list \<Rightarrow> nat \<Rightarrow> u8 list \<Rightarrow> nat list res" where
  "finishAlignedCandidates packed preamble symLenByte masks =
     bind_res (mapM_res (\<lambda>(qByte, candidates).
       bind_res (if candidates \<noteq> 0 then match_rest packed symLenByte qByte 4 (drop 4 preamble) candidates
                 else Inr candidates) (\<lambda>c.
       Inr (phases qByte c))) (zip [0..<length masks] masks)) (\<lambda>idx.
     Inr (concat idx))"

definition searchPackedByteAlignedGeneric :: "PacketConfig \<Rightarrow> u8 list \<Rightarrow> u8 list \<Rightarrow> nat \<Rightarrow> nat list res" where
  "searchPackedByteAlignedGeneric cfg packed preamble symLenByte =
     bind_res (mapM_res (\<lambda>qByte.
       bind_res (match_all_symbols packed symLenByte qByte 0 (map sym_mask preamble) 0xff) (\<lambda>c.
       Inr (phases qByte c))) [0..<BlockSize cfg div 8]) (\<lambda>idx.
     Inr (concat idx))"

text \<open>The native leaves: whether the four-symbol and thirty-two-symbol kernels are available, what
  they compute, and the searches specialised to fixed preambles, which may decline.\<close>

record search_platform =
  searchAlignedCandidates4Available :: bool
  searchAlignedCandidates4Platform :: "nat \<Rightarrow> u8 list \<Rightarrow> nat \<Rightarrow> u8 list \<Rightarrow> u8 list res"
  searchAlignedCandidates32Platform :: "nat \<Rightarrow> u8 list \<Rightarrow> nat \<Rightarrow> u8 list \<Rightarrow> nat list res"
  searchAlignedCandidates4FixedPlatform :: "u8 list \<Rightarrow> nat \<Rightarrow> u8 list \<Rightarrow> nat \<Rightarrow> nat list option"
  searchAlignedCandidates32FixedPlatform :: "u8 list \<Rightarrow> nat \<Rightarrow> u8 list \<Rightarrow> nat \<Rightarrow> nat list option"
  searchAlignedCandidates32DualFixedPlatform :: "u8 list \<Rightarrow> nat \<Rightarrow> (nat list \<times> nat list) option"

definition generic_platform :: search_platform where
  "generic_platform =
     \<lparr>searchAlignedCandidates4Available = False,
      searchAlignedCandidates4Platform = (\<lambda>_ _ _ _. Inl (Panic ''protocol: unavailable ARM64 preamble search called'')),
      searchAlignedCandidates32Platform = (\<lambda>_ _ _ _. Inl (Panic ''protocol: unavailable ARM64 preamble search called'')),
      searchAlignedCandidates4FixedPlatform = (\<lambda>_ _ _ _. None),
      searchAlignedCandidates32FixedPlatform = (\<lambda>_ _ _ _. None),
      searchAlignedCandidates32DualFixedPlatform = (\<lambda>_ _. None)\<rparr>"

definition searchPackedByteAligned ::
    "search_platform \<Rightarrow> PacketConfig \<Rightarrow> u8 list \<Rightarrow> u8 list \<Rightarrow> nat list res" where
  "searchPackedByteAligned pf cfg packed preamble =
     (let symLenByte = SymbolLength cfg div 8;
          blockBytes = BlockSize cfg div 8;
          fixed32 = (if length preamble = 32 \<and> blockBytes mod 16 = 0
                     then searchAlignedCandidates32FixedPlatform pf preamble blockBytes packed symLenByte else None);
          fixed4 = (if (length preamble = 16 \<or> length preamble = 21) \<and> blockBytes mod 64 = 0
                    then searchAlignedCandidates4FixedPlatform pf preamble blockBytes packed symLenByte else None);
          masks = map sym_mask (take 4 preamble)
      in if length preamble < 4 then searchPackedByteAlignedGeneric cfg packed preamble symLenByte
         else case fixed32 of Some indices \<Rightarrow> Inr indices
         | None \<Rightarrow>
           if length preamble = 32 \<and> blockBytes mod 16 = 0 \<and> searchAlignedCandidates4Available pf
           then searchAlignedCandidates32Platform pf blockBytes packed symLenByte (map sym_mask preamble)
           else case fixed4 of Some indices \<Rightarrow> Inr indices
           | None \<Rightarrow>
             if blockBytes mod 16 = 0 \<and> searchAlignedCandidates4Available pf
             then bind_res (searchAlignedCandidates4Platform pf blockBytes packed symLenByte masks) (\<lambda>dst.
                  finishAlignedCandidates packed preamble symLenByte dst)
             else bind_res (mapM_res (\<lambda>qByte.
                    bind_res (match_first4 packed symLenByte qByte masks) (\<lambda>candidates.
                    bind_res (if candidates \<noteq> 0
                              then match_rest packed symLenByte qByte 4 (drop 4 preamble) candidates
                              else Inr candidates) (\<lambda>c.
                    Inr (phases qByte c)))) [0..<blockBytes]) (\<lambda>idx.
                  Inr (concat idx)))"

subsection \<open>The legacy search\<close>

definition searchPassByte :: "u8 \<Rightarrow> u8 list \<Rightarrow> nat list \<Rightarrow> nat list res" where
  "searchPassByte pBit sig a =
     bind_res (mapM_res (\<lambda>qIdx. bind_res (index_res sig qIdx) (\<lambda>x. Inr (if x \<noteq> pBit then [qIdx] else []))) a) (\<lambda>b.
     Inr (concat b))"

definition searchPass :: "u8 \<Rightarrow> u8 list \<Rightarrow> nat list \<Rightarrow> nat list res" where
  "searchPass pBit sig a =
     bind_res (mapM_res (\<lambda>qIdx. bind_res (index_res sig qIdx) (\<lambda>x. Inr (if x = pBit then [qIdx] else []))) a) (\<lambda>b.
     Inr (concat b))"

definition searchPassRing :: "u8 \<Rightarrow> u8 list \<Rightarrow> nat \<Rightarrow> nat list \<Rightarrow> nat list res" where
  "searchPassRing pBit sig start a =
     (let start = (if start \<ge> length sig then start - length sig else start) in
      bind_res (mapM_res (\<lambda>qIdx.
        let idx = start + qIdx;
            idx = (if idx \<ge> length sig then idx - length sig else idx)
        in bind_res (index_res sig idx) (\<lambda>x. Inr (if x = pBit then [qIdx] else []))) a) (\<lambda>b.
      Inr (concat b)))"

text \<open>The two stages of the legacy search. Returning \<open>nil\<close> early and returning the empty list at
  the end are the same to every caller.\<close>

fun legacy_bytes :: "u8 list \<Rightarrow> nat \<Rightarrow> nat \<Rightarrow> u8 list \<Rightarrow> nat list \<Rightarrow> nat list res" where
  "legacy_bytes packed symLenByte pIdx [] a = Inr a"
| "legacy_bytes packed symLenByte pIdx (pBit # ps) a =
     bind_res (slice_res packed (pIdx * symLenByte) (length packed)) (\<lambda>sig.
     bind_res (searchPassByte (sym_mask pBit) sig a) (\<lambda>a.
     if a = [] then Inr [] else legacy_bytes packed symLenByte (pIdx + 1) ps a))"

fun legacy_samples :: "u8 list \<Rightarrow> nat \<Rightarrow> nat \<Rightarrow> nat \<Rightarrow> u8 list \<Rightarrow> nat list \<Rightarrow> nat list res" where
  "legacy_samples sig start symLen pIdx [] a = Inr a"
| "legacy_samples sig start symLen pIdx (pBit # ps) a =
     bind_res (searchPassRing pBit sig (start + pIdx * symLen) a) (\<lambda>a.
     if a = [] then Inr [] else legacy_samples sig start symLen (pIdx + 1) ps a)"

definition searchPackedLegacy ::
    "'a Ring_scheme \<Rightarrow> u8 list \<Rightarrow> nat list \<Rightarrow> u8 list \<Rightarrow> nat list res" where
  "searchPackedLegacy d packed stale preamble =
     (let symLenByte = SymbolLength (Cfg d) div 8 in
      bind_res (case preamble of
          [] \<Rightarrow> Inr stale
        | pBit # ps \<Rightarrow>
            bind_res (slice_res packed 0 (BlockSize (Cfg d) div 8)) (\<lambda>bytes.
            legacy_bytes packed symLenByte 1 ps
              (filter (\<lambda>qIdx. bytes ! qIdx \<noteq> sym_mask pBit) [0..<length bytes]))) (\<lambda>sIdxA.
      legacy_samples (Quantized d) (quantizedStart d) (SymbolLength (Cfg d)) 0 preamble
        (concat (map (\<lambda>qIdx. map (\<lambda>idx. 8 * qIdx + idx) [0..<8]) sIdxA))))"

definition searchPacked ::
    "search_platform \<Rightarrow> 'a Ring_scheme \<Rightarrow> u8 list \<Rightarrow> nat list \<Rightarrow> u8 list \<Rightarrow> nat list res" where
  "searchPacked pf d packed stale preamble =
     (if SymbolLength (Cfg d) mod 8 = 0 then searchPackedByteAligned pf (Cfg d) packed preamble
      else searchPackedLegacy d packed stale preamble)"

section \<open>Correctness\<close>

text \<open>The samples of the first block at which the preamble starts, in order.\<close>

definition preamble_at :: "u8 list \<Rightarrow> nat \<Rightarrow> u8 list \<Rightarrow> nat \<Rightarrow> bool" where
  "preamble_at w symLen preamble q \<longleftrightarrow> (\<forall>k < length preamble. w ! (q + k * symLen) = preamble ! k)"

definition preamble_positions :: "u8 list \<Rightarrow> nat \<Rightarrow> nat \<Rightarrow> u8 list \<Rightarrow> nat list" where
  "preamble_positions w blockSize symLen preamble = filter (preamble_at w symLen preamble) [0..<blockSize]"

lemma phases_rec:
  "phases q 0 = []" "c \<noteq> 0 \<Longrightarrow> phases q c = (8 * q + LeadingZeros8 c) # phases q (clear_phase c)"
  by (subst phases.simps, simp)+

lemma filter_first:
  assumes z: "z = length (takeWhile (\<lambda>p. \<not> P p) [0..<n])" and ex: "p < n" "P p"
  shows "z < n" "filter P [0..<n] = z # filter (\<lambda>p. P p \<and> p \<noteq> z) [0..<n]"
proof -
  have "\<not> (\<forall>x\<in>set [0..<n]. \<not> P x)" using ex by auto
  then have "takeWhile (\<lambda>p. \<not> P p) [0..<n] \<noteq> [0..<n]" by (metis set_takeWhileD)
  then show lt: "z < n" unfolding z
    by (metis diff_zero length_takeWhile_le length_upt le_neq_implies_less takeWhile_eq_take take_all)
  have "P ([0..<n] ! z)" using lt unfolding z by (metis diff_zero length_upt nth_length_takeWhile)
  then have Pz: "P z" using lt by simp
  have pre: "\<not> P x" if "x < z" for x
    using that set_takeWhileD [of x "\<lambda>p. \<not> P p" "[0..<n]"] nth_mem [of x "takeWhile (\<lambda>p. \<not> P p) [0..<n]"] lt
    unfolding z by (metis (no_types, lifting) add_0 diff_zero length_upt less_trans nth_upt takeWhile_nth)
  have "[0..<n] = [0..<z] @ z # [Suc z..<n]" 
    using upt_add_eq_append [of 0 z "n - z"] lt by (simp add: upt_conv_Cons)
  moreover have "filter P [0..<z] = []" "filter (\<lambda>p. P p \<and> p \<noteq> z) [0..<z] = []"
    using pre by (auto simp: filter_empty_conv)
  moreover have "filter (\<lambda>p. P p \<and> p \<noteq> z) [Suc z..<n] = filter P [Suc z..<n]"
    by (rule filter_cong) auto
  ultimately show "filter P [0..<n] = z # filter (\<lambda>p. P p \<and> p \<noteq> z) [0..<n]" using Pz by simp
qed

lemma bit_0x80: "bit (0x80 :: u8) n \<longleftrightarrow> n = 7"
proof -
  have "(0x80 :: u8) = 2 ^ 7" by simp
  then show ?thesis by (simp only: bit_exp_iff) (auto simp: possible_bit_def)
qed

lemma bit_clear_phase: "p < 8 \<Longrightarrow> LeadingZeros8 c < 8 \<Longrightarrow>
    bit (clear_phase c) (7 - p) \<longleftrightarrow> bit c (7 - p) \<and> p \<noteq> LeadingZeros8 c"
  unfolding clear_phase_def bit_and_iff bit_not_iff bit_drop_bit_eq o_def bit_0x80
  by (auto simp: possible_bit_def)

lemma phases_step:
  assumes "c \<noteq> 0"
  shows "LeadingZeros8 c < 8"
    and "filter (\<lambda>p. bit c (7 - p)) [0..<8] = LeadingZeros8 c # filter (\<lambda>p. bit (clear_phase c) (7 - p)) [0..<8]"
proof -
  obtain n where "bit c n" using assms by (auto simp: word_eq_0_iff)
  then have "n < 8" using bit_u8_high [of n c] by (rule_tac ccontr) simp
  with \<open>bit c n\<close> have p: "7 - n < 8" "bit c (7 - (7 - n))" by simp_all
  note first = filter_first [OF LeadingZeros8_def p]
  show lt: "LeadingZeros8 c < 8" by (rule first(1))
  show "filter (\<lambda>p. bit c (7 - p)) [0..<8] = LeadingZeros8 c # filter (\<lambda>p. bit (clear_phase c) (7 - p)) [0..<8]"
    unfolding first(2) using lt by (auto simp: bit_clear_phase intro!: filter_cong)
qed

lemma phases_filter: "phases q c = map (\<lambda>p. 8 * q + p) (filter (\<lambda>p. bit c (7 - p)) [0..<8])"
proof (induction q c rule: phases.induct)
  case (1 q c)
  then show ?case by (cases "c = 0") (simp_all add: phases_rec phases_step(2))
qed

lemma upt_8: "[0..<8 * Suc n] = [0..<8 * n] @ map (\<lambda>p. 8 * n + p) [0..<8]"
proof -
  have "[0..<8 * Suc n] = [0..<8 * n] @ [8 * n..<8 * n + 8]"
    using upt_add_eq_append [of 0 "8 * n" 8] by (simp add: add.commute)
  also have "[8 * n..<8 * n + 8] = map (\<lambda>p. p + 8 * n) [0..<8]"
    using map_add_upt [of "8 * n" 8] by (simp add: add.commute)
  finally show ?thesis by (simp add: add.commute)
qed

text \<open>The hits of one byte, and of all of them.\<close>

definition byte_hits :: "(nat \<Rightarrow> bool) \<Rightarrow> nat \<Rightarrow> nat list" where
  "byte_hits P q = map (\<lambda>p. 8 * q + p) (filter (\<lambda>p. P (8 * q + p)) [0..<8])"

lemma phases_hits: "(\<And>p. p < 8 \<Longrightarrow> bit c (7 - p) \<longleftrightarrow> P (8 * q + p)) \<Longrightarrow> phases q c = byte_hits P q"
  unfolding phases_filter byte_hits_def by (intro arg_cong [where f = "map _"] filter_cong) auto

lemma concat_hits: "concat (map (byte_hits P) [0..<n]) = filter P [0..<8 * n]"
proof (induction n)
  case (Suc n)
  have "byte_hits P n = filter P (map (\<lambda>p. 8 * n + p) [0..<8])"
    by (simp add: byte_hits_def filter_map o_def)
  with Suc show ?case unfolding upt_8 by simp
qed simp

lemma bit_packed_of:
  "q < length w div 8 \<Longrightarrow> p < 8 \<Longrightarrow> bit (packed_of w ! q) (7 - p) \<longleftrightarrow> w ! (8 * q + p) = 1"
proof -
  assume q: "q < length w div 8" and p: "p < 8"
  then have "8 * q + 8 \<le> length w" by linarith
  with p show ?thesis by (simp add: nth_packed_of [OF q] bit_of_nat_iff bit_bits_val) linarith
qed

lemma bit_sym_mask: "p \<in> {0, 1} \<Longrightarrow> n < 8 \<Longrightarrow> bit (s XOR sym_mask p) n \<longleftrightarrow> (bit s n \<longleftrightarrow> p = 1)"
proof -
  have "sym_mask 0 = - 1" "sym_mask 1 = 0" by code_simp+
  then show "p \<in> {0, 1} \<Longrightarrow> n < 8 \<Longrightarrow> bit (s XOR sym_mask p) n \<longleftrightarrow> (bit s n \<longleftrightarrow> p = 1)"
    by (auto simp: bit_simps)
qed

lemma match_all_symbols_bits:
  assumes "\<And>k. k < length ms \<Longrightarrow> q + (i + k) * L < length packed"
  shows "\<exists>r. match_all_symbols packed L q i ms c = Inr r \<and>
    (\<forall>n. bit r n \<longleftrightarrow> bit c n \<and> (\<forall>k < length ms. bit (packed ! (q + (i + k) * L) XOR ms ! k) n))"
  using assms
proof (induction ms arbitrary: i c)
  case (Cons m ms)
  have "q + i * L < length packed" using Cons.prems [of 0] by simp
  moreover obtain r where "match_all_symbols packed L q (i + 1) ms (c AND (packed ! (q + i * L) XOR m)) = Inr r"
      "\<forall>n. bit r n \<longleftrightarrow> bit (c AND (packed ! (q + i * L) XOR m)) n \<and>
        (\<forall>k < length ms. bit (packed ! (q + (i + 1 + k) * L) XOR ms ! k) n)"
    using Cons.IH [of "i + 1" "c AND (packed ! (q + i * L) XOR m)"] Cons.prems [of "Suc k" for k] by auto
  ultimately show ?case by (auto simp: bit_and_iff All_less_Suc2)
qed simp

lemma match_rest_bits:
  assumes "\<And>k. k < length ps \<Longrightarrow> q + (i + k) * L < length packed"
  shows "\<exists>r. match_rest packed L q i ps c = Inr r \<and>
    (\<forall>n. bit r n \<longleftrightarrow> bit c n \<and> (\<forall>k < length ps. bit (packed ! (q + (i + k) * L) XOR sym_mask (ps ! k)) n))"
  using assms
proof (induction ps arbitrary: i c)
  case (Cons m ps)
  let ?c = "c AND (packed ! (q + i * L) XOR sym_mask m)"
  have i: "q + i * L < length packed" using Cons.prems [of 0] by simp
  show ?case
  proof (cases "?c = 0")
    case True
    then have "\<not> (bit c n \<and> bit (packed ! (q + i * L) XOR sym_mask m) n)" for n
      by (metis bit_and_iff bit_0_eq bot_apply bot_bool_def)
    with i True show ?thesis by (auto simp: All_less_Suc2)
  next
    case False
    obtain r where "match_rest packed L q (i + 1) ps ?c = Inr r"
        "\<forall>n. bit r n \<longleftrightarrow> bit ?c n \<and> (\<forall>k < length ps. bit (packed ! (q + (i + 1 + k) * L) XOR sym_mask (ps ! k)) n)"
      using Cons.IH [of "i + 1" ?c] Cons.prems [of "Suc k" for k] by auto
    with i False show ?thesis by (auto simp: bit_and_iff All_less_Suc2)
  qed
qed simp

text \<open>A search over a packed window that is long enough for the preamble after every sample of the
  block.\<close>

definition searchable :: "PacketConfig \<Rightarrow> u8 list \<Rightarrow> u8 list \<Rightarrow> bool" where
  "searchable cfg w preamble \<longleftrightarrow> binary w \<and> binary preamble \<and> 8 dvd BlockSize cfg \<and> 8 dvd SymbolLength cfg \<and>
     BlockSize cfg div 8 + length preamble * (SymbolLength cfg div 8) \<le> length w div 8"

abbreviation hits :: "PacketConfig \<Rightarrow> u8 list \<Rightarrow> u8 list \<Rightarrow> nat \<Rightarrow> bool" where
  "hits cfg w preamble \<equiv> preamble_at w (SymbolLength cfg) preamble"

lemma byte_sample_less: "m < n div 8 \<Longrightarrow> p < 8 \<Longrightarrow> 8 * m + p < (n :: nat)"
  by linarith

lemma symbol_bit:
  assumes s: "searchable cfg w preamble" and k: "k < length preamble" and q: "q < BlockSize cfg div 8" and p: "p < 8"
  defines "L \<equiv> SymbolLength cfg div 8"
  shows "q + k * L < length (packed_of w)"
    and "bit (packed_of w ! (q + k * L) XOR sym_mask (preamble ! k)) (7 - p) \<longleftrightarrow>
      w ! (8 * q + p + k * SymbolLength cfg) = preamble ! k"
proof -
  have "q + k * L < BlockSize cfg div 8 + length preamble * L"
    using q k by (intro add_less_le_mono mult_le_mono) simp_all
  then show lt: "q + k * L < length (packed_of w)" using s by (simp add: searchable_def L_def)
  have pre: "preamble ! k \<in> {0, 1}" using s k by (auto simp: searchable_def dest: binary_nth)
  have pos: "8 * (q + k * L) + p = 8 * q + p + k * SymbolLength cfg"
    using s by (simp add: searchable_def L_def algebra_simps)
  have "8 * q + p + k * SymbolLength cfg < length w"
    using lt p unfolding pos [symmetric] length_packed_of by (rule byte_sample_less)
  then have "w ! (8 * q + p + k * SymbolLength cfg) \<in> {0, 1}"
    using s by (auto simp: searchable_def dest: binary_nth)
  moreover have "bit (packed_of w ! (q + k * L)) (7 - p) \<longleftrightarrow> w ! (8 * q + p + k * SymbolLength cfg) = 1"
    using bit_packed_of [of "q + k * L" w p] lt p unfolding pos by simp
  ultimately show "bit (packed_of w ! (q + k * L) XOR sym_mask (preamble ! k)) (7 - p) \<longleftrightarrow>
      w ! (8 * q + p + k * SymbolLength cfg) = preamble ! k"
    using pre p by (auto simp: bit_sym_mask)
qed

lemma phases_symbols:
  assumes s: "searchable cfg w preamble" and q: "q < BlockSize cfg div 8"
    and r: "\<And>n. n < 8 \<Longrightarrow> bit r n \<longleftrightarrow> (\<forall>k < length preamble.
      bit (packed_of w ! (q + k * (SymbolLength cfg div 8)) XOR sym_mask (preamble ! k)) n)"
  shows "phases q r = byte_hits (hits cfg w preamble) q"
  by (rule phases_hits) (simp add: r symbol_bit(2) [OF s _ q] preamble_at_def)

lemma bit_0xff: "n < 8 \<Longrightarrow> bit (0xff :: u8) n"
proof -
  have "(0xff :: u8) = - 1" by simp
  then show "n < 8 \<Longrightarrow> bit (0xff :: u8) n" by (simp only: bit_minus_1_iff possible_bit_word) simp
qed

lemma match_all_hits:
  assumes s: "searchable cfg w preamble" and q: "q < BlockSize cfg div 8"
  shows "\<exists>r. match_all_symbols (packed_of w) (SymbolLength cfg div 8) q 0 (map sym_mask preamble) 0xff = Inr r \<and>
    phases q r = byte_hits (hits cfg w preamble) q"
proof -
  have "\<exists>r. match_all_symbols (packed_of w) (SymbolLength cfg div 8) q 0 (map sym_mask preamble) 0xff = Inr r \<and>
    (\<forall>n. bit r n \<longleftrightarrow> bit (0xff :: u8) n \<and> (\<forall>k < length (map sym_mask preamble).
      bit (packed_of w ! (q + (0 + k) * (SymbolLength cfg div 8)) XOR map sym_mask preamble ! k) n))"
    using symbol_bit(1) [OF s _ q, where p = 0] by (intro match_all_symbols_bits) simp
  then show ?thesis using phases_symbols [OF s q] bit_0xff by fastforce
qed

lemma generic_hits:
  assumes "searchable cfg w preamble"
  shows "searchPackedByteAlignedGeneric cfg (packed_of w) preamble (SymbolLength cfg div 8) =
    Inr (preamble_positions w (BlockSize cfg) (SymbolLength cfg) preamble)"
proof -
  have "mapM_res (\<lambda>qByte. bind_res (match_all_symbols (packed_of w) (SymbolLength cfg div 8) qByte 0 (map sym_mask preamble) 0xff)
      (\<lambda>c. Inr (phases qByte c))) [0..<BlockSize cfg div 8] =
    Inr (map (byte_hits (hits cfg w preamble)) [0..<BlockSize cfg div 8])"
    using match_all_hits [OF assms] by (intro mapM_res_Inr) fastforce
  moreover have "8 * (BlockSize cfg div 8) = BlockSize cfg" using assms by (simp add: searchable_def)
  ultimately show ?thesis
    by (simp add: searchPackedByteAlignedGeneric_def preamble_positions_def concat_hits)
qed

lemma sub_symbols:
  assumes "4 \<le> length preamble"
  shows "(\<forall>k < length preamble. Q k (preamble ! k)) \<longleftrightarrow>
    (Q 0 (preamble ! 0) \<and> Q 1 (preamble ! 1) \<and> Q 2 (preamble ! 2) \<and> Q 3 (preamble ! 3)) \<and>
    (\<forall>k < length (drop 4 preamble). Q (4 + k) (drop 4 preamble ! k))"
proof -
  have "(\<forall>k < 4 + m. R k) \<longleftrightarrow> (R 0 \<and> R 1 \<and> R 2 \<and> R 3) \<and> (\<forall>k < m. R (4 + k))" for m and R :: "nat \<Rightarrow> bool"
  proof -
    have "(\<forall>k < 4 + m. R k) \<longleftrightarrow> (\<forall>k < 4. R k) \<and> (\<forall>k < m. R (4 + k))"
    proof (intro iffI conjI allI impI)
      fix k assume R: "(\<forall>k < 4. R k) \<and> (\<forall>k < m. R (4 + k))" and k: "k < 4 + m"
      show "R k"
      proof (cases "k < 4")
        case False
        then have "k - 4 < m" "4 + (k - 4) = k" using k by simp_all
        then show ?thesis using R by metis
      qed (use R in blast)
    qed auto
    moreover have "(\<forall>k < (4 :: nat). R k) \<longleftrightarrow> R 0 \<and> R 1 \<and> R 2 \<and> R 3"
      by (auto simp: numeral_eq_Suc All_less_Suc)
    ultimately show ?thesis by blast
  qed
  from this [of "length preamble - 4" "\<lambda>k. Q k (preamble ! k)"] assms show ?thesis by simp
qed

lemma first4_hits:
  assumes s: "searchable cfg w preamble" and four: "4 \<le> length preamble" and q: "q < BlockSize cfg div 8"
  shows "\<exists>c r. match_first4 (packed_of w) (SymbolLength cfg div 8) q (map sym_mask (take 4 preamble)) = Inr c \<and>
    (if c \<noteq> 0 then match_rest (packed_of w) (SymbolLength cfg div 8) q 4 (drop 4 preamble) c else Inr c) = Inr r \<and>
    phases q r = byte_hits (hits cfg w preamble) q"
proof -
  let ?L = "SymbolLength cfg div 8" and ?P = "packed_of w"
  have lt: "q + k * ?L < length ?P" if "k < length preamble" for k
    using symbol_bit(1) [OF s that q, where p = 0] by simp
  define c where "c = (?P ! q XOR sym_mask (preamble ! 0)) AND (?P ! (q + ?L) XOR sym_mask (preamble ! 1)) AND
    (?P ! (q + ?L * 2) XOR sym_mask (preamble ! 2)) AND (?P ! (q + ?L * 3) XOR sym_mask (preamble ! 3))"
  have m4: "match_first4 ?P ?L q (map sym_mask (take 4 preamble)) = Inr c"
    using lt [of 0] lt [of 1] lt [of 2] lt [of 3] four
    by (simp add: match_first4_def c_def mult.commute)
  obtain r0 where r0: "match_rest ?P ?L q 4 (drop 4 preamble) c = Inr r0"
    "\<forall>n. bit r0 n \<longleftrightarrow> bit c n \<and> (\<forall>k < length (drop 4 preamble).
      bit (?P ! (q + (4 + k) * ?L) XOR sym_mask (drop 4 preamble ! k)) n)"
    using match_rest_bits [of "drop 4 preamble" q 4 ?L ?P c] lt by auto
  define r where "r = (if c \<noteq> 0 then r0 else c)"
  have "bit r n \<longleftrightarrow> bit r0 n" for n using r0(2) by (simp add: r_def)
  then have "bit r n \<longleftrightarrow> (\<forall>k < length preamble. bit (?P ! (q + k * ?L) XOR sym_mask (preamble ! k)) n)" for n
    using r0(2) sub_symbols [OF four, of "\<lambda>k x. bit (?P ! (q + k * ?L) XOR sym_mask x) n"]
    by (simp add: c_def bit_and_iff mult.commute)
  then have "phases q r = byte_hits (hits cfg w preamble) q" by (rule phases_symbols [OF s q])
  with m4 r0(1) show ?thesis by (auto simp: r_def)
qed

text \<open>What the native leaves promise, as their start-up self tests check it against the portable
  routines on sample buffers: where the portable routine returns, an available kernel returns the
  same, and a specialised search that does not decline returns the indices of its preamble.\<close>

definition leaves_agree :: "search_platform \<Rightarrow> bool" where
  "leaves_agree pf \<longleftrightarrow>
     (searchAlignedCandidates4Available pf \<longrightarrow>
       (\<forall>n packed L masks m. searchAlignedCandidates4Go n packed L masks = Inr m \<longrightarrow>
          searchAlignedCandidates4Platform pf n packed L masks = Inr m) \<and>
       (\<forall>n packed L masks m. searchAlignedCandidates32Go n packed L masks = Inr m \<longrightarrow>
          searchAlignedCandidates32Platform pf n packed L masks = Inr (expandAlignedCandidates m))) \<and>
     (\<forall>preamble n packed L idx m. searchAlignedCandidates32FixedPlatform pf preamble n packed L = Some idx \<longrightarrow>
        searchAlignedCandidates32Go n packed L (map sym_mask preamble) = Inr m \<longrightarrow>
        idx = expandAlignedCandidates m) \<and>
     (\<forall>preamble n packed L idx m idx'. searchAlignedCandidates4FixedPlatform pf preamble n packed L = Some idx \<longrightarrow>
        searchAlignedCandidates4Go n packed L (map sym_mask (take 4 preamble)) = Inr m \<longrightarrow>
        finishAlignedCandidates packed preamble L m = Inr idx' \<longrightarrow> idx = idx')"

lemma generic_leaves_agree: "leaves_agree generic_platform"
  by (simp add: leaves_agree_def generic_platform_def)

lemma map_zip_index: "length m = n \<Longrightarrow> map f (zip [0..<n] m) = map (\<lambda>q. f (q, m ! q)) [0..<n]"
  by (rule nth_equalityI) simp_all

lemma masks32_hits:
  assumes "searchable cfg w preamble" "length preamble = 32"
  shows "\<exists>m. searchAlignedCandidates32Go (BlockSize cfg div 8) (packed_of w) (SymbolLength cfg div 8) (map sym_mask preamble) = Inr m \<and>
    expandAlignedCandidates m = preamble_positions w (BlockSize cfg) (SymbolLength cfg) preamble"
proof -
  let ?n = "BlockSize cfg div 8"
  obtain m where m: "mapM_res (\<lambda>qByte. match_all_symbols (packed_of w) (SymbolLength cfg div 8) qByte 0 (map sym_mask preamble) 0xff) [0..<?n] = Inr m"
    and hits: "list_all2 (\<lambda>q r. phases q r = byte_hits (hits cfg w preamble) q) [0..<?n] m"
    using mapM_res_ex [of "[0..<?n]" "\<lambda>q. match_all_symbols (packed_of w) (SymbolLength cfg div 8) q 0 (map sym_mask preamble) 0xff"
        "\<lambda>q r. phases q r = byte_hits (hits cfg w preamble) q"] match_all_hits [OF assms(1)] by auto
  have len: "length m = ?n" using hits by (simp add: list_all2_conv_all_nth)
  have "expandAlignedCandidates m = concat (map (byte_hits (hits cfg w preamble)) [0..<?n])"
    using hits len unfolding expandAlignedCandidates_def
    by (auto simp: map_zip_index list_all2_conv_all_nth intro!: arg_cong [where f = concat] map_cong)
  also have "\<dots> = preamble_positions w (BlockSize cfg) (SymbolLength cfg) preamble"
    using assms(1) by (simp add: concat_hits preamble_positions_def searchable_def)
  finally show ?thesis using m assms(2) by (cases "?n = 0") (auto simp: searchAlignedCandidates32Go_def)
qed

lemma masks4_hits:
  assumes "searchable cfg w preamble" "4 \<le> length preamble"
  shows "\<exists>m. searchAlignedCandidates4Go (BlockSize cfg div 8) (packed_of w) (SymbolLength cfg div 8)
      (map sym_mask (take 4 preamble)) = Inr m \<and>
    finishAlignedCandidates (packed_of w) preamble (SymbolLength cfg div 8) m =
      Inr (preamble_positions w (BlockSize cfg) (SymbolLength cfg) preamble)"
proof -
  let ?n = "BlockSize cfg div 8" and ?L = "SymbolLength cfg div 8" and ?P = "packed_of w"
  let ?R = "\<lambda>q c. \<exists>r. (if c \<noteq> 0 then match_rest ?P ?L q 4 (drop 4 preamble) c else Inr c) = Inr r \<and>
    phases q r = byte_hits (hits cfg w preamble) q"
  obtain m where m: "searchAlignedCandidates4Go ?n ?P ?L (map sym_mask (take 4 preamble)) = Inr m"
    and hits: "list_all2 ?R [0..<?n] m"
    using mapM_res_ex [of "[0..<?n]" "\<lambda>q. match_first4 ?P ?L q (map sym_mask (take 4 preamble))" ?R]
      first4_hits [OF assms] unfolding searchAlignedCandidates4Go_def by auto
  have len: "length m = ?n" using hits by (simp add: list_all2_conv_all_nth)
  have "mapM_res (\<lambda>(q, c). bind_res (if c \<noteq> 0 then match_rest ?P ?L q 4 (drop 4 preamble) c else Inr c)
      (\<lambda>c. Inr (phases q c))) (zip [0..<?n] m) =
    Inr (map (\<lambda>(q, c). byte_hits (hits cfg w preamble) q) (zip [0..<?n] m))"
    using hits len by (intro mapM_res_Inr) (force simp: set_zip list_all2_conv_all_nth)
  moreover have "map (\<lambda>(q, c). byte_hits (hits cfg w preamble) q) (zip [0..<?n] m) = map (byte_hits (hits cfg w preamble)) [0..<?n]"
    using len by (simp add: map_zip_index)
  ultimately show ?thesis using m len assms(1)
    by (simp add: finishAlignedCandidates_def concat_hits preamble_positions_def searchable_def)
qed

lemma aligned_hits:
  assumes pf: "leaves_agree pf" and s: "searchable cfg w preamble"
  shows "searchPackedByteAligned pf cfg (packed_of w) preamble =
    Inr (preamble_positions w (BlockSize cfg) (SymbolLength cfg) preamble)"
proof (cases "length preamble < 4")
  case True
  then show ?thesis by (simp add: searchPackedByteAligned_def generic_hits [OF s])
next
  case False
  then have four: "4 \<le> length preamble" by simp
  let ?n = "BlockSize cfg div 8" and ?L = "SymbolLength cfg div 8" and ?P = "packed_of w"
  obtain m4 where m4: "searchAlignedCandidates4Go ?n ?P ?L (map sym_mask (take 4 preamble)) = Inr m4"
      "finishAlignedCandidates ?P preamble ?L m4 = Inr (preamble_positions w (BlockSize cfg) (SymbolLength cfg) preamble)"
    using masks4_hits [OF s four] by blast
  have m32: "\<exists>m32. searchAlignedCandidates32Go ?n ?P ?L (map sym_mask preamble) = Inr m32 \<and>
      expandAlignedCandidates m32 = preamble_positions w (BlockSize cfg) (SymbolLength cfg) preamble"
    if "length preamble = 32" using masks32_hits [OF s that] .
  have loop: "mapM_res (\<lambda>q. bind_res (match_first4 ?P ?L q (map sym_mask (take 4 preamble))) (\<lambda>c.
      bind_res (if c \<noteq> 0 then match_rest ?P ?L q 4 (drop 4 preamble) c else Inr c) (\<lambda>c. Inr (phases q c)))) [0..<?n]
      = Inr (map (byte_hits (hits cfg w preamble)) [0..<?n])"
    using first4_hits [OF s four] by (intro mapM_res_Inr) fastforce
  have hits: "concat (map (byte_hits (hits cfg w preamble)) [0..<?n]) =
      preamble_positions w (BlockSize cfg) (SymbolLength cfg) preamble"
    using s by (simp add: concat_hits preamble_positions_def searchable_def)
  show ?thesis
    using pf m4 m32 loop hits False unfolding leaves_agree_def
    by (auto simp: searchPackedByteAligned_def Let_def split: option.split)
qed

section \<open>The legacy search\<close>

lemma concat_singletons: "concat (map (\<lambda>x. if P x then [x] else []) a) = filter P a"
  by (induction a) simp_all

lemma searchPassByte_filter:
  "\<forall>q\<in>set a. q < length sig \<Longrightarrow> searchPassByte m sig a = Inr (filter (\<lambda>q. sig ! q \<noteq> m) a)"
  unfolding searchPassByte_def
  by (subst mapM_res_Inr [where g = "\<lambda>q. if sig ! q \<noteq> m then [q] else []"]) (simp_all add: concat_singletons)

lemma legacy_bytes_filter:
  assumes "\<And>k. k < length ps \<Longrightarrow> (i + k) * L \<le> length packed \<and> (\<forall>q\<in>set a. (i + k) * L + q < length packed)"
  shows "legacy_bytes packed L i ps a =
    Inr (filter (\<lambda>q. \<forall>k < length ps. packed ! ((i + k) * L + q) \<noteq> sym_mask (ps ! k)) a)"
  using assms
proof (induction ps arbitrary: i a)
  case (Cons p ps)
  let ?a = "filter (\<lambda>q. packed ! (i * L + q) \<noteq> sym_mask p) a"
  have 0: "i * L \<le> length packed" "\<forall>q\<in>set a. i * L + q < length packed" using Cons.prems [of 0] by simp_all
  have "searchPassByte (sym_mask p) (sub packed (i * L) (length packed)) a = Inr ?a"
    using 0 by (subst searchPassByte_filter) (auto simp: less_diff_conv2 add.commute intro!: filter_cong)
  moreover have "legacy_bytes packed L (i + 1) ps ?a =
      Inr (filter (\<lambda>q. \<forall>k < length ps. packed ! ((i + 1 + k) * L + q) \<noteq> sym_mask (ps ! k)) ?a)"
    using Cons.prems [of "Suc k" for k] by (intro Cons.IH) auto
  moreover have "filter (\<lambda>q. \<forall>k < length ps. packed ! ((i + 1 + k) * L + q) \<noteq> sym_mask (ps ! k)) ?a =
      filter (\<lambda>q. \<forall>k < length (p # ps). packed ! ((i + k) * L + q) \<noteq> sym_mask ((p # ps) ! k)) a"
    by (auto simp: All_less_Suc2 intro!: filter_cong)
  ultimately show ?case using 0 by (cases "?a = []") simp_all
qed simp

lemma searchPassRing_filter:
  assumes "start < length sig" "\<forall>q\<in>set a. off + q < length sig" "off \<le> length sig"
  shows "searchPassRing p sig (start + off) a = Inr (filter (\<lambda>q. rotated sig start ! (q + off) = p) a)"
proof -
  have "wrap (length sig) (wrap (length sig) (start + off) + q) = wrap (length sig) (start + (q + off))"
    if "q \<in> set a" for q using that assms by (auto simp: wrap_def)
  moreover have "wrap (length sig) (start + (q + off)) < length sig" if "q \<in> set a" for q
    using that assms by (intro wrap_less) auto
  ultimately have "mapM_res (\<lambda>q. bind_res (index_res sig (wrap (length sig) (wrap (length sig) (start + off) + q)))
      (\<lambda>x. Inr (if x = p then [q] else []))) a =
    Inr (map (\<lambda>q. if rotated sig start ! (q + off) = p then [q] else []) a)"
    using assms by (intro mapM_res_Inr) (simp add: nth_rotated_wrap add.commute)
  then show ?thesis by (simp add: searchPassRing_def Let_def concat_singletons flip: wrap_def)
qed

lemma legacy_samples_filter:
  assumes "start < length sig"
    and "\<And>k. k < length ps \<Longrightarrow> (i + k) * L \<le> length sig \<and> (\<forall>q\<in>set a. (i + k) * L + q < length sig)"
  shows "legacy_samples sig start L i ps a =
    Inr (filter (\<lambda>q. \<forall>k < length ps. rotated sig start ! (q + (i + k) * L) = ps ! k) a)"
  using assms(2)
proof (induction ps arbitrary: i a)
  case (Cons p ps)
  let ?a = "filter (\<lambda>q. rotated sig start ! (q + i * L) = p) a"
  have "i * L \<le> length sig" "\<forall>q\<in>set a. i * L + q < length sig" using Cons.prems [of 0] by simp_all
  then have "searchPassRing p sig (start + i * L) a = Inr ?a"
    using assms(1) by (intro searchPassRing_filter) simp_all
  moreover have "legacy_samples sig start L (i + 1) ps ?a =
      Inr (filter (\<lambda>q. \<forall>k < length ps. rotated sig start ! (q + (i + 1 + k) * L) = ps ! k) ?a)"
    using Cons.prems [of "Suc k" for k] by (intro Cons.IH) auto
  moreover have "filter (\<lambda>q. \<forall>k < length ps. rotated sig start ! (q + (i + 1 + k) * L) = ps ! k) ?a =
      filter (\<lambda>q. \<forall>k < length (p # ps). rotated sig start ! (q + (i + k) * L) = (p # ps) ! k) a"
    by (auto simp: All_less_Suc2 intro!: filter_cong)
  ultimately show ?case by (cases "?a = []") simp_all
qed simp

lemma filter_kept_bytes:
  assumes "\<And>q p. q < n \<Longrightarrow> p < 8 \<Longrightarrow> P (8 * q + p) \<Longrightarrow> keep q"
  shows "filter P (concat (map (\<lambda>q. map (\<lambda>p. 8 * q + p) [0..<8]) (filter keep [0..<n]))) = filter P [0..<8 * n]"
  using assms
proof (induction n)
  case (Suc n)
  have "\<not> keep n \<Longrightarrow> filter P (map (\<lambda>p. 8 * n + p) [0..<8]) = []"
    using Suc.prems [of n] by (auto simp: filter_empty_conv dest!: le_Suc_ex)
  with Suc show ?case unfolding upt_8 by (cases "keep n") simp_all
qed simp

lemma hit_symbol:
  assumes "searchable cfg w preamble" "q < BlockSize cfg div 8" "p < 8" "k < length preamble"
    and "hits cfg w preamble (8 * q + p)"
  shows "packed_of w ! (k * (SymbolLength cfg div 8) + q) \<noteq> sym_mask (preamble ! k)"
proof -
  have "bit (packed_of w ! (q + k * (SymbolLength cfg div 8)) XOR sym_mask (preamble ! k)) (7 - p)"
    using assms symbol_bit(2) [OF assms(1,4,2,3)] by (simp add: preamble_at_def)
  then show ?thesis by (auto simp: add.commute)
qed

lemma legacy_hits:
  assumes s: "searchable (Cfg d) w preamble" and pre: "preamble \<noteq> []"
    and w: "w = take (8 * m) (decisions d)" "8 * m \<le> length (Quantized d)"
    and start: "quantizedStart d < length (Quantized d)"
  shows "searchPackedLegacy d (packed_of w) stale preamble =
    Inr (preamble_positions w (BlockSize (Cfg d)) (SymbolLength (Cfg d)) preamble)"
proof -
  let ?n = "BlockSize (Cfg d) div 8" and ?L = "SymbolLength (Cfg d) div 8" and ?P = "packed_of w"
  let ?S = "SymbolLength (Cfg d)" and ?Q = "Quantized d"
  obtain p0 ps where p: "preamble = p0 # ps" using pre by (cases preamble) auto
  have lt: "k * ?L + q < length ?P" if "k < length preamble" "q < ?n" for k q
    using symbol_bit(1) [OF s that, where p = 0] by (simp add: add.commute)
  have le: "k * ?L \<le> length ?P" if "k < length preamble" for k
  proof -
    have "k * ?L \<le> length preamble * ?L" using that by (intro mult_le_mono) simp_all
    moreover have "?n + length preamble * ?L \<le> length ?P" using s by (simp add: searchable_def)
    ultimately show ?thesis by linarith
  qed
  have n: "?n \<le> length ?P" using s by (simp add: searchable_def)
  let ?keep = "\<lambda>q. \<forall>k < length preamble. ?P ! (k * ?L + q) \<noteq> sym_mask (preamble ! k)"
  let ?a = "filter (\<lambda>q. ?P ! q \<noteq> sym_mask p0) [0..<?n]"
  have "legacy_bytes ?P ?L 1 ps ?a =
      Inr (filter (\<lambda>q. \<forall>k < length ps. ?P ! ((1 + k) * ?L + q) \<noteq> sym_mask (ps ! k)) ?a)"
    using le [of "1 + k" for k] lt [of "1 + k" for k] by (intro legacy_bytes_filter) (auto simp: p)
  also have "filter (\<lambda>q. \<forall>k < length ps. ?P ! ((1 + k) * ?L + q) \<noteq> sym_mask (ps ! k)) ?a = filter ?keep [0..<?n]"
    by (auto simp: p All_less_Suc2 intro!: filter_cong)
  finally have stage1: "legacy_bytes ?P ?L 1 ps ?a = Inr (filter ?keep [0..<?n])" .
  let ?a8 = "concat (map (\<lambda>q. map (\<lambda>p. 8 * q + p) [0..<8]) (filter ?keep [0..<?n]))"
  have wd: "w ! i = decisions d ! i" if "i < length w" for i using that w by simp
  have pos: "q + k * ?S < length w" if "q < BlockSize (Cfg d)" "k < length preamble" for q k
  proof -
    have "q div 8 < ?n" using that s by (simp add: searchable_def less_mult_imp_div_less)
    then have "q div 8 + k * ?L < length w div 8" using lt [OF that(2)] by (simp add: add.commute)
    then have "8 * (q div 8 + k * ?L) + q mod 8 < length w" by (rule byte_sample_less) simp
    moreover have "8 * (k * ?L) = k * ?S" using s by (simp add: searchable_def)
    ultimately show ?thesis by (simp add: distrib_left)
  qed
  have mem: "q < BlockSize (Cfg d)" if "q \<in> set ?a8" for q
  proof -
    from that obtain i where "i < ?n" "q < 8 * i + 8" by auto
    then have "q < 8 * ?n" by linarith
    then show ?thesis using s by (simp add: searchable_def)
  qed
  have wQ: "length w \<le> length ?Q" using w by simp
  have "legacy_samples ?Q (quantizedStart d) ?S 0 preamble ?a8 =
      Inr (filter (\<lambda>q. \<forall>k < length preamble. decisions d ! (q + (0 + k) * ?S) = preamble ! k) ?a8)"
    unfolding decisions_def
  proof (rule legacy_samples_filter [OF start])
    fix k assume k: "k < length preamble"
    have "k * ?S = 8 * (k * ?L)" using s by (simp add: searchable_def)
    moreover have "k * ?L \<le> length w div 8" using le [OF k] by simp
    ultimately have "k * ?S \<le> length ?Q" using wQ by linarith
    moreover have "(0 + k) * ?S + q < length ?Q" if "q \<in> set ?a8" for q
      using pos [OF mem [OF that] k] wQ by (simp add: add.commute)
    ultimately show "(0 + k) * ?S \<le> length ?Q \<and> (\<forall>q\<in>set ?a8. (0 + k) * ?S + q < length ?Q)" by simp
  qed
  also have "filter (\<lambda>q. \<forall>k < length preamble. decisions d ! (q + (0 + k) * ?S) = preamble ! k) ?a8 =
      filter (hits (Cfg d) w preamble) ?a8"
    by (rule filter_cong [OF refl]) (simp add: preamble_at_def wd pos [OF mem])
  also have "\<dots> = filter (hits (Cfg d) w preamble) [0..<8 * ?n]"
    by (rule filter_kept_bytes) (use hit_symbol [OF s] in blast)
  also have "8 * ?n = BlockSize (Cfg d)" using s by (simp add: searchable_def)
  finally have stage2: "legacy_samples ?Q (quantizedStart d) ?S 0 preamble ?a8 =
      Inr (filter (hits (Cfg d) w preamble) [0..<BlockSize (Cfg d)])" .
  have "filter (\<lambda>q. sub ?P 0 ?n ! q \<noteq> sym_mask p0) [0..<length (sub ?P 0 ?n)] = ?a"
    using n by (auto intro!: filter_cong)
  then have "(case preamble of [] \<Rightarrow> Inr stale | pBit # ps \<Rightarrow>
      bind_res (slice_res ?P 0 ?n) (\<lambda>bytes. legacy_bytes ?P ?L 1 ps
        (filter (\<lambda>q. bytes ! q \<noteq> sym_mask pBit) [0..<length bytes]))) = Inr (filter ?keep [0..<?n])"
    using stage1 n by (simp only: p list.case slice_res_simp bind_res_simps le0)
  then show ?thesis using stage2 unfolding searchPackedLegacy_def Let_def preamble_positions_def
    by (simp only: bind_res_simps)
qed

section \<open>Properties\<close>

text \<open>C16: the byte-aligned preamble search, which tests the eight phases of a packed byte at once
  with masks and an early exit, and whichever leaf the platform selects, returns in ascending order
  exactly the samples of the block at which every symbol of the preamble is decided as required.\<close>

theorem search_finds_exactly_the_preambles:
  assumes "leaves_agree pf" and "searchable (Cfg d) w preamble"
  shows "searchPacked pf d (packed_of w) stale preamble =
    Inr (preamble_positions w (BlockSize (Cfg d)) (SymbolLength (Cfg d)) preamble)"
  using aligned_hits [OF assms] assms(2) by (simp add: searchPacked_def searchable_def)

definition search_cfg :: PacketConfig where
  "search_cfg = zeroPacketConfig\<lparr>BlockSize := 16, SymbolLength := 8\<rparr>"

definition search_ring :: Ring where
  "search_ring = \<lparr>Cfg = search_cfg, quantizedBacking = [], quantizedAliased = False,
     QuantizedOwn = replicate 40 0 @ [1] @ replicate 7 0, quantizedStart = 0\<rparr>"

theorem search_finds_exactly_the_preambles_witness:
  "searchPacked generic_platform search_ring (packed_of (decisions search_ring)) [] [0, 0, 0, 1] =
     Inr (preamble_positions (decisions search_ring) (BlockSize (Cfg search_ring))
       (SymbolLength (Cfg search_ring)) [0, 0, 0, 1])"
proof (rule search_finds_exactly_the_preambles [OF generic_leaves_agree])
  show "searchable (Cfg search_ring) (decisions search_ring) [0, 0, 0, 1]" by code_simp
qed

text \<open>C17: for every symbol length that is a whole number of bytes, the legacy search, which filters
  bytes first and single samples in the ring afterwards, returns the same indices as the
  byte-aligned search on every platform.\<close>

theorem legacy_search_equals_aligned_search:
  assumes "leaves_agree pf" and "searchable (Cfg d) w preamble" and "preamble \<noteq> []"
    and "w = take (8 * m) (decisions d)" "8 * m \<le> length (Quantized d)"
    and "quantizedStart d < length (Quantized d)"
  shows "searchPackedLegacy d (packed_of w) stale preamble = searchPackedByteAligned pf (Cfg d) (packed_of w) preamble"
  using legacy_hits [OF assms(2-6)] aligned_hits [OF assms(1,2)] by simp

theorem legacy_search_equals_aligned_search_witness:
  "searchPackedLegacy search_ring (packed_of (decisions search_ring)) [7] [0, 0, 0, 1] =
     searchPackedByteAligned generic_platform (Cfg search_ring) (packed_of (decisions search_ring)) [0, 0, 0, 1]"
proof (rule legacy_search_equals_aligned_search [OF generic_leaves_agree])
  show "searchable (Cfg search_ring) (decisions search_ring) [0, 0, 0, 1]" by code_simp
  show "decisions search_ring = take (8 * 6) (decisions search_ring)" by code_simp
  show "8 * 6 \<le> length (Quantized search_ring)" by code_simp
  show "quantizedStart search_ring < length (Quantized search_ring)" by code_simp
qed simp

definition odd_ring :: Ring where
  "odd_ring = \<lparr>Cfg = zeroPacketConfig\<lparr>BlockSize := 8, SymbolLength := 12\<rparr>, quantizedBacking = [],
     quantizedAliased = False, QuantizedOwn = replicate 16 1 @ [0] @ replicate 15 1, quantizedStart = 0\<rparr>"


end
