(* ===== verification/Slice.thy ===== *)
theory Slice
  imports Packing
begin

text \<open>
  Sampling packets out of the decision ring, \<open>slice\<close> of \<^verbatim>\<open>src/protocol/decode.go\<close>:
  one walk over the ring per candidate, assembling bytes in a register.
\<close>

section \<open>The code\<close>

text \<open>The bits of one packet byte, from physical position \<open>qPhysical\<close> on.\<close>

fun slice_byte :: "'a Ring_scheme \<Rightarrow> nat \<Rightarrow> u8 \<Rightarrow> nat \<Rightarrow> (u8 \<times> nat) res" where
  "slice_byte d 0 value qPhysical = Inr (value, qPhysical)"
| "slice_byte d (Suc n) value qPhysical =
     bind_res (index_res (Quantized d) qPhysical) (\<lambda>q.
     let value = push_bit 1 value OR q;
         next0 = qPhysical + SymbolLength (Cfg d);
         qPhysical = (if next0 \<ge> length (Quantized d) then next0 - length (Quantized d) else next0)
     in slice_byte d n value qPhysical)"

fun slice_bytes :: "'a Ring_scheme \<Rightarrow> u8 list \<Rightarrow> nat \<Rightarrow> nat \<Rightarrow> u8 list res" where
  "slice_bytes d [] remainingSymbols qPhysical = Inr []"
| "slice_bytes d (old # pkt) remainingSymbols qPhysical =
     (let bitsInByte = (if remainingSymbols < 8 then remainingSymbols else 8) in
      bind_res (slice_byte d bitsInByte old qPhysical) (\<lambda>(value, qPhysical).
      bind_res (slice_bytes d pkt (remainingSymbols - bitsInByte) qPhysical) (\<lambda>rest.
      Inr (value # rest))))"

text \<open>The decoder's scratch \<open>pkt\<close> is carried from candidate to candidate.\<close>

fun slice_loop :: "'a Ring_scheme \<Rightarrow> bool \<Rightarrow> u8 list \<Rightarrow> nat list \<Rightarrow> (Data list \<times> u8 list) res" where
  "slice_loop d includeBits pkt [] = Inr ([], pkt)"
| "slice_loop d includeBits pkt (qIdx # indices) =
     (if qIdx > BlockSize (Cfg d) then slice_loop d includeBits pkt indices
      else
        let start0 = quantizedStart d + qIdx;
            qPhysical = (if start0 \<ge> length (Quantized d) then start0 - length (Quantized d) else start0)
        in bind_res (slice_bytes d pkt (PacketSymbols (Cfg d)) qPhysical) (\<lambda>pkt.
           let data = (newData pkt includeBits)\<lparr>Idx := qIdx\<rparr> in
           bind_res (slice_loop d includeBits pkt indices) (\<lambda>(pkts, pkt).
           Inr (data # pkts, pkt))))"

definition slice :: "'a Ring_scheme \<Rightarrow> u8 list \<Rightarrow> nat list \<Rightarrow> bool \<Rightarrow> (Data list \<times> u8 list) res" where
  "slice d pkt indices includeBits = slice_loop d includeBits pkt indices"

section \<open>Correctness\<close>

text \<open>The symbols of the packet that starts at sample \<open>q\<close> of the logical window.\<close>

definition packet_bits :: "PacketConfig \<Rightarrow> u8 list \<Rightarrow> nat \<Rightarrow> bool list" where
  "packet_bits cfg w q = map (\<lambda>k. w ! (q + k * SymbolLength cfg) = 1) [0..<PacketSymbols cfg]"

lemma byte_bits_shift_in: "b \<in> {0, 1} \<Longrightarrow> byte_bits (push_bit 1 v OR b) = tl (byte_bits v) @ [b = 1]"
proof (rule nth_equalityI)
  fix i assume b: "b \<in> {0, 1}" and "i < length (byte_bits (push_bit 1 v OR b))"
  then have i: "i < 8" by simp
  show "byte_bits (push_bit 1 v OR b) ! i = (tl (byte_bits v) @ [b = 1]) ! i"
    unfolding nth_byte_bits [OF i] bit_or_iff bit_push_bit_iff
  proof (cases "i = 7")
    case True
    then show "(1 \<le> 7 - i \<and> possible_bit TYPE(u8) (7 - i) \<and> bit v (7 - i - 1)) \<or> bit b (7 - i) \<longleftrightarrow>
        (tl (byte_bits v) @ [b = 1]) ! i"
      using b by (auto simp: nth_append)
  next
    case False
    with i have "7 - i = Suc (6 - i)" "i < 7" by simp_all
    then show "(1 \<le> 7 - i \<and> possible_bit TYPE(u8) (7 - i) \<and> bit v (7 - i - 1)) \<or> bit b (7 - i) \<longleftrightarrow>
        (tl (byte_bits v) @ [b = 1]) ! i"
      using b i by (auto simp: nth_append nth_tl nth_byte_bits possible_bit_def)
  qed
qed simp

lemma slice_byte_bits:
  assumes start: "quantizedStart d < length (Quantized d)" and bin: "binary (Quantized d)"
    and pos: "pos + n * SymbolLength (Cfg d) \<le> length (Quantized d)" "0 < SymbolLength (Cfg d)" "n \<le> 8"
  shows "\<exists>v'. slice_byte d n v (wrap (length (Quantized d)) (quantizedStart d + pos)) =
      Inr (v', wrap (length (Quantized d)) (quantizedStart d + (pos + n * SymbolLength (Cfg d)))) \<and>
    byte_bits v' = drop n (byte_bits v) @ map (\<lambda>k. decisions d ! (pos + k * SymbolLength (Cfg d)) = 1) [0..<n]"
  using pos
proof (induction n arbitrary: v pos)
  case (Suc n)
  let ?N = "length (Quantized d)" and ?S = "SymbolLength (Cfg d)" and ?s = "quantizedStart d"
  let ?b = "decisions d ! pos"
  have lt: "pos < ?N" using Suc.prems by simp
  then have q: "wrap ?N (?s + pos) < ?N" "Quantized d ! wrap ?N (?s + pos) = ?b"
    using start by (auto intro: wrap_less simp: decisions_def nth_rotated_wrap)
  then have b: "?b \<in> {0, 1}" using bin binary_nth [of "Quantized d"] by metis
  have step: "wrap ?N (wrap ?N (?s + pos) + ?S) = wrap ?N (?s + (pos + ?S))"
    using start Suc.prems by (auto simp: wrap_def)
  obtain v' where v': "slice_byte d n (push_bit 1 v OR ?b) (wrap ?N (?s + (pos + ?S))) =
      Inr (v', wrap ?N (?s + (pos + ?S + n * ?S)))"
    "byte_bits v' = drop n (byte_bits (push_bit 1 v OR ?b)) @ map (\<lambda>k. decisions d ! (pos + ?S + k * ?S) = 1) [0..<n]"
    using Suc.IH [of "pos + ?S" "push_bit 1 v OR ?b"] Suc.prems by auto
  have "byte_bits v' = drop (Suc n) (byte_bits v) @ map (\<lambda>k. decisions d ! (pos + k * ?S) = 1) [0..<Suc n]"
  proof -
    have "drop n (tl (byte_bits v) @ [?b = 1]) = drop (Suc n) (byte_bits v) @ [?b = 1]"
      using Suc.prems by (simp add: drop_Suc)
    moreover have "[0..<Suc n] = 0 # map Suc [0..<n]" by (simp add: upt_conv_Cons map_Suc_upt del: upt_Suc)
    ultimately show ?thesis using v'(2) unfolding byte_bits_shift_in [OF b]
      by (simp add: add.assoc o_def del: upt_Suc)
  qed
  then show ?case using v'(1) q step by (auto simp: Let_def add.assoc simp flip: wrap_def)
qed simp

lemma slice_bytes_bits:
  assumes start: "quantizedStart d < length (Quantized d)" and bin: "binary (Quantized d)"
    and S: "0 < SymbolLength (Cfg d)" and pos: "pos + (8 * length pkt) * SymbolLength (Cfg d) \<le> length (Quantized d)"
  shows "\<exists>bs. slice_bytes d pkt (8 * length pkt) (wrap (length (Quantized d)) (quantizedStart d + pos)) = Inr bs \<and>
    length bs = length pkt \<and>
    bytes_bits bs = map (\<lambda>k. decisions d ! (pos + k * SymbolLength (Cfg d)) = 1) [0..<8 * length pkt]"
  using pos
proof (induction pkt arbitrary: pos)
  case (Cons old pkt)
  let ?N = "length (Quantized d)" and ?S = "SymbolLength (Cfg d)" and ?s = "quantizedStart d"
  let ?n = "8 * length pkt" and ?bit = "\<lambda>pos k. decisions d ! (pos + k * ?S) = 1"
  obtain v where v: "slice_byte d 8 old (wrap ?N (?s + pos)) = Inr (v, wrap ?N (?s + (pos + 8 * ?S)))"
      "byte_bits v = map (?bit pos) [0..<8]"
    using slice_byte_bits [OF start bin, of pos 8 old] Cons.prems S by (auto simp: algebra_simps)
  obtain bs where bs: "slice_bytes d pkt ?n (wrap ?N (?s + (pos + 8 * ?S))) = Inr bs" "length bs = length pkt"
      "bytes_bits bs = map (?bit (pos + 8 * ?S)) [0..<?n]"
    using Cons.IH [of "pos + 8 * ?S"] Cons.prems by (auto simp: algebra_simps)
  have "[0..<8 * length (old # pkt)] = [0..<8] @ map (\<lambda>k. k + 8) [0..<?n]"
    using upt_add_eq_append [of 0 8 ?n] map_add_upt [of 8 ?n] by (simp add: add.commute)
  then have "map (?bit pos) [0..<8 * length (old # pkt)] = bytes_bits (v # bs)"
    using v(2) bs(3) by (simp add: o_def algebra_simps)
  then show ?case using v(1) bs(1,2) by (auto simp: Let_def)
qed simp

text \<open>The packet the parsers are handed for a candidate.\<close>

definition packet_at :: "PacketConfig \<Rightarrow> u8 list \<Rightarrow> bool \<Rightarrow> nat \<Rightarrow> Data" where
  "packet_at cfg w includeBits q = (newData (pack_bits (packet_bits cfg w q)) includeBits)\<lparr>Idx := q\<rparr>"

definition sliceable :: "'a Ring_scheme \<Rightarrow> bool" where
  "sliceable d \<longleftrightarrow> ring_inv (Cfg d) d \<and> binary (decisions d) \<and> 8 dvd PacketSymbols (Cfg d) \<and>
     0 < SymbolLength (Cfg d) \<and> PacketConfig.PacketLength (Cfg d) = PacketSymbols (Cfg d) * SymbolLength (Cfg d)"

lemma slice_loop_packets:
  assumes "sliceable d" "length pkt = PacketSymbols (Cfg d) div 8"
  shows "\<exists>pkt'. slice_loop d includeBits pkt indices =
      Inr (map (packet_at (Cfg d) (decisions d) includeBits) (filter (\<lambda>q. q \<le> BlockSize (Cfg d)) indices), pkt') \<and>
    length pkt' = length pkt"
  using assms(2)
proof (induction indices arbitrary: pkt)
  case (Cons q indices)
  let ?N = "length (Quantized d)"
  have d: "quantizedStart d < ?N" "binary (Quantized d)" "0 < SymbolLength (Cfg d)"
      "?N = PacketSymbols (Cfg d) * SymbolLength (Cfg d) + BlockSize (Cfg d)" "8 * length pkt = PacketSymbols (Cfg d)"
    using assms(1) Cons.prems by (auto simp: sliceable_def ring_inv_def decisions_def)
  show ?case
  proof (cases "q \<le> BlockSize (Cfg d)")
    case True
    obtain bs where bs: "slice_bytes d pkt (PacketSymbols (Cfg d)) (wrap ?N (quantizedStart d + q)) = Inr bs"
        "length bs = length pkt" "bytes_bits bs = packet_bits (Cfg d) (decisions d) q"
      using slice_bytes_bits [OF d(1,2,3), of q pkt] d(4,5) True by (auto simp: packet_bits_def)
    then have "pack_bits (packet_bits (Cfg d) (decisions d) q) = bs" by (metis pack_bits_bytes_bits)
    then show ?thesis using True bs Cons.IH [of bs] Cons.prems
      by (auto simp: packet_at_def Let_def simp flip: wrap_def)
  next
    case False
    then show ?thesis using Cons by simp
  qed
qed simp

section \<open>Properties\<close>

text \<open>C19: for every list of candidates, slicing returns, for each candidate within the first block and
  in order, the packet whose bit \<open>k\<close> is the decision one symbol length after bit \<open>k - 1\<close>,
  counted in the logical history from the candidate: wherever the ring wraps, and whatever the
  scratch packet held before, when packets are a whole number of bytes.\<close>

theorem slice_samples_every_candidate:
  assumes "sliceable d" and "length pkt = PacketSymbols (Cfg d) div 8"
  shows "\<exists>pkt'. slice d pkt indices includeBits =
      Inr (map (packet_at (Cfg d) (decisions d) includeBits) (filter (\<lambda>q. q \<le> BlockSize (Cfg d)) indices), pkt') \<and>
    length pkt' = length pkt"
  using slice_loop_packets [OF assms] by (simp add: slice_def)

definition slice_ring :: Ring where
  "slice_ring = \<lparr>Cfg = zeroPacketConfig\<lparr>BlockSize := 8, SymbolLength := 2, PacketSymbols := 8,
       PacketConfig.PacketLength := 16, BufferLength := 24\<rparr>,
     quantizedBacking = [], quantizedAliased = False,
     QuantizedOwn = [0, 1, 1, 1, 0, 1, 0, 1, 1, 0, 0, 0, 1, 1, 1, 1, 0, 0, 1, 0, 1, 0, 0, 1],
     quantizedStart = 16\<rparr>"

theorem slice_samples_every_candidate_witness:
  "\<exists>pkt'. slice slice_ring [0xA5] [3, 9, 8] True =
      Inr (map (packet_at (Cfg slice_ring) (decisions slice_ring) True)
        (filter (\<lambda>q. q \<le> BlockSize (Cfg slice_ring)) [3, 9, 8]), pkt') \<and> length pkt' = length [0xA5 :: u8]"
  by (rule slice_samples_every_candidate)
    (simp_all add: sliceable_def ring_inv_def slice_ring_def Quantized_def decisions_def binary_def rotated_def)

text \<open>When packets are not a whole number of bytes, as for R900 alone with its 116 symbols, the
  unused high bits of the last byte of a packet are left over from the packet sliced before it:
  the same candidate gives different bytes for different contents of the scratch.\<close>

theorem slice_partial_byte_keeps_old_bits:
  "slice (slice_ring\<lparr>Cfg := (Cfg slice_ring)\<lparr>PacketSymbols := 4\<rparr>\<rparr>) [0x00] [0] False \<noteq>
   slice (slice_ring\<lparr>Cfg := (Cfg slice_ring)\<lparr>PacketSymbols := 4\<rparr>\<rparr>) [0x0F] [0] False"
  by code_simp

end
