(* ===== verification/History.thy ===== *)
theory History
  imports Window
begin

text \<open>
  The sample history of the decoder: a ring of blocks, each stored behind a copy of the end of its
  predecessor so that every window a parser asks for is contiguous. The code has it twice, for
  \<open>float64\<close> magnitudes (\<open>signalBacking\<close>, \<open>SignalWindow\<close> and \<open>SignalAt\<close> in
  \<^verbatim>\<open>src/protocol/decode.go\<close>) and for \<open>uint16\<close> powers (\<open>power16State\<close>,
  \<open>Power16Window\<close> in \<^verbatim>\<open>src/protocol/power16.go\<close>); the model is polymorphic in the
  samples.
\<close>

section \<open>The code\<close>

record 'a Hist =
  historyOverlap :: nat
  backing :: "'a list"
  block :: nat
  blockCount :: nat
  blockStride :: nat
  blockShift :: nat
  blockMask :: nat
  gap :: nat

text \<open>\<^verbatim>\<open>bits.TrailingZeros\<close> of a 64-bit value.\<close>

definition TrailingZeros :: "nat \<Rightarrow> nat" where
  "TrailingZeros n = length (takeWhile (\<lambda>k. \<not> bit n k) [0..<64])"

definition allocateHistory :: "PacketConfig \<Rightarrow> nat \<Rightarrow> 'a \<Rightarrow> 'a Hist" where
  "allocateHistory cfg overlap zero =
     (let stride = BlockSize cfg + overlap;
          count = (BufferLength cfg + BlockSize cfg - 1) div BlockSize cfg
      in \<lparr>historyOverlap = overlap, backing = replicate (count * stride) zero, block = count - 1,
          blockCount = count, blockStride = stride, blockShift = TrailingZeros (BlockSize cfg),
          blockMask = BlockSize cfg - 1, gap = count * BlockSize cfg - BufferLength cfg\<rparr>)"

text \<open>Where the logical position \<open>idx\<close> is stored: the block and the offset in it.\<close>

definition locate :: "('a, 'b) Hist_scheme \<Rightarrow> nat \<Rightarrow> nat \<times> nat" where
  "locate h idx =
     (let physicalIdx = gap h + idx;
          blockOffset = drop_bit (blockShift h) physicalIdx;
          sampleOffset = physicalIdx AND blockMask h;
          blockIdx = block h + 1 + blockOffset
      in (if blockIdx \<ge> blockCount h then blockIdx - blockCount h else blockIdx, sampleOffset))"

definition SignalAt :: "('a, 'b) Hist_scheme \<Rightarrow> nat \<Rightarrow> 'a res" where
  "SignalAt h idx =
     (let (blockIdx, sampleOffset) = locate h idx in
      index_res (backing h) (blockIdx * blockStride h + historyOverlap h + sampleOffset))"

definition hist_slice :: "PacketConfig \<Rightarrow> ('a, 'b) Hist_scheme \<Rightarrow> nat \<Rightarrow> nat \<Rightarrow> 'a list res" where
  "hist_slice cfg h idx len =
     (let (blockIdx, sampleOffset) = locate h idx;
          start = (if sampleOffset + len > BlockSize cfg
                   then let beforeBoundary = BlockSize cfg - sampleOffset;
                            next0 = blockIdx + 1;
                            nextIdx = (if next0 = blockCount h then 0 else next0)
                        in nextIdx * blockStride h + historyOverlap h - beforeBoundary
                   else blockIdx * blockStride h + historyOverlap h + sampleOffset)
      in slice_res (backing h) start (start + len))"

definition SignalWindow :: "PacketConfig \<Rightarrow> ('a, 'b) Hist_scheme \<Rightarrow> nat \<Rightarrow> nat \<Rightarrow> 'a list res" where
  "SignalWindow cfg h idx len =
     (if len > historyOverlap h then Inl (Panic ''protocol: requested signal window exceeds retained overlap'')
      else hist_slice cfg h idx len)"

definition Power16Window :: "PacketConfig \<Rightarrow> ('a, 'b) Hist_scheme \<Rightarrow> int \<Rightarrow> int \<Rightarrow> 'a list res" where
  "Power16Window cfg h idx len =
     (if idx < 0 \<or> idx \<ge> int (BufferLength cfg) \<or> len < 0 \<or> len > int (historyOverlap h) \<or>
         len > int (BufferLength cfg) \<or> idx > int (BufferLength cfg) - len
      then Inl (Panic ''protocol: invalid Power16 history window'')
      else hist_slice cfg h (nat idx) (nat len))"

text \<open>Moving to the next block: copy the end of the current one in front of it.\<close>

definition hist_advance :: "PacketConfig \<Rightarrow> ('a, 'b) Hist_scheme \<Rightarrow> ('a, 'b) Hist_scheme res" where
  "hist_advance cfg h =
     (let previousStart = block h * blockStride h;
          block0 = block h + 1;
          block' = (if block0 = blockCount h then 0 else block0);
          currentStart = block' * blockStride h;
          overlap = historyOverlap h
      in bind_res (slice_res (backing h) (previousStart + BlockSize cfg) (previousStart + BlockSize cfg + overlap)) (\<lambda>tail.
         if currentStart + overlap > length (backing h) then Inl (Panic ''slice bounds out of range'')
         else Inr (h\<lparr>block := block', backing := write_at (backing h) currentStart tail\<rparr>)))"

text \<open>Storing the samples of the block behind the copy.\<close>

definition hist_store :: "('a, 'b) Hist_scheme \<Rightarrow> 'a list \<Rightarrow> ('a, 'b) Hist_scheme" where
  "hist_store h samples =
     h\<lparr>backing := write_at (backing h) (block h * blockStride h + historyOverlap h) samples\<rparr>"

definition hist_append :: "PacketConfig \<Rightarrow> ('a, 'b) Hist_scheme \<Rightarrow> 'a list \<Rightarrow> ('a, 'b) Hist_scheme res" where
  "hist_append cfg h samples = bind_res (hist_advance cfg h) (\<lambda>h. Inr (hist_store h samples))"

section \<open>The history is a sliding window\<close>

definition hist_inv :: "PacketConfig \<Rightarrow> ('a, 'b) Hist_scheme \<Rightarrow> bool" where
  "hist_inv c h \<longleftrightarrow>
     BlockSize c = 2 ^ blockShift h \<and> blockMask h = BlockSize c - 1 \<and> blockStride h = BlockSize c + historyOverlap h \<and>
     historyOverlap h \<le> BlockSize c \<and> 2 \<le> blockCount h \<and> block h < blockCount h \<and>
     length (backing h) = blockCount h * blockStride h \<and>
     gap h < BlockSize c \<and> gap h + BufferLength c = blockCount h * BlockSize c \<and>
     (\<forall>k < blockCount h. k \<noteq> block h \<longrightarrow> (\<forall>i < historyOverlap h.
        backing h ! ((if k + 1 = blockCount h then 0 else k + 1) * blockStride h + i) =
        backing h ! (k * blockStride h + BlockSize c + i)))"

text \<open>Sample \<open>i\<close> of the \<open>j\<close>-th oldest block, and the logical contents.\<close>

definition hist_at :: "('a, 'b) Hist_scheme \<Rightarrow> nat \<Rightarrow> nat \<Rightarrow> 'a" where
  "hist_at h j i = backing h ! (wrap (blockCount h) (block h + 1 + j) * blockStride h + historyOverlap h + i)"

definition hist_view :: "PacketConfig \<Rightarrow> ('a, 'b) Hist_scheme \<Rightarrow> 'a list" where
  "hist_view c h = map (\<lambda>i. hist_at h ((gap h + i) div BlockSize c) ((gap h + i) mod BlockSize c)) [0..<BufferLength c]"

lemma length_hist_view [simp]: "length (hist_view c h) = BufferLength c"
  by (simp add: hist_view_def)

lemma locate_inv:
  assumes "hist_inv c h"
  shows "locate h idx = (wrap (blockCount h) (block h + 1 + (gap h + idx) div BlockSize c), (gap h + idx) mod BlockSize c)"
proof -
  have b: "BlockSize c = 2 ^ blockShift h" "blockMask h = mask (blockShift h)"
    using assms by (auto simp: hist_inv_def mask_eq_exp_minus_1)
  then have "(gap h + idx) AND blockMask h = (gap h + idx) mod BlockSize c"
    by (simp add: take_bit_eq_mask flip: take_bit_eq_mod)
  then show ?thesis using b(1) by (simp add: locate_def Let_def drop_bit_eq_div wrap_def)
qed

lemma hist_index_less:
  assumes "hist_inv c h" "idx < BufferLength c"
  shows "(gap h + idx) div BlockSize c < blockCount h" "(gap h + idx) mod BlockSize c < BlockSize c"
proof -
  have i: "gap h + idx < blockCount h * BlockSize c" "0 < BlockSize c"
    using assms by (auto simp: hist_inv_def)
  then show "(gap h + idx) div BlockSize c < blockCount h" by (simp add: less_mult_imp_div_less)
  show "(gap h + idx) mod BlockSize c < BlockSize c" using i(2) by simp
qed

lemma cell_less: "k < (n :: nat) \<Longrightarrow> i < s \<Longrightarrow> k * s + i < n * s"
  by (metis add_less_cancel_left less_le_trans mult.commute mult_Suc_right mult_le_mono2 Suc_leI add.commute)

lemma SignalAt_view:
  assumes "hist_inv c h" "idx < BufferLength c"
  shows "SignalAt h idx = Inr (hist_view c h ! idx)"
proof -
  note lt = hist_index_less [OF assms]
  let ?k = "wrap (blockCount h) (block h + 1 + (gap h + idx) div BlockSize c)"
  have "?k < blockCount h" using lt assms(1) by (intro wrap_less) (simp add: hist_inv_def)
  then have "?k * blockStride h + (historyOverlap h + (gap h + idx) mod BlockSize c) < length (backing h)"
    using lt assms(1) by (auto simp: hist_inv_def intro!: cell_less)
  then show ?thesis using assms
    by (simp add: SignalAt_def locate_inv hist_view_def hist_at_def add.assoc)
qed

lemma hist_view_nth:
  assumes "gap h + idx = j * BlockSize c + r" "r < BlockSize c" "idx < BufferLength c"
  shows "hist_view c h ! idx = hist_at h j r"
  using assms by (simp add: hist_view_def)

lemma wrap_next: "b < n \<Longrightarrow> j + 1 < n \<Longrightarrow>
    (if wrap n (b + 1 + j) + 1 = n then 0 else wrap n (b + 1 + j) + 1) = wrap n (b + 1 + (j + 1))"
  by (auto simp: wrap_def)

lemma wrap_ne_block: "b < n \<Longrightarrow> j + 1 < n \<Longrightarrow> wrap n (b + 1 + j) \<noteq> b"
  by (auto simp: wrap_def)

text \<open>The copy in front of a block repeats the end of its predecessor.\<close>

lemma hist_copy:
  assumes inv: "hist_inv c h" and j: "j + 1 < blockCount h" and p: "p < historyOverlap h"
  shows "backing h ! (wrap (blockCount h) (block h + 1 + (j + 1)) * blockStride h + p) =
    backing h ! (wrap (blockCount h) (block h + 1 + j) * blockStride h + BlockSize c + p)"
proof -
  let ?k = "wrap (blockCount h) (block h + 1 + j)"
  have b: "block h < blockCount h" using inv by (simp add: hist_inv_def)
  have "?k < blockCount h" using b j by (intro wrap_less) simp
  moreover have "?k \<noteq> block h" by (rule wrap_ne_block [OF b j])
  ultimately have "backing h ! ((if ?k + 1 = blockCount h then 0 else ?k + 1) * blockStride h + p) =
      backing h ! (?k * blockStride h + BlockSize c + p)"
    using inv p unfolding hist_inv_def by blast
  then show ?thesis unfolding wrap_next [OF b j] .
qed

lemma hist_slice_view:
  assumes inv: "hist_inv c h" and len: "idx < BufferLength c" "idx + len \<le> BufferLength c" "len \<le> historyOverlap h"
  shows "hist_slice c h idx len = Inr (sub (hist_view c h) idx (idx + len))"
proof -
  define B where "B = BlockSize c"
  define j where "j = (gap h + idx) div B"
  define r where "r = (gap h + idx) mod B"
  let ?n = "blockCount h" and ?s = "blockStride h" and ?o = "historyOverlap h" and ?b = "block h"
  have i: "?s = B + ?o" "?o \<le> B" "?b < ?n" "length (backing h) = ?n * ?s" "gap h + BufferLength c = ?n * B" "0 < B"
    using inv by (auto simp: hist_inv_def B_def)
  have jr: "gap h + idx = j * B + r" "r < B" using i(6) by (simp_all add: j_def r_def)
  have loc: "locate h idx = (wrap ?n (?b + 1 + j), r)" by (simp add: locate_inv [OF inv] j_def r_def B_def)
  have j: "j < ?n" using hist_index_less(1) [OF inv len(1)] by (simp add: j_def B_def)
  have view: "hist_view c h ! (idx + m) = (if r + m < B then hist_at h j (r + m) else hist_at h (j + 1) (r + m - B))"
    if "m < len" for m
  proof (cases "r + m < B")
    case True
    then show ?thesis using hist_view_nth [of h "idx + m" j c "r + m"] that len jr by (simp add: B_def)
  next
    case False
    have "gap h + (idx + m) = (j + 1) * B + (r + m - B)" using jr False by simp
    moreover have "r + m - B < B" using jr(2) that len(3) i(2) by linarith
    ultimately show ?thesis using hist_view_nth [of h "idx + m" "j + 1" c "r + m - B"] that len False
      by (simp add: B_def)
  qed
  have k: "wrap ?n (?b + 1 + m) < ?n" if "m < ?n" for m using that i(3) by (intro wrap_less) simp
  show ?thesis
  proof (cases "r + len > B")
    case False
    let ?st = "wrap ?n (?b + 1 + j) * ?s + ?o + r"
    have "?st + len \<le> length (backing h)"
    proof -
      have "(wrap ?n (?b + 1 + j) + 1) * ?s \<le> ?n * ?s" using k [OF j] by (intro mult_le_mono) simp_all
      then show ?thesis using i(1,4) False by (simp add: algebra_simps)
    qed
    moreover have "sub (backing h) ?st (?st + len) = sub (hist_view c h) idx (idx + len)"
    proof (rule nth_equalityI)
      fix m assume "m < length (sub (backing h) ?st (?st + len))"
      with calculation have m: "m < len" by simp
      with False view [OF m] calculation len show "sub (backing h) ?st (?st + len) ! m = sub (hist_view c h) idx (idx + len) ! m"
        by (simp add: hist_at_def add.assoc)
    qed (use calculation len in simp)
    ultimately show ?thesis using loc False by (simp add: hist_slice_def B_def Let_def)
  next
    case True
    have j1: "j + 1 < ?n"
    proof (rule ccontr)
      assume "\<not> j + 1 < ?n"
      then have "?n * B \<le> (j + 1) * B" by (intro mult_le_mono) simp_all
      then show False using True jr(1) i(5) len by (simp add: algebra_simps)
    qed
    let ?k' = "wrap ?n (?b + 1 + (j + 1))"
    let ?st = "?k' * ?s + ?o - (B - r)"
    have bb: "B - r \<le> ?o" using True len(3) by simp
    have st: "?st = ?k' * ?s + (?o - (B - r))" using bb by simp
    have fits: "?st + len \<le> length (backing h)"
    proof -
      have "(?k' + 1) * ?s \<le> ?n * ?s" using k [OF j1] by (intro mult_le_mono) simp_all
      then show ?thesis unfolding st using i(1,2,4) bb len(3) by (simp add: algebra_simps)
    qed
    have "sub (backing h) ?st (?st + len) = sub (hist_view c h) idx (idx + len)"
    proof (rule nth_equalityI)
      fix m assume "m < length (sub (backing h) ?st (?st + len))"
      with fits have m: "m < len" by simp
      have "backing h ! (?st + m) = hist_view c h ! (idx + m)"
      proof (cases "r + m < B")
        case before: True
        then have "?o - (B - r) + m < ?o" using bb by simp
        then have "backing h ! (?k' * ?s + (?o - (B - r) + m)) =
            backing h ! (wrap ?n (?b + 1 + j) * ?s + BlockSize c + (?o - (B - r) + m))"
          by (rule hist_copy [OF inv j1])
        also have "wrap ?n (?b + 1 + j) * ?s + BlockSize c + (?o - (B - r) + m) = wrap ?n (?b + 1 + j) * ?s + ?o + (r + m)"
          using bb jr(2) unfolding B_def [symmetric] by simp
        finally show ?thesis using view [OF m] before unfolding st by (simp add: hist_at_def add.assoc)
      next
        case False
        then have "?o - (B - r) + m = ?o + (r + m - B)" using bb jr(2) by simp
        then show ?thesis using view [OF m] False unfolding st by (simp add: hist_at_def add.assoc)
      qed
      then show "sub (backing h) ?st (?st + len) ! m = sub (hist_view c h) idx (idx + len) ! m"
        using m fits len by simp
    qed (use fits len in simp)
    moreover have "hist_slice c h idx len = slice_res (backing h) ?st (?st + len)"
      by (simp only: hist_slice_def Let_def loc prod.case B_def [symmetric] True if_True wrap_next [OF i(3) j1])
    ultimately show ?thesis using fits by simp
  qed
qed

lemma hist_block_fits:
  assumes "hist_inv c h"
  shows "BlockSize c \<le> BufferLength c"
proof -
  have "2 * BlockSize c \<le> blockCount h * BlockSize c" using assms by (intro mult_le_mono) (simp_all add: hist_inv_def)
  moreover have "gap h < BlockSize c" "gap h + BufferLength c = blockCount h * BlockSize c"
    using assms by (simp_all add: hist_inv_def)
  ultimately show ?thesis by linarith
qed

lemma block_cells:
  assumes "k < (n :: nat)" "k' < n" "k \<noteq> k'" "i < s" "i' < s"
  shows "k * s + i \<noteq> k' * s + i'"
proof -
  have "(k * s + i) div s = k" "(k' * s + i') div s = k'" using assms by simp_all
  with assms show ?thesis by metis
qed

lemma hist_append_view:
  assumes inv: "hist_inv c h" and len: "length samples = BlockSize c"
  shows "\<exists>h'. hist_append c h samples = Inr h' \<and> hist_inv c h' \<and>
    hist_view c h' = drop (BlockSize c) (hist_view c h) @ samples"
proof -
  define B where "B = BlockSize c"
  let ?n = "blockCount h" and ?s = "blockStride h" and ?o = "historyOverlap h" and ?b = "block h"
  define b' where "b' = (if ?b + 1 = ?n then 0 else ?b + 1)"
  have i: "?s = B + ?o" "?o \<le> B" "?b < ?n" "length (backing h) = ?n * ?s" "gap h + BufferLength c = ?n * B" "0 < B"
      "gap h < B" "2 \<le> ?n"
    and copies: "\<forall>k < ?n. k \<noteq> ?b \<longrightarrow> (\<forall>i < ?o. backing h ! ((if k + 1 = ?n then 0 else k + 1) * ?s + i) = backing h ! (k * ?s + B + i))"
    using inv unfolding hist_inv_def B_def by (simp, simp, simp, simp, simp, simp, simp, simp, blast)
  have b': "b' < ?n" "b' \<noteq> ?b" using i by (auto simp: b'_def)
  have fit: "(k + 1) * ?s \<le> ?n * ?s" if "k < ?n" for k using that by (intro mult_le_mono) simp_all
  let ?tail = "sub (backing h) (?b * ?s + B) (?b * ?s + B + ?o)"
  let ?m1 = "write_at (backing h) (b' * ?s) ?tail"
  let ?m2 = "write_at ?m1 (b' * ?s + ?o) samples"
  let ?h' = "h\<lparr>block := b', backing := ?m2\<rparr>"
  have f1: "?b * ?s + B + ?o \<le> length (backing h)" "b' * ?s + B + ?o \<le> length (backing h)"
    using fit [OF i(3)] fit [OF b'(1)] i(1,4) by (simp_all add: algebra_simps)
  have lt: "length ?tail = ?o" using f1 by simp
  have app: "hist_append c h samples = Inr ?h'"
    unfolding hist_append_def hist_advance_def Let_def B_def [symmetric] b'_def [symmetric]
    using f1 by (simp add: hist_store_def)
  have cell: "?m2 ! x = (if b' * ?s \<le> x \<and> x < b' * ?s + ?o then backing h ! (?b * ?s + B + (x - b' * ?s))
      else if b' * ?s + ?o \<le> x \<and> x < b' * ?s + ?o + B then samples ! (x - (b' * ?s + ?o)) else backing h ! x)"
    if "x < ?n * ?s" for x
  proof -
    have "?tail ! (x - b' * ?s) = backing h ! (?b * ?s + B + (x - b' * ?s))"
      if "b' * ?s \<le> x" "x < b' * ?s + ?o"
      using that f1(1) by (intro nth_sub) linarith+
    then show ?thesis using that f1 lt len i(4) by (auto simp: nth_write_at B_def [symmetric])
  qed
  have other: "?m2 ! (k * ?s + p) = backing h ! (k * ?s + p)" if "k < ?n" "k \<noteq> b'" "p < ?s" for k p
  proof -
    have "k * ?s + p < ?n * ?s" using that by (intro cell_less) simp_all
    moreover have "\<not> (b' * ?s \<le> k * ?s + p \<and> k * ?s + p < b' * ?s + ?s)"
    proof
      assume a: "b' * ?s \<le> k * ?s + p \<and> k * ?s + p < b' * ?s + ?s"
      then obtain p' where "k * ?s + p = b' * ?s + p'" "p' < ?s" by (metis le_Suc_ex nat_add_left_cancel_less)
      then show False using block_cells [OF that(1) b'(1) that(2,3)] by blast
    qed
    ultimately show ?thesis using cell [of "k * ?s + p"] i(1) by auto
  qed
  have pre: "?m2 ! (b' * ?s + p) = backing h ! (?b * ?s + B + p)" if "p < ?o" for p
    using cell [of "b' * ?s + p"] cell_less [OF b'(1), of p ?s] that i(1) by simp
  have new: "?m2 ! (b' * ?s + ?o + p) = samples ! p" if "p < B" for p
    using cell [of "b' * ?s + ?o + p"] cell_less [OF b'(1), of "?o + p" ?s] that i(1) by (simp add: add.assoc)
  have inv': "hist_inv c ?h'"
  proof -
    have "?m2 ! ((if k + 1 = ?n then 0 else k + 1) * ?s + p) = ?m2 ! (k * ?s + B + p)"
      if k: "k < ?n" "k \<noteq> b'" and p: "p < ?o" for k p
    proof -
      have r: "?m2 ! (k * ?s + B + p) = backing h ! (k * ?s + B + p)"
        using other [OF k, of "B + p"] p i(1) by (simp add: add.assoc)
      show ?thesis
      proof (cases "k = ?b")
        case True
        then have "(if k + 1 = ?n then 0 else k + 1) = b'" by (simp add: b'_def)
        then show ?thesis using pre [OF p] r True by simp
      next
        case False
        have "(if k + 1 = ?n then 0 else k + 1) < ?n" "(if k + 1 = ?n then 0 else k + 1) \<noteq> b'"
          using k False i(3,8) by (auto simp: b'_def split: if_splits)
        then have "?m2 ! ((if k + 1 = ?n then 0 else k + 1) * ?s + p) = backing h ! ((if k + 1 = ?n then 0 else k + 1) * ?s + p)"
          using p i(1) by (intro other) simp_all
        also have "\<dots> = backing h ! (k * ?s + B + p)" using copies k(1) False p by blast
        finally show ?thesis using r by simp
      qed
    qed
    then show ?thesis using inv b'(1) unfolding hist_inv_def B_def by simp
  qed
  have at': "hist_at ?h' j r = (if j + 1 < ?n then hist_at h (j + 1) r else samples ! r)" if "j < ?n" "r < B" for j r
  proof (cases "j + 1 < ?n")
    case True
    have "wrap ?n (b' + 1 + j) = wrap ?n (?b + 1 + (j + 1))" using i(3) True by (auto simp: wrap_def b'_def)
    moreover have "wrap ?n (?b + 1 + (j + 1)) < ?n" using i(3) True by (intro wrap_less) simp
    moreover have "wrap ?n (?b + 1 + (j + 1)) \<noteq> b'" using i(3) True by (auto simp: wrap_def b'_def)
    ultimately show ?thesis using other [of "wrap ?n (?b + 1 + (j + 1))" "?o + r"] that i(1) True
      by (simp add: hist_at_def add.assoc)
  next
    case False
    then have "wrap ?n (b' + 1 + j) = b'" using that i(3) b'(1) by (auto simp: wrap_def)
    then show ?thesis using new [OF that(2)] False by (simp add: hist_at_def)
  qed
  have "hist_view c ?h' = drop B (hist_view c h) @ samples"
  proof (rule nth_equalityI)
    have BL: "B \<le> BufferLength c" using hist_block_fits [OF inv] by (simp add: B_def)
    show "length (hist_view c ?h') = length (drop B (hist_view c h) @ samples)" using len BL by (simp add: B_def)
    fix x assume "x < length (hist_view c ?h')"
    then have x: "x < BufferLength c" by simp
    define j where "j = (gap h + x) div B"
    define r where "r = (gap h + x) mod B"
    have jr: "gap h + x = j * B + r" "r < B" using i(6) by (simp_all add: j_def r_def)
    have j: "j < ?n" using x i(5) by (simp add: j_def less_mult_imp_div_less)
    have v': "hist_view c ?h' ! x = (if j + 1 < ?n then hist_at h (j + 1) r else samples ! r)"
      using hist_view_nth [of ?h' x j c r] jr x at' [OF j jr(2)] by (simp add: B_def)
    show "hist_view c ?h' ! x = (drop B (hist_view c h) @ samples) ! x"
    proof (cases "x < BufferLength c - B")
      case True
      have "j + 1 < ?n"
      proof (rule ccontr)
        assume "\<not> j + 1 < ?n"
        then have "?n * B \<le> (j + 1) * B" by (intro mult_le_mono) simp_all
        then show False using True jr(1) i(5) by (simp add: algebra_simps)
      qed
      moreover have "hist_view c h ! (B + x) = hist_at h (j + 1) r"
        using hist_view_nth [of h "B + x" "j + 1" c r] jr True by (simp add: B_def)
      ultimately show ?thesis using v' True BL by (simp add: nth_append)
    next
      case False
      have "?n * B = (?n - 1) * B + B" using i(8) by (metis add.commute diff_add_inverse2 le_add_diff_inverse2 mult_Suc one_le_numeral order_trans plus_1_eq_Suc)
      then have "gap h + x = (?n - 1) * B + (x - (BufferLength c - B))" using i(5) False BL by linarith
      moreover have "x - (BufferLength c - B) < B" using x BL i(6) by linarith
      ultimately have "j = ?n - 1" "r = x - (BufferLength c - B)" by (simp_all add: j_def r_def)
      moreover have "\<not> ?n - 1 + 1 < ?n" by simp
      ultimately have "hist_view c ?h' ! x = samples ! (x - (BufferLength c - B))" using v' by (simp only: if_False)
      then show ?thesis using False BL by (simp add: nth_append)
    qed
  qed
  then show ?thesis using app inv' by (auto simp: B_def)
qed

interpretation history: sliding_window "hist_inv c" "hist_view c" "hist_append c" "BlockSize c"
  by unfold_locales (rule hist_append_view, simp_all add: hist_block_fits)

section \<open>A fresh history\<close>

lemma TrailingZeros_power: "s < 64 \<Longrightarrow> TrailingZeros (2 ^ s) = s"
proof -
  assume s: "s < 64"
  have "takeWhile (\<lambda>k. \<not> bit (2 ^ s :: nat) k) [0..<64] = [0..<s]"
  proof -
    have "[0..<64] = [0..<s] @ s # [Suc s..<64]"
      using upt_add_eq_append [of 0 s "64 - s"] s by (simp add: upt_conv_Cons)
    moreover have "takeWhile (\<lambda>k. k \<noteq> s) ([0..<s] @ s # [Suc s..<64]) = [0..<s] @ takeWhile (\<lambda>k. k \<noteq> s) (s # [Suc s..<64])"
      by (rule takeWhile_append2) simp
    ultimately show ?thesis by (simp add: bit_exp_iff)
  qed
  then show ?thesis by (simp add: TrailingZeros_def)
qed

lemma allocateHistory_inv:
  assumes "BlockSize c = 2 ^ s" "s < 64" "overlap \<le> BlockSize c" "BlockSize c < BufferLength c"
  shows "hist_inv c (allocateHistory c overlap zero)"
    and "hist_view c (allocateHistory c overlap zero) = replicate (BufferLength c) zero"
proof -
  let ?B = "BlockSize c" and ?n = "(BufferLength c + BlockSize c - 1) div BlockSize c"
  have B: "0 < ?B" using assms(1) by simp
  have "?n * ?B + (BufferLength c + ?B - 1) mod ?B = BufferLength c + ?B - 1" by simp
  moreover have "(BufferLength c + ?B - 1) mod ?B < ?B" using B by simp
  ultimately have n: "BufferLength c \<le> ?n * ?B" "?n * ?B < BufferLength c + ?B" using assms(4) by linarith+
  have two: "2 \<le> ?n"
  proof (rule ccontr)
    assume "\<not> 2 \<le> ?n"
    then have "?n * ?B \<le> 1 * ?B" by (intro mult_le_mono) simp_all
    then show False using n(1) assms(4) by linarith
  qed
  have cells: "k * (?B + overlap) + p < ?n * (?B + overlap)" if "k < ?n" "p < ?B + overlap" for k p
    using that by (rule cell_less)
  let ?h = "allocateHistory c overlap zero"
  have backing: "backing ?h ! x = zero" if "x < ?n * (?B + overlap)" for x
    using that by (simp add: allocateHistory_def Let_def)
  have copies: "backing ?h ! ((if k + 1 = ?n then 0 else k + 1) * (?B + overlap) + p) = backing ?h ! (k * (?B + overlap) + ?B + p)"
    if k: "k < ?n" and p: "p < overlap" for k p
  proof -
    have "(if k + 1 = ?n then 0 else k + 1) < ?n" using k by simp
    then have "(if k + 1 = ?n then 0 else k + 1) * (?B + overlap) + p < ?n * (?B + overlap)"
      using p by (intro cells) simp_all
    moreover have "k * (?B + overlap) + (?B + p) < ?n * (?B + overlap)" using k p by (intro cells) simp_all
    ultimately show ?thesis by (simp only: backing add.assoc)
  qed
  have f: "historyOverlap ?h = overlap" "block ?h = ?n - 1" "blockCount ?h = ?n" "blockStride ?h = ?B + overlap"
      "blockShift ?h = s" "blockMask ?h = ?B - 1" "gap ?h = ?n * ?B - BufferLength c" "length (backing ?h) = ?n * (?B + overlap)"
    using assms(2) by (simp_all add: allocateHistory_def Let_def assms(1) TrailingZeros_power)
  show inv: "hist_inv c ?h"
    unfolding hist_inv_def f using assms n two copies by (intro conjI allI impI) simp_all
  show "hist_view c ?h = replicate (BufferLength c) zero"
  proof (rule nth_equalityI)
    fix x assume "x < length (hist_view c ?h)"
    then have x: "x < BufferLength c" by simp
    note lt = hist_index_less [OF inv x]
    have "wrap ?n (?n - 1 + 1 + (gap ?h + x) div ?B) < ?n" using lt(1) two unfolding f by (intro wrap_less) simp
    then have "wrap ?n (?n - 1 + 1 + (gap ?h + x) div ?B) * (?B + overlap) + (overlap + (gap ?h + x) mod ?B) < ?n * (?B + overlap)"
      by (rule cells) (use lt(2) in linarith)
    then show "hist_view c ?h ! x = replicate (BufferLength c) zero ! x"
      using x by (simp add: hist_view_def hist_at_def f backing add.assoc)
  qed simp
qed

section \<open>Properties\<close>



end
