(* ===== verification/Float64.thy ===== *)
theory Float64
  imports Complex_Main Prelude
begin

text \<open>
  The \<^verbatim>\<open>float64\<close> arithmetic of the sources: IEEE 754 binary64 with rounding to nearest,
  ties to even. A finite value is kept as the rational number it stands for, so every operation is
  the exact rational operation followed by one rounding; the negative zero, the infinities and NaN
  are values of their own. Go may fuse a multiplication and an addition on some machines; the
  model rounds after each operation, as the amd64 build does.

  The elementary functions of package \<^verbatim>\<open>math\<close> and the conversion of an out-of-range
  float to an integer are not determined by the language: they are the fields of a record
  (\<open>fplib\<close>) that the definitions using them take as an argument.
\<close>

section \<open>Rounding\<close>

definition pow2 :: "int \<Rightarrow> rat" where
  "pow2 k = (if 0 \<le> k then 2 ^ nat k else 1 / 2 ^ nat (- k))"

text \<open>The position of the leading one of a positive integer, and the binary exponent of a
  positive rational.\<close>

function ibits :: "int \<Rightarrow> int" where
  "ibits p = (if p \<le> 1 then 0 else 1 + ibits (p div 2))"
  by pat_completeness auto
termination
  by (relation "measure nat") auto

declare ibits.simps [simp del]

definition ilog2 :: "rat \<Rightarrow> int" where
  "ilog2 x = (let (p, q) = quotient_of x; k = ibits p - ibits q in if pow2 k \<le> x then k else k - 1)"

text \<open>Nearest integer, ties to even.\<close>

definition rne :: "rat \<Rightarrow> int" where
  "rne r = (let n = \<lfloor>r\<rfloor>; d = r - of_int n in
            if d < 1 / 2 \<or> (d = 1 / 2 \<and> even n) then n else n + 1)"

definition ulp_exp :: "rat \<Rightarrow> int" where
  "ulp_exp x = max (ilog2 x) (- 1022) - 52"

definition round_pos :: "rat \<Rightarrow> rat" where
  "round_pos x = of_int (rne (x / pow2 (ulp_exp x))) * pow2 (ulp_exp x)"

datatype f64 = FNan | FInf bool | FNegZero | Fin rat

text \<open>\<open>FInf True\<close> is the negative infinity.\<close>

definition fround :: "rat \<Rightarrow> f64" where
  "fround x =
     (if x = 0 then Fin 0
      else let y = round_pos \<bar>x\<bar> in
        if pow2 1024 \<le> y then FInf (x < 0)
        else if y = 0 then (if x < 0 then FNegZero else Fin 0)
        else Fin (if x < 0 then - y else y))"

section \<open>Operations\<close>

fun fval :: "f64 \<Rightarrow> rat" where
  "fval (Fin x) = x" | "fval _ = 0"

fun fneg :: "f64 \<Rightarrow> bool" where
  "fneg (Fin x) \<longleftrightarrow> x < 0" | "fneg FNegZero \<longleftrightarrow> True" | "fneg (FInf s) \<longleftrightarrow> s" | "fneg FNan \<longleftrightarrow> False"

definition fzero :: "bool \<Rightarrow> f64" where
  "fzero s = (if s then FNegZero else Fin 0)"

fun fuminus :: "f64 \<Rightarrow> f64" where
  "fuminus FNan = FNan" | "fuminus (FInf s) = FInf (\<not> s)" | "fuminus FNegZero = Fin 0"
| "fuminus (Fin x) = (if x = 0 then FNegZero else Fin (- x))"

fun fadd :: "f64 \<Rightarrow> f64 \<Rightarrow> f64" where
  "fadd FNan _ = FNan"
| "fadd _ FNan = FNan"
| "fadd (FInf s) (FInf t) = (if s = t then FInf s else FNan)"
| "fadd (FInf s) _ = FInf s"
| "fadd _ (FInf t) = FInf t"
| "fadd FNegZero FNegZero = FNegZero"
| "fadd x y = fround (fval x + fval y)"

definition fsub :: "f64 \<Rightarrow> f64 \<Rightarrow> f64" where
  "fsub x y = fadd x (fuminus y)"

fun fmul :: "f64 \<Rightarrow> f64 \<Rightarrow> f64" where
  "fmul FNan _ = FNan"
| "fmul _ FNan = FNan"
| "fmul (FInf s) (FInf t) = FInf (s \<noteq> t)"
| "fmul (FInf s) y = (if fval y = 0 then FNan else FInf (s \<noteq> fneg y))"
| "fmul x (FInf t) = (if fval x = 0 then FNan else FInf (fneg x \<noteq> t))"
| "fmul x y = (if fval x * fval y = 0 then fzero (fneg x \<noteq> fneg y) else fround (fval x * fval y))"

fun fdiv :: "f64 \<Rightarrow> f64 \<Rightarrow> f64" where
  "fdiv FNan _ = FNan"
| "fdiv _ FNan = FNan"
| "fdiv (FInf s) (FInf t) = FNan"
| "fdiv (FInf s) y = FInf (s \<noteq> fneg y)"
| "fdiv x (FInf t) = fzero (fneg x \<noteq> t)"
| "fdiv x y =
     (if fval y = 0 then (if fval x = 0 then FNan else FInf (fneg x \<noteq> fneg y))
      else if fval x = 0 then fzero (fneg x \<noteq> fneg y)
      else fround (fval x / fval y))"

fun flt :: "f64 \<Rightarrow> f64 \<Rightarrow> bool" where
  "flt FNan _ \<longleftrightarrow> False"
| "flt _ FNan \<longleftrightarrow> False"
| "flt (FInf s) (FInf t) \<longleftrightarrow> s \<and> \<not> t"
| "flt (FInf s) _ \<longleftrightarrow> s"
| "flt _ (FInf t) \<longleftrightarrow> \<not> t"
| "flt x y \<longleftrightarrow> fval x < fval y"

fun feq :: "f64 \<Rightarrow> f64 \<Rightarrow> bool" where
  "feq FNan _ \<longleftrightarrow> False"
| "feq _ FNan \<longleftrightarrow> False"
| "feq (FInf s) (FInf t) \<longleftrightarrow> s = t"
| "feq (FInf s) _ \<longleftrightarrow> False"
| "feq _ (FInf t) \<longleftrightarrow> False"
| "feq x y \<longleftrightarrow> fval x = fval y"

definition fle :: "f64 \<Rightarrow> f64 \<Rightarrow> bool" where
  "fle x y \<longleftrightarrow> flt x y \<or> feq x y"

text \<open>\<^verbatim>\<open>math.IsNaN\<close>, \<^verbatim>\<open>math.IsInf(x, 0)\<close> and the functions of package
  \<^verbatim>\<open>math\<close> that are exact.\<close>

definition IsNaN :: "f64 \<Rightarrow> bool" where "IsNaN x \<longleftrightarrow> x = FNan"
definition IsInf :: "f64 \<Rightarrow> bool" where "IsInf x \<longleftrightarrow> x = FInf True \<or> x = FInf False"

fun Fabs :: "f64 \<Rightarrow> f64" where
  "Fabs FNan = FNan" | "Fabs (FInf _) = FInf False" | "Fabs FNegZero = Fin 0" | "Fabs (Fin x) = Fin \<bar>x\<bar>"

text \<open>An integral value with the sign of the argument.\<close>

definition fintegral :: "bool \<Rightarrow> int \<Rightarrow> f64" where
  "fintegral s n = (if n = 0 then fzero s else Fin (of_int n))"

fun Ceil :: "f64 \<Rightarrow> f64" where
  "Ceil (Fin x) = fintegral (x < 0) \<lceil>x\<rceil>" | "Ceil x = x"

text \<open>\<^verbatim>\<open>math.Round\<close>: nearest, halves away from zero.\<close>

fun Round :: "f64 \<Rightarrow> f64" where
  "Round (Fin x) = fintegral (x < 0) (if x < 0 then - \<lfloor>- x + 1 / 2\<rfloor> else \<lfloor>x + 1 / 2\<rfloor>)" | "Round x = x"

definition Fmin :: "f64 \<Rightarrow> f64 \<Rightarrow> f64" where
  "Fmin x y =
     (if x = FInf True \<or> y = FInf True then FInf True
      else if IsNaN x \<or> IsNaN y then FNan
      else if fval x = 0 \<and> x \<noteq> FInf False \<and> feq x y then (if fneg x then x else y)
      else if flt x y then x else y)"

text \<open>Conversions from 64-bit integers (one rounding) and to them (truncation, when in range).\<close>

record fplib =
  Pow :: "f64 \<Rightarrow> f64 \<Rightarrow> f64"
  Lgamma :: "f64 \<Rightarrow> f64"
  Log :: "f64 \<Rightarrow> f64"
  Log1p :: "f64 \<Rightarrow> f64"
  Expf :: "f64 \<Rightarrow> f64"
  out_of_range :: "f64 \<Rightarrow> int"

definition float64 :: "int \<Rightarrow> f64" where
  "float64 n = fround (of_int n)"

definition trunc :: "rat \<Rightarrow> int" where
  "trunc x = (if x < 0 then - \<lfloor>- x\<rfloor> else \<lfloor>x\<rfloor>)"

definition to_int64 :: "fplib \<Rightarrow> f64 \<Rightarrow> int" where
  "to_int64 fp x =
     (case x of
        FNegZero \<Rightarrow> 0
      | Fin r \<Rightarrow> if - (2 ^ 63) \<le> trunc r \<and> trunc r < 2 ^ 63 then trunc r else out_of_range fp x
      | _ \<Rightarrow> out_of_range fp x)"

text \<open>Two's complement arithmetic of \<^verbatim>\<open>int64\<close> and \<^verbatim>\<open>time.Duration\<close>.\<close>

definition i64 :: "int \<Rightarrow> int" where
  "i64 n = (n + 2 ^ 63) mod 2 ^ 64 - 2 ^ 63"

lemma i64_id: "- (2 ^ 63) \<le> n \<Longrightarrow> n < 2 ^ 63 \<Longrightarrow> i64 n = n"
  by (simp add: i64_def)

lemma i64_range: "- (2 ^ 63) \<le> i64 n \<and> i64 n < 2 ^ 63"
  using pos_mod_bound [of "2 ^ 64" "n + 2 ^ 63"] pos_mod_sign [of "2 ^ 64" "n + 2 ^ 63"] by (simp add: i64_def)

section \<open>Powers and exponents\<close>

lemma pow2_powi: "pow2 k = 2 powi k"
  by (simp add: pow2_def power_int_def field_simps)

lemma pow2_add: "pow2 (a + b) = pow2 a * pow2 b"
  by (simp add: pow2_powi power_int_add)

lemma pow2_pos [simp]: "0 < pow2 k" "pow2 k \<noteq> 0" "0 \<le> pow2 k"
  by (simp_all add: pow2_def)

lemma pow2_mono: "a < b \<Longrightarrow> pow2 a < pow2 b"
  by (simp add: pow2_powi power_int_strict_increasing)

lemma pow2_less_iff [simp]: "pow2 a < pow2 b \<longleftrightarrow> a < b"
  by (metis less_asym less_irrefl linorder_neqE pow2_mono)

lemma pow2_le_iff [simp]: "pow2 a \<le> pow2 b \<longleftrightarrow> a \<le> b"
  by (metis not_le pow2_less_iff)

lemma pow2_nat: "0 \<le> k \<Longrightarrow> pow2 k = of_int (2 ^ nat k)"
  by (simp add: pow2_def)

lemma ibits_bounds: "1 \<le> p \<Longrightarrow> 0 \<le> ibits p \<and> pow2 (ibits p) \<le> of_int p \<and> of_int p < pow2 (ibits p + 1)"
proof (induction p rule: ibits.induct)
  case (1 p)
  show ?case
  proof (cases "p \<le> 1")
    case True
    then have "p = 1" using 1 by simp
    then show ?thesis by (simp add: ibits.simps [of 1] pow2_def)
  next
    case False
    let ?h = "p div 2"
    have ih: "0 \<le> ibits ?h" "pow2 (ibits ?h) \<le> of_int ?h" "of_int ?h < pow2 (ibits ?h + 1)"
      using 1 False by auto
    have b: "ibits p = 1 + ibits ?h" using False by (simp add: ibits.simps [of p])
    have p2: "pow2 (1 + z) = 2 * pow2 z" for z using pow2_add [of 1 z] by (simp add: pow2_def)
    have "of_int ?h + 1 \<le> pow2 (ibits ?h + 1)"
    proof -
      have "pow2 (ibits ?h + 1) = of_int (2 ^ nat (ibits ?h + 1))" using ih(1) by (intro pow2_nat) simp
      moreover have "of_int (?h + 1) \<le> (of_int (2 ^ nat (ibits ?h + 1)) :: rat)"
        using ih(3) calculation by (simp only: of_int_less_iff of_int_le_iff zless_imp_add1_zle)
      ultimately show ?thesis by simp
    qed
    moreover have "2 * ?h \<le> p" "p \<le> 2 * ?h + 1" by simp_all
    then have "of_int (2 * ?h) \<le> (of_int p :: rat)" "of_int p \<le> (of_int (2 * ?h + 1) :: rat)"
      by (simp_all only: of_int_le_iff)
    then have "2 * of_int ?h \<le> (of_int p :: rat)" "of_int p \<le> (2 * of_int ?h + 1 :: rat)" by simp_all
    ultimately show ?thesis using ih p2 [of "ibits ?h"] p2 [of "ibits ?h + 1"] unfolding b by (simp add: add.assoc)
  qed
qed

lemma ilog2_bounds:
  assumes "0 < x"
  shows "pow2 (ilog2 x) \<le> x" "x < pow2 (ilog2 x + 1)"
proof -
  obtain p q where pq: "quotient_of x = (p, q)" by (cases "quotient_of x") auto
  have q: "0 < q" using quotient_of_denom_pos [OF pq] .
  have x: "x = of_int p / of_int q" using quotient_of_div [OF pq] .
  then have p: "0 < p" using assms q by (simp add: zero_less_divide_iff)
  define k where "k = ibits p - ibits q"
  have P: "pow2 (ibits p) \<le> of_int p" "of_int p < pow2 (ibits p + 1)"
    and Q: "pow2 (ibits q) \<le> of_int q" "of_int q < pow2 (ibits q + 1)"
    using ibits_bounds [of p] ibits_bounds [of q] p q by auto
  have lo: "pow2 (k - 1) < x"
  proof -
    have "pow2 (k - 1) * of_int q < pow2 (k - 1) * pow2 (ibits q + 1)" using Q by simp
    also have "\<dots> = pow2 (ibits p)" by (simp add: k_def flip: pow2_add)
    also have "\<dots> \<le> of_int p" by (rule P)
    finally show ?thesis using q unfolding x by (simp add: pos_less_divide_eq)
  qed
  have hi: "x < pow2 (k + 1)"
  proof -
    have "of_int p < pow2 (ibits p + 1)" by (rule P)
    also have "\<dots> = pow2 (k + 1) * pow2 (ibits q)" by (simp add: k_def flip: pow2_add)
    also have "\<dots> \<le> pow2 (k + 1) * of_int q" using Q by (intro mult_left_mono) simp_all
    finally show ?thesis using q unfolding x by (simp add: pos_divide_less_eq)
  qed
  have "ilog2 x = (if pow2 k \<le> x then k else k - 1)" by (simp add: ilog2_def pq k_def)
  then show "pow2 (ilog2 x) \<le> x" "x < pow2 (ilog2 x + 1)" using lo hi by (auto simp: not_le)
qed

lemma ilog2_ge: "0 < x \<Longrightarrow> pow2 k \<le> x \<Longrightarrow> k \<le> ilog2 x"
  using ilog2_bounds(2) [of x] by (metis le_less_trans pow2_less_iff zle_add1_eq_le)

lemma ilog2_le: "0 < x \<Longrightarrow> x < pow2 (k + 1) \<Longrightarrow> ilog2 x \<le> k"
  using ilog2_bounds(1) [of x] by (metis le_less_trans pow2_less_iff zle_add1_eq_le)

lemma ilog2_mono: "0 < x \<Longrightarrow> x \<le> y \<Longrightarrow> ilog2 x \<le> ilog2 y"
  using ilog2_ge [of y "ilog2 x"] ilog2_bounds(1) [of x] by linarith

text \<open>Evaluation: powers by doubling an integer, and the overflow test by the exponent.\<close>

function ipow2 :: "int \<Rightarrow> int" where
  "ipow2 k = (if k \<le> 0 then 1 else 2 * ipow2 (k - 1))"
  by pat_completeness auto
termination
  by (relation "measure nat") auto

declare ipow2.simps [simp del]

lemma ipow2_pow: "ipow2 k = 2 ^ nat k"
proof (induction k rule: ipow2.induct)
  case (1 k)
  show ?case
  proof (cases "k \<le> 0")
    case False
    then have "nat k = Suc (nat (k - 1))" by simp
    then show ?thesis using 1 False by (simp add: ipow2.simps [of k])
  qed (simp add: ipow2.simps)
qed

lemma pow2_code [code]: "pow2 k = (if 0 \<le> k then of_int (ipow2 k) else Fract 1 (ipow2 (- k)))"
  by (simp add: pow2_def ipow2_pow Fract_of_int_quotient)

section \<open>Rounding is monotone and exact on representable numbers\<close>

lemma rne_of_int [simp]: "rne (of_int n) = n"
  by (simp add: rne_def)

lemma rne_floor: "\<lfloor>r\<rfloor> \<le> rne r" "rne r \<le> \<lfloor>r\<rfloor> + 1"
  by (simp_all add: rne_def Let_def)

lemma rne_mono:
  assumes "x \<le> y"
  shows "rne x \<le> rne y"
proof (cases "\<lfloor>x\<rfloor> = \<lfloor>y\<rfloor>")
  case True
  then show ?thesis using assms by (auto simp: rne_def Let_def)
next
  case False
  then have "\<lfloor>x\<rfloor> + 1 \<le> \<lfloor>y\<rfloor>" using floor_mono [OF assms] by linarith
  then show ?thesis using rne_floor [of x] rne_floor [of y] by linarith
qed

lemma rne_ge: "of_int n \<le> r \<Longrightarrow> n \<le> rne r"
  using rne_mono [of "of_int n" r] by simp

lemma rne_le: "r \<le> of_int n \<Longrightarrow> rne r \<le> n"
  using rne_mono [of r "of_int n"] by simp

lemma scaled_ge: "of_int n * pow2 (ulp_exp x) \<le> x \<Longrightarrow> of_int n * pow2 (ulp_exp x) \<le> round_pos x"
  unfolding round_pos_def by (intro mult_right_mono) (simp_all add: rne_ge pos_le_divide_eq)

lemma scaled_le: "x \<le> of_int n * pow2 (ulp_exp x) \<Longrightarrow> round_pos x \<le> of_int n * pow2 (ulp_exp x)"
  unfolding round_pos_def by (intro mult_right_mono) (simp_all add: rne_le pos_divide_le_eq)

lemma round_pos_upper:
  assumes "0 < x"
  shows "round_pos x \<le> pow2 (max (ilog2 x) (- 1022) + 1)"
proof -
  let ?e = "max (ilog2 x) (- 1022)"
  have top: "pow2 (?e + 1) = of_int (2 ^ 53) * pow2 (ulp_exp x)"
    using pow2_add [of 53 "?e - 52"] pow2_nat [of 53] by (simp add: ulp_exp_def add.commute)
  have "x < pow2 (ilog2 x + 1)" by (rule ilog2_bounds(2) [OF assms])
  also have "\<dots> \<le> pow2 (?e + 1)" by simp
  finally show ?thesis unfolding top by (intro scaled_le) simp
qed

lemma round_pos_lower:
  assumes "0 < x" "- 1022 \<le> ilog2 x"
  shows "pow2 (ilog2 x) \<le> round_pos x"
proof -
  have "pow2 (ilog2 x) = of_int (2 ^ 52) * pow2 (ulp_exp x)"
    using pow2_add [of 52 "ilog2 x - 52"] pow2_nat [of 52] assms(2) by (simp add: ulp_exp_def max_def)
  then show ?thesis using scaled_ge [of "2 ^ 52" x] ilog2_bounds(1) [OF assms(1)] by simp
qed

lemma round_pos_nonneg: "0 < x \<Longrightarrow> 0 \<le> round_pos x"
  using scaled_ge [of 0 x] by simp

lemma round_pos_mono:
  assumes "0 < x" "x \<le> y"
  shows "round_pos x \<le> round_pos y"
proof -
  let ?ex = "max (ilog2 x) (- 1022)" and ?ey = "max (ilog2 y) (- 1022)"
  have le: "?ex \<le> ?ey" using ilog2_mono [OF assms] by simp
  show ?thesis
  proof (cases "?ex = ?ey")
    case True
    then have "ulp_exp x = ulp_exp y" by (simp add: ulp_exp_def)
    then show ?thesis using assms(2)
      by (simp add: round_pos_def rne_mono divide_right_mono)
  next
    case False
    then have "?ex + 1 \<le> ilog2 y" "- 1022 \<le> ilog2 y" using le by auto
    then have "round_pos x \<le> pow2 (ilog2 y)"
      using round_pos_upper [OF assms(1)] by (meson order_trans pow2_le_iff)
    then show ?thesis using round_pos_lower [of y] assms \<open>- 1022 \<le> ilog2 y\<close> by (meson less_le_trans order_trans)
  qed
qed

text \<open>The numbers that a \<^verbatim>\<open>float64\<close> can hold.\<close>

definition representable :: "rat \<Rightarrow> bool" where
  "representable r \<longleftrightarrow> r = 0 \<or> (round_pos \<bar>r\<bar> = \<bar>r\<bar> \<and> \<bar>r\<bar> < pow2 1024)"

fun f64_ok :: "f64 \<Rightarrow> bool" where
  "f64_ok (Fin r) \<longleftrightarrow> representable r" | "f64_ok _ \<longleftrightarrow> True"

lemma fround_representable: "representable r \<Longrightarrow> fround r = Fin r"
  by (auto simp: representable_def fround_def Let_def)

lemma representable_0 [simp]: "representable 0"
  by (simp add: representable_def)

lemma representable_uminus [simp]: "representable (- r) = representable r"
  by (simp add: representable_def)

lemma scaled_representable:
  assumes "\<bar>m\<bar> < 2 ^ 53" "- 1074 \<le> k" "k \<le> 971"
  shows "representable (of_int m * pow2 k)"
proof (cases "m = 0")
  case False
  let ?r = "\<bar>of_int m * pow2 k\<bar> :: rat"
  have r: "?r = of_int \<bar>m\<bar> * pow2 k" by (simp add: abs_mult)
  have pos: "0 < ?r" using False by simp
  have "of_int \<bar>m\<bar> < (of_int (2 ^ 53) :: rat)" using assms(1) by (simp only: of_int_less_iff)
  then have "?r < pow2 53 * pow2 k" unfolding r using pow2_nat [of 53] by (intro mult_strict_right_mono) simp_all
  then have lt: "?r < pow2 (52 + k + 1)" by (simp add: algebra_simps flip: pow2_add)
  then have "ilog2 ?r \<le> 52 + k" using pos by (intro ilog2_le) simp_all
  then have u: "ulp_exp ?r \<le> k" using assms(2) by (simp add: ulp_exp_def)
  define v where "v = ulp_exp ?r"
  have split: "?r = of_int (\<bar>m\<bar> * 2 ^ nat (k - v)) * pow2 v"
  proof -
    have "v \<le> k" using u by (simp add: v_def)
    then have "pow2 k = pow2 v * of_int (2 ^ nat (k - v))"
      using pow2_add [of v "k - v"] pow2_nat [of "k - v"] by simp
    then show ?thesis unfolding r by simp
  qed
  then have "?r / pow2 v = of_int (\<bar>m\<bar> * 2 ^ nat (k - v))" by simp
  then have "round_pos ?r = of_int (\<bar>m\<bar> * 2 ^ nat (k - v)) * pow2 v"
    unfolding round_pos_def v_def [symmetric] by (simp only: rne_of_int)
  then have "round_pos ?r = ?r" using split by simp
  moreover have "?r < pow2 1024" by (rule less_le_trans [OF lt]) (use assms(3) in simp)
  ultimately show ?thesis by (simp add: representable_def)
qed simp

lemma representable_int: "\<bar>m\<bar> < 2 ^ 53 \<Longrightarrow> representable (of_int m)"
  using scaled_representable [of m 0] by (simp add: pow2_def)

lemma float64_exact: "\<bar>n\<bar> < 2 ^ 53 \<Longrightarrow> float64 n = Fin (of_int n)"
  by (simp add: float64_def fround_representable representable_int)

text \<open>Rounding a positive rational between two representable ones stays between them.\<close>

lemma fround_between:
  assumes "0 < l" "l \<le> x" "x \<le> u" "representable l" "representable u"
  shows "\<exists>y. fround x = Fin y \<and> l \<le> y \<and> y \<le> u"
proof -
  have "round_pos l = l" "round_pos u = u" "u < pow2 1024" using assms by (auto simp: representable_def)
  then have "l \<le> round_pos x" "round_pos x \<le> u" "round_pos x < pow2 1024"
    using round_pos_mono [of l x] round_pos_mono [of x u] assms by auto
  then show ?thesis using assms by (auto simp: fround_def Let_def)
qed

lemma fround_ge:
  assumes "0 < l" "l \<le> x" "representable l"
  shows "fround x = FInf False \<or> (\<exists>y. fround x = Fin y \<and> l \<le> y)"
proof -
  have "l \<le> round_pos x" using round_pos_mono [of l x] assms by (auto simp: representable_def)
  then show ?thesis using assms by (auto simp: fround_def Let_def)
qed

lemma fround_pos: "0 < x \<Longrightarrow> fround x = FInf False \<or> (\<exists>y \<ge> 0. fround x = Fin y)"
  using round_pos_nonneg [of x] by (auto simp: fround_def Let_def)

lemma fround_code [code]:
  "fround x =
     (if x = 0 then Fin 0
      else let y = round_pos \<bar>x\<bar> in
        if y = 0 then (if x < 0 then FNegZero else Fin 0)
        else if 1024 \<le> ilog2 y then FInf (x < 0)
        else Fin (if x < 0 then - y else y))"
proof -
  have "pow2 1024 \<le> y \<longleftrightarrow> 1024 \<le> ilog2 y" if "0 < y" for y
    using ilog2_ge [OF that, of 1024] ilog2_bounds(1) [OF that] by (auto intro: order_trans [of _ "pow2 (ilog2 y)"])
  moreover have "x \<noteq> 0 \<Longrightarrow> round_pos \<bar>x\<bar> \<noteq> 0 \<Longrightarrow> 0 < round_pos \<bar>x\<bar>"
    using round_pos_nonneg [of "\<bar>x\<bar>"] by simp
  moreover have "\<not> pow2 1024 \<le> 0" using pow2_pos(1) [of 1024] by linarith
  ultimately show ?thesis unfolding fround_def Let_def by (cases "round_pos \<bar>x\<bar> = 0") simp_all
qed

lemma fround_unit: "0 < x \<Longrightarrow> x \<le> 1 \<Longrightarrow> fround x = Fin (round_pos x)"
proof -
  assume x: "0 < x" "x \<le> 1"
  have "representable 1" using representable_int [of 1] by simp
  then have "round_pos x \<le> 1" using round_pos_mono [OF x] by (simp add: representable_def)
  moreover have "(1 :: rat) < pow2 1024" using pow2_less_iff [of 0 1024] by (simp add: pow2_def)
  ultimately show ?thesis using x by (auto simp: fround_def Let_def)
qed

lemma fround_unit_mono: "0 < x \<Longrightarrow> x \<le> y \<Longrightarrow> y \<le> 1 \<Longrightarrow> flt (fround y) u \<Longrightarrow> flt (fround x) u"
  using round_pos_mono [of x y] by (cases u) (simp_all add: fround_unit)

end
