(* ===== verification/Demod.thy ===== *)
theory Demod
  imports Float64 History
begin

text \<open>
  From samples to bit decisions: the float demodulator and matched filter of
  \<^verbatim>\<open>src/protocol/decode.go\<close> (\<open>MagLUT\<close>, \<open>Filter\<close>) and the integer reference
  of the Power16 producer in \<^verbatim>\<open>src/protocol/power16.go\<close>. The integer path is shown to
  compute on 32-bit words what it means: a decision compares the exact energies of the two halves
  of a Manchester symbol. The Cortex-A72 leaves of the float path are assembly and a parameter
  (\<open>signal_platform\<close>), of which the portable build is one instance.
\<close>

section \<open>The float path\<close>

record signal_platform =
  magnitudeLUTA72Available :: bool
  magnitudeLUTA72Platform :: "u8 list \<Rightarrow> f64 list \<Rightarrow> f64 list res"
  filterManchesterA72Platform :: "f64 list \<Rightarrow> nat \<Rightarrow> nat \<Rightarrow> u8 list option"

definition generic_signal_platform :: signal_platform where
  "generic_signal_platform =
     \<lparr>magnitudeLUTA72Available = False, magnitudeLUTA72Platform = (\<lambda>_ _. Inl (Panic ''protocol: unavailable ARM64 magnitude kernel called'')),
      filterManchesterA72Platform = (\<lambda>_ _ _. None)\<rparr>"

definition lut_entry :: "nat \<Rightarrow> f64" where
  "lut_entry idx = (let v = fdiv (fsub (Fin (255 / 2)) (float64 (int idx))) (Fin (255 / 2)) in fmul v v)"

definition NewMagLUT :: "f64 list" where
  "NewMagLUT = map lut_entry [0..<256]"

text \<open>The output slice is given by its length; every element of it is written.\<close>

definition magnitudeLUTGo :: "u8 list \<Rightarrow> nat \<Rightarrow> f64 list \<Rightarrow> f64 list res" where
  "magnitudeLUTGo input n lut =
     (if n = 0 then Inr []
      else bind_res (index_res lut 255) (\<lambda>_.
        bind_res (index_res input (n * 2 - 1)) (\<lambda>_.
        Inr (map (\<lambda>idx. fadd (lut ! unat (input ! (2 * idx))) (lut ! unat (input ! (2 * idx + 1)))) [0..<n]))))"

definition MagLUT_Execute :: "signal_platform \<Rightarrow> f64 list \<Rightarrow> u8 list \<Rightarrow> nat \<Rightarrow> f64 list res" where
  "MagLUT_Execute pf lut input n =
     (if n = 0 then Inr []
      else bind_res (index_res lut 255) (\<lambda>_.
        bind_res (index_res input (n * 2 - 1)) (\<lambda>_.
        let bulk = (if magnitudeLUTA72Available pf then n - n mod 8 else 0) in
        bind_res (if bulk = 0 then Inr [] else magnitudeLUTA72Platform pf (take (bulk * 2) input) lut) (\<lambda>native.
        bind_res (magnitudeLUTGo (drop (bulk * 2) input) (n - bulk) lut) (\<lambda>rest.
        Inr (native @ rest))))))"

text \<open>A decision is one unless the sign bit of the difference is set.\<close>

definition sign_decision :: "f64 \<Rightarrow> u8" where
  "sign_decision f = (if fneg f then 0 else 1)"

fun manchester_steps :: "f64 list \<Rightarrow> f64 list \<Rightarrow> f64 list \<Rightarrow> nat \<Rightarrow> nat \<Rightarrow> f64 \<Rightarrow> f64 \<Rightarrow> u8 list" where
  "manchester_steps lowerInput middleInput upperInput idx 0 lower upper = []"
| "manchester_steps lowerInput middleInput upperInput idx (Suc n) lower upper =
     sign_decision (fsub lower upper) #
     manchester_steps lowerInput middleInput upperInput (Suc idx) n
       (fadd lower (fsub (middleInput ! idx) (lowerInput ! idx)))
       (fadd upper (fsub (upperInput ! idx) (middleInput ! idx)))"

definition filterManchester :: "nat \<Rightarrow> f64 list \<Rightarrow> f64 list \<Rightarrow> f64 list \<Rightarrow> f64 \<Rightarrow> f64 \<Rightarrow> u8 list res" where
  "filterManchester n lowerInput middleInput upperInput lower upper =
     (if length lowerInput < n \<or> length middleInput < n \<or> length upperInput < n
      then Inl (Panic ''protocol: Manchester filter input shorter than output'')
      else Inr (manchester_steps lowerInput middleInput upperInput 0 n lower upper))"

definition Filter_signal :: "signal_platform \<Rightarrow> nat \<Rightarrow> f64 list \<Rightarrow> nat \<Rightarrow> u8 list res" where
  "Filter_signal pf chipLength input n =
     (case filterManchesterA72Platform pf input n chipLength of
        Some output \<Rightarrow> Inr output
      | None \<Rightarrow>
        if 0 < chipLength \<and> length input < 2 * chipLength then Inl (Panic ''index out of range'')
        else
          let lower = foldl fadd (Fin 0) (take chipLength input);
              upper = foldl fadd (Fin 0) (sub input chipLength (2 * chipLength))
          in bind_res (slice_res input 0 n) (\<lambda>lowerInput.
             bind_res (slice_res input chipLength (chipLength + n)) (\<lambda>middleInput.
             bind_res (slice_res input (chipLength * 2) (chipLength * 2 + n)) (\<lambda>upperInput.
             filterManchester n lowerInput middleInput upperInput lower upper))))"

section \<open>The integer path\<close>

type_synonym i32 = "32 word"

definition iq_power :: "u8 \<Rightarrow> u8 \<Rightarrow> u16" where
  "iq_power inphase quadrature =
     (let i = ucast inphase * 2 - 255 :: i32; q = ucast quadrature * 2 - 255 :: i32
      in ucast (signed_drop_bit 1 (i * i + q * q)))"

definition power16IQReference :: "nat \<Rightarrow> u8 list \<Rightarrow> u16 list res" where
  "power16IQReference n input =
     (if n > length input div 2 then Inl (Panic ''protocol: integer-power input shorter than output'')
      else Inr (map (\<lambda>idx. iq_power (input ! (idx * 2)) (input ! (idx * 2 + 1))) [0..<n]))"

fun power16_steps :: "u16 list \<Rightarrow> nat \<Rightarrow> nat \<Rightarrow> nat \<Rightarrow> i32 \<Rightarrow> i32 \<Rightarrow> u8 list" where
  "power16_steps input chipLength idx 0 lower upper = []"
| "power16_steps input chipLength idx (Suc n) lower upper =
     (if sint (lower - upper) \<ge> 0 then 1 else 0) #
     power16_steps input chipLength (Suc idx) n
       (lower + (ucast (input ! (idx + chipLength)) - ucast (input ! idx)))
       (upper + (ucast (input ! (idx + chipLength * 2)) - ucast (input ! (idx + chipLength))))"

definition chip_sum :: "u16 list \<Rightarrow> nat \<Rightarrow> nat \<Rightarrow> i32" where
  "chip_sum input start chipLength = foldl (\<lambda>acc idx. acc + ucast (input ! (start + idx))) 0 [0..<chipLength]"

definition power16ManchesterReference :: "nat \<Rightarrow> u16 list \<Rightarrow> int \<Rightarrow> u8 list res" where
  "power16ManchesterReference n input chipLength =
     (if chipLength \<le> 0 \<or> int (length input) < int n + chipLength * 2
      then Inl (Panic ''protocol: integer Manchester input shorter than output'')
      else let chip = nat chipLength in
        Inr (power16_steps input chip 0 n (chip_sum input 0 chip) (chip_sum input chip chip)))"

definition power16ChipLength :: nat where "power16ChipLength = 72"
definition power16BlockSize :: nat where "power16BlockSize = 8192"
definition power16History :: nat where "power16History = power16ChipLength * 2"
definition power16Window :: nat where "power16Window = power16History + power16BlockSize"

text \<open>The fused reference: it overwrites the new part of the window and decides. \<open>None\<close> is the
  result \<^verbatim>\<open>false\<close> for buffers of another geometry.\<close>

definition power16ReferenceBlock :: "nat \<Rightarrow> u16 list \<Rightarrow> u8 list \<Rightarrow> (u8 list \<times> u16 list) option res" where
  "power16ReferenceBlock n window input =
     (if n \<noteq> power16BlockSize \<or> length window \<noteq> power16Window \<or> length input \<noteq> power16BlockSize * 2 then Inr None
      else bind_res (power16IQReference (length window - power16History) input) (\<lambda>powers.
        let window = take power16History window @ powers in
        bind_res (power16ManchesterReference n window (int power16ChipLength)) (\<lambda>decisions.
        Inr (Some (decisions, window)))))"

section \<open>Correctness of the integer path\<close>

text \<open>The energy of a sample, twice the power: the distance from the centre of the grid is odd on
  both axes, so that halving it loses nothing.\<close>

definition energy2 :: "u8 \<Rightarrow> u8 \<Rightarrow> int" where
  "energy2 inphase quadrature = (2 * uint inphase - 255)\<^sup>2 + (2 * uint quadrature - 255)\<^sup>2"

lemma sint_word_of_int:
  assumes "- (2 ^ 31) \<le> k" "k < 2 ^ 31"
  shows "sint (word_of_int k :: i32) = k"
  using assms by (simp add: sint_sbintrunc' signed_take_bit_int_eq_self)

lemma axis_value: "(ucast b * 2 - 255 :: i32) = word_of_int (2 * uint (b :: u8) - 255)"
proof -
  have "(word_of_int (2 * uint b - 255) :: i32) = word_of_int 2 * word_of_int (uint b) - word_of_int 255"
    by (simp only: of_int_diff of_int_mult)
  also have "\<dots> = ucast b * 2 - 255" by (simp only: ucast_eq of_int_numeral mult.commute)
  finally show ?thesis by (rule sym)
qed

lemma axis_bounds: "\<bar>2 * uint (b :: u8) - 255\<bar> \<le> 255" "odd (2 * uint b - 255)"
proof -
  have "0 \<le> uint b" "uint b < 256" using uint_lt2p [of b] by simp_all
  then show "\<bar>2 * uint b - 255\<bar> \<le> 255" by linarith
qed simp

lemma energy2_bounds: "0 \<le> energy2 a b" "energy2 a b \<le> 130050" "even (energy2 a b)"
proof -
  have sq: "(2 * uint c - 255)\<^sup>2 \<le> 255\<^sup>2" for c :: u8
    using axis_bounds(1) [of c] by (metis abs_le_square_iff abs_numeral)
  show "0 \<le> energy2 a b" by (simp add: energy2_def)
  show "energy2 a b \<le> 130050" using sq [of a] sq [of b] by (simp add: energy2_def)
  show "even (energy2 a b)" by (simp add: energy2_def)
qed

lemma iq_power_exact: "2 * uint (iq_power a b) = energy2 a b"
proof -
  let ?e = "energy2 a b"
  have e: "0 \<le> ?e" "?e \<le> 130050" "even ?e" by (rule energy2_bounds)+
  have "(word_of_int (2 * uint a - 255) * word_of_int (2 * uint a - 255) +
      word_of_int (2 * uint b - 255) * word_of_int (2 * uint b - 255) :: i32) = word_of_int ?e"
    unfolding energy2_def power2_eq_square by (simp only: of_int_add of_int_mult)
  then have "iq_power a b = ucast (signed_drop_bit 1 (word_of_int ?e :: i32))"
    unfolding iq_power_def Let_def axis_value by (simp only:)
  also have "signed_drop_bit 1 (word_of_int ?e :: i32) = word_of_int (?e div 2)"
  proof -
    have "sint (signed_drop_bit 1 (word_of_int ?e :: i32)) = ?e div 2"
      using e by (simp only: sint_signed_drop_bit_eq, subst sint_word_of_int) (simp_all add: drop_bit_eq_div)
    moreover have "sint (word_of_int (?e div 2) :: i32) = ?e div 2" using e by (intro sint_word_of_int) simp_all
    ultimately show ?thesis by (metis word_eq_iff_signed)
  qed
  finally have "uint (iq_power a b) = take_bit 16 (take_bit 32 (?e div 2))"
    by (simp add: unsigned_ucast_eq unsigned_of_int)
  also have "\<dots> = ?e div 2" using e by (simp add: take_bit_int_eq_self)
  finally show ?thesis using e(3) by simp
qed

text \<open>The exact sum of a chip.\<close>

definition chip_energy :: "u16 list \<Rightarrow> nat \<Rightarrow> nat \<Rightarrow> int" where
  "chip_energy input start chip = (\<Sum>j<chip. uint (input ! (start + j)))"

lemma chip_energy_bounds: "0 \<le> chip_energy input start chip" "chip_energy input start chip \<le> 65535 * int chip"
proof -
  have "uint (x :: u16) \<le> 65535" for x using uint_lt2p [of x] by simp
  then show "chip_energy input start chip \<le> 65535 * int chip"
    unfolding chip_energy_def using sum_bounded_above [of "{..<chip}" "\<lambda>j. uint (input ! (start + j))" 65535]
    by (simp add: mult.commute)
  show "0 \<le> chip_energy input start chip" by (simp add: chip_energy_def sum_nonneg)
qed

lemma chip_sum_exact: "chip_sum input start chip = word_of_int (chip_energy input start chip)"
proof -
  have "foldl (\<lambda>acc idx. acc + ucast (input ! (start + idx))) 0 [0..<n] =
      (word_of_int (\<Sum>j<n. uint (input ! (start + j))) :: i32)" for n
    by (induction n) simp_all
  then show ?thesis by (simp add: chip_sum_def chip_energy_def)
qed

lemma chip_energy_step:
  "0 < chip \<Longrightarrow> chip_energy input (Suc start) chip =
     chip_energy input start chip + (uint (input ! (start + chip)) - uint (input ! start))"
proof -
  assume "0 < chip"
  then obtain n where chip: "chip = Suc n" by (cases chip) auto
  have "(\<Sum>j<Suc n. uint (input ! (start + j))) = uint (input ! start) + (\<Sum>j<n. uint (input ! (Suc start + j)))"
    by (subst sum.lessThan_Suc_shift) simp
  then show ?thesis by (simp add: chip_energy_def chip)
qed

text \<open>Comparing the sums on 32-bit words is comparing them.\<close>

lemma word_sums_compare:
  assumes "0 \<le> x" "x < 2 ^ 31" "0 \<le> y" "y < 2 ^ 31"
  shows "sint (word_of_int x - word_of_int y :: i32) \<ge> 0 \<longleftrightarrow> y \<le> x"
proof -
  have "(word_of_int x - word_of_int y :: i32) = word_of_int (x - y)" by simp
  moreover have "sint (word_of_int (x - y) :: i32) = x - y" using assms by (intro sint_word_of_int) simp_all
  ultimately show ?thesis by simp
qed

definition decides :: "u16 list \<Rightarrow> nat \<Rightarrow> nat \<Rightarrow> u8" where
  "decides input chip k = (if chip_energy input (k + chip) chip \<le> chip_energy input k chip then 1 else 0)"

lemma power16_steps_exact:
  assumes chip: "0 < chip" "chip \<le> 32768"
  shows "power16_steps input chip k n (word_of_int (chip_energy input k chip))
      (word_of_int (chip_energy input (k + chip) chip)) = map (decides input chip) [k..<k + n]"
proof (induction n arbitrary: k)
  case (Suc n)
  have b: "chip_energy input j chip < 2 ^ 31" for j using chip_energy_bounds(2) [of input j chip] chip(2) by simp
  have "word_of_int (chip_energy input k chip) + (ucast (input ! (k + chip)) - ucast (input ! k)) =
      (word_of_int (chip_energy input (Suc k) chip) :: i32)" for k
    unfolding chip_energy_step [OF chip(1)] by simp
  from this [of k] this [of "k + chip"] show ?case
    using Suc.IH [of "Suc k"] word_sums_compare [OF chip_energy_bounds(1) b chip_energy_bounds(1) b]
    by (simp add: upt_conv_Cons decides_def mult_2_right add.assoc del: upt_Suc)
qed simp

lemma power16ManchesterReference_exact:
  assumes "0 < chip" "chip \<le> 32768" "n + 2 * chip \<le> length input"
  shows "power16ManchesterReference n input (int chip) = Inr (map (decides input chip) [0..<n])"
  using assms power16_steps_exact [OF assms(1,2), of input 0 n]
  by (simp add: power16ManchesterReference_def chip_sum_exact)

text \<open>The window of one block after the fused producer: the retained history and the new powers.\<close>

definition powers :: "u8 list \<Rightarrow> u16 list" where
  "powers input = map (\<lambda>k. iq_power (input ! (k * 2)) (input ! (k * 2 + 1))) [0..<length input div 2]"

lemma length_powers [simp]: "length (powers input) = length input div 2"
  by (simp add: powers_def)

lemma power16IQReference_exact: "length input = 2 * n \<Longrightarrow> power16IQReference n input = Inr (powers input)"
  by (simp add: power16IQReference_def powers_def)

lemma power16ReferenceBlock_exact:
  assumes "length window = power16Window" "length input = power16BlockSize * 2"
  shows "power16ReferenceBlock power16BlockSize window input =
    Inr (Some (map (decides (take power16History window @ powers input) power16ChipLength) [0..<power16BlockSize],
      take power16History window @ powers input))"
proof -
  have "power16IQReference (length window - power16History) input = Inr (powers input)"
    using assms by (intro power16IQReference_exact) (simp add: power16Window_def)
  then show ?thesis
    using power16ManchesterReference_exact [of power16ChipLength power16BlockSize "take power16History window @ powers input"] assms
    by (simp add: power16ReferenceBlock_def Let_def power16Window_def power16History_def power16ChipLength_def power16BlockSize_def)
qed

section \<open>Property\<close>

text \<open>C23: The integer producer computes on 16- and 32-bit integers what it means: no stored power and no chip
  sum overflows, a stored power is exactly half the squared distance of the sample from the centre of the
  grid, and each of the 8192 decisions is one exactly if the energy of the first chip is at least the
  energy of the second.\<close>
theorem power16_decides_by_exact_energy:
  assumes "length window = power16Window" "length input = power16BlockSize * 2"
  shows "\<exists>decisions window'. power16ReferenceBlock power16BlockSize window input = Inr (Some (decisions, window')) \<and>
    length decisions = power16BlockSize \<and> take power16History window' = take power16History window \<and>
    (\<forall>k < power16BlockSize. 2 * uint (window' ! (power16History + k)) =
       (2 * uint (input ! (2 * k)) - 255)\<^sup>2 + (2 * uint (input ! (2 * k + 1)) - 255)\<^sup>2) \<and>
    (\<forall>k < power16BlockSize. decisions ! k =
       (if (\<Sum>j<72. uint (window' ! (k + j))) \<ge> (\<Sum>j<72. uint (window' ! (k + 72 + j))) then 1 else 0))"
proof -
  let ?w = "take power16History window @ powers input"
  have h: "length (take power16History window) = power16History"
    using assms(1) by (simp add: power16Window_def)
  have "2 * uint (?w ! (power16History + k)) = (2 * uint (input ! (2 * k)) - 255)\<^sup>2 + (2 * uint (input ! (2 * k + 1)) - 255)\<^sup>2"
    if "k < power16BlockSize" for k
  proof -
    have "?w ! (power16History + k) = powers input ! k" using nth_append_length_plus [of "take power16History window"] h by simp
    then show ?thesis using that assms(2) iq_power_exact [of "input ! (2 * k)" "input ! (2 * k + 1)"]
      by (simp add: powers_def energy2_def mult.commute [of k])
  qed
  then show ?thesis
    unfolding power16ReferenceBlock_exact [OF assms]
    using assms(1) by (auto simp: decides_def chip_energy_def power16ChipLength_def power16Window_def)
qed

theorem power16_decides_by_exact_energy_witness:
  "\<exists>decisions window'. power16ReferenceBlock power16BlockSize (replicate power16Window 7) (replicate (power16BlockSize * 2) 3) =
     Inr (Some (decisions, window')) \<and> length decisions = power16BlockSize"
  using power16_decides_by_exact_energy [of "replicate power16Window 7" "replicate (power16BlockSize * 2) 3"] by auto

end
