(* ===== verification/R900Parser.thy ===== *)
theory R900Parser
  imports Demod Gf Message
begin

text \<open>
  The R900 parser of \<^verbatim>\<open>src/r900/r900.go\<close> with its quantizers
  (\<^verbatim>\<open>src/r900/power16_quantize.go\<close>) and the BCD variant of
  \<^verbatim>\<open>src/r900bcd/r900bcd.go\<close>. The parser takes of a packet only its position: it
  correlates the sample history behind the preamble with six four-chip symbols, pairs them to
  base-six digits, checks the Reed-Solomon syndrome and unpacks the fields.

  The sample history is the decoder's: the operations take its two window functions as arguments,
  \<open>SignalWindow\<close> for float magnitudes and \<open>Power16Window\<close> for integer powers. The native
  quantizer of the Cortex-A72 is assembly and a parameter (\<open>power16R900Platform\<close>); the counters
  of its calls are left out. A position is never negative: the preamble has at least one symbol.
\<close>

section \<open>Quantizers\<close>

definition power16Abs :: "i32 \<Rightarrow> i32" where
  "power16Abs value = (if sint value < 0 then - value else value)"

definition quantizePower16Symbol :: "i32 \<Rightarrow> i32 \<Rightarrow> i32 \<Rightarrow> u8" where
  "quantizePower16Symbol v0 v1 v2 =
     (let (symbol, selected, maximum) = (0, v0, power16Abs v0);
          (symbol, selected, maximum) =
            (if sint (power16Abs v1) > sint maximum then (1, v1, power16Abs v1) else (symbol, selected, maximum));
          (symbol, selected) = (if sint (power16Abs v2) > sint maximum then (2, v2) else (symbol, selected))
      in if sint selected > 0 then symbol + 3 else symbol)"

definition quantizeSymbol :: "f64 \<Rightarrow> f64 \<Rightarrow> f64 \<Rightarrow> u8" where
  "quantizeSymbol v0 v1 v2 =
     (let (symbol, selected, maximum) = (0, v0, Fabs v0);
          (symbol, selected, maximum) =
            (if flt maximum (Fabs v1) then (1, v1, Fabs v1) else (symbol, selected, maximum));
          (symbol, selected) = (if flt maximum (Fabs v2) then (2, v2) else (symbol, selected))
      in if flt (Fin 0) selected then symbol + 3 else symbol)"

definition quantizePower16WindowGo :: "u16 list \<Rightarrow> nat \<Rightarrow> u8 res" where
  "quantizePower16WindowGo signal chipLength =
     (if length signal < 4 * chipLength then Inl (Panic ''index out of range'')
      else let chip = (\<lambda>segment. chip_sum signal (segment * chipLength) chipLength);
               v0 = chip 0 + chip 1 - chip 2 - chip 3;
               v1 = chip 0 - chip 1 + chip 2 - chip 3;
               v2 = chip 0 - chip 1 - chip 2 + chip 3
           in Inr (quantizePower16Symbol v0 v1 v2))"

record power16R900Platform =
  nativeAvailable :: bool
  run_native :: "u16 list \<Rightarrow> u8"

definition power16R900PortablePlatform :: power16R900Platform where
  "power16R900PortablePlatform = \<lparr>nativeAvailable = False, run_native = (\<lambda>_. 0)\<rparr>"

definition power16R900SIMDChipLength :: nat where "power16R900SIMDChipLength = 72"

definition quantizePower16Window :: "power16R900Platform \<Rightarrow> u16 list \<Rightarrow> nat \<Rightarrow> u8 res" where
  "quantizePower16Window pf signal chipLength =
     (if chipLength = power16R900SIMDChipLength \<and> length signal \<ge> power16R900SIMDChipLength * 4 \<and> nativeAvailable pf
      then Inr (run_native pf signal)
      else quantizePower16WindowGo signal chipLength)"

text \<open>The running sum of the float path, sampled at the four chip boundaries.\<close>

definition quantize_float_window :: "f64 list \<Rightarrow> nat \<Rightarrow> u8 res" where
  "quantize_float_window signal chipLength =
     (if length signal < 4 * chipLength then Inl (Panic ''index out of range'')
      else let sum1 = foldl fadd (Fin 0) (sub signal 0 chipLength);
               c1 = fmul sum1 (Fin 2);
               sum2 = foldl fadd sum1 (sub signal chipLength (2 * chipLength));
               c2 = fmul sum2 (Fin 2);
               sum3 = foldl fadd sum2 (sub signal (2 * chipLength) (3 * chipLength));
               c3 = fmul sum3 (Fin 2);
               c4 = foldl fadd sum3 (sub signal (3 * chipLength) (4 * chipLength));
               v0 = fsub c2 c4;
               v1 = fsub (fadd (fsub c1 c2) c3) c4;
               v2 = fadd (fsub c1 c3) c4
           in Inr (quantizeSymbol v0 v1 v2))"

section \<open>The block filter\<close>

text \<open>The same correlations for every sample of a block, from one cumulative sum of the signal.\<close>

definition block_correlate :: "f64 \<Rightarrow> f64 \<Rightarrow> f64 \<Rightarrow> f64 \<Rightarrow> f64 \<Rightarrow> u8" where
  "block_correlate c0 s1 s2 s3 c4 =
     (let c1 = fmul s1 (Fin 2); c2 = fmul s2 (Fin 2); c3 = fmul s3 (Fin 2);
          v0 = fsub (fsub c2 c4) c0;
          v1 = fsub (fsub (fadd (fsub c1 c2) c3) c4) c0;
          v2 = fsub (fadd (fsub c1 c3) c4) c0
      in quantizeSymbol v0 v1 v2)"

definition filterAndQuantizeWindows :: "nat \<Rightarrow> f64 list \<Rightarrow> f64 list \<Rightarrow> f64 list \<Rightarrow> f64 list \<Rightarrow> f64 list \<Rightarrow> u8 list res" where
  "filterAndQuantizeWindows n c0s c1s c2s c3s c4s =
     (if length c0s < n \<or> length c1s < n \<or> length c2s < n \<or> length c3s < n \<or> length c4s < n
      then Inl (Panic ''r900: filter window shorter than output'')
      else Inr (map (\<lambda>i. block_correlate (c0s ! i) (c1s ! i) (c2s ! i) (c3s ! i) (c4s ! i)) [0..<n]))"

section \<open>The parser\<close>

record R900Parser =
  rcfg :: PacketConfig
  rfield :: Field
  rsBuf :: "u8 list"
  powerHistory :: bool
  cfgRead :: bool

definition r900_NewParser :: "nat \<Rightarrow> R900Parser res" where
  "r900_NewParser chipLength =
     bind_res (NewField 32 37 2) (\<lambda>f.
     Inr \<lparr>rcfg = zeroPacketConfig\<lparr>Protocol := ''r900'', CenterFreq := 912380000, DataRate := 32768,
            ChipLength := chipLength, PreambleSymbols := 32, PacketSymbols := 116,
            PacketConfig.Preamble := ''00000000000000001110010101100100''\<rparr>,
          rfield = f, rsBuf = replicate 31 0, powerHistory = False, cfgRead = False\<rparr>)"

definition SignalHistoryOverlap :: "R900Parser \<Rightarrow> nat" where
  "SignalHistoryOverlap p = ChipLength (rcfg p) * 4"

definition SetPower16History :: "R900Parser \<Rightarrow> bool \<Rightarrow> R900Parser" where
  "SetPower16History p attached = p\<lparr>powerHistory := attached\<rparr>"

type_synonym signal_window = "nat \<Rightarrow> nat \<Rightarrow> f64 list res"
type_synonym power_window = "int \<Rightarrow> int \<Rightarrow> u16 list res"

definition quantizePower16At :: "power16R900Platform \<Rightarrow> power_window \<Rightarrow> R900Parser \<Rightarrow> nat \<Rightarrow> u8 res" where
  "quantizePower16At pf pw p idx =
     bind_res (pw (int idx) (int (ChipLength (rcfg p) * 4))) (\<lambda>signal.
     quantizePower16Window pf signal (ChipLength (rcfg p)))"

definition quantizeSignalAt :: "power16R900Platform \<Rightarrow> signal_window \<Rightarrow> power_window \<Rightarrow> R900Parser \<Rightarrow> nat \<Rightarrow> u8 res" where
  "quantizeSignalAt pf sw pw p idx =
     (if powerHistory p then quantizePower16At pf pw p idx
      else bind_res (sw idx (ChipLength (rcfg p) * 4)) (\<lambda>signal.
           quantize_float_window signal (ChipLength (rcfg p))))"

text \<open>The symbols of one candidate, two quantized halves each.\<close>

fun read_symbols :: "(nat \<Rightarrow> u8 res) \<Rightarrow> nat \<Rightarrow> nat \<Rightarrow> nat \<Rightarrow> u8 list res" where
  "read_symbols quantize chipLength qIdx 0 = Inr []"
| "read_symbols quantize chipLength qIdx (Suc n) =
     bind_res (quantize qIdx) (\<lambda>first.
     bind_res (quantize (qIdx + chipLength * 4)) (\<lambda>second.
     bind_res (read_symbols quantize chipLength (qIdx + chipLength * 8) n) (\<lambda>rest.
     Inr ((first * 6 + second) # rest))))"

definition r900FromSymbols :: "u8 list \<Rightarrow> R900" where
  "r900FromSymbols symbols =
     (let high = foldl (\<lambda>h s. push_bit 5 h OR ucast s) (0 :: u64) (take 12 symbols);
          low = foldl (\<lambda>l s. push_bit 5 l OR ucast s) (0 :: u32) (sub symbols 12 16)
      in \<lparr>R900.ID = ucast (drop_bit 28 high), Unkn1 = ucast (drop_bit 20 high),
          NoUse = ucast (drop_bit 14 high) AND 0x3f, BackFlow = ucast (drop_bit 12 high) AND 0x03,
          R900.Consumption = push_bit 12 (ucast (high AND 0x0fff)) OR drop_bit 8 low,
          Unkn3 = ucast (drop_bit 6 low) AND 0x03, Leak = ucast (drop_bit 2 low) AND 0x0f,
          LeakNow = ucast low AND 0x03, checksum = drop 16 symbols\<rparr>)"

record r900_state =
  rs_seen :: "u8 list set"
  rs_buf :: "u8 list"
  rs_msgs :: "Message list"

definition r900_candidate :: "Field \<Rightarrow> u8 list \<Rightarrow> r900_state \<Rightarrow> r900_state res" where
  "r900_candidate f symbols st =
     (if list_ex (\<lambda>s. s > 31) symbols then Inr st
      else if symbols \<in> rs_seen st then Inr st
      else let buf = write_at (copy_into (rs_buf st) (take 16 symbols)) 26 (drop 16 symbols);
               st = st\<lparr>rs_seen := insert symbols (rs_seen st), rs_buf := buf\<rparr>
           in bind_res (Syndrome f buf 5 29) (\<lambda>syndromes.
              if syndromes ! 0 OR syndromes ! 1 OR syndromes ! 2 OR syndromes ! 3 OR syndromes ! 4 \<noteq> 0 then Inr st
              else Inr (st\<lparr>rs_msgs := rs_msgs st @ [MR900 (r900FromSymbols symbols)]\<rparr>)))"

text \<open>The loop over the candidates stops at the first one beyond the block.\<close>

fun r900_loop :: "(nat \<Rightarrow> u8 res) \<Rightarrow> R900Parser \<Rightarrow> nat list \<Rightarrow> r900_state \<Rightarrow> r900_state res" where
  "r900_loop quantize p [] st = Inr st"
| "r900_loop quantize p (candidateIdx # indices) st =
     (if candidateIdx > BlockSize (rcfg p) then Inr st
      else let payloadIdx = candidateIdx + PreambleLength (rcfg p) - SymbolLength (rcfg p) in
        bind_res (read_symbols quantize (ChipLength (rcfg p)) payloadIdx 21) (\<lambda>symbols.
        bind_res (r900_candidate (rfield p) symbols st) (\<lambda>st.
        r900_loop quantize p indices st)))"

definition ParseCandidateIndices ::
    "power16R900Platform \<Rightarrow> PacketConfig \<Rightarrow> signal_window \<Rightarrow> power_window \<Rightarrow> R900Parser \<Rightarrow> nat list \<Rightarrow> Message list \<Rightarrow>
       (R900Parser \<times> Message list) res" where
  "ParseCandidateIndices pf decoderCfg sw pw p indices messages =
     (let p = (if cfgRead p then p else p\<lparr>rcfg := decoderCfg, cfgRead := True\<rparr>) in
      bind_res (r900_loop (quantizeSignalAt pf sw pw p) p indices
          \<lparr>rs_seen = {}, rs_buf = rsBuf p, rs_msgs = messages\<rparr>) (\<lambda>st.
      Inr (p\<lparr>rsBuf := rs_buf st\<rparr>, rs_msgs st)))"

definition r900_Parse ::
    "power16R900Platform \<Rightarrow> PacketConfig \<Rightarrow> signal_window \<Rightarrow> power_window \<Rightarrow> R900Parser \<Rightarrow> Data list \<Rightarrow> Message list \<Rightarrow>
       (R900Parser \<times> Message list) res" where
  "r900_Parse pf decoderCfg sw pw p pkts messages =
     ParseCandidateIndices pf decoderCfg sw pw p (map Idx pkts) messages"

section \<open>The BCD variant\<close>

definition bcd_consumption :: "u32 \<Rightarrow> u32" where
  "bcd_consumption c = of_nat (ParseUint (FormatUint (unat c) 16) 10 32)"

text \<open>The type assertion panics on a message of another type.\<close>

fun bcd_message :: "Message \<Rightarrow> Message res" where
  "bcd_message (MR900 r) = Inr (MR900BCD (r\<lparr>R900.Consumption := bcd_consumption (R900.Consumption r)\<rparr>))"
| "bcd_message _ = Inl (Panic ''interface conversion'')"

definition r900bcd_Parse ::
    "power16R900Platform \<Rightarrow> PacketConfig \<Rightarrow> signal_window \<Rightarrow> power_window \<Rightarrow> R900Parser \<Rightarrow> Data list \<Rightarrow> Message list \<Rightarrow>
       (R900Parser \<times> Message list) res" where
  "r900bcd_Parse pf decoderCfg sw pw p pkts messages =
     bind_res (r900_Parse pf decoderCfg sw pw p pkts messages) (\<lambda>(p, all).
     bind_res (mapM_res bcd_message (drop (length messages) all)) (\<lambda>converted.
     Inr (p, take (length messages) all @ converted)))"

section \<open>The quantizers are exact\<close>

text \<open>The choice among the three base symbols and their inversions, on integers.\<close>

definition pick_symbol :: "int \<Rightarrow> int \<Rightarrow> int \<Rightarrow> u8" where
  "pick_symbol v0 v1 v2 =
     (let (symbol, selected) =
        (if \<bar>v2\<bar> > max \<bar>v0\<bar> \<bar>v1\<bar> then (2, v2) else if \<bar>v1\<bar> > \<bar>v0\<bar> then (1, v1) else (0, v0))
      in if selected > 0 then symbol + 3 else symbol)"

lemma power16Abs_exact: "\<bar>v\<bar> < 2 ^ 31 \<Longrightarrow> sint (power16Abs (word_of_int v)) = \<bar>v\<bar>"
proof -
  assume v: "\<bar>v\<bar> < 2 ^ 31"
  then have s: "sint (word_of_int v :: i32) = v" by (intro sint_word_of_int) auto
  have "(- word_of_int v :: i32) = word_of_int (- v)" by simp
  moreover have "sint (word_of_int (- v) :: i32) = - v" using v by (intro sint_word_of_int) auto
  ultimately show ?thesis using s by (simp add: power16Abs_def)
qed

lemma quantizePower16Symbol_pick:
  assumes "\<bar>v0\<bar> < 2 ^ 31" "\<bar>v1\<bar> < 2 ^ 31" "\<bar>v2\<bar> < 2 ^ 31"
  shows "quantizePower16Symbol (word_of_int v0) (word_of_int v1) (word_of_int v2) = pick_symbol v0 v1 v2"
proof -
  have s: "sint (word_of_int v :: i32) = v" if "\<bar>v\<bar> < 2 ^ 31" for v
    using that by (intro sint_word_of_int) auto
  show ?thesis
    unfolding quantizePower16Symbol_def pick_symbol_def
    by (cases "\<bar>v0\<bar> < \<bar>v1\<bar>"; cases "\<bar>v0\<bar> < \<bar>v2\<bar>"; cases "\<bar>v1\<bar> < \<bar>v2\<bar>")
      (simp_all add: power16Abs_exact [OF assms(1)] power16Abs_exact [OF assms(2)] power16Abs_exact [OF assms(3)]
        s [OF assms(1)] s [OF assms(2)] s [OF assms(3)])
qed

lemma quantizeSymbol_pick:
  "quantizeSymbol (Fin (of_int v0)) (Fin (of_int v1)) (Fin (of_int v2)) = pick_symbol v0 v1 v2"
proof -
  have "\<bar>of_int a :: rat\<bar> < \<bar>of_int b\<bar> \<longleftrightarrow> \<bar>a\<bar> < \<bar>b\<bar>" for a b :: int by (metis of_int_abs of_int_less_iff)
  then show ?thesis unfolding quantizeSymbol_def pick_symbol_def by (auto simp: Let_def)
qed

text \<open>Sums of integers below \<open>2^53\<close> are exact in \<open>float64\<close>.\<close>

definition fint :: "int \<Rightarrow> f64" where
  "fint n = Fin (of_int n)"

lemma fint_fround: "\<bar>n\<bar> < 2 ^ 53 \<Longrightarrow> fround (of_int n) = fint n"
  by (simp add: fint_def fround_representable representable_int)

lemma fadd_fint: "\<bar>a + b\<bar> < 2 ^ 53 \<Longrightarrow> fadd (fint a) (fint b) = fint (a + b)"
  using fint_fround [of "a + b"] by (simp add: fint_def)

lemma fsub_fint: "\<bar>a - b\<bar> < 2 ^ 53 \<Longrightarrow> fsub (fint a) (fint b) = fint (a - b)"
  using fint_fround [of "a - b"] by (cases "b = 0") (simp_all add: fint_def fsub_def)

lemma fmul2_fint: "\<bar>2 * a\<bar> < 2 ^ 53 \<Longrightarrow> fmul (fint a) (Fin 2) = fint (2 * a)"
  using fint_fround [of "2 * a"] by (cases "a = 0") (simp_all add: fint_def fzero_def mult.commute)

lemma foldl_fadd_fint:
  "0 \<le> a \<Longrightarrow> list_all (\<lambda>n. 0 \<le> n) ns \<Longrightarrow> a + sum_list ns < 2 ^ 53 \<Longrightarrow> foldl fadd (fint a) (map fint ns) = fint (a + sum_list ns)"
proof (induction ns arbitrary: a)
  case (Cons n ns)
  then have "0 \<le> sum_list ns" by (auto simp: list_all_iff intro: sum_list_nonneg)
  with Cons show ?case by (simp add: fadd_fint add.assoc)
qed simp

lemma chip_energy_sub:
  "start + chip \<le> length ps \<Longrightarrow> sum_list (map uint (sub ps start (start + chip))) = chip_energy ps start chip"
  by (simp add: chip_energy_def sum_list_sum_nth atLeast0LessThan)

text \<open>The correlations of a window with the three base symbols 1100, 1010 and 1001.\<close>

definition correlations :: "u16 list \<Rightarrow> nat \<Rightarrow> int \<times> int \<times> int" where
  "correlations ps chip =
     (let e = (\<lambda>k. chip_energy ps (k * chip) chip)
      in (e 0 + e 1 - e 2 - e 3, e 0 - e 1 + e 2 - e 3, e 0 - e 1 - e 2 + e 3))"

definition exact_symbol :: "u16 list \<Rightarrow> nat \<Rightarrow> u8" where
  "exact_symbol ps chip = (case correlations ps chip of (v0, v1, v2) \<Rightarrow> pick_symbol v0 v1 v2)"

lemma quantizePower16WindowGo_exact:
  assumes "chip \<le> 8191" "4 * chip \<le> length ps"
  shows "quantizePower16WindowGo ps chip = Inr (exact_symbol ps chip)"
proof -
  have e: "0 \<le> chip_energy ps k chip" "chip_energy ps k chip < 2 ^ 29" for k
    using chip_energy_bounds [of ps k chip] assms(1) by auto
  obtain e0 e1 e2 e3 where d: "e0 = chip_energy ps 0 chip" "e1 = chip_energy ps chip chip"
    "e2 = chip_energy ps (2 * chip) chip" "e3 = chip_energy ps (3 * chip) chip" by blast
  have "\<bar>e0 + e1 - e2 - e3\<bar> < 2 ^ 31" "\<bar>e0 - e1 + e2 - e3\<bar> < 2 ^ 31" "\<bar>e0 - e1 - e2 + e3\<bar> < 2 ^ 31"
    using e [of 0] e [of chip] e [of "2 * chip"] e [of "3 * chip"] unfolding d by (simp_all add: abs_less_iff)
  from quantizePower16Symbol_pick [OF this] show ?thesis
    using assms(2) by (simp add: quantizePower16WindowGo_def exact_symbol_def correlations_def chip_sum_exact d)
qed

lemma quantize_float_window_exact:
  assumes "chip \<le> 8191" "length ps = 4 * chip"
  shows "quantize_float_window (map (\<lambda>p. fint (uint p)) ps) chip = Inr (exact_symbol ps chip)"
proof -
  have e: "0 \<le> chip_energy ps k chip" "chip_energy ps k chip < 2 ^ 29" for k
    using chip_energy_bounds [of ps k chip] assms(1) by auto
  let ?e = "\<lambda>k. chip_energy ps (k * chip) chip"
  have run: "foldl fadd (fint a) (sub (map (\<lambda>p. fint (uint p)) ps) (k * chip) (j * chip)) = fint (a + ?e k)"
    if "0 \<le> a" "a < 2 ^ 52" "j = Suc k" "k < 4" for a k j
  proof -
    have le: "k * chip + chip \<le> length ps" using that assms(2) mult_le_mono1 [of "Suc k" 4 chip] by simp
    have "sub (map (\<lambda>p. fint (uint p)) ps) (k * chip) (j * chip) = map fint (map uint (sub ps (k * chip) (k * chip + chip)))"
      using that by (simp add: sub_def take_map drop_map add.commute)
    moreover have "a + sum_list (map uint (sub ps (k * chip) (k * chip + chip))) < 2 ^ 53"
      using that e [of "k * chip"] unfolding chip_energy_sub [OF le] by simp
    ultimately show ?thesis using foldl_fadd_fint [of a "map uint (sub ps (k * chip) (k * chip + chip))"] that(1)
      unfolding chip_energy_sub [OF le] by (simp add: list_all_iff)
  qed
  have s1: "foldl fadd (Fin 0) (sub (map (\<lambda>p. fint (uint p)) ps) 0 chip) = fint (?e 0)"
    using run [of 0 1 0] by (simp add: fint_def)
  have s2: "foldl fadd (fint (?e 0)) (sub (map (\<lambda>p. fint (uint p)) ps) chip (2 * chip)) = fint (?e 0 + ?e 1)"
    using run [of "?e 0" 2 1] e [of 0] by simp
  have s3: "foldl fadd (fint (?e 0 + ?e 1)) (sub (map (\<lambda>p. fint (uint p)) ps) (2 * chip) (3 * chip)) = fint (?e 0 + ?e 1 + ?e 2)"
    using run [of "?e 0 + ?e 1" 3 2] e [of 0] e [of chip] by simp
  have s4: "foldl fadd (fint (?e 0 + ?e 1 + ?e 2)) (sub (map (\<lambda>p. fint (uint p)) ps) (3 * chip) (4 * chip)) =
      fint (?e 0 + ?e 1 + ?e 2 + ?e 3)"
    using run [of "?e 0 + ?e 1 + ?e 2" 4 3] e [of 0] e [of chip] e [of "2 * chip"] by simp
  obtain e0 e1 e2 e3 where d: "?e 0 = e0" "?e 1 = e1" "?e 2 = e2" "?e 3 = e3" by blast
  have b: "0 \<le> e0" "e0 < 2 ^ 29" "0 \<le> e1" "e1 < 2 ^ 29" "0 \<le> e2" "e2 < 2 ^ 29" "0 \<le> e3" "e3 < 2 ^ 29"
    using e unfolding d [symmetric] by blast+
  have "quantize_float_window (map (\<lambda>p. fint (uint p)) ps) chip =
      Inr (quantizeSymbol (fint (e0 + e1 - e2 - e3)) (fint (e0 - e1 + e2 - e3)) (fint (e0 - e1 - e2 + e3)))"
    unfolding quantize_float_window_def Let_def s1 [unfolded d] s2 [unfolded d] s3 [unfolded d] s4 [unfolded d]
    using assms(2) b by (simp add: fmul2_fint fsub_fint fadd_fint abs_less_iff algebra_simps)
  then show ?thesis using d unfolding fint_def quantizeSymbol_pick
    by (simp add: exact_symbol_def correlations_def)
qed

text \<open>The chosen symbol: one of the six whose correlation is the largest, the first base symbol among
  equals, and the inverted one when the correlation vanishes.\<close>

definition symbol_correlation :: "int \<times> int \<times> int \<Rightarrow> nat \<Rightarrow> int" where
  "symbol_correlation v s = (case v of (v0, v1, v2) \<Rightarrow> [- v0, - v1, - v2, v0, v1, v2] ! s)"

lemma pick_symbol_best:
  "unat (pick_symbol v0 v1 v2) < 6 \<and>
   (\<forall>t < 6. symbol_correlation (v0, v1, v2) t \<le> symbol_correlation (v0, v1, v2) (unat (pick_symbol v0 v1 v2)))"
proof -
  have six: "(\<forall>t < 6. P t) \<longleftrightarrow> P 0 \<and> P 1 \<and> P 2 \<and> P 3 \<and> P 4 \<and> P (5 :: nat)" for P
  proof -
    have "t < 6 \<longleftrightarrow> t = 0 \<or> t = 1 \<or> t = 2 \<or> t = 3 \<or> t = 4 \<or> t = 5" for t :: nat by arith
    then show ?thesis by metis
  qed
  consider (two) "\<bar>v0\<bar> < \<bar>v2\<bar>" "\<bar>v1\<bar> < \<bar>v2\<bar>" | (one) "\<bar>v0\<bar> < \<bar>v1\<bar>" "\<bar>v2\<bar> \<le> \<bar>v1\<bar>" | (zero) "\<bar>v1\<bar> \<le> \<bar>v0\<bar>" "\<bar>v2\<bar> \<le> \<bar>v0\<bar>"
    by linarith
  then show ?thesis
  proof cases
    case two
    then have "pick_symbol v0 v1 v2 = (if v2 > 0 then 5 else 2)" by (simp add: pick_symbol_def)
    with two show ?thesis unfolding six symbol_correlation_def by auto
  next
    case one
    then have "pick_symbol v0 v1 v2 = (if v1 > 0 then 4 else 1)" by (simp add: pick_symbol_def)
    with one show ?thesis unfolding six symbol_correlation_def by auto
  next
    case zero
    then have "pick_symbol v0 v1 v2 = (if v0 > 0 then 3 else 0)" by (simp add: pick_symbol_def)
    with zero show ?thesis unfolding six symbol_correlation_def by auto
  qed
qed

section \<open>The parser\<close>

text \<open>The contract of the native leaf: on a window of four chips of 72 samples it returns what the portable
  loop returns.\<close>

definition leaf_agrees :: "power16R900Platform \<Rightarrow> bool" where
  "leaf_agrees pf \<longleftrightarrow> (nativeAvailable pf \<longrightarrow>
     (\<forall>ps. power16R900SIMDChipLength * 4 \<le> length ps \<longrightarrow>
        Inr (run_native pf ps) = quantizePower16WindowGo ps power16R900SIMDChipLength))"

lemma portable_leaf_agrees: "leaf_agrees power16R900PortablePlatform"
  by (simp add: leaf_agrees_def power16R900PortablePlatform_def)

lemma quantizePower16Window_exact:
  assumes "leaf_agrees pf" "chip \<le> 8191" "4 * chip \<le> length ps"
  shows "quantizePower16Window pf ps chip = Inr (exact_symbol ps chip)"
  using assms(1) quantizePower16WindowGo_exact [OF assms(2,3)]
  by (auto simp: quantizePower16Window_def leaf_agrees_def)

text \<open>The symbols read at a candidate when the quantizer returns \<open>q\<close>.\<close>

definition symbols_at :: "(nat \<Rightarrow> u8) \<Rightarrow> nat \<Rightarrow> nat \<Rightarrow> nat \<Rightarrow> u8 list" where
  "symbols_at q chip start n = map (\<lambda>k. q (start + k * (chip * 8)) * 6 + q (start + k * (chip * 8) + chip * 4)) [0..<n]"

lemma read_symbols_ok:
  assumes "\<forall>k < 2 * n. quantize (start + k * (chip * 4)) = Inr (q (start + k * (chip * 4)))"
  shows "read_symbols quantize chip start n = Inr (symbols_at q chip start n)"
  using assms
proof (induction n arbitrary: start)
  case (Suc n)
  have rest: "\<forall>k < 2 * n. quantize (start + chip * 8 + k * (chip * 4)) = Inr (q (start + chip * 8 + k * (chip * 4)))"
  proof (intro allI impI)
    fix k assume "k < 2 * n"
    moreover have eq: "start + chip * 8 + k * (chip * 4) = start + (k + 2) * (chip * 4)" by (simp add: algebra_simps)
    ultimately show "quantize (start + chip * 8 + k * (chip * 4)) = Inr (q (start + chip * 8 + k * (chip * 4)))"
      using Suc.prems [THEN spec, of "k + 2"] unfolding eq by simp
  qed
  have "quantize start = Inr (q start)" using Suc.prems [THEN spec, of 0] by simp
  moreover have "quantize (start + chip * 4) = Inr (q (start + chip * 4))" using Suc.prems [THEN spec, of 1] by simp
  moreover have "[0..<Suc n] = 0 # map Suc [0..<n]" by (simp add: upt_conv_Cons map_Suc_upt del: upt_Suc)
  ultimately show ?case using Suc.IH [OF rest] by (simp add: symbols_at_def o_def algebra_simps del: upt_Suc)
qed (simp add: symbols_at_def)

text \<open>What a symbol string is decoded to: the Reed-Solomon word has ten fixed zeros in the middle.\<close>

definition rs_word :: "u8 list \<Rightarrow> u8 list" where
  "rs_word symbols = take 16 symbols @ replicate 10 0 @ drop 16 symbols"

definition r900_accept :: "u8 list \<Rightarrow> Message option" where
  "r900_accept symbols =
     (if list_all (\<lambda>s. s \<le> 31) symbols \<and> Syndrome gf32 (rs_word symbols) 5 29 = Inr (replicate 5 0)
      then Some (MR900 (r900FromSymbols symbols)) else None)"

definition rs_ok :: "u8 list \<Rightarrow> bool" where
  "rs_ok ws \<longleftrightarrow> length ws = 31 \<and> sub ws 16 26 = replicate 10 0"

lemma rs_ok_zeros: "rs_ok (replicate 31 0)"
  by (simp add: rs_ok_def sub_def)

lemma rs_fill:
  assumes "rs_ok ws" "length symbols = 21"
  shows "write_at (copy_into ws (take 16 symbols)) 26 (drop 16 symbols) = rs_word symbols" "rs_ok (rs_word symbols)"
proof -
  have "drop 16 (take 26 ws) = replicate 10 0" using assms(1) by (simp add: rs_ok_def sub_def take_drop)
  then show "write_at (copy_into ws (take 16 symbols)) 26 (drop 16 symbols) = rs_word symbols"
    using assms by (simp add: write_at_def copy_into_def rs_word_def rs_ok_def drop_take)
  show "rs_ok (rs_word symbols)" using assms(2) by (simp add: rs_ok_def rs_word_def sub_def)
qed

lemma Syndrome_total:
  assumes "length symbols = 21" "list_all (\<lambda>s. s \<le> 31) symbols"
  shows "\<exists>s. Syndrome gf32 (rs_word symbols) 5 29 = Inr s \<and> length s = 5"
proof -
  have "\<forall>s\<in>set symbols. unat s \<le> 31" using assms(2) by (auto simp: list_all_iff word_le_nat_alt)
  then have "list_all gf32.elt (rs_word symbols)"
    by (auto simp: gf32.elt_def list_all_iff rs_word_def dest!: in_set_takeD in_set_dropD)
  then show ?thesis using gf32.Syndrome_ev [of 29 5 "rs_word symbols"] assms(1) by (simp add: rs_word_def)
qed

lemma or5_zero: "length s = 5 \<Longrightarrow> s ! 0 OR s ! 1 OR s ! 2 OR s ! 3 OR s ! 4 = (0 :: u8) \<longleftrightarrow> s = replicate 5 0"
proof -
  assume "length s = 5"
  then obtain a b c d e where "s = [a, b, c, d, e]" by (auto simp: length_Suc_conv numeral_eq_Suc)
  then show ?thesis by (simp add: or_eq_0_iff numeral_eq_Suc)
qed

lemma r900_candidate_ok:
  assumes "rs_ok (rs_buf st)" "length symbols = 21"
  shows "\<exists>st'. r900_candidate gf32 symbols st = Inr st' \<and> rs_ok (rs_buf st') \<and>
    rs_msgs st' = rs_msgs st @ (if symbols \<in> rs_seen st then [] else case r900_accept symbols of None \<Rightarrow> [] | Some m \<Rightarrow> [m]) \<and>
    rs_seen st' = (if list_all (\<lambda>s. s \<le> 31) symbols then insert symbols (rs_seen st) else rs_seen st)"
proof (cases "list_all (\<lambda>s. s \<le> 31) symbols")
  case True
  then have ex: "\<not> list_ex (\<lambda>s. s > 31) symbols" by (auto simp: list_all_iff list_ex_iff not_less)
  obtain s where s: "Syndrome gf32 (rs_word symbols) 5 29 = Inr s" "length s = 5"
    using Syndrome_total [OF assms(2) True] by blast
  show ?thesis
    using ex s True or5_zero [OF s(2)] rs_fill [OF assms] assms(1)
    by (auto simp: r900_candidate_def r900_accept_def Let_def insert_absorb)
next
  case False
  then have "list_ex (\<lambda>s. s > 31) symbols" by (auto simp: list_all_iff list_ex_iff not_le)
  then show ?thesis using False assms(1) by (auto simp: r900_candidate_def r900_accept_def)
qed

text \<open>Repeated candidates are reported once. A string with a symbol out of range is not remembered, but it is
  never accepted either.\<close>

lemma map_filter_firsts:
  assumes "\<forall>x \<in> A. f x = None" "S - A \<subseteq> T" "T \<subseteq> S"
  shows "List.map_filter f (firsts S xs) = List.map_filter f (firsts T xs)"
  using assms(2,3)
proof (induction xs arbitrary: S T)
  case (Cons x xs)
  consider "x \<in> T" | "x \<in> S" "x \<notin> T" | "x \<notin> S" by blast
  then show ?case
  proof cases
    case 1
    then show ?thesis using Cons by (simp add: subset_iff)
  next
    case 2
    then have "f x = None" using Cons.prems assms(1) by blast
    moreover have "S - A \<subseteq> insert x T" "insert x T \<subseteq> S" using 2 Cons.prems by blast+
    ultimately show ?thesis using 2 Cons.IH [of S "insert x T"] by (simp add: map_filter_simps)
  next
    case 3
    then have "S - A \<subseteq> T" "insert x S - A \<subseteq> insert x T" "insert x T \<subseteq> insert x S" "x \<notin> T" using Cons.prems by blast+
    then show ?thesis using 3 Cons.IH [of "insert x S" "insert x T"] by (simp add: map_filter_simps split: option.splits)
  qed
qed simp

definition payload_start :: "PacketConfig \<Rightarrow> nat \<Rightarrow> nat" where
  "payload_start cfg candidateIdx = candidateIdx + PreambleLength cfg - SymbolLength cfg"

definition candidate_symbols :: "PacketConfig \<Rightarrow> (nat \<Rightarrow> u8) \<Rightarrow> nat list \<Rightarrow> u8 list list" where
  "candidate_symbols cfg q indices =
     map (\<lambda>i. symbols_at q (ChipLength cfg) (payload_start cfg i) 21) (takeWhile (\<lambda>i. i \<le> BlockSize cfg) indices)"

definition quantizes :: "(nat \<Rightarrow> u8 res) \<Rightarrow> PacketConfig \<Rightarrow> (nat \<Rightarrow> u8) \<Rightarrow> nat list \<Rightarrow> bool" where
  "quantizes quantize cfg q indices \<longleftrightarrow>
     (\<forall>i \<in> set (takeWhile (\<lambda>i. i \<le> BlockSize cfg) indices). \<forall>k < 42.
        quantize (payload_start cfg i + k * (ChipLength cfg * 4)) = Inr (q (payload_start cfg i + k * (ChipLength cfg * 4))))"

lemma r900_loop_ok:
  assumes "rfield p = gf32" "rs_ok (rs_buf st)" "quantizes quantize (rcfg p) q indices"
  shows "\<exists>st'. r900_loop quantize p indices st = Inr st' \<and> rs_ok (rs_buf st') \<and>
    rs_msgs st' = rs_msgs st @ List.map_filter r900_accept (firsts (rs_seen st) (candidate_symbols (rcfg p) q indices))"
  using assms(2,3)
proof (induction indices arbitrary: st)
  case Nil
  then show ?case by (simp add: candidate_symbols_def map_filter_simps)
next
  case (Cons i indices)
  show ?case
  proof (cases "i \<le> BlockSize (rcfg p)")
    case True
    let ?sym = "symbols_at q (ChipLength (rcfg p)) (payload_start (rcfg p) i) 21"
    have quant: "\<forall>k < 2 * 21. quantize (payload_start (rcfg p) i + k * (ChipLength (rcfg p) * 4)) =
        Inr (q (payload_start (rcfg p) i + k * (ChipLength (rcfg p) * 4)))"
      and rest: "quantizes quantize (rcfg p) q indices"
      using Cons.prems(2) True by (simp_all add: quantizes_def)
    have read: "read_symbols quantize (ChipLength (rcfg p)) (payload_start (rcfg p) i) 21 = Inr ?sym"
      by (rule read_symbols_ok [OF quant])
    obtain st1 where st1: "r900_candidate gf32 ?sym st = Inr st1" "rs_ok (rs_buf st1)"
        "rs_msgs st1 = rs_msgs st @ (if ?sym \<in> rs_seen st then [] else case r900_accept ?sym of None \<Rightarrow> [] | Some m \<Rightarrow> [m])"
        "rs_seen st1 = (if list_all (\<lambda>s. s \<le> 31) ?sym then insert ?sym (rs_seen st) else rs_seen st)"
      using r900_candidate_ok [OF Cons.prems(1), of ?sym] by (auto simp: symbols_at_def)
    obtain st2 where st2: "r900_loop quantize p indices st1 = Inr st2" "rs_ok (rs_buf st2)"
        "rs_msgs st2 = rs_msgs st1 @ List.map_filter r900_accept (firsts (rs_seen st1) (candidate_symbols (rcfg p) q indices))"
      using Cons.IH [OF st1(2) rest] by blast
    have seen: "List.map_filter r900_accept (firsts (insert ?sym (rs_seen st)) xs) = List.map_filter r900_accept (firsts (rs_seen st1) xs)" for xs
    proof (rule map_filter_firsts)
      show "\<forall>x\<in>{s. \<not> list_all (\<lambda>s. s \<le> 31) s}. r900_accept x = None" by (simp add: r900_accept_def)
    qed (use st1(4) in auto)
    have "candidate_symbols (rcfg p) q (i # indices) = ?sym # candidate_symbols (rcfg p) q indices"
      using True by (simp add: candidate_symbols_def)
    then have split: "List.map_filter r900_accept (firsts (rs_seen st) (candidate_symbols (rcfg p) q (i # indices))) =
        (if ?sym \<in> rs_seen st then [] else case r900_accept ?sym of None \<Rightarrow> [] | Some m \<Rightarrow> [m]) @
        List.map_filter r900_accept (firsts (insert ?sym (rs_seen st)) (candidate_symbols (rcfg p) q indices))"
      by (simp add: map_filter_simps insert_absorb split: option.splits)
    have "r900_loop quantize p (i # indices) st = Inr st2"
      using True read st1(1) st2(1) assms(1) by (simp add: payload_start_def Let_def)
    then show ?thesis using st2(2,3) unfolding split seen st1(3) by simp
  next
    case False
    then show ?thesis using Cons.prems by (simp add: candidate_symbols_def map_filter_simps)
  qed
qed

definition r900_inv :: "R900Parser \<Rightarrow> bool" where
  "r900_inv p \<longleftrightarrow> rfield p = gf32 \<and> rs_ok (rsBuf p)"

lemma r900_NewParser_inv: "\<exists>p. r900_NewParser chip = Inr p \<and> r900_inv p \<and> \<not> cfgRead p"
  by (simp add: r900_NewParser_def NewField_gf32 r900_inv_def rs_ok_zeros)

lemma ParseCandidateIndices_result:
  assumes "r900_inv p" "cfgRead p \<longrightarrow> rcfg p = cfg"
    and "quantizes (quantizeSignalAt pf sw pw (p\<lparr>rcfg := cfg, cfgRead := True\<rparr>)) cfg q indices"
  shows "\<exists>p'. ParseCandidateIndices pf cfg sw pw p indices messages =
      Inr (p', messages @ List.map_filter r900_accept (firsts {} (candidate_symbols cfg q indices))) \<and>
    r900_inv p' \<and> cfgRead p' \<and> rcfg p' = cfg \<and> powerHistory p' = powerHistory p"
proof -
  let ?p = "p\<lparr>rcfg := cfg, cfgRead := True\<rparr>"
  have p: "(if cfgRead p then p else ?p) = ?p" using assms(2) by (cases p) simp
  obtain st' where "r900_loop (quantizeSignalAt pf sw pw ?p) ?p indices \<lparr>rs_seen = {}, rs_buf = rsBuf p, rs_msgs = messages\<rparr> = Inr st'"
      "rs_ok (rs_buf st')" "rs_msgs st' = messages @ List.map_filter r900_accept (firsts {} (candidate_symbols cfg q indices))"
    using r900_loop_ok [of ?p "\<lparr>rs_seen = {}, rs_buf = rsBuf p, rs_msgs = messages\<rparr>" "quantizeSignalAt pf sw pw ?p" q indices] assms(1,3)
    by (auto simp: r900_inv_def)
  then show ?thesis using assms(1) unfolding ParseCandidateIndices_def p
    by (intro exI [of _ "?p\<lparr>rsBuf := rs_buf st'\<rparr>"]) (simp add: Let_def r900_inv_def)
qed

end
