(* ===== verification/R900Fields.thy ===== *)
theory R900Fields
  imports R900Parser
begin

text \<open>
  The contents of an R900 message: the packing of its fields into sixteen five-bit symbols, the five
  check symbols that the Reed-Solomon syndrome asks for, the BCD reading of the consumption, and the
  properties of the parser.
\<close>

section \<open>Packing fields into symbols\<close>

definition r900_in_range :: "R900 \<Rightarrow> bool" where
  "r900_in_range r \<longleftrightarrow> unat (NoUse r) < 64 \<and> unat (BackFlow r) < 4 \<and> unat (R900.Consumption r) < 2 ^ 24 \<and>
     unat (Unkn3 r) < 4 \<and> unat (Leak r) < 16 \<and> unat (LeakNow r) < 4 \<and> length (checksum r) = 5"

text \<open>The transmitter's side: the fields in order, most significant first, cut into five-bit digits.\<close>

definition r900_high :: "R900 \<Rightarrow> nat" where
  "r900_high r = unat (R900.ID r) * 2 ^ 28 + unat (Unkn1 r) * 2 ^ 20 + unat (NoUse r) * 2 ^ 14 + unat (BackFlow r) * 2 ^ 12 +
     unat (R900.Consumption r) div 2 ^ 12"

definition r900_low :: "R900 \<Rightarrow> nat" where
  "r900_low r = unat (R900.Consumption r) mod 2 ^ 12 * 2 ^ 8 + unat (Unkn3 r) * 2 ^ 6 + unat (Leak r) * 2 ^ 2 + unat (LeakNow r)"

definition digits32 :: "nat \<Rightarrow> nat \<Rightarrow> u8 list" where
  "digits32 n v = map (\<lambda>i. of_nat (v div 32 ^ (n - 1 - i) mod 32)) [0..<n]"

definition r900_symbols :: "R900 \<Rightarrow> u8 list" where
  "r900_symbols r = digits32 12 (r900_high r) @ digits32 4 (r900_low r) @ checksum r"

lemma length_digits32 [simp]: "length (digits32 n v) = n"
  by (simp add: digits32_def)

lemma digits32_snoc: "digits32 (Suc n) v = digits32 n (v div 32) @ [of_nat (v mod 32)]"
proof -
  have "v div 32 ^ (n - i) mod 32 = v div 32 div 32 ^ (n - Suc i) mod 32" if "i < n" for i
  proof -
    have "(32 :: nat) ^ (n - i) = 32 * 32 ^ (n - Suc i)" using that by (metis Suc_diff_Suc power_Suc)
    then show ?thesis by (simp add: div_mult2_eq)
  qed
  then show ?thesis by (simp add: digits32_def)
qed

lemma push_bit_or_digit: "d < 32 \<Longrightarrow> push_bit 5 m OR d = m * 32 + (d :: nat)"
proof -
  assume d: "d < 32"
  then have "d = take_bit 5 d" by (simp add: take_bit_eq_mod)
  then have "\<not> bit d n" if "5 \<le> n" for n using that by (metis bit_take_bit_iff not_less)
  then have "push_bit 5 m + d = push_bit 5 m OR d"
    by (intro disjunctive_add) (metis bit_push_bit_iff)
  then show ?thesis by (simp add: push_bit_eq_mult)
qed

lemma shift_in_digit:
  assumes "unat (h :: 'a :: len word) * 32 < 2 ^ LENGTH('a)" "d < 32" "8 \<le> LENGTH('a)"
  shows "unat (push_bit 5 h OR ucast (of_nat d :: u8)) = unat h * 32 + d"
proof -
  have "d < 2 ^ LENGTH('a)" using assms(2,3) power_increasing [of 8 "LENGTH('a)" "2 :: nat"] by simp
  then have "unat (ucast (of_nat d :: u8) :: 'a word) = d"
    using assms(2) by (simp add: unsigned_ucast_eq unat_of_nat take_bit_nat_eq_self)
  moreover have "unat (push_bit 5 h) = push_bit 5 (unat h)"
    unfolding unsigned_push_bit_eq using assms(1) by (simp add: push_bit_eq_mult take_bit_nat_eq_self)
  ultimately show ?thesis using push_bit_or_digit [OF assms(2), of "unat h"] by (simp add: unsigned_or_eq)
qed

lemma fold_digits32:
  "v < 32 ^ n \<Longrightarrow> 32 ^ n \<le> (2 :: nat) ^ LENGTH('a :: len) \<Longrightarrow> 8 \<le> LENGTH('a) \<Longrightarrow>
     unat (foldl (\<lambda>h s. push_bit 5 h OR ucast s) (0 :: 'a word) (digits32 n v)) = v"
proof (induction n arbitrary: v)
  case (Suc n)
  have v: "v div 32 < 32 ^ n" using Suc.prems(1) by (simp add: less_mult_imp_div_less mult.commute)
  moreover have "32 ^ n \<le> (2 :: nat) ^ LENGTH('a)" using Suc.prems(2) by simp
  ultimately have ih: "unat (foldl (\<lambda>h s. push_bit 5 h OR ucast s) (0 :: 'a word) (digits32 n (v div 32))) = v div 32"
    using Suc.IH Suc.prems(3) by blast
  have "v div 32 * 32 < 2 ^ LENGTH('a)" using v Suc.prems(2) by simp
  then show ?case using shift_in_digit [of "foldl (\<lambda>h s. push_bit 5 h OR ucast s) (0 :: 'a word) (digits32 n (v div 32))" "v mod 32"]
      ih Suc.prems(3) by (simp add: digits32_snoc)
qed (simp add: digits32_def)

lemma unat_low_bits: "unat (x AND mask n) = unat x mod 2 ^ n"
  unfolding take_bit_eq_mask [symmetric] unsigned_take_bit_eq by (simp add: take_bit_eq_mod)

lemma field_masks: "(0x3f :: u8) = mask 6" "(0x0f :: u8) = mask 4" "(0x03 :: u8) = mask 2" "(0x0fff :: u64) = mask 12"
  by (simp_all add: mask_eq_exp_minus_1)

text \<open>The value of a bit field of a word: shift right, then cut to the width of the result.\<close>

lemma unat_field: "unat (ucast (drop_bit k (x :: 'a :: len word)) :: 'b :: len word) = unat x div 2 ^ k mod 2 ^ LENGTH('b)"
  unfolding unsigned_ucast_eq unsigned_drop_bit_eq
  by (simp add: drop_bit_eq_div take_bit_eq_mod)

lemma unat_subfield:
  assumes "m \<le> 8" "unat (x :: 'a :: len word) div 2 ^ k = 2 ^ m * q + unat v" "unat v < 2 ^ m"
  shows "ucast (drop_bit k x) AND mask m = (v :: u8)"
proof -
  have "(2 :: nat) ^ m dvd 2 ^ 8" using assms(1) by (rule le_imp_power_dvd)
  then have "unat (ucast (drop_bit k x) AND mask m :: u8) = unat x div 2 ^ k mod 2 ^ m"
    unfolding unat_low_bits unat_field using mod_mod_cancel [of "2 ^ m" "2 ^ 8" "unat x div 2 ^ k"] by simp
  then show ?thesis using assms(2,3) by (simp add: word_unat_eq_iff)
qed

lemma consumption_join:
  assumes "a < 2 ^ 12" "b < 2 ^ 12"
  shows "unat (push_bit 12 (of_nat a) OR (of_nat b) :: u32) = a * 2 ^ 12 + b"
proof -
  have "b = take_bit 12 b" using assms(2) by (simp add: take_bit_eq_mod)
  then have "\<not> bit b n" if "12 \<le> n" for n using that by (metis bit_take_bit_iff not_less)
  then have "push_bit 12 a + b = push_bit 12 a OR b" by (intro disjunctive_add) (metis bit_push_bit_iff)
  moreover have "unat (push_bit 12 (of_nat a) OR (of_nat b) :: u32) = take_bit 32 (push_bit 12 a) OR b"
    unfolding unsigned_or_eq unsigned_push_bit_eq using assms by (simp add: unat_of_nat push_bit_eq_mult take_bit_eq_mod)
  moreover have "take_bit 32 (push_bit 12 a) = push_bit 12 a" using assms(1) by (simp add: push_bit_eq_mult take_bit_eq_mod)
  ultimately show ?thesis by (simp add: push_bit_eq_mult)
qed

lemma r900FromSymbols_pack:
  assumes "r900_in_range r"
  shows "r900FromSymbols (r900_symbols r) = r"
proof -
  obtain i u n b c k l w cs where r: "r = \<lparr>R900.ID = i, Unkn1 = u, NoUse = n, BackFlow = b, R900.Consumption = c,
      Unkn3 = k, Leak = l, LeakNow = w, checksum = cs\<rparr>" by (cases r)
  have lt: "unat i < 2 ^ 32" "unat u < 256" using unsigned_less [of i] unsigned_less [of u] by simp_all
  have rg: "unat n < 64" "unat b < 4" "unat c < 2 ^ 24" "unat k < 4" "unat l < 16" "unat w < 4" "length cs = 5"
    using assms by (simp_all add: r900_in_range_def r)
  define high :: u64 where "high = foldl (\<lambda>h s. push_bit 5 h OR ucast s) 0 (digits32 12 (r900_high r))"
  define low :: u32 where "low = foldl (\<lambda>h s. push_bit 5 h OR ucast s) 0 (digits32 4 (r900_low r))"
  have hb: "r900_high r < 32 ^ 12" "r900_low r < 32 ^ 4" using lt rg by (simp_all add: r900_high_def r900_low_def r)
  then have high: "unat high = r900_high r" and low: "unat low = r900_low r"
    unfolding high_def low_def by (simp_all add: fold_digits32)
  have parts: "take 12 (r900_symbols r) = digits32 12 (r900_high r)" "sub (r900_symbols r) 12 16 = digits32 4 (r900_low r)"
    "drop 16 (r900_symbols r) = cs"
    by (simp_all add: r900_symbols_def sub_def r)
  have H: "unat high = unat i * 2 ^ 28 + unat u * 2 ^ 20 + unat n * 2 ^ 14 + unat b * 2 ^ 12 + unat c div 2 ^ 12"
    and L: "unat low = unat c mod 2 ^ 12 * 2 ^ 8 + unat k * 2 ^ 6 + unat l * 2 ^ 2 + unat w"
    unfolding high low by (simp_all add: r900_high_def r900_low_def r)
  have cb: "unat c div 2 ^ 12 < 2 ^ 12" "unat c mod 2 ^ 12 < 2 ^ 12" using rg(3) by simp_all
  obtain c1 c2 where c12: "c1 = unat c div 2 ^ 12" "c2 = unat c mod 2 ^ 12" by blast
  have "ucast (drop_bit 28 high) = i"
  proof -
    have "unat high div 2 ^ 28 = unat i" unfolding H c12 [symmetric] using lt rg cb [folded c12] by simp
    then show ?thesis using lt by (simp add: word_unat_eq_iff unat_field)
  qed
  moreover have "ucast (drop_bit 20 high) = u"
  proof -
    have "unat high div 2 ^ 20 = unat i * 256 + unat u" unfolding H c12 [symmetric] using lt rg cb [folded c12] by simp
    then show ?thesis using lt by (simp add: word_unat_eq_iff unat_field)
  qed
  moreover have "ucast (drop_bit 14 high) AND 0x3f = n"
    unfolding field_masks
    by (rule unat_subfield [where q = "unat i * 256 + unat u"]) (use lt rg cb in \<open>simp_all add: H\<close>)
  moreover have "ucast (drop_bit 12 high) AND 0x03 = b"
    unfolding field_masks
    by (rule unat_subfield [where q = "(unat i * 256 + unat u) * 64 + unat n"]) (use lt rg cb in \<open>simp_all add: H\<close>)
  moreover have "push_bit 12 (ucast (high AND 0x0fff)) OR drop_bit 8 low = c"
  proof -
    have h: "unat (high AND 0x0fff) = c1"
    proof -
      have "unat high = 2 ^ 12 * (unat i * 2 ^ 16 + unat u * 2 ^ 8 + unat n * 4 + unat b) + c1"
        unfolding H c12 [symmetric] by simp
      then show ?thesis using cb(1) unfolding field_masks unat_low_bits c12 by (simp only: mod_mult_self4 mod_less)
    qed
    have l: "unat (drop_bit 8 low) = c2"
      unfolding unsigned_drop_bit_eq L c12 [symmetric] using rg cb [folded c12] by (simp add: drop_bit_eq_div take_bit_eq_mod)
    have "push_bit 12 (ucast (high AND 0x0fff)) OR drop_bit 8 low = (push_bit 12 (of_nat c1) OR of_nat c2 :: u32)"
    proof -
      have "(ucast (high AND 0x0fff) :: u32) = of_nat c1" unfolding h [symmetric] by simp
      moreover have "drop_bit 8 low = of_nat c2" unfolding l [symmetric] by simp
      ultimately show ?thesis by (simp only:)
    qed
    then show ?thesis using consumption_join [of c1 c2] cb [folded c12] by (simp add: word_unat_eq_iff c12)
  qed
  moreover have "ucast (drop_bit 6 low) AND 0x03 = k"
    unfolding field_masks by (rule unat_subfield [where q = "unat c mod 2 ^ 12"]) (use rg in \<open>simp_all add: L\<close>)
  moreover have "ucast (drop_bit 2 low) AND 0x0f = l"
    unfolding field_masks by (rule unat_subfield [where q = "unat c mod 2 ^ 12 * 4 + unat k"]) (use rg in \<open>simp_all add: L\<close>)
  moreover have "ucast low AND 0x03 = w"
    unfolding field_masks using unat_subfield [of 2 low 0 "unat c mod 2 ^ 12 * 64 + unat k * 16 + unat l" w] rg by (simp add: L)
  ultimately show ?thesis
    unfolding r900FromSymbols_def Let_def parts high_def [symmetric] low_def [symmetric] by (simp add: r)
qed

section \<open>Every payload has exactly one checksum\<close>

definition syndrome_of :: "u8 list \<Rightarrow> u8 list" where
  "syndrome_of ws = map (\<lambda>i. gf32.ev (29 + i) ws) [0..<5]"

definition check_symbols :: "u8 list set" where
  "check_symbols = {c. length c = 5 \<and> list_all gf32.elt c}"

lemma gf32_elt_iff: "gf32.elt v \<longleftrightarrow> v \<le> 31"
  by (simp add: gf32.elt_def word_le_nat_alt)

lemma rs_word_elt:
  assumes "length body = 16" "list_all gf32.elt body" "c \<in> check_symbols"
  shows "length (rs_word (body @ c)) = 31" "list_all gf32.elt (rs_word (body @ c))"
  using assms by (auto simp: rs_word_def check_symbols_def list_all_iff gf32.elt_def)

lemma syndrome_of_range:
  "list_all gf32.elt ws \<Longrightarrow> syndrome_of ws \<in> check_symbols"
  by (simp add: syndrome_of_def check_symbols_def list_all_iff gf32.ev_elt)

lemma syndrome_of_inj:
  assumes "length body = 16" "list_all gf32.elt body" "c \<in> check_symbols" "c' \<in> check_symbols"
    and "syndrome_of (rs_word (body @ c)) = syndrome_of (rs_word (body @ c'))"
  shows "c = c'"
proof (rule ccontr)
  assume ne: "c \<noteq> c'"
  let ?d = "map2 (XOR) (rs_word (body @ c)) (rs_word (body @ c'))"
  have len: "length c = 5" "length c' = 5" using assms(3,4) by (simp_all add: check_symbols_def)
  have d: "?d = replicate 26 0 @ map2 (XOR) c c'"
  proof -
    have "map2 (XOR) xs xs = replicate (length xs) (0 :: u8)" for xs by (induction xs) simp_all
    then show ?thesis using assms(1) len by (simp add: rs_word_def replicate_add [symmetric])
  qed
  have "length (filter (\<lambda>v. v \<noteq> 0) ?d) \<le> 5"
    unfolding d using length_filter_le [of "\<lambda>v. v \<noteq> 0" "map2 (XOR) c c'"] len by simp
  moreover have "list_all gf32.elt ?d"
    using rs_word_elt [OF assms(1,2)] assms(3,4)
    by (auto simp: list_all_iff intro!: gf32.elt_xor dest: set_zip_leftD set_zip_rightD)
  moreover have "?d \<noteq> replicate (length ?d) 0"
  proof
    assume "?d = replicate (length ?d) 0"
    then have "drop 26 (replicate 26 0 @ map2 (XOR) c c') = drop 26 (replicate 31 0)" unfolding d using len by simp
    then have "map2 (XOR) c c' = replicate 5 0" by simp
    then have z: "map2 (XOR) c c' ! i = 0" if "i < 5" for i using that by simp
    have "c ! i = c' ! i" if "i < 5" for i using z [OF that] that len by (simp add: xor_eq_0_iff)
    then show False using ne len by (metis nth_equalityI)
  qed
  ultimately obtain j where j: "j < 5" "gf32.ev (29 + j) ?d \<noteq> 0"
    using gf32.low_weight_detected [of ?d 5 29] rs_word_elt(1) [OF assms(1,2)] assms(3,4) by auto
  have "gf32.ev (29 + j) (rs_word (body @ c)) = gf32.ev (29 + j) (rs_word (body @ c'))"
    using assms(5) j(1) by (simp add: syndrome_of_def list_eq_iff_nth_eq)
  then show False
    using j gf32.ev_map2_xor [of "rs_word (body @ c)" "rs_word (body @ c')" "29 + j"] rs_word_elt [OF assms(1,2)] assms(3,4) by simp
qed

lemma unique_checksum:
  assumes "length body = 16" "list_all gf32.elt body"
  shows "\<exists>!c. c \<in> check_symbols \<and> syndrome_of (rs_word (body @ c)) = replicate 5 0"
proof -
  let ?f = "\<lambda>c. syndrome_of (rs_word (body @ c))"
  have "check_symbols = {c. set c \<subseteq> {v. gf32.elt v} \<and> length c = 5}" by (auto simp: check_symbols_def list_all_iff)
  then have "finite check_symbols" using finite_lists_length_eq [of "{v. gf32.elt v}" 5] by simp
  moreover have inj: "inj_on ?f check_symbols" by (rule inj_onI) (rule syndrome_of_inj [OF assms])
  moreover have "?f ` check_symbols \<subseteq> check_symbols" using rs_word_elt(2) [OF assms] syndrome_of_range by blast
  ultimately have "?f ` check_symbols = check_symbols" by (intro endo_inj_surj)
  moreover have "replicate 5 0 \<in> check_symbols" by (simp add: check_symbols_def gf32.elt_def list_all_iff)
  ultimately obtain c where c: "c \<in> check_symbols" "?f c = replicate 5 0" by (metis (no_types, lifting) imageE)
  show ?thesis
  proof (rule ex1I [of _ c])
    fix c' assume "c' \<in> check_symbols \<and> ?f c' = replicate 5 0"
    then show "c' = c" using inj_onD [OF inj, of c' c] c by simp
  qed (use c in simp)
qed

section \<open>The BCD reading\<close>

text \<open>The hexadecimal digits of a number read as decimal ones.\<close>

function bcd_value :: "nat \<Rightarrow> nat" where
  "bcd_value n = (if n < 16 then n else bcd_value (n div 16) * 10 + n mod 16)"
  by pat_completeness auto
termination
  by (relation "measure id") auto

function bcd_ok :: "nat \<Rightarrow> bool" where
  "bcd_ok n \<longleftrightarrow> (if n < 16 then n < 10 else n mod 16 < 10 \<and> bcd_ok (n div 16))"
  by pat_completeness auto
termination
  by (relation "measure id") auto

declare bcd_value.simps [simp del] bcd_ok.simps [simp del]

lemma bcd_value_le: "bcd_value n \<le> n"
proof (induction n rule: less_induct)
  case (less n)
  show ?case
  proof (cases "n < 16")
    case False
    then have "bcd_value (n div 16) \<le> n div 16" using less by simp
    then have "bcd_value (n div 16) * 10 + n mod 16 \<le> n" using div_mult_mod_eq [of n 16] by linarith
    then show ?thesis using False by (subst bcd_value.simps) simp
  qed (simp add: bcd_value.simps)
qed

lemma parse_bcd:
  "n \<le> m \<Longrightarrow> ParseUint_err_loop 10 m 0 (FormatUint n 16) =
     (if bcd_ok n then Inr (bcd_value n) else Inl (Err ''invalid syntax''))"
proof (induction n rule: less_induct)
  case (less n)
  show ?case
  proof (cases "n < 16")
    case True
    then show ?thesis using less.prems
      by (subst FormatUint.simps) (simp add: digit_val_digit_char bcd_ok.simps [of n] bcd_value.simps [of n])
  next
    case False
    then have "ParseUint_err_loop 10 m 0 (FormatUint (n div 16) 16) =
        (if bcd_ok (n div 16) then Inr (bcd_value (n div 16)) else Inl (Err ''invalid syntax''))"
      using less.prems by (intro less.IH) simp_all
    moreover have "bcd_value (n div 16) * 10 + n mod 16 \<le> m" using bcd_value_le [of "n div 16"] less.prems div_mult_mod_eq [of n 16] by linarith
    moreover have "FormatUint n 16 = FormatUint (n div 16) 16 @ [digit_char (n mod 16)]"
      using False by (subst FormatUint.simps) simp
    ultimately show ?thesis using False
      by (simp add: ParseUint_err_loop_append digit_val_digit_char bcd_ok.simps [of n] bcd_value.simps [of n])
  qed
qed

lemma ParseUint_loop_syntax:
  "ParseUint_err_loop base m n s = Inl (Err ''invalid syntax'') \<Longrightarrow> ParseUint_loop base m n s = 0"
  by (induction s arbitrary: n) (auto split: option.splits if_splits)

lemma bcd_consumption_value: "bcd_consumption c = of_nat (if bcd_ok (unat c) then bcd_value (unat c) else 0)"
proof -
  have "unat c < 2 ^ LENGTH(32)" by (rule unsigned_less)
  then have c: "unat c \<le> 2 ^ 32 - 1" by simp
  have "ParseUint (FormatUint (unat c) 16) 10 32 = (if bcd_ok (unat c) then bcd_value (unat c) else 0)"
    using parse_bcd [OF c] ParseUint_loop_err ParseUint_loop_syntax by (auto simp: ParseUint_def split: if_splits)
  then show ?thesis by (simp add: bcd_consumption_def)
qed

lemma mapM_bcd:
  "mapM_res bcd_message (map MR900 rs) =
     Inr (map (\<lambda>r. MR900BCD (r\<lparr>R900.Consumption := bcd_consumption (R900.Consumption r)\<rparr>)) rs)"
  by (induction rs) simp_all

section \<open>Properties\<close>

text \<open>C24: The R900 quantizers agree and are optimal: on a window of four chips of at most 8191 powers the dispatched
  integer quantizer and the float quantizer, whose cumulative sums are rearranged for speed, return the
  same symbol, and it is one of the six whose correlation with the window is the largest.\<close>
theorem r900_quantizers_agree:
  assumes "leaf_agrees pf" "chip \<le> 8191" "length ps = 4 * chip"
  shows "\<exists>s. quantizePower16Window pf ps chip = Inr s \<and>
    quantize_float_window (map (\<lambda>p. Fin (of_int (uint p))) ps) chip = Inr s \<and> unat s < 6 \<and>
    (\<forall>t < 6. symbol_correlation (correlations ps chip) t \<le> symbol_correlation (correlations ps chip) (unat s))"
proof -
  obtain v0 v1 v2 where v: "correlations ps chip = (v0, v1, v2)" by (cases "correlations ps chip") auto
  have "exact_symbol ps chip = pick_symbol v0 v1 v2" by (simp add: exact_symbol_def v)
  then show ?thesis
    using quantizePower16Window_exact [OF assms(1,2), of ps] quantize_float_window_exact [OF assms(2,3)]
      pick_symbol_best [of v0 v1 v2] assms(3) unfolding v fint_def by simp
qed

theorem r900_quantizers_agree_witness:
  "\<exists>s. quantizePower16Window power16R900PortablePlatform [9, 9, 1, 0] 1 = Inr s \<and>
    quantize_float_window (map (\<lambda>p. Fin (of_int (uint p))) [9, 9, 1, 0 :: u16]) 1 = Inr s \<and> unat s < 6"
  using r900_quantizers_agree [OF portable_leaf_agrees, of 1 "[9, 9, 1, 0]"] by auto

text \<open>C25: The R900 parser reports exactly the valid candidates: for positions in the block where the quantizer
  returns \<open>q\<close>, it appends in order the message of every symbol string with all symbols in range and
  zero syndrome, each distinct string once, and it never panics.\<close>
theorem r900_parse_appends_valid_candidates:
  assumes "r900_inv p" "cfgRead p \<longrightarrow> rcfg p = cfg"
    and "quantizes (quantizeSignalAt pf sw pw (p\<lparr>rcfg := cfg, cfgRead := True\<rparr>)) cfg q (map Idx pkts)"
  shows "\<exists>p'. r900_Parse pf cfg sw pw p pkts messages =
      Inr (p', messages @ List.map_filter r900_accept (firsts {} (candidate_symbols cfg q (map Idx pkts)))) \<and> r900_inv p'"
  using ParseCandidateIndices_result [OF assms] unfolding r900_Parse_def by blast

text \<open>Two candidates over a silent history: every window reads as symbol zero, the all-zero string is a code word
  and is reported once.\<close>

definition silent_cfg :: PacketConfig where
  "silent_cfg = zeroPacketConfig\<lparr>ChipLength := 1, BlockSize := 8, PreambleLength := 64, SymbolLength := 2\<rparr>"

definition silent_parser :: R900Parser where
  "silent_parser = \<lparr>rcfg = zeroPacketConfig, rfield = gf32, rsBuf = replicate 31 0, powerHistory = True, cfgRead = False\<rparr>"

theorem r900_parse_appends_valid_candidates_witness:
  "\<exists>p'. r900_Parse power16R900PortablePlatform silent_cfg (\<lambda>_ _. Inr []) (\<lambda>_ _. Inr (replicate 4 0)) silent_parser
      [NewData []\<lparr>Idx := 0\<rparr>, NewData []\<lparr>Idx := 3\<rparr>] [] =
    Inr (p', [] @ List.map_filter r900_accept (firsts {} (candidate_symbols silent_cfg (\<lambda>_. 0)
      (map Idx [NewData []\<lparr>Idx := 0\<rparr>, NewData []\<lparr>Idx := 3\<rparr>])))) \<and> r900_inv p'"
proof (rule r900_parse_appends_valid_candidates)
  show "r900_inv silent_parser" by (simp add: r900_inv_def silent_parser_def rs_ok_zeros)
  have "quantizePower16Window power16R900PortablePlatform (replicate 4 0) 1 = Inr 0" by code_simp
  then show "quantizes (quantizeSignalAt power16R900PortablePlatform (\<lambda>_ _. Inr []) (\<lambda>_ _. Inr (replicate 4 0))
      (silent_parser\<lparr>rcfg := silent_cfg, cfgRead := True\<rparr>)) silent_cfg (\<lambda>_. 0)
      (map Idx [NewData []\<lparr>Idx := 0\<rparr>, NewData []\<lparr>Idx := 3\<rparr>])"
    by (simp add: quantizes_def quantizeSignalAt_def quantizePower16At_def silent_parser_def silent_cfg_def)
qed (simp add: silent_parser_def)

text \<open>C26: Every meter reading with fields in range has exactly one check string of five symbols with which the parser
  accepts its packed symbols, and then it reports exactly that reading.\<close>
theorem r900_round_trip:
  assumes "r900_in_range r"
  shows "\<exists>f. NewField 32 37 2 = Inr f \<and>
    (\<exists>!cs. length cs = 5 \<and> (\<exists>st'.
       r900_candidate f (r900_symbols (r\<lparr>checksum := cs\<rparr>)) \<lparr>rs_seen = {}, rs_buf = replicate 31 0, rs_msgs = []\<rparr> = Inr st' \<and>
       rs_msgs st' = [MR900 (r\<lparr>checksum := cs\<rparr>)]))"
proof -
  let ?st = "\<lparr>rs_seen = {}, rs_buf = replicate 31 0, rs_msgs = []\<rparr>"
  let ?body = "digits32 12 (r900_high r) @ digits32 4 (r900_low r)"
  have sym: "r900_symbols (r\<lparr>checksum := cs\<rparr>) = ?body @ cs" for cs
    by (simp add: r900_symbols_def r900_high_def r900_low_def)
  have body: "length ?body = 16" "list_all gf32.elt ?body"
    by (auto simp: digits32_def list_all_iff gf32.elt_def unat_of_nat less_Suc_eq_le [symmetric])
  have iff: "(\<exists>st'. r900_candidate gf32 (?body @ cs) ?st = Inr st' \<and> rs_msgs st' = [MR900 (r\<lparr>checksum := cs\<rparr>)]) \<longleftrightarrow>
      cs \<in> check_symbols \<and> syndrome_of (rs_word (?body @ cs)) = replicate 5 0" if len: "length cs = 5" for cs
  proof -
    obtain st' where st': "r900_candidate gf32 (?body @ cs) ?st = Inr st'"
        "rs_msgs st' = (case r900_accept (?body @ cs) of None \<Rightarrow> [] | Some m \<Rightarrow> [m])"
      using r900_candidate_ok [of ?st "?body @ cs"] rs_ok_zeros body(1) len by auto
    have "r900FromSymbols (?body @ cs) = r\<lparr>checksum := cs\<rparr>"
      using r900FromSymbols_pack [of "r\<lparr>checksum := cs\<rparr>"] assms len unfolding sym by (simp add: r900_in_range_def)
    moreover have "list_all (\<lambda>s. s \<le> 31) (?body @ cs) \<longleftrightarrow> cs \<in> check_symbols"
      using body(2) len by (auto simp: check_symbols_def list_all_iff gf32_elt_iff)
    moreover have "Syndrome gf32 (rs_word (?body @ cs)) 5 29 = Inr (syndrome_of (rs_word (?body @ cs)))" if "cs \<in> check_symbols"
      using gf32.Syndrome_ev [of 29 5 "rs_word (?body @ cs)"] rs_word_elt [OF body that] by (simp add: syndrome_of_def)
    ultimately show ?thesis using st' by (auto simp: r900_accept_def)
  qed
  have "\<exists>!cs. length cs = 5 \<and> (\<exists>st'. r900_candidate gf32 (?body @ cs) ?st = Inr st' \<and> rs_msgs st' = [MR900 (r\<lparr>checksum := cs\<rparr>)])"
  proof -
    have "(length cs = 5 \<and> (\<exists>st'. r900_candidate gf32 (?body @ cs) ?st = Inr st' \<and> rs_msgs st' = [MR900 (r\<lparr>checksum := cs\<rparr>)])) =
        (cs \<in> check_symbols \<and> syndrome_of (rs_word (?body @ cs)) = replicate 5 0)" for cs
      using iff [of cs] by (cases "length cs = 5") (simp_all add: check_symbols_def)
    then show ?thesis using unique_checksum [OF body] by (simp only:)
  qed
  then show ?thesis unfolding sym NewField_gf32 by simp
qed

definition blank_r900 :: R900 where
  "blank_r900 = \<lparr>R900.ID = 7, Unkn1 = 1, NoUse = 2, BackFlow = 3, R900.Consumption = 0x1234, Unkn3 = 1, Leak = 15, LeakNow = 2,
     checksum = replicate 5 0\<rparr>"

theorem r900_round_trip_witness:
  "\<exists>f. NewField 32 37 2 = Inr f \<and>
    (\<exists>!cs. length cs = 5 \<and> (\<exists>st'.
       r900_candidate f (r900_symbols (blank_r900\<lparr>checksum := cs\<rparr>)) \<lparr>rs_seen = {}, rs_buf = replicate 31 0, rs_msgs = []\<rparr> = Inr st' \<and>
       rs_msgs st' = [MR900 (blank_r900\<lparr>checksum := cs\<rparr>)]))"
  by (rule r900_round_trip) (simp add: r900_in_range_def blank_r900_def)

text \<open>The BCD parser reports the messages of the R900 parser, with the consumption replaced by the decimal reading
  of its hexadecimal digits, or by zero when one of these digits is not decimal.\<close>
theorem r900bcd_reads_decimal_digits:
  assumes "r900_Parse pf cfg sw pw p pkts messages = Inr (p', messages @ map MR900 rs)"
  shows "r900bcd_Parse pf cfg sw pw p pkts messages =
    Inr (p', messages @ map (\<lambda>r. MR900BCD (r\<lparr>R900.Consumption :=
      of_nat (if bcd_ok (unat (R900.Consumption r)) then bcd_value (unat (R900.Consumption r)) else 0)\<rparr>)) rs)"
  using assms mapM_bcd [of rs] by (simp only: r900bcd_Parse_def bcd_consumption_value) simp

theorem r900bcd_reads_decimal_digits_witness:
  "r900bcd_Parse power16R900PortablePlatform silent_cfg (\<lambda>_ _. Inr []) (\<lambda>_ _. Inr (replicate 4 0)) silent_parser
     [NewData []\<lparr>Idx := 3\<rparr>] [] = Inr (silent_parser\<lparr>rcfg := silent_cfg, cfgRead := True\<rparr>, [] @ map (\<lambda>r. MR900BCD (r\<lparr>R900.Consumption :=
      of_nat (if bcd_ok (unat (R900.Consumption r)) then bcd_value (unat (R900.Consumption r)) else 0)\<rparr>)) [r900FromSymbols (replicate 21 0)])"
  by (rule r900bcd_reads_decimal_digits) code_simp

end
