(* ===== verification/Decoder.thy ===== *)
theory Decoder
  imports R900Fields Scm ScmPlus Idm NetIdm Search Slice "HOL-Library.AList"
begin

text \<open>
  The decoder of \<^verbatim>\<open>src/protocol/decode.go\<close> and \<^verbatim>\<open>src/protocol/power16.go\<close> with the
  parsers it serves: registration, allocation, reset, and one call of \<open>Decode\<close> per block of samples,
  on the float path and on the two integer paths.

  The parsers form a closed type: the six that the program registers. A parser is an object that the
  decoder refers to from several tables; the model keeps the objects in a list and the tables hold
  positions in it. The order in which a Go map is iterated is not specified, and it is an argument of the
  operations that iterate over the preambles. The exported slice \<open>Quantized\<close> is not replaced by
  callers; \<open>filterScratch\<close>, \<open>sIdxA\<close> and \<open>sIdxB\<close> are scratch that is written before it is
  read. The native leaves are arguments.
\<close>

section \<open>The parsers\<close>

datatype AnyParser =
    PScm Parser
  | PScmPlus Parser
  | PIdm IdmParser
  | PNetIdm Parser
  | PR900 R900Parser
  | PR900bcd R900Parser

fun parser_Cfg :: "AnyParser \<Rightarrow> PacketConfig" where
  "parser_Cfg (PScm p) = pcfg p"
| "parser_Cfg (PScmPlus p) = pcfg p"
| "parser_Cfg (PIdm p) = pcfg p"
| "parser_Cfg (PNetIdm p) = pcfg p"
| "parser_Cfg (PR900 p) = rcfg p"
| "parser_Cfg (PR900bcd p) = rcfg p"

text \<open>The optional capabilities a parser may implement.\<close>

fun Power16Compatible :: "AnyParser \<Rightarrow> bool" where
  "Power16Compatible (PIdm p) = True"
| "Power16Compatible (PR900 p) = True"
| "Power16Compatible (PR900bcd p) = True"
| "Power16Compatible _ = False"

fun consumesPower16 :: "AnyParser \<Rightarrow> bool" where
  "consumesPower16 (PR900 p) = True"
| "consumesPower16 (PR900bcd p) = True"
| "consumesPower16 _ = False"

fun parser_overlap :: "AnyParser \<Rightarrow> nat option" where
  "parser_overlap (PR900 p) = Some (SignalHistoryOverlap p)"
| "parser_overlap (PR900bcd p) = Some (SignalHistoryOverlap p)"
| "parser_overlap _ = None"

fun isCandidateIndexParser :: "AnyParser \<Rightarrow> bool" where
  "isCandidateIndexParser (PR900 p) = True"
| "isCandidateIndexParser _ = False"

fun PacketBytesOnly :: "AnyParser \<Rightarrow> bool" where
  "PacketBytesOnly (PIdm p) = True"
| "PacketBytesOnly _ = False"

fun set_power_history :: "bool \<Rightarrow> AnyParser \<Rightarrow> AnyParser" where
  "set_power_history attached (PR900 p) = PR900 (SetPower16History p attached)"
| "set_power_history attached (PR900bcd p) = PR900bcd (SetPower16History p attached)"
| "set_power_history attached p = p"

text \<open>The registry of parser constructors, filled when the packages are initialised.\<close>

type_synonym NewParserFunc = "nat \<Rightarrow> AnyParser res"
type_synonym registry = "(string \<times> NewParserFunc) list"

definition RegisterParser :: "registry \<Rightarrow> string \<Rightarrow> NewParserFunc option \<Rightarrow> registry res" where
  "RegisterParser ps name parserFn =
     (case parserFn of
        None \<Rightarrow> Inl (Panic ''parser: new parser func is nil'')
      | Some f \<Rightarrow> if map_of ps name \<noteq> None then Inl (Panic ''parser: parser already registered'') else Inr (ps @ [(name, f)]))"

definition NewParser :: "registry \<Rightarrow> string \<Rightarrow> nat \<Rightarrow> AnyParser res" where
  "NewParser ps name symbolLength =
     (case map_of ps name of Some f \<Rightarrow> f symbolLength | None \<Rightarrow> Inl (Err ''invalid message type''))"

section \<open>State\<close>

type_synonym run_leaf = "nat \<Rightarrow> u16 list \<Rightarrow> u8 list \<Rightarrow> (u8 list \<times> u16 list) option"
type_synonym packed_leaf = "nat \<Rightarrow> nat \<Rightarrow> u16 list \<Rightarrow> u8 list \<Rightarrow> (u8 list \<times> u8 list \<times> u16 list) option"

text \<open>A leaf is given the lengths of its output slices, the window and the block; it returns the outputs and
  the window it has written to, or declines.\<close>

record power16Platform =
  pp_implementation :: string
  pp_fallbackReason :: string
  pp_midr :: string
  pp_nativeAvailable :: bool
  pp_genuineA72 :: bool
  pp_asimd :: bool
  pp_selfTestPassed :: bool
  pp_killSwitch :: bool
  pp_validationOnly :: bool
  pp_run :: "run_leaf option"
  pp_runPacked :: "packed_leaf option"

record DecoderDispatchStatus =
  Implementation :: string
  FallbackReason :: string
  MIDR :: string
  Power16Active :: bool
  PolicyAutomatic :: bool
  ParserCompatible :: bool
  GeometryCompatible :: bool
  NativeAvailable :: bool
  GenuineA72 :: bool
  ASIMD :: bool
  SelfTestPassed :: bool
  KillSwitch :: bool
  ValidationOnly :: bool
  NativeBlocks :: nat
  ValidationBlocks :: nat

definition zeroStatus :: DecoderDispatchStatus where
  "zeroStatus = \<lparr>Implementation = [], FallbackReason = [], MIDR = [], Power16Active = False, PolicyAutomatic = False,
     ParserCompatible = False, GeometryCompatible = False, NativeAvailable = False, GenuineA72 = False, ASIMD = False,
     SelfTestPassed = False, KillSwitch = False, ValidationOnly = False, NativeBlocks = 0, ValidationBlocks = 0\<rparr>"

record power16State =
  p_hist :: "u16 Hist"
  p_packed :: Packed
  nativeBlocks :: nat
  p_run :: run_leaf
  p_runPacked :: "packed_leaf option"

record Decoder = Ring +
  shortSignal :: "f64 list"
  signalHist :: "f64 Hist option"
  signalHistoryOverlap :: nat
  demod :: "f64 list"
  power16Automatic :: bool
  power16Probe :: "power16Platform option"
  power16 :: "power16State option"
  power16ParserCount :: nat
  power16ParsersCompatible :: bool
  dispatchStatus :: DecoderDispatchStatus
  preambleStrs :: "string list"
  preambles :: "(u8 list \<times> nat list) list"
  protocols :: "string list"
  parsers :: "AnyParser list"
  fixedIDMParsers :: "nat list"
  fixedR900Parsers :: "nat list"
  fixedIDMPreambleKey :: "u8 list"
  fixedR900PreambleKey :: "u8 list"
  pkt :: "u8 list"
  packed :: "u8 list"

definition newDecoder :: "bool \<Rightarrow> power16Platform option \<Rightarrow> Decoder" where
  "newDecoder automatic probe =
     \<lparr>Cfg = zeroPacketConfig, quantizedBacking = [], quantizedAliased = False, QuantizedOwn = [], quantizedStart = 0,
      shortSignal = [], signalHist = None, signalHistoryOverlap = 0, demod = [], power16Automatic = automatic,
      power16Probe = probe, power16 = None, power16ParserCount = 0, power16ParsersCompatible = True,
      dispatchStatus = zeroStatus, preambleStrs = [], preambles = [], protocols = [], parsers = [],
      fixedIDMParsers = [], fixedR900Parsers = [], fixedIDMPreambleKey = [], fixedR900PreambleKey = [], pkt = [], packed = []\<rparr>"

section \<open>Registration\<close>

definition fixedIDMPreambleASCII :: string where
  "fixedIDMPreambleASCII = ''01010101010101010001011010100011''"

definition fixedR900PreambleASCII :: string where
  "fixedR900PreambleASCII = ''00000000000000001110010101100100''"

definition preamble_bytes :: "string \<Rightarrow> u8 list" where
  "preamble_bytes s = map (\<lambda>c. if c = CHR ''1'' then 1 else 0) s"

definition merge_config :: "PacketConfig \<Rightarrow> PacketConfig \<Rightarrow> PacketConfig" where
  "merge_config c p = c\<lparr>CenterFreq := max (CenterFreq c) (CenterFreq p), DataRate := max (DataRate c) (DataRate p),
     ChipLength := max (ChipLength c) (ChipLength p), PreambleSymbols := max (PreambleSymbols c) (PreambleSymbols p),
     PacketSymbols := max (PacketSymbols c) (PacketSymbols p)\<rparr>"

definition add_parser :: "(u8 list \<times> nat list) list \<Rightarrow> u8 list \<Rightarrow> nat \<Rightarrow> (u8 list \<times> nat list) list" where
  "add_parser m key i = AList.update key ((case map_of m key of None \<Rightarrow> [] | Some is \<Rightarrow> is) @ [i]) m"

definition RegisterProtocol :: "Decoder \<Rightarrow> AnyParser \<Rightarrow> Decoder" where
  "RegisterProtocol d p =
     (let i = length (parsers d);
          cfg = parser_Cfg p;
          overlap = parser_overlap p;
          compatible = power16ParsersCompatible d \<and> Power16Compatible p \<and>
            \<not> (overlap \<noteq> None \<and> the overlap > 0 \<and> \<not> consumesPower16 p);
          key = preamble_bytes (PacketConfig.Preamble cfg);
          m = add_parser (preambles d) key i;
          d = d\<lparr>parsers := parsers d @ [p], power16ParserCount := power16ParserCount d + 1,
                power16ParsersCompatible := compatible,
                signalHistoryOverlap := (case overlap of Some n \<Rightarrow> max n (signalHistoryOverlap d) | None \<Rightarrow> signalHistoryOverlap d),
                Cfg := merge_config (Cfg d) cfg, preambleStrs := List.insert (PacketConfig.Preamble cfg) (preambleStrs d),
                preambles := m, protocols := protocols d @ [Protocol cfg]\<rparr>
      in if PacketConfig.Preamble cfg = fixedIDMPreambleASCII
         then d\<lparr>fixedIDMParsers := the (map_of m key), fixedIDMPreambleKey := key\<rparr>
         else if PacketConfig.Preamble cfg = fixedR900PreambleASCII
         then d\<lparr>fixedR900Parsers := the (map_of m key), fixedR900PreambleKey := key\<rparr>
         else d)"

section \<open>Allocation\<close>

text \<open>\<^verbatim>\<open>1 << uint(math.Ceil(math.Log2(float64(v))))\<close>, for the positive lengths that occur: the
  logarithm is exact at powers of two and far from integers elsewhere.\<close>

function double_until :: "nat \<Rightarrow> nat \<Rightarrow> nat" where
  "double_until v p = (if p < v \<and> 0 < p then double_until v (2 * p) else p)"
  by pat_completeness auto
termination
  by (relation "measure (\<lambda>(v, p). v - p)") auto

declare double_until.simps [simp del]

definition NextPowerOf2 :: "nat \<Rightarrow> nat" where
  "NextPowerOf2 v = double_until v 1"

definition derive_lengths :: "PacketConfig \<Rightarrow> PacketConfig" where
  "derive_lengths c =
     (let symbolLength = 2 * ChipLength c;
          preambleLength = PreambleSymbols c * symbolLength;
          packetLength = PacketSymbols c * symbolLength;
          blockSize = NextPowerOf2 preambleLength
      in c\<lparr>SymbolLength := symbolLength, SampleRate := DataRate c * ChipLength c, PreambleLength := preambleLength,
           PacketConfig.PacketLength := packetLength, BlockSize := blockSize, BlockSize2 := 2 * blockSize,
           BufferLength := packetLength + blockSize\<rparr>)"

definition fallback_reason :: "power16Platform \<Rightarrow> string" where
  "fallback_reason pf =
     (if pp_fallbackReason pf \<noteq> [] then pp_fallbackReason pf
      else if pp_killSwitch pf then ''kill-switch''
      else if \<not> pp_asimd pf then ''asimd-unavailable''
      else if \<not> pp_genuineA72 pf \<and> \<not> pp_validationOnly pf then ''unsupported-cpu''
      else if \<not> pp_selfTestPassed pf then ''self-test-failed''
      else ''native-unavailable'')"

definition selectPower16Platform :: "Decoder \<Rightarrow> Decoder \<times> power16Platform option" where
  "selectPower16Platform d =
     (let parserCompatible = (power16ParserCount d > 0 \<and> power16ParsersCompatible d);
          c = Cfg d;
          geometryCompatible = (ChipLength c = power16ChipLength \<and> SymbolLength c = power16History \<and>
            BlockSize c = power16BlockSize \<and> BlockSize2 c = power16BlockSize * 2);
          st = zeroStatus\<lparr>Implementation := ''exact-float64'', PolicyAutomatic := power16Automatic d,
                 ParserCompatible := parserCompatible, GeometryCompatible := geometryCompatible\<rparr>
      in if \<not> power16Automatic d then (d\<lparr>dispatchStatus := st\<lparr>FallbackReason := ''policy-disabled''\<rparr>\<rparr>, None)
         else if \<not> parserCompatible then (d\<lparr>dispatchStatus := st\<lparr>FallbackReason := ''parser-incompatible''\<rparr>\<rparr>, None)
         else if \<not> geometryCompatible then (d\<lparr>dispatchStatus := st\<lparr>FallbackReason := ''geometry-incompatible''\<rparr>\<rparr>, None)
         else case power16Probe d of
           None \<Rightarrow> (d\<lparr>dispatchStatus := st\<lparr>FallbackReason := ''platform-probe-unavailable''\<rparr>\<rparr>, None)
         | Some pf \<Rightarrow>
           let st = st\<lparr>NativeAvailable := pp_nativeAvailable pf, GenuineA72 := pp_genuineA72 pf, ASIMD := pp_asimd pf,
                 SelfTestPassed := pp_selfTestPassed pf, KillSwitch := pp_killSwitch pf, ValidationOnly := pp_validationOnly pf,
                 MIDR := pp_midr pf\<rparr>
           in if pp_killSwitch pf \<or> \<not> pp_asimd pf \<or> (\<not> pp_genuineA72 pf \<and> \<not> pp_validationOnly pf) \<or>
                 \<not> pp_selfTestPassed pf \<or> (\<not> pp_nativeAvailable pf \<and> \<not> pp_validationOnly pf) \<or> pp_run pf = None
              then (d\<lparr>dispatchStatus := st\<lparr>FallbackReason := fallback_reason pf\<rparr>\<rparr>, None)
              else (d\<lparr>dispatchStatus := st\<lparr>Implementation := pp_implementation pf, FallbackReason := [],
                      Power16Active := True\<rparr>\<rparr>, Some pf))"

definition allocatePower16 :: "Decoder \<Rightarrow> power16Platform \<Rightarrow> Decoder" where
  "allocatePower16 d pf =
     (let c = Cfg d;
          overlap = (if signalHistoryOverlap d < SymbolLength c then SymbolLength c else signalHistoryOverlap d);
          packedLen = BufferLength c div 8;
          lookahead = (BlockSize c + PreambleLength c) div 8;
          pk = (if pp_runPacked pf \<noteq> None
                then \<lparr>packedBacking = replicate (packedLen + lookahead) 0, packedLength = packedLen, packedStart = 0,
                      packedLookahead = lookahead\<rparr>
                else \<lparr>packedBacking = [], packedLength = 0, packedStart = 0, packedLookahead = 0\<rparr>)
      in d\<lparr>power16 := Some \<lparr>p_hist = allocateHistory c overlap 0, p_packed = pk, nativeBlocks = 0,
             p_run = the (pp_run pf), p_runPacked = pp_runPacked pf\<rparr>,
           shortSignal := [], signalHist := None, demod := []\<rparr>)"

definition allocateFloatSignal :: "Decoder \<Rightarrow> Decoder" where
  "allocateFloatSignal d =
     (let c = Cfg d in
      (if signalHistoryOverlap d > 0
       then d\<lparr>signalHist := Some (allocateHistory c (signalHistoryOverlap d) (Fin 0)), shortSignal := []\<rparr>
       else d\<lparr>signalHist := None, shortSignal := replicate (BlockSize c + SymbolLength c) (Fin 0)\<rparr>)
      \<lparr>demod := NewMagLUT\<rparr>)"

definition packs_directly :: "Decoder \<Rightarrow> bool" where
  "packs_directly d \<longleftrightarrow> (case power16 d of None \<Rightarrow> False | Some st \<Rightarrow> p_runPacked st \<noteq> None)"

definition allocateRing :: "Decoder \<Rightarrow> Decoder" where
  "allocateRing d =
     (let c = Cfg d in
      if packs_directly d
      then d\<lparr>quantizedBacking := replicate (BufferLength c + BlockSize c) 0, quantizedAliased := True, QuantizedOwn := []\<rparr>
      else d\<lparr>quantizedBacking := [], quantizedAliased := False, QuantizedOwn := replicate (BufferLength c) 0\<rparr>)"

definition initial_packed :: "Decoder \<Rightarrow> u8 list" where
  "initial_packed d =
     (case power16 d of
        Some st \<Rightarrow> if p_runPacked st \<noteq> None then packedSearchWindow (p_packed st)
                   else replicate ((BlockSize (Cfg d) + PreambleLength (Cfg d) + 7) div 8) 0
      | None \<Rightarrow> replicate ((BlockSize (Cfg d) + PreambleLength (Cfg d) + 7) div 8) 0)"

definition Allocate :: "Decoder \<Rightarrow> Decoder" where
  "Allocate d =
     (let d = d\<lparr>parsers := map (set_power_history False) (parsers d), power16 := None, Cfg := derive_lengths (Cfg d)\<rparr>;
          (d, platform) = selectPower16Platform d;
          d = (case platform of
                 Some pf \<Rightarrow> (let d = allocatePower16 d pf in d\<lparr>parsers := map (set_power_history True) (parsers d)\<rparr>)
               | None \<Rightarrow> allocateFloatSignal d);
          d = allocateRing d;
          d = d\<lparr>pkt := replicate ((PacketSymbols (Cfg d) + 7) div 8) 0\<rparr>
      in d\<lparr>packed := initial_packed d\<rparr>)"

definition reset_history :: "('a, 'b) Hist_scheme \<Rightarrow> 'a \<Rightarrow> ('a, 'b) Hist_scheme" where
  "reset_history h zero = h\<lparr>backing := replicate (length (backing h)) zero, block := blockCount h - 1\<rparr>"

definition Reset_decoder :: "Decoder \<Rightarrow> Decoder" where
  "Reset_decoder d =
     (let d = d\<lparr>quantizedStart := 0, quantizedBacking := replicate (length (quantizedBacking d)) 0,
                QuantizedOwn := (if quantizedBacking d \<noteq> [] \<and> ownsQuantizedRing d then QuantizedOwn d
                                 else replicate (length (QuantizedOwn d)) 0),
                pkt := replicate (length (pkt d)) 0\<rparr>
      in case power16 d of
           Some st \<Rightarrow>
             let st = st\<lparr>p_hist := reset_history (p_hist st) 0, nativeBlocks := 0,
                   p_packed := (p_packed st)\<lparr>packedStart := 0, packedBacking := replicate (length (packedBacking (p_packed st))) 0\<rparr>\<rparr>
             in d\<lparr>power16 := Some st,
                  packed := (if p_runPacked st \<noteq> None then packedSearchWindow (p_packed st) else replicate (length (packed d)) 0)\<rparr>
         | None \<Rightarrow>
             d\<lparr>signalHist := map_option (\<lambda>h. reset_history h (Fin 0)) (signalHist d),
               shortSignal := replicate (length (shortSignal d)) (Fin 0),
               packed := replicate (length (packed d)) 0\<rparr>)"

definition DispatchStatus :: "Decoder \<Rightarrow> DecoderDispatchStatus" where
  "DispatchStatus d =
     (case power16 d of
        None \<Rightarrow> dispatchStatus d
      | Some st \<Rightarrow> if ValidationOnly (dispatchStatus d) then (dispatchStatus d)\<lparr>ValidationBlocks := nativeBlocks st\<rparr>
                   else (dispatchStatus d)\<lparr>NativeBlocks := nativeBlocks st\<rparr>)"

end
