(* ===== verification/Decoding.thy ===== *)
theory Decoding
  imports Decoder
begin

text \<open>
  One call of \<open>Decode\<close> (\<^verbatim>\<open>src/protocol/decode.go\<close>): appending the samples of a block to
  the history, deciding their bits, advancing the decision ring, searching every registered preamble and
  handing the candidates to the parsers.
\<close>

section \<open>Appending a block\<close>

text \<open>The native leaves the decoder may call.\<close>

record decoder_platform =
  search_leaves :: search_platform
  signal_leaves :: signal_platform
  quantizer_leaf :: power16R900Platform

text \<open>The short filter window \<open>Signal\<close>: its own buffer, or the end of the current block of the history.\<close>

definition Signal :: "Decoder \<Rightarrow> f64 list" where
  "Signal d =
     (case signalHist d of
        None \<Rightarrow> shortSignal d
      | Some h \<Rightarrow> sub (backing h) (block h * blockStride h + historyOverlap h - SymbolLength (Cfg d))
                     (block h * blockStride h + blockStride h))"

definition appendSignal :: "signal_platform \<Rightarrow> Decoder \<Rightarrow> u8 list \<Rightarrow> Decoder res" where
  "appendSignal pf d input =
     (let c = Cfg d in
      case signalHist d of
        None \<Rightarrow>
          bind_res (slice_res (shortSignal d) (BlockSize c) (length (shortSignal d))) (\<lambda>tail.
          let signal = copy_into (shortSignal d) tail in
          bind_res (MagLUT_Execute pf (demod d) input (length signal - SymbolLength c)) (\<lambda>magnitudes.
          Inr (d\<lparr>shortSignal := write_at signal (SymbolLength c) magnitudes\<rparr>)))
      | Some h \<Rightarrow>
          bind_res (hist_advance c h) (\<lambda>h.
          bind_res (MagLUT_Execute pf (demod d) input (blockStride h - historyOverlap h)) (\<lambda>magnitudes.
          Inr (d\<lparr>signalHist := Some (hist_store h magnitudes)\<rparr>))))"

text \<open>The window of the integer producer; the leaf overwrites its new part.\<close>

definition power16_window :: "PacketConfig \<Rightarrow> u16 Hist \<Rightarrow> u16 list res" where
  "power16_window c h =
     slice_res (backing h) (block h * blockStride h + historyOverlap h - SymbolLength c) (block h * blockStride h + blockStride h)"

definition put_window :: "PacketConfig \<Rightarrow> u16 Hist \<Rightarrow> u16 list \<Rightarrow> u16 Hist" where
  "put_window c h w =
     h\<lparr>backing := write_at (backing h) (block h * blockStride h + historyOverlap h - SymbolLength c) w\<rparr>"

text \<open>The result is the decoder, whether the decisions are already in the ring, and the decisions.\<close>

definition appendPower16AndFilter :: "Decoder \<Rightarrow> power16State \<Rightarrow> u8 list \<Rightarrow> (Decoder \<times> bool \<times> u8 list) res" where
  "appendPower16AndFilter d st input0 =
     (let c = Cfg d; input = take (BlockSize2 c) input0 in
      if length input0 < BlockSize2 c then Inl (Panic ''protocol: IQ block shorter than configured block size'')
      else bind_res (hist_advance c (p_hist st)) (\<lambda>h.
        bind_res (power16_window c h) (\<lambda>window.
        case p_runPacked st of
          None \<Rightarrow>
            (case p_run st (BlockSize c) window input of
               None \<Rightarrow> Inl (Panic ''protocol: active Power16 fused backend rejected decoder-owned buffers'')
             | Some (decs, w) \<Rightarrow>
                 Inr (d\<lparr>power16 := Some (st\<lparr>p_hist := put_window c h w, nativeBlocks := nativeBlocks st + 1\<rparr>)\<rparr>, False, decs))
        | Some runPacked \<Rightarrow>
            bind_res (if ownsQuantizedRing d then nextQuantizedOutput d else Inr (0, 0)) (\<lambda>(quantizedNext, quantizedTail).
            bind_res (nextPackedOutput (p_packed st) c) (\<lambda>(packedNext, packedTail).
            case runPacked (BlockSize c) (BlockSize c div 8) window input of
              None \<Rightarrow> Inl (Panic ''protocol: active Power16 fused packed backend rejected decoder-owned buffers'')
            | Some (decs, packs, w) \<Rightarrow>
                let direct = ownsQuantizedRing d;
                    pk = commitPackedOutput
                      ((p_packed st)\<lparr>packedBacking := write_at (packedBacking (p_packed st)) packedTail packs\<rparr>)
                      packedNext packedTail (length packs);
                    d = (if direct
                         then commitQuantizedOutput (d\<lparr>quantizedBacking := write_at (quantizedBacking d) quantizedTail decs\<rparr>)
                                quantizedNext quantizedTail (length decs)
                         else d)
                in Inr (d\<lparr>power16 := Some (st\<lparr>p_hist := put_window c h w, p_packed := pk, nativeBlocks := nativeBlocks st + 1\<rparr>),
                          packed := packedSearchWindow pk\<rparr>, direct, decs))))))"

section \<open>Serving the parsers\<close>

definition dec_SignalWindow :: "Decoder \<Rightarrow> signal_window" where
  "dec_SignalWindow d idx len =
     (case signalHist d of
        Some h \<Rightarrow> History.SignalWindow (Cfg d) h idx len
      | None \<Rightarrow> Inl (Panic ''slice bounds out of range''))"

definition dec_Power16Window :: "Decoder \<Rightarrow> power_window" where
  "dec_Power16Window d idx len =
     (case power16 d of
        Some st \<Rightarrow> History.Power16Window (Cfg d) (p_hist st) idx len
      | None \<Rightarrow> Inl (Panic ''protocol: Power16 history is not active''))"

fun parse_packets :: "decoder_platform \<Rightarrow> Decoder \<Rightarrow> AnyParser \<Rightarrow> Data list \<Rightarrow> Message list \<Rightarrow> (AnyParser \<times> Message list) res" where
  "parse_packets pf d (PScm p) pkts ms = bind_res (scm_Parse p pkts ms) (\<lambda>(p, ms). Inr (PScm p, ms))"
| "parse_packets pf d (PScmPlus p) pkts ms = bind_res (scmplus_Parse p pkts ms) (\<lambda>(p, ms). Inr (PScmPlus p, ms))"
| "parse_packets pf d (PIdm p) pkts ms = bind_res (idm_Parse p pkts ms) (\<lambda>(p, ms). Inr (PIdm p, ms))"
| "parse_packets pf d (PNetIdm p) pkts ms = bind_res (netidm_Parse p pkts ms) (\<lambda>(p, ms). Inr (PNetIdm p, ms))"
| "parse_packets pf d (PR900 p) pkts ms =
     bind_res (r900_Parse (quantizer_leaf pf) (Cfg d) (dec_SignalWindow d) (dec_Power16Window d) p pkts ms) (\<lambda>(p, ms).
     Inr (PR900 p, ms))"
| "parse_packets pf d (PR900bcd p) pkts ms =
     bind_res (r900bcd_Parse (quantizer_leaf pf) (Cfg d) (dec_SignalWindow d) (dec_Power16Window d) p pkts ms) (\<lambda>(p, ms).
     Inr (PR900bcd p, ms))"

text \<open>The packets of a preamble are sliced once, when the first parser needs them.\<close>

fun parse_parsers ::
    "decoder_platform \<Rightarrow> nat list \<Rightarrow> bool \<Rightarrow> Data list option \<Rightarrow> nat list \<Rightarrow> Decoder \<Rightarrow> Message list \<Rightarrow> (Decoder \<times> Message list) res" where
  "parse_parsers pf indices includeBits packets [] d messages = Inr (d, messages)"
| "parse_parsers pf indices includeBits packets (i # is) d messages =
     (case parsers d ! i of
        PR900 p \<Rightarrow>
          bind_res (ParseCandidateIndices (quantizer_leaf pf) (Cfg d) (dec_SignalWindow d) (dec_Power16Window d) p indices messages)
            (\<lambda>(p, messages).
          parse_parsers pf indices includeBits packets is (d\<lparr>parsers := (parsers d)[i := PR900 p]\<rparr>) messages)
      | parser \<Rightarrow>
          bind_res (case packets of
              Some pkts \<Rightarrow> Inr (pkts, d)
            | None \<Rightarrow> bind_res (slice d (pkt d) indices includeBits) (\<lambda>(pkts, pkt'). Inr (pkts, d\<lparr>pkt := pkt'\<rparr>))) (\<lambda>(pkts, d).
          bind_res (parse_packets pf d parser pkts messages) (\<lambda>(parser, messages).
          parse_parsers pf indices includeBits (Some pkts) is (d\<lparr>parsers := (parsers d)[i := parser]\<rparr>) messages)))"

definition parseCandidates ::
    "decoder_platform \<Rightarrow> nat list \<Rightarrow> nat list \<Rightarrow> Decoder \<Rightarrow> Message list \<Rightarrow> (Decoder \<times> Message list) res" where
  "parseCandidates pf indices members d messages =
     (let includeBits = list_ex (\<lambda>i. \<not> isCandidateIndexParser (parsers d ! i) \<and> \<not> PacketBytesOnly (parsers d ! i)) members
      in parse_parsers pf indices includeBits None members d messages)"

definition serve_preamble ::
    "decoder_platform \<Rightarrow> bool \<Rightarrow> Decoder \<times> Message list \<Rightarrow> u8 list \<Rightarrow> (Decoder \<times> Message list) res" where
  "serve_preamble pf dualFixed dm preamble =
     (let (d, messages) = dm in
      if dualFixed \<and> (preamble = fixedIDMPreambleKey d \<or> preamble = fixedR900PreambleKey d) then Inr (d, messages)
      else bind_res (searchPacked (search_leaves pf) d (packed d) [] preamble) (\<lambda>indices.
        parseCandidates pf indices (the (map_of (preambles d) preamble)) d messages))"

text \<open>\<open>keys\<close> is the order in which the map of preambles is iterated.\<close>

definition decodeQuantized :: "decoder_platform \<Rightarrow> u8 list list \<Rightarrow> Decoder \<Rightarrow> (Decoder \<times> Message list) res" where
  "decodeQuantized pf keys d =
     (let dual = (if fixedIDMParsers d \<noteq> [] \<and> fixedR900Parsers d \<noteq> []
                  then searchAlignedCandidates32DualFixedPlatform (search_leaves pf) (packed d) (SymbolLength (Cfg d) div 8) else None)
      in case dual of
           None \<Rightarrow> fold_res (serve_preamble pf False) (d, []) keys
         | Some (idm, r900) \<Rightarrow>
             bind_res (parseCandidates pf idm (fixedIDMParsers d) d []) (\<lambda>(d, messages).
             bind_res (parseCandidates pf r900 (fixedR900Parsers d) d messages) (\<lambda>(d, messages).
             if length (preambles d) = 2 then Inr (d, messages)
             else fold_res (serve_preamble pf True) (d, messages) keys)))"

definition decodeFiltered :: "decoder_platform \<Rightarrow> u8 list list \<Rightarrow> Decoder \<Rightarrow> u8 list \<Rightarrow> (Decoder \<times> Message list) res" where
  "decodeFiltered pf keys d decs =
     bind_res (appendQuantized d decs) (\<lambda>d.
     if packs_directly d then decodeQuantized pf keys d
     else bind_res (packQuantizedRing (length (packed d)) (Quantized d) (quantizedStart d)) (\<lambda>bytes.
       decodeQuantized pf keys (d\<lparr>packed := bytes\<rparr>)))"

definition Decode :: "decoder_platform \<Rightarrow> u8 list list \<Rightarrow> Decoder \<Rightarrow> u8 list \<Rightarrow> (Decoder \<times> Message list) res" where
  "Decode pf keys d input =
     (case power16 d of
        Some st \<Rightarrow>
          bind_res (appendPower16AndFilter d st input) (\<lambda>(d, direct, decs).
          if direct then decodeQuantized pf keys d else decodeFiltered pf keys d decs)
      | None \<Rightarrow>
          bind_res (appendSignal (signal_leaves pf) d input) (\<lambda>d.
          bind_res (Filter_signal (signal_leaves pf) (ChipLength (Cfg d)) (Signal d) (BlockSize (Cfg d))) (\<lambda>decs.
          decodeFiltered pf keys d decs)))"

end
