(* ===== verification/DecodeSpec.thy ===== *)
theory DecodeSpec
  imports Decoding
begin

text \<open>
  What one call of \<open>Decode\<close> does, composed from the components: the decision ring slides by one block
  of decisions, every preamble is searched in the new window, and each parser reports exactly the valid
  messages of the candidates, whatever the backend, the order of the preambles and the mix of protocols.
\<close>

section \<open>Sampled packets\<close>

text \<open>The first \<open>n\<close> bytes of the packet that starts at sample \<open>q\<close> of the decision window.\<close>

definition bytes_at :: "PacketConfig \<Rightarrow> u8 list \<Rightarrow> nat \<Rightarrow> nat \<Rightarrow> u8 list" where
  "bytes_at cfg w n q = pack_bits (map (\<lambda>k. w ! (q + k * SymbolLength cfg) = 1) [0..<8 * n])"

lemma slice_bytes_prefix:
  assumes start: "quantizedStart d < length (Quantized d)" and bin: "binary (Quantized d)" and S: "0 < SymbolLength (Cfg d)"
    and pos: "pos + rem * SymbolLength (Cfg d) \<le> length (Quantized d)"
  shows "\<exists>bs. slice_bytes d pk rem (wrap (length (Quantized d)) (quantizedStart d + pos)) = Inr bs \<and> length bs = length pk \<and>
    (\<forall>n. n \<le> length pk \<longrightarrow> 8 * n \<le> rem \<longrightarrow>
       bytes_bits (take n bs) = map (\<lambda>k. decisions d ! (pos + k * SymbolLength (Cfg d)) = 1) [0..<8 * n])"
  using pos
proof (induction pk arbitrary: pos rem)
  case (Cons old pk)
  let ?N = "length (Quantized d)" and ?S = "SymbolLength (Cfg d)" and ?s = "quantizedStart d"
  let ?m = "if rem < 8 then rem else 8" and ?bit = "\<lambda>pos k. decisions d ! (pos + k * ?S) = 1"
  have le: "pos + ?m * ?S \<le> ?N" and le': "pos + ?m * ?S + (rem - ?m) * ?S \<le> ?N"
  proof -
    show "pos + ?m * ?S \<le> ?N" using Cons.prems by (auto intro: order_trans [OF _ Cons.prems])
    have "?m * ?S + (rem - ?m) * ?S = rem * ?S" by (simp flip: add_mult_distrib)
    then show "pos + ?m * ?S + (rem - ?m) * ?S \<le> ?N" using Cons.prems by simp
  qed
  obtain v where v: "slice_byte d ?m old (wrap ?N (?s + pos)) = Inr (v, wrap ?N (?s + (pos + ?m * ?S)))"
      "byte_bits v = drop ?m (byte_bits old) @ map (?bit pos) [0..<?m]"
  proof -
    have "?m \<le> 8" by simp
    from slice_byte_bits [OF start bin le S this, of old] show thesis using that by blast
  qed
  obtain bs where bs: "slice_bytes d pk (rem - ?m) (wrap ?N (?s + (pos + ?m * ?S))) = Inr bs" "length bs = length pk"
      "\<forall>n. n \<le> length pk \<longrightarrow> 8 * n \<le> rem - ?m \<longrightarrow> bytes_bits (take n bs) = map (?bit (pos + ?m * ?S)) [0..<8 * n]"
    using Cons.IH [OF le'] by blast
  have "bytes_bits (take n (v # bs)) = map (?bit pos) [0..<8 * n]" if n: "n \<le> length (old # pk)" "8 * n \<le> rem" for n
  proof (cases n)
    case (Suc k)
    then have m: "?m = 8" and k: "k \<le> length pk" "8 * k \<le> rem - ?m" using n by auto
    have "[0..<8 * n] = [0..<8] @ map (\<lambda>j. j + 8) [0..<8 * k]"
      using upt_add_eq_append [of 0 8 "8 * k"] map_add_upt [of 8 "8 * k"] Suc by (simp add: add.commute)
    then show ?thesis using v(2) bs(3) k unfolding m by (simp add: Suc o_def algebra_simps)
  qed simp
  then show ?case using v(1) bs(1,2) by (auto simp: Let_def simp del: take.simps)
qed simp

definition samples_packet :: "PacketConfig \<Rightarrow> u8 list \<Rightarrow> bool \<Rightarrow> nat \<Rightarrow> Data \<Rightarrow> bool" where
  "samples_packet cfg w includeBits q x \<longleftrightarrow> Idx x = q \<and> Bits x = Bits (newData (Bytes x) includeBits) \<and>
     length (Bytes x) = (PacketSymbols cfg + 7) div 8 \<and>
     (\<forall>n. 8 * n \<le> PacketSymbols cfg \<longrightarrow> take n (Bytes x) = bytes_at cfg w n q)"

definition ring_ready :: "'a Ring_scheme \<Rightarrow> bool" where
  "ring_ready d \<longleftrightarrow> ring_inv (Cfg d) d \<and> binary (decisions d) \<and> 0 < SymbolLength (Cfg d) \<and>
     PacketConfig.PacketLength (Cfg d) = PacketSymbols (Cfg d) * SymbolLength (Cfg d)"

lemma slice_loop_samples:
  assumes "ring_ready d" "length pk = (PacketSymbols (Cfg d) + 7) div 8" "\<forall>q\<in>set indices. q \<le> BlockSize (Cfg d)"
  shows "\<exists>pkts pk'. slice_loop d includeBits pk indices = Inr (pkts, pk') \<and> length pk' = length pk \<and>
    list_all2 (samples_packet (Cfg d) (decisions d) includeBits) indices pkts"
  using assms(2,3)
proof (induction indices arbitrary: pk)
  case (Cons q indices)
  let ?N = "length (Quantized d)"
  have d: "quantizedStart d < ?N" "binary (Quantized d)" "0 < SymbolLength (Cfg d)"
      "?N = PacketSymbols (Cfg d) * SymbolLength (Cfg d) + BlockSize (Cfg d)"
    using assms(1) by (auto simp: ring_ready_def ring_inv_def decisions_def)
  have q: "q \<le> BlockSize (Cfg d)" using Cons.prems by simp
  obtain bs where bs: "slice_bytes d pk (PacketSymbols (Cfg d)) (wrap ?N (quantizedStart d + q)) = Inr bs" "length bs = length pk"
      "\<forall>n. n \<le> length pk \<longrightarrow> 8 * n \<le> PacketSymbols (Cfg d) \<longrightarrow>
         bytes_bits (take n bs) = map (\<lambda>k. decisions d ! (q + k * SymbolLength (Cfg d)) = 1) [0..<8 * n]"
    using slice_bytes_prefix [OF d(1,2,3), of q "PacketSymbols (Cfg d)" pk] d(4) q by auto
  obtain pkts pk' where rest: "slice_loop d includeBits bs indices = Inr (pkts, pk')" "length pk' = length bs"
      "list_all2 (samples_packet (Cfg d) (decisions d) includeBits) indices pkts"
    using Cons.IH [of bs] Cons.prems bs(2) by auto
  have "samples_packet (Cfg d) (decisions d) includeBits q ((newData bs includeBits)\<lparr>Idx := q\<rparr>)"
    unfolding samples_packet_def
  proof (intro conjI allI impI)
    fix n assume n: "8 * n \<le> PacketSymbols (Cfg d)"
    then have "n \<le> length pk" using Cons.prems(1) by simp
    then show "take n (Bytes ((newData bs includeBits)\<lparr>Idx := q\<rparr>)) = bytes_at (Cfg d) (decisions d) n q"
      using bs(3) n pack_bits_bytes_bits [of "take n bs"] by (simp add: newData_def bytes_at_def)
  qed (use bs(2) Cons.prems(1) in \<open>simp_all add: newData_def\<close>)
  then show ?case using bs(1,2) rest q by (auto simp: Let_def simp flip: wrap_def)
qed simp

section \<open>What a parser reports\<close>

text \<open>The quantizer the R900 parser calls, as a function of the position.\<close>

definition decoder_quantize :: "decoder_platform \<Rightarrow> Decoder \<Rightarrow> nat \<Rightarrow> u8 res" where
  "decoder_quantize pf d idx =
     quantizeSignalAt (quantizer_leaf pf) (dec_SignalWindow d) (dec_Power16Window d)
       \<lparr>rcfg = Cfg d, rfield = gf32, rsBuf = [], powerHistory = power16 d \<noteq> None, cfgRead = True\<rparr> idx"

definition quantized_symbol :: "decoder_platform \<Rightarrow> Decoder \<Rightarrow> nat \<Rightarrow> u8" where
  "quantized_symbol pf d idx = (case decoder_quantize pf d idx of Inr s \<Rightarrow> s | Inl _ \<Rightarrow> 0)"

definition payload_in_history :: "PacketConfig \<Rightarrow> bool" where
  "payload_in_history c \<longleftrightarrow> SymbolLength c \<le> PreambleLength c \<and>
     PreambleLength c + 168 * ChipLength c \<le> PacketConfig.PacketLength c + SymbolLength c"

definition history_ready :: "decoder_platform \<Rightarrow> Decoder \<Rightarrow> bool" where
  "history_ready pf d \<longleftrightarrow> payload_in_history (Cfg d) \<and>
     (\<forall>idx. idx + 4 * ChipLength (Cfg d) \<le> BufferLength (Cfg d) \<longrightarrow> idx < BufferLength (Cfg d) \<longrightarrow>
        (\<exists>s. decoder_quantize pf d idx = Inr s))"

lemma quantize_parser:
  "powerHistory p = (power16 d \<noteq> None) \<Longrightarrow>
   quantizeSignalAt (quantizer_leaf pf) (dec_SignalWindow d) (dec_Power16Window d) (p\<lparr>rcfg := Cfg d, cfgRead := True\<rparr>) =
     decoder_quantize pf d"
  by (rule ext) (simp add: decoder_quantize_def quantizeSignalAt_def quantizePower16At_def)

lemma payload_fits:
  assumes "payload_in_history c" "BufferLength c = PacketConfig.PacketLength c + BlockSize c" "i \<le> BlockSize c" "k < 42"
  shows "payload_start c i + k * (ChipLength c * 4) + 4 * ChipLength c \<le> BufferLength c"
proof -
  have "k * (ChipLength c * 4) + 4 * ChipLength c \<le> 168 * ChipLength c"
    using assms(4) mult_le_mono1 [of "k + 1" 42 "ChipLength c * 4"] unfolding add_mult_distrib by linarith
  moreover have "SymbolLength c \<le> PreambleLength c" "PreambleLength c + 168 * ChipLength c \<le> PacketConfig.PacketLength c + SymbolLength c"
    using assms(1) by (simp_all add: payload_in_history_def)
  ultimately show ?thesis using assms(3) unfolding payload_start_def assms(2) by linarith
qed

lemma quantizes_history:
  assumes "history_ready pf d" "\<forall>q\<in>set indices. q \<le> BlockSize (Cfg d)" "BufferLength (Cfg d) = PacketConfig.PacketLength (Cfg d) + BlockSize (Cfg d)"
    "0 < ChipLength (Cfg d)"
  shows "quantizes (decoder_quantize pf d) (Cfg d) (quantized_symbol pf d) indices"
  unfolding quantizes_def
proof (intro ballI allI impI)
  fix i k :: nat
  assume i: "i \<in> set (takeWhile (\<lambda>i. i \<le> BlockSize (Cfg d)) indices)" and k: "k < 42"
  let ?idx = "payload_start (Cfg d) i + k * (ChipLength (Cfg d) * 4)"
  have "?idx + 4 * ChipLength (Cfg d) \<le> BufferLength (Cfg d)"
    using i assms(1) by (intro payload_fits [OF _ assms(3) _ k]) (auto simp: history_ready_def dest: set_takeWhileD)
  then obtain s where "decoder_quantize pf d ?idx = Inr s" using assms(1,4) by (auto simp: history_ready_def)
  then show "decoder_quantize pf d ?idx = Inr (quantized_symbol pf d ?idx)" by (simp add: quantized_symbol_def)
qed

definition r900_valid :: "u8 list \<Rightarrow> bool" where
  "r900_valid symbols \<longleftrightarrow> list_all (\<lambda>s. s \<le> 31) symbols \<and> Syndrome gf32 (rs_word symbols) 5 29 = Inr (replicate 5 0)"

definition r900_readings :: "PacketConfig \<Rightarrow> (nat \<Rightarrow> u8) \<Rightarrow> nat list \<Rightarrow> R900 list" where
  "r900_readings cfg q indices = map r900FromSymbols (filter r900_valid (firsts {} (candidate_symbols cfg q indices)))"

lemma r900_readings_accept:
  "List.map_filter r900_accept (firsts {} (candidate_symbols cfg q indices)) = map MR900 (r900_readings cfg q indices)"
proof -
  have "List.map_filter r900_accept xs = map MR900 (map r900FromSymbols (filter r900_valid xs))" for xs
    by (induction xs) (simp_all add: map_filter_simps r900_accept_def r900_valid_def)
  then show ?thesis by (simp add: r900_readings_def)
qed

definition sampled :: "PacketConfig \<Rightarrow> u8 list \<Rightarrow> nat \<Rightarrow> nat list \<Rightarrow> u8 list list" where
  "sampled cfg w n indices = firsts {} (map (bytes_at cfg w n) indices)"

fun parser_messages :: "PacketConfig \<Rightarrow> u8 list \<Rightarrow> (nat \<Rightarrow> u8) \<Rightarrow> nat list \<Rightarrow> AnyParser \<Rightarrow> Message list" where
  "parser_messages cfg w q indices (PScm _) = List.map_filter scm_accept (sampled cfg w 12 indices)"
| "parser_messages cfg w q indices (PScmPlus _) = List.map_filter scmplus_accept (sampled cfg w 16 indices)"
| "parser_messages cfg w q indices (PIdm _) = List.map_filter idm_accept (sampled cfg w 92 indices)"
| "parser_messages cfg w q indices (PNetIdm _) = List.map_filter netidm_accept (sampled cfg w 92 indices)"
| "parser_messages cfg w q indices (PR900 _) = map MR900 (r900_readings cfg q indices)"
| "parser_messages cfg w q indices (PR900bcd _) =
     map (\<lambda>r. MR900BCD (r\<lparr>R900.Consumption := bcd_consumption (R900.Consumption r)\<rparr>)) (r900_readings cfg q indices)"

fun kind :: "AnyParser \<Rightarrow> nat" where
  "kind (PScm _) = 0" | "kind (PScmPlus _) = 1" | "kind (PIdm _) = 2" | "kind (PNetIdm _) = 3" | "kind (PR900 _) = 4" | "kind (PR900bcd _) = 5"

lemma parser_messages_kind: "kind p = kind p' \<Longrightarrow> parser_messages cfg w q indices p = parser_messages cfg w q indices p'"
  by (cases p; cases p') simp_all

text \<open>A parser is ready for a decoder when its buffers are and the packets are long enough for it.\<close>

fun parser_ready :: "PacketConfig \<Rightarrow> bool \<Rightarrow> AnyParser \<Rightarrow> bool" where
  "parser_ready cfg pw (PScm p) \<longleftrightarrow> scm_inv p \<and> 96 \<le> PacketSymbols cfg"
| "parser_ready cfg pw (PScmPlus p) \<longleftrightarrow> scmplus_inv p \<and> 128 \<le> PacketSymbols cfg"
| "parser_ready cfg pw (PIdm p) \<longleftrightarrow> idm_inv p \<and> 736 \<le> PacketSymbols cfg"
| "parser_ready cfg pw (PNetIdm p) \<longleftrightarrow> netidm_inv p \<and> 736 \<le> PacketSymbols cfg"
| "parser_ready cfg pw (PR900 p) \<longleftrightarrow> r900_inv p \<and> (cfgRead p \<longrightarrow> rcfg p = cfg) \<and> powerHistory p = pw"
| "parser_ready cfg pw (PR900bcd p) \<longleftrightarrow> r900_inv p \<and> (cfgRead p \<longrightarrow> rcfg p = cfg) \<and> powerHistory p = pw"

lemma sampled_packets:
  assumes "list_all2 (samples_packet cfg w includeBits) indices pkts" "8 * n \<le> PacketSymbols cfg"
  shows "distinct_packets n pkts = sampled cfg w n indices" "\<forall>x\<in>set pkts. n \<le> length (Bytes x)"
    "includeBits \<Longrightarrow> \<forall>x\<in>set pkts. projected x" "map Idx pkts = indices"
  using assms(1)
proof -
  have "map (\<lambda>x. take n (Bytes x)) pkts = map (bytes_at cfg w n) indices"
    using assms by (induction rule: list_all2_induct) (auto simp: samples_packet_def)
  then show "distinct_packets n pkts = sampled cfg w n indices" by (simp add: distinct_packets_def sampled_def)
  have all: "x \<in> set pkts \<Longrightarrow> \<exists>q. samples_packet cfg w includeBits q x" for x
    using assms(1) by (metis in_set_conv_nth list_all2_conv_all_nth)
  show "\<forall>x\<in>set pkts. n \<le> length (Bytes x)" using all assms(2) by (fastforce simp: samples_packet_def)
  show "includeBits \<Longrightarrow> \<forall>x\<in>set pkts. projected x" using all by (fastforce simp: samples_packet_def projected_def)
  show "map Idx pkts = indices" using assms(1) by (induction rule: list_all2_induct) (auto simp: samples_packet_def)
qed

lemma r900_messages:
  assumes "history_ready pf d" "\<forall>q\<in>set indices. q \<le> BlockSize (Cfg d)" "BufferLength (Cfg d) = PacketConfig.PacketLength (Cfg d) + BlockSize (Cfg d)"
    "0 < ChipLength (Cfg d)" "r900_inv p" "cfgRead p \<longrightarrow> rcfg p = Cfg d" "powerHistory p = (power16 d \<noteq> None)"
  shows "\<exists>p'. ParseCandidateIndices (quantizer_leaf pf) (Cfg d) (dec_SignalWindow d) (dec_Power16Window d) p indices ms =
      Inr (p', ms @ map MR900 (r900_readings (Cfg d) (quantized_symbol pf d) indices)) \<and>
    r900_inv p' \<and> (cfgRead p' \<longrightarrow> rcfg p' = Cfg d) \<and> powerHistory p' = (power16 d \<noteq> None)"
  using ParseCandidateIndices_result [OF assms(5,6), of "quantizer_leaf pf" "dec_SignalWindow d" "dec_Power16Window d"
      "quantized_symbol pf d" indices ms] quantizes_history [OF assms(1-4)] assms(7)
  unfolding quantize_parser [OF assms(7)] r900_readings_accept by auto

definition served :: "decoder_platform \<Rightarrow> Decoder \<Rightarrow> bool" where
  "served pf d \<longleftrightarrow> ring_ready d \<and> (list_ex consumesPower16 (parsers d) \<longrightarrow> history_ready pf d) \<and> 0 < ChipLength (Cfg d) \<and>
     BufferLength (Cfg d) = PacketConfig.PacketLength (Cfg d) + BlockSize (Cfg d) \<and>
     length (pkt d) = (PacketSymbols (Cfg d) + 7) div 8 \<and>
     list_all (parser_ready (Cfg d) (power16 d \<noteq> None)) (parsers d)"

lemma parse_packets_messages:
  assumes d: "served pf d" and p: "parser_ready (Cfg d) (power16 d \<noteq> None) p" "includeBits \<or> PacketBytesOnly p"
      "consumesPower16 p \<longrightarrow> history_ready pf d"
    and q: "\<forall>q\<in>set indices. q \<le> BlockSize (Cfg d)" and pkts: "list_all2 (samples_packet (Cfg d) (decisions d) includeBits) indices pkts"
  shows "\<exists>p'. parse_packets pf d p pkts ms =
      Inr (p', ms @ parser_messages (Cfg d) (decisions d) (quantized_symbol pf d) indices p) \<and>
    parser_ready (Cfg d) (power16 d \<noteq> None) p' \<and> kind p' = kind p"
proof -
  note r900 = r900_messages [of pf d indices]
  have r: "0 < ChipLength (Cfg d)" "BufferLength (Cfg d) = PacketConfig.PacketLength (Cfg d) + BlockSize (Cfg d)"
    using d by (auto simp: served_def)
  note n = sampled_packets [OF pkts]
  have idx: "map Idx pkts = indices" using n(4) [of 0] by simp
  show ?thesis
  proof (cases p)
    case (PScm x)
    then show ?thesis using scm_Parse_result [of x pkts ms] n(1,2,3) [of 12] p by auto
  next
    case (PScmPlus x)
    then show ?thesis using scmplus_Parse_result [of x pkts ms] n(1,2,3) [of 16] p by auto
  next
    case (PIdm x)
    then show ?thesis using idm_Parse_result [of x pkts ms] n(1,2) [of 92] p by auto
  next
    case (PNetIdm x)
    then show ?thesis using netidm_Parse_result [of x pkts ms] n(1,2,3) [of 92] p by auto
  next
    case (PR900 x)
    then show ?thesis using r900 [OF _ q r(2,1), of x ms] p by (auto simp: r900_Parse_def idx)
  next
    case (PR900bcd x)
    then show ?thesis using r900 [OF _ q r(2,1), of x ms] p by (auto simp: r900bcd_Parse_def r900_Parse_def idx mapM_bcd o_def)
  qed
qed

section \<open>Serving the candidates of one preamble\<close>

text \<open>Serving changes only the parsers and the packet buffer.\<close>

definition after_serving :: "Decoder \<Rightarrow> Decoder \<Rightarrow> bool" where
  "after_serving d d' \<longleftrightarrow> (\<exists>ps b. d' = d\<lparr>parsers := ps, pkt := b\<rparr> \<and> map kind ps = map kind (parsers d))"

lemma windows_serving [simp]:
  "dec_SignalWindow (d\<lparr>parsers := ps\<rparr>) = dec_SignalWindow d" "dec_SignalWindow (d\<lparr>pkt := b\<rparr>) = dec_SignalWindow d"
  "dec_Power16Window (d\<lparr>parsers := ps\<rparr>) = dec_Power16Window d" "dec_Power16Window (d\<lparr>pkt := b\<rparr>) = dec_Power16Window d"
  by (intro ext, simp add: dec_SignalWindow_def dec_Power16Window_def split: option.split)+

lemma decoder_quantize_serving [simp]:
  "decoder_quantize pf (d\<lparr>parsers := ps\<rparr>) = decoder_quantize pf d" "decoder_quantize pf (d\<lparr>pkt := b\<rparr>) = decoder_quantize pf d"
  by (intro ext, simp add: decoder_quantize_def)+

lemma decisions_serving [simp]:
  "decisions (d\<lparr>parsers := ps\<rparr>) = decisions d" "decisions (d\<lparr>pkt := b\<rparr>) = decisions d"
  "ring_inv c (d\<lparr>parsers := ps\<rparr>) = ring_inv c d" "ring_inv c (d\<lparr>pkt := b\<rparr>) = ring_inv c d"
  by (simp_all add: decisions_def Quantized_def ring_inv_def)

lemma serving_simps [simp]:
  "quantized_symbol pf (d\<lparr>parsers := ps\<rparr>) = quantized_symbol pf d" "quantized_symbol pf (d\<lparr>pkt := b\<rparr>) = quantized_symbol pf d"
  "history_ready pf (d\<lparr>parsers := ps\<rparr>) = history_ready pf d" "history_ready pf (d\<lparr>pkt := b\<rparr>) = history_ready pf d"
  "ring_ready (d\<lparr>parsers := ps\<rparr>) = ring_ready d" "ring_ready (d\<lparr>pkt := b\<rparr>) = ring_ready d"
  by (simp_all add: quantized_symbol_def [abs_def] history_ready_def ring_ready_def fun_eq_iff)

lemma served_pkt: "served pf d \<Longrightarrow> length b = length (pkt d) \<Longrightarrow> served pf (d\<lparr>pkt := b\<rparr>)"
  by (simp add: served_def)

lemma kind_capabilities:
  "isCandidateIndexParser p \<longleftrightarrow> kind p = 4" "PacketBytesOnly p \<longleftrightarrow> kind p = 2" "consumesPower16 p \<longleftrightarrow> kind p \<in> {4, 5}"
  by (cases p; simp)+

lemma list_ex_consumes: "list_ex consumesPower16 ps \<longleftrightarrow> list_ex (\<lambda>k. k \<in> {4, 5}) (map kind ps)"
  by (induction ps) (simp_all add: kind_capabilities)

lemma map_kind_update: "kind p = kind (ps ! i) \<Longrightarrow> map kind (ps[i := p]) = map kind ps"
  by (simp add: map_update) (metis list_update_id map_update)

lemma served_parser:
  assumes "served pf d" "parser_ready (Cfg d) (power16 d \<noteq> None) p" "kind p = kind (parsers d ! i)"
  shows "served pf (d\<lparr>parsers := (parsers d)[i := p]\<rparr>)"
  using assms(1,2) unfolding served_def list_ex_consumes
  by (auto simp: list_all_iff map_kind_update [OF assms(3)] dest!: set_update_subset_insert [THEN subsetD])

lemma served_parser_ready:
  assumes "served pf d" "i < length (parsers d)"
  shows "parser_ready (Cfg d) (power16 d \<noteq> None) (parsers d ! i)" "consumesPower16 (parsers d ! i) \<longrightarrow> history_ready pf d"
  using assms by (auto simp: served_def list_all_length list_ex_length)

lemma after_serving_trans:
  assumes "after_serving d d'" "after_serving d' d''"
  shows "after_serving d d''"
proof -
  obtain ps b where d': "d' = d\<lparr>parsers := ps, pkt := b\<rparr>" and k: "map kind ps = map kind (parsers d)"
    using assms(1) by (auto simp: after_serving_def)
  obtain ps' b' where d'': "d'' = d'\<lparr>parsers := ps', pkt := b'\<rparr>" and k': "map kind ps' = map kind (parsers d')"
    using assms(2) by (auto simp: after_serving_def)
  have "d'' = d\<lparr>parsers := ps', pkt := b'\<rparr>" "map kind ps' = map kind (parsers d)"
    using k' by (simp_all add: d'' d' k)
  then show ?thesis unfolding after_serving_def by blast
qed

lemma after_serving_refl: "after_serving d d"
  unfolding after_serving_def by (intro exI [of _ "parsers d"] exI [of _ "pkt d"]) simp

lemma after_serving_pkt: "after_serving d (d\<lparr>pkt := b\<rparr>)"
  unfolding after_serving_def by (intro exI [of _ "parsers d"] exI [of _ b]) simp

lemma after_serving_parser: "kind p = kind (parsers d ! i) \<Longrightarrow> after_serving d (d\<lparr>parsers := (parsers d)[i := p]\<rparr>)"
  unfolding after_serving_def
  by (intro exI [of _ "(parsers d)[i := p]"] exI [of _ "pkt d"]) (simp add: map_kind_update)

lemma after_serving_same:
  assumes "after_serving d d'"
  shows "Cfg d' = Cfg d" "decisions d' = decisions d" "quantized_symbol pf d' = quantized_symbol pf d" "power16 d' = power16 d"
    "length (parsers d') = length (parsers d)" "preambles d' = preambles d" "packed d' = packed d"
    "fixedIDMParsers d' = fixedIDMParsers d" "fixedR900Parsers d' = fixedR900Parsers d"
    "fixedIDMPreambleKey d' = fixedIDMPreambleKey d" "fixedR900PreambleKey d' = fixedR900PreambleKey d"
  using assms by (auto simp: after_serving_def dest: map_eq_imp_length_eq)

definition member_messages :: "decoder_platform \<Rightarrow> Decoder \<Rightarrow> nat list \<Rightarrow> nat \<Rightarrow> Message list" where
  "member_messages pf d indices i = parser_messages (Cfg d) (decisions d) (quantized_symbol pf d) indices (parsers d ! i)"

lemma after_serving_kind:
  assumes "after_serving d d'" "i < length (parsers d)"
  shows "kind (parsers d' ! i) = kind (parsers d ! i)"
proof -
  obtain ps b where d': "d' = d\<lparr>parsers := ps, pkt := b\<rparr>" and k: "map kind ps = map kind (parsers d)"
    using assms(1) by (auto simp: after_serving_def)
  have "kind (ps ! i) = map kind ps ! i" using assms(2) map_eq_imp_length_eq [OF k] by simp
  then show ?thesis using assms(2) by (simp add: d' k)
qed

lemma after_serving_messages:
  "after_serving d d' \<Longrightarrow> i < length (parsers d) \<Longrightarrow> member_messages pf d' indices i = member_messages pf d indices i"
  unfolding member_messages_def after_serving_same(1,2,3) [of d d'] by (rule parser_messages_kind [OF after_serving_kind])

definition serves :: "decoder_platform \<Rightarrow> Decoder \<Rightarrow> Message list \<Rightarrow> (Decoder \<times> Message list) res \<Rightarrow> Message list \<Rightarrow> bool" where
  "serves pf d ms r added \<longleftrightarrow> (\<exists>d'. r = Inr (d', ms @ added) \<and> after_serving d d' \<and> served pf d')"

lemma serves_step:
  assumes "after_serving d d1" "serves pf d1 (ms @ new) r rest"
  shows "serves pf d ms r (new @ rest)"
  using assms after_serving_trans by (fastforce simp: serves_def)

lemma parse_step_r900:
  assumes d: "served pf d" and q: "\<forall>q\<in>set indices. q \<le> BlockSize (Cfg d)" and i: "i < length (parsers d)" "parsers d ! i = PR900 p"
  shows "\<exists>p'. ParseCandidateIndices (quantizer_leaf pf) (Cfg d) (dec_SignalWindow d) (dec_Power16Window d) p indices ms =
      Inr (p', ms @ member_messages pf d indices i) \<and>
    after_serving d (d\<lparr>parsers := (parsers d)[i := PR900 p']\<rparr>) \<and> served pf (d\<lparr>parsers := (parsers d)[i := PR900 p']\<rparr>)"
proof -
  have p: "parser_ready (Cfg d) (power16 d \<noteq> None) (PR900 p)" "history_ready pf d" using served_parser_ready [OF d i(1)] i(2) by simp_all
  obtain p' where p': "ParseCandidateIndices (quantizer_leaf pf) (Cfg d) (dec_SignalWindow d) (dec_Power16Window d) p indices ms =
        Inr (p', ms @ member_messages pf d indices i)" "parser_ready (Cfg d) (power16 d \<noteq> None) (PR900 p')"
    using r900_messages [of pf d indices p ms] d q p i(2) by (auto simp: served_def member_messages_def)
  have "kind (PR900 p') = kind (parsers d ! i)" by (simp add: i(2))
  then show ?thesis using p' served_parser [OF d p'(2), of i] after_serving_parser [of "PR900 p'" d i] by blast
qed

lemma parse_step_packets:
  assumes d: "served pf d" and q: "\<forall>q\<in>set indices. q \<le> BlockSize (Cfg d)" and i: "i < length (parsers d)"
    and bits: "includeBits \<or> PacketBytesOnly (parsers d ! i)"
    and pkts: "list_all2 (samples_packet (Cfg d) (decisions d) includeBits) indices pkts"
  shows "\<exists>p'. parse_packets pf d (parsers d ! i) pkts ms = Inr (p', ms @ member_messages pf d indices i) \<and>
    after_serving d (d\<lparr>parsers := (parsers d)[i := p']\<rparr>) \<and> served pf (d\<lparr>parsers := (parsers d)[i := p']\<rparr>)"
proof -
  note p = served_parser_ready [OF d i]
  obtain p' where p': "parse_packets pf d (parsers d ! i) pkts ms = Inr (p', ms @ member_messages pf d indices i)"
      "parser_ready (Cfg d) (power16 d \<noteq> None) p'" "kind p' = kind (parsers d ! i)"
    using parse_packets_messages [OF d p(1) bits p(2) q pkts, of ms] by (auto simp: member_messages_def)
  then show ?thesis using served_parser [OF d p'(2,3)] after_serving_parser [OF p'(3)] by blast
qed

lemma slice_step:
  assumes "served pf d" "\<forall>q\<in>set indices. q \<le> BlockSize (Cfg d)"
  shows "\<exists>pkts b. slice d (pkt d) indices includeBits = Inr (pkts, b) \<and> after_serving d (d\<lparr>pkt := b\<rparr>) \<and> served pf (d\<lparr>pkt := b\<rparr>) \<and>
    list_all2 (samples_packet (Cfg d) (decisions d) includeBits) indices pkts"
  using slice_loop_samples [of d "pkt d" indices includeBits] assms served_pkt [OF assms(1)] after_serving_pkt
  unfolding served_def slice_def by auto


text \<open>The packets are projected to bits unless every parser that reads them does without.\<close>

definition projection_suffices :: "Decoder \<Rightarrow> bool \<Rightarrow> nat list \<Rightarrow> bool" where
  "projection_suffices d includeBits members \<longleftrightarrow> (\<forall>i\<in>set members. i < length (parsers d) \<and>
     (includeBits \<or> isCandidateIndexParser (parsers d ! i) \<or> PacketBytesOnly (parsers d ! i)))"

lemma projection_suffices_serving:
  assumes "after_serving d d'" "projection_suffices d includeBits members"
  shows "projection_suffices d' includeBits members"
  using assms after_serving_kind [OF assms(1)] after_serving_same(5) [OF assms(1)]
  by (auto simp: projection_suffices_def kind_capabilities)

lemma parse_parsers_packets:
  "\<not> isCandidateIndexParser (parsers d ! i) \<Longrightarrow>
   parse_parsers pf indices includeBits packets (i # is) d messages =
     bind_res (case packets of
         Some pkts \<Rightarrow> Inr (pkts, d)
       | None \<Rightarrow> bind_res (slice d (pkt d) indices includeBits) (\<lambda>(pkts, pkt'). Inr (pkts, d\<lparr>pkt := pkt'\<rparr>))) (\<lambda>(pkts, d').
     bind_res (parse_packets pf d' (parsers d ! i) pkts messages) (\<lambda>(parser, messages).
     parse_parsers pf indices includeBits (Some pkts) is (d'\<lparr>parsers := (parsers d')[i := parser]\<rparr>) messages))"
  by (cases "parsers d ! i") simp_all

lemma concat_member_messages:
  "after_serving d d' \<Longrightarrow> \<forall>i\<in>set is. i < length (parsers d) \<Longrightarrow>
   concat (map (member_messages pf d' indices) is) = concat (map (member_messages pf d indices) is)"
  by (intro arg_cong [of _ _ concat] map_cong refl after_serving_messages) auto

lemma parse_parsers_messages:
  assumes "served pf d" "\<forall>q\<in>set indices. q \<le> BlockSize (Cfg d)" "projection_suffices d includeBits members"
    and "\<forall>pkts. packets = Some pkts \<longrightarrow> list_all2 (samples_packet (Cfg d) (decisions d) includeBits) indices pkts"
  shows "serves pf d ms (parse_parsers pf indices includeBits packets members d ms) (concat (map (member_messages pf d indices) members))"
  using assms
proof (induction members arbitrary: d ms packets)
  case Nil
  then show ?case by (simp add: serves_def after_serving_refl)
next
  case (Cons i "is")
  note d = Cons.prems(1) and q = Cons.prems(2) and pk = Cons.prems(4)
  have i: "i < length (parsers d)" "includeBits \<or> isCandidateIndexParser (parsers d ! i) \<or> PacketBytesOnly (parsers d ! i)"
      "projection_suffices d includeBits is" "\<forall>i\<in>set is. i < length (parsers d)"
    using Cons.prems(3) by (auto simp: projection_suffices_def)
  have step: "serves pf d ms (parse_parsers pf indices includeBits packets' is d' (ms @ member_messages pf d indices i))
        (member_messages pf d indices i @ concat (map (member_messages pf d indices) is))"
    if s: "after_serving d d'" and d': "served pf d'"
      and p: "\<forall>pkts. packets' = Some pkts \<longrightarrow> list_all2 (samples_packet (Cfg d) (decisions d) includeBits) indices pkts" for d' packets'
    using serves_step [OF s Cons.IH [OF d']] q i(3) p concat_member_messages [OF s i(4)] projection_suffices_serving [OF s i(3)]
    unfolding after_serving_same(1,2) [OF s] by simp
  show ?case
  proof (cases "isCandidateIndexParser (parsers d ! i)")
    case True
    then obtain p where p: "parsers d ! i = PR900 p" by (cases "parsers d ! i") auto
    from parse_step_r900 [OF d q i(1) p, of ms] show ?thesis using step pk p by auto
  next
    case False
    show ?thesis
    proof (cases packets)
      case (Some pkts)
      obtain p' where p': "parse_packets pf d (parsers d ! i) pkts ms = Inr (p', ms @ member_messages pf d indices i)"
          "after_serving d (d\<lparr>parsers := (parsers d)[i := p']\<rparr>)" "served pf (d\<lparr>parsers := (parsers d)[i := p']\<rparr>)"
        using parse_step_packets [OF d q i(1), of includeBits pkts ms] i(2) False pk Some by auto
      show ?thesis using step [OF p'(2,3), of "Some pkts"] p'(1) pk unfolding parse_parsers_packets [of d i, OF False] Some by simp
    next
      case None
      obtain pkts b where b: "slice d (pkt d) indices includeBits = Inr (pkts, b)" "after_serving d (d\<lparr>pkt := b\<rparr>)" "served pf (d\<lparr>pkt := b\<rparr>)"
          "list_all2 (samples_packet (Cfg d) (decisions d) includeBits) indices pkts"
        using slice_step [OF d q, of includeBits] by blast
      let ?d = "d\<lparr>pkt := b\<rparr>"
      obtain p' where p': "parse_packets pf ?d (parsers ?d ! i) pkts ms = Inr (p', ms @ member_messages pf ?d indices i)"
          "after_serving ?d (?d\<lparr>parsers := (parsers ?d)[i := p']\<rparr>)" "served pf (?d\<lparr>parsers := (parsers ?d)[i := p']\<rparr>)"
        using parse_step_packets [OF b(3), of indices i includeBits pkts ms] i(1,2) q False b(4) by auto
      have m: "member_messages pf ?d indices i = member_messages pf d indices i" using after_serving_messages [OF b(2) i(1)] .
      show ?thesis using step [OF after_serving_trans [OF b(2) p'(2)] p'(3), of "Some pkts"] p'(1) b(1,4) m
        unfolding parse_parsers_packets [of d i, OF False] None by simp
    qed
  qed
qed

lemma parseCandidates_messages:
  assumes "served pf d" "\<forall>q\<in>set indices. q \<le> BlockSize (Cfg d)" "\<forall>i\<in>set members. i < length (parsers d)"
  shows "serves pf d ms (parseCandidates pf indices members d ms) (concat (map (member_messages pf d indices) members))"
  unfolding parseCandidates_def Let_def
  by (rule parse_parsers_messages [OF assms(1,2)]) (use assms(3) in \<open>auto simp: projection_suffices_def list_ex_iff\<close>)


end
