(* ===== verification/DecodeRun.thy ===== *)
theory DecodeRun
  imports DecodeSpec "HOL-Library.Multiset"
begin

text \<open>
  The service of all registered preambles (\<open>decodeQuantized\<close>) and the three front ends of \<open>Decode\<close>:
  each slides the decision window by one block, keeps the packed search window in step with it and slides
  the sample history, so that one call of \<open>Decode\<close> reports exactly the valid messages of the window.
\<close>

section \<open>The registered preambles\<close>

definition preamble_candidates :: "Decoder \<Rightarrow> u8 list \<Rightarrow> nat list" where
  "preamble_candidates d key = preamble_positions (decisions d) (BlockSize (Cfg d)) (SymbolLength (Cfg d)) key"

definition preamble_messages :: "decoder_platform \<Rightarrow> Decoder \<Rightarrow> u8 list \<Rightarrow> Message list" where
  "preamble_messages pf d key =
     concat (map (member_messages pf d (preamble_candidates d key)) (the (map_of (preambles d) key)))"

definition fixed_family :: "Decoder \<Rightarrow> nat list \<Rightarrow> u8 list \<Rightarrow> string \<Rightarrow> bool" where
  "fixed_family d members key ascii \<longleftrightarrow>
     (members \<noteq> [] \<longrightarrow> map_of (preambles d) key = Some members \<and> key = preamble_bytes ascii)"

definition registry_ok :: "Decoder \<Rightarrow> bool" where
  "registry_ok d \<longleftrightarrow> distinct (map fst (preambles d)) \<and>
     (\<forall>(key, members)\<in>set (preambles d). binary key \<and> length key \<le> PreambleSymbols (Cfg d) \<and>
        (\<forall>i\<in>set members. i < length (parsers d))) \<and>
     fixed_family d (fixedIDMParsers d) (fixedIDMPreambleKey d) fixedIDMPreambleASCII \<and>
     fixed_family d (fixedR900Parsers d) (fixedR900PreambleKey d) fixedR900PreambleASCII"

text \<open>The packed window holds the decisions the search reads.\<close>

definition window_ready :: "Decoder \<Rightarrow> bool" where
  "window_ready d \<longleftrightarrow> packed d = packed_of (take (8 * length (packed d)) (decisions d)) \<and>
     8 * length (packed d) \<le> length (decisions d) \<and> 8 dvd SymbolLength (Cfg d) \<and>
     BlockSize (Cfg d) + PreambleSymbols (Cfg d) * SymbolLength (Cfg d) \<le> 8 * length (packed d)"

lemma preamble_positions_prefix:
  assumes "B + length key * S \<le> n" "n \<le> length w" "0 < S"
  shows "preamble_positions (take n w) B S key = preamble_positions w B S key"
  unfolding preamble_positions_def
proof (rule filter_cong [OF refl])
  fix q assume q: "q \<in> set [0..<B]"
  have "q + k * S < n" if "k < length key" for k
  proof -
    have "k * S + S \<le> length key * S" using that mult_le_mono1 [of "Suc k" "length key" S] by simp
    then show ?thesis using q assms by simp
  qed
  then show "preamble_at (take n w) S key q = preamble_at w S key q" by (simp add: preamble_at_def)
qed

lemma key_searchable:
  assumes "ring_ready d" "window_ready d" "registry_ok d" "(key, members) \<in> set (preambles d)"
  shows "searchable (Cfg d) (take (8 * length (packed d)) (decisions d)) key"
    "preamble_positions (take (8 * length (packed d)) (decisions d)) (BlockSize (Cfg d)) (SymbolLength (Cfg d)) key = preamble_candidates d key"
proof -
  let ?S = "SymbolLength (Cfg d)" and ?B = "BlockSize (Cfg d)" and ?w = "take (8 * length (packed d)) (decisions d)"
  have key: "binary key" "length key \<le> PreambleSymbols (Cfg d)" using assms(3,4) by (auto simp: registry_ok_def)
  have d: "binary (decisions d)" "8 dvd ?B" "0 < ?S" using assms(1) by (auto simp: ring_ready_def ring_inv_def)
  have w: "8 * length (packed d) \<le> length (decisions d)" "8 dvd ?S" "?B + PreambleSymbols (Cfg d) * ?S \<le> 8 * length (packed d)"
    using assms(2) by (auto simp: window_ready_def)
  have fit: "?B + length key * ?S \<le> 8 * length (packed d)"
    using w(3) mult_le_mono1 [OF key(2), of ?S] by linarith
  have "?B = 8 * (?B div 8)" "length key * ?S = 8 * (length key * (?S div 8))" using d(2) w(2) by auto
  then have "?B div 8 + length key * (?S div 8) \<le> length (packed d)" using fit by linarith
  then show "searchable (Cfg d) ?w key" using key(1) d w by (simp add: searchable_def binary_take)
  show "preamble_positions ?w ?B ?S key = preamble_candidates d key"
    unfolding preamble_candidates_def by (rule preamble_positions_prefix [OF fit w(1) d(3)])
qed

text \<open>The search of both fixed families together is specialised to one geometry.\<close>

definition dual_agrees :: "search_platform \<Rightarrow> bool" where
  "dual_agrees pf \<longleftrightarrow> (\<forall>bytes L idm r900. searchAlignedCandidates32DualFixedPlatform pf bytes L = Some (idm, r900) \<longrightarrow>
     L = 18 \<and>
     (\<forall>m. searchAlignedCandidates32Go 1024 bytes L (map sym_mask (preamble_bytes fixedIDMPreambleASCII)) = Inr m \<longrightarrow>
        idm = expandAlignedCandidates m) \<and>
     (\<forall>m. searchAlignedCandidates32Go 1024 bytes L (map sym_mask (preamble_bytes fixedR900PreambleASCII)) = Inr m \<longrightarrow>
        r900 = expandAlignedCandidates m))"

lemma generic_dual_agrees: "dual_agrees generic_platform"
  by (simp add: dual_agrees_def generic_platform_def)

definition decoder_ready :: "decoder_platform \<Rightarrow> Decoder \<Rightarrow> bool" where
  "decoder_ready pf d \<longleftrightarrow> served pf d \<and> window_ready d \<and> registry_ok d \<and>
     (SymbolLength (Cfg d) div 8 = 18 \<and> 32 \<le> PreambleSymbols (Cfg d) \<longrightarrow> BlockSize (Cfg d) = 8192)"

lemma candidates_in_block: "\<forall>q\<in>set (preamble_candidates d key). q \<le> BlockSize (Cfg d)"
  by (auto simp: preamble_candidates_def preamble_positions_def)

lemma serve_key:
  assumes "decoder_ready pf d" "(key, members) \<in> set (preambles d)"
  shows "serves pf d ms (parseCandidates pf (preamble_candidates d key) members d ms) (preamble_messages pf d key)"
proof -
  have r: "registry_ok d" "served pf d" using assms(1) by (simp_all add: decoder_ready_def)
  have m: "map_of (preambles d) key = Some members" using r(1) assms(2) by (simp add: registry_ok_def)
  have "\<forall>i\<in>set members. i < length (parsers d)" using r(1) assms(2) by (auto simp: registry_ok_def)
  then show ?thesis using parseCandidates_messages [OF r(2) candidates_in_block] m by (simp add: preamble_messages_def)
qed

lemma ready_serving:
  assumes "after_serving d d'" "decoder_ready pf d" "served pf d'"
  shows "decoder_ready pf d'"
  using assms(2,3) unfolding decoder_ready_def window_ready_def registry_ok_def fixed_family_def after_serving_same [OF assms(1)]
  by blast

lemma messages_serving:
  assumes "after_serving d d'" "registry_ok d" "key \<in> fst ` set (preambles d)"
  shows "preamble_messages pf d' key = preamble_messages pf d key"
proof -
  obtain members where m: "map_of (preambles d) key = Some members" "(key, members) \<in> set (preambles d)"
    using assms(2,3) by (force simp: registry_ok_def)
  then have "\<forall>i\<in>set members. i < length (parsers d)" using assms(2) by (auto simp: registry_ok_def)
  then have "concat (map (member_messages pf d' (preamble_candidates d key)) members) =
      concat (map (member_messages pf d (preamble_candidates d key)) members)"
    by (rule concat_member_messages [OF assms(1)])
  then show ?thesis using m(1)
    by (simp add: preamble_messages_def preamble_candidates_def after_serving_same [OF assms(1)])
qed

section \<open>Serving every preamble\<close>

lemma serves_ready:
  "serves pf d ms r added \<Longrightarrow> decoder_ready pf d \<Longrightarrow>
   \<exists>d'. r = Inr (d', ms @ added) \<and> after_serving d d' \<and> served pf d' \<and> decoder_ready pf d'"
  unfolding serves_def using ready_serving by blast

lemma search_key:
  assumes "leaves_agree (search_leaves pf)" "decoder_ready pf d" "(key, members) \<in> set (preambles d)"
  shows "searchPacked (search_leaves pf) d (packed d) [] key = Inr (preamble_candidates d key)"
proof -
  have r: "ring_ready d" "window_ready d" "registry_ok d" using assms(2) by (simp_all add: decoder_ready_def served_def)
  have "packed d = packed_of (take (8 * length (packed d)) (decisions d))" using r(2) by (simp add: window_ready_def)
  then show ?thesis
    using aligned_hits [OF assms(1) key_searchable(1) [OF r assms(3)]] key_searchable [OF r assms(3)] r(2)
    by (metis searchPacked_def window_ready_def dvd_imp_mod_0)
qed

definition skipped :: "Decoder \<Rightarrow> bool \<Rightarrow> u8 list \<Rightarrow> bool" where
  "skipped d dualFixed key \<longleftrightarrow> dualFixed \<and> (key = fixedIDMPreambleKey d \<or> key = fixedR900PreambleKey d)"

lemma serve_preamble_messages:
  assumes "leaves_agree (search_leaves pf)" "decoder_ready pf d" "key \<in> fst ` set (preambles d)"
  shows "serves pf d ms (serve_preamble pf dualFixed (d, ms) key) (if skipped d dualFixed key then [] else preamble_messages pf d key)"
proof (cases "skipped d dualFixed key")
  case True
  then show ?thesis using assms(2) after_serving_refl [of d]
    by (auto simp: serve_preamble_def skipped_def serves_def decoder_ready_def)
next
  case False
  obtain members where m: "(key, members) \<in> set (preambles d)" "map_of (preambles d) key = Some members"
    using assms(2,3) by (force simp: decoder_ready_def registry_ok_def)
  show ?thesis using False serve_key [OF assms(2) m(1), of ms] search_key [OF assms(1,2) m(1)] m(2)
    by (auto simp: serve_preamble_def skipped_def)
qed

lemma serve_preambles_messages:
  assumes "leaves_agree (search_leaves pf)" "decoder_ready pf d" "set keys \<subseteq> fst ` set (preambles d)"
  shows "serves pf d ms (fold_res (serve_preamble pf dualFixed) (d, ms) keys)
    (concat (map (preamble_messages pf d) (filter (\<lambda>key. \<not> skipped d dualFixed key) keys)))"
  using assms(2,3)
proof (induction keys arbitrary: d ms)
  case Nil
  then show ?case by (simp add: serves_def after_serving_refl decoder_ready_def)
next
  case (Cons key keys)
  let ?new = "if skipped d dualFixed key then [] else preamble_messages pf d key"
  obtain d' where d': "serve_preamble pf dualFixed (d, ms) key = Inr (d', ms @ ?new)" "after_serving d d'" "decoder_ready pf d'"
    using serves_ready [OF serve_preamble_messages [OF assms(1) Cons.prems(1), of key ms dualFixed] Cons.prems(1)] Cons.prems(2) by auto
  have same: "skipped d' dualFixed k = skipped d dualFixed k" for k by (simp add: skipped_def after_serving_same [OF d'(2)])
  have reg: "registry_ok d" "set keys \<subseteq> fst ` set (preambles d')" using Cons.prems by (auto simp: decoder_ready_def after_serving_same [OF d'(2)])
  have "map (preamble_messages pf d') (filter (\<lambda>k. \<not> skipped d' dualFixed k) keys) =
      map (preamble_messages pf d) (filter (\<lambda>k. \<not> skipped d dualFixed k) keys)"
    unfolding same by (rule map_cong [OF refl messages_serving [OF d'(2) reg(1)]]) (use Cons.prems(2) in auto)
  then have "serves pf d' (ms @ ?new) (fold_res (serve_preamble pf dualFixed) (d', ms @ ?new) keys)
      (concat (map (preamble_messages pf d) (filter (\<lambda>k. \<not> skipped d dualFixed k) keys)))"
    using Cons.IH [OF d'(3) reg(2), of "ms @ ?new"] by simp
  from serves_step [OF d'(2) this] show ?case using d'(1) by (cases "skipped d dualFixed key") simp_all
qed

lemma dual_hits:
  assumes "dual_agrees (search_leaves pf)" "decoder_ready pf d" "fixedIDMParsers d \<noteq> []" "fixedR900Parsers d \<noteq> []"
    and "searchAlignedCandidates32DualFixedPlatform (search_leaves pf) (packed d) (SymbolLength (Cfg d) div 8) = Some (idm, r900)"
  shows "idm = preamble_candidates d (fixedIDMPreambleKey d)" "r900 = preamble_candidates d (fixedR900PreambleKey d)"
proof -
  let ?L = "SymbolLength (Cfg d) div 8" and ?w = "take (8 * length (packed d)) (decisions d)"
  have r: "ring_ready d" "window_ready d" "registry_ok d" using assms(2) by (simp_all add: decoder_ready_def served_def)
  have k: "map_of (preambles d) (fixedIDMPreambleKey d) = Some (fixedIDMParsers d)" "fixedIDMPreambleKey d = preamble_bytes fixedIDMPreambleASCII"
      "map_of (preambles d) (fixedR900PreambleKey d) = Some (fixedR900Parsers d)" "fixedR900PreambleKey d = preamble_bytes fixedR900PreambleASCII"
    using r(3) assms(3,4) by (auto simp: registry_ok_def fixed_family_def)
  note k' = map_of_SomeD [OF k(1)] map_of_SomeD [OF k(3)]
  have len: "length (fixedIDMPreambleKey d) = 32" "length (fixedR900PreambleKey d) = 32"
    unfolding k(2,4) by (simp_all add: preamble_bytes_def fixedIDMPreambleASCII_def fixedR900PreambleASCII_def)
  have L: "?L = 18" using assms(1,5) by (auto simp: dual_agrees_def)
  have B: "BlockSize (Cfg d) div 8 = 1024"
  proof -
    have "32 \<le> PreambleSymbols (Cfg d)" using r(3) k'(1) len(1) by (fastforce simp: registry_ok_def)
    then show ?thesis using L assms(2) by (simp add: decoder_ready_def)
  qed
  have w: "packed d = packed_of ?w" using r(2) by (simp add: window_ready_def)
  obtain m where m: "searchAlignedCandidates32Go 1024 (packed_of ?w) ?L (map sym_mask (preamble_bytes fixedIDMPreambleASCII)) = Inr m"
      "expandAlignedCandidates m = preamble_candidates d (fixedIDMPreambleKey d)"
    using masks32_hits [OF key_searchable(1) [OF r k'(1)] len(1)] key_searchable(2) [OF r k'(1)] unfolding B k(2) by auto
  obtain m' where m': "searchAlignedCandidates32Go 1024 (packed_of ?w) ?L (map sym_mask (preamble_bytes fixedR900PreambleASCII)) = Inr m'"
      "expandAlignedCandidates m' = preamble_candidates d (fixedR900PreambleKey d)"
    using masks32_hits [OF key_searchable(1) [OF r k'(2)] len(2)] key_searchable(2) [OF r k'(2)] unfolding B k(4) by auto
  show "idm = preamble_candidates d (fixedIDMPreambleKey d)" "r900 = preamble_candidates d (fixedR900PreambleKey d)"
    using assms(1,5) m m' w unfolding dual_agrees_def by metis+
qed

text \<open>The fixed families served first, whatever the order of the others.\<close>

lemma dual_order:
  assumes "distinct keys" "fi \<in> set keys" "fr \<in> set keys" "fi \<noteq> fr"
  shows "mset (fi # fr # filter (\<lambda>k. \<not> (k = fi \<or> k = fr)) keys) = mset keys"
    "length keys = 2 \<Longrightarrow> mset [fi, fr] = mset keys"
proof -
  show "mset (fi # fr # filter (\<lambda>k. \<not> (k = fi \<or> k = fr)) keys) = mset keys"
    using assms by (subst set_eq_iff_mset_eq_distinct [symmetric]) auto
  assume "length keys = 2"
  then show "mset [fi, fr] = mset keys"
    using assms by (cases keys; cases "tl keys") (auto simp: add_mset_commute)
qed

lemma fixed_keys_differ: "preamble_bytes fixedIDMPreambleASCII \<noteq> preamble_bytes fixedR900PreambleASCII"
  by (simp add: preamble_bytes_def fixedIDMPreambleASCII_def fixedR900PreambleASCII_def)

lemma decodeQuantized_messages:
  assumes leaves: "leaves_agree (search_leaves pf)" "dual_agrees (search_leaves pf)"
    and d: "decoder_ready pf d" and keys: "mset keys = mset (map fst (preambles d))"
  shows "\<exists>keys'. mset keys' = mset keys \<and> serves pf d [] (decodeQuantized pf keys d) (concat (map (preamble_messages pf d) keys'))"
proof -
  have reg: "registry_ok d" using d by (simp add: decoder_ready_def)
  have sub: "set keys \<subseteq> fst ` set (preambles d)" using keys by (metis image_set order_refl set_mset_mset)
  have dist: "distinct keys" "length keys = length (preambles d)"
    using mset_eq_imp_distinct_iff [OF keys] mset_eq_length [OF keys] d by (simp_all add: decoder_ready_def registry_ok_def)
  show ?thesis
  proof (cases "if fixedIDMParsers d \<noteq> [] \<and> fixedR900Parsers d \<noteq> []
      then searchAlignedCandidates32DualFixedPlatform (search_leaves pf) (packed d) (SymbolLength (Cfg d) div 8) else None")
    case None
    then have "decodeQuantized pf keys d = fold_res (serve_preamble pf False) (d, []) keys"
      unfolding decodeQuantized_def Let_def by simp
    then show ?thesis using serve_preambles_messages [OF leaves(1) d sub, of "[]" False]
      by (intro exI [of _ keys]) (simp add: skipped_def)
  next
    case (Some ir)
    obtain idm r900 where ir: "ir = (idm, r900)" by (cases ir)
    let ?fi = "fixedIDMPreambleKey d" and ?fr = "fixedR900PreambleKey d" and ?m = "preamble_messages pf d"
    have f: "fixedIDMParsers d \<noteq> []" "fixedR900Parsers d \<noteq> []"
        "searchAlignedCandidates32DualFixedPlatform (search_leaves pf) (packed d) (SymbolLength (Cfg d) div 8) = Some (idm, r900)"
      using Some unfolding ir by (auto split: if_splits)
    note hits = dual_hits [OF leaves(2) d f]
    have k: "map_of (preambles d) ?fi = Some (fixedIDMParsers d)" "map_of (preambles d) ?fr = Some (fixedR900Parsers d)" "?fi \<noteq> ?fr"
      using d f fixed_keys_differ by (auto simp: decoder_ready_def registry_ok_def fixed_family_def)
    note k' = map_of_SomeD [OF k(1)] map_of_SomeD [OF k(2)]
    obtain d1 where d1: "parseCandidates pf idm (fixedIDMParsers d) d [] = Inr (d1, ?m ?fi)" "after_serving d d1" "decoder_ready pf d1"
      using serves_ready [OF serve_key [OF d k'(1), of "[]"] d] unfolding hits by auto
    have s1: "preamble_candidates d1 ?fr = preamble_candidates d ?fr" "preambles d1 = preambles d"
      by (simp_all add: preamble_candidates_def after_serving_same [OF d1(2)])
    have m1: "preamble_messages pf d1 key = ?m key" if "key \<in> set keys" for key
      using messages_serving [OF d1(2) reg] sub that by blast
    have in_keys: "?fi \<in> set keys" "?fr \<in> set keys" using keys k' by (metis fst_conv image_eqI image_set set_mset_mset)+
    obtain d2 where d2: "parseCandidates pf r900 (fixedR900Parsers d) d1 (?m ?fi) = Inr (d2, ?m ?fi @ ?m ?fr)" "after_serving d1 d2" "decoder_ready pf d2"
      using serves_ready [OF serve_key [OF d1(3), of ?fr "fixedR900Parsers d" "?m ?fi"] d1(3)] k'(2) m1 [OF in_keys(2)] unfolding hits s1 by auto
    note s2 = after_serving_trans [OF d1(2) d2(2)]
    have m2: "preamble_messages pf d2 key = ?m key" if "key \<in> set keys" for key
      using messages_serving [OF s2 reg] sub that by blast
    have sub2: "set keys \<subseteq> fst ` set (preambles d2)" using sub by (simp add: after_serving_same [OF s2])
    have run: "decodeQuantized pf keys d =
        (if length (preambles d2) = 2 then Inr (d2, ?m ?fi @ ?m ?fr) else fold_res (serve_preamble pf True) (d2, ?m ?fi @ ?m ?fr) keys)"
      unfolding decodeQuantized_def Let_def Some ir using d1(1) d2(1) by (simp add: after_serving_same(9) [OF d1(2)])
    have rest: "map (preamble_messages pf d2) (filter (\<lambda>key. \<not> skipped d2 True key) keys) = map ?m (filter (\<lambda>k. \<not> (k = ?fi \<or> k = ?fr)) keys)"
      using m2 by (auto simp: skipped_def after_serving_same [OF s2])
    show ?thesis
    proof (cases "length (preambles d2) = 2")
      case True
      then show ?thesis using dual_order(2) [OF dist(1) in_keys k(3)] dist(2) run s2 d2(3)
        by (intro exI [of _ "[?fi, ?fr]"]) (simp add: serves_def decoder_ready_def after_serving_same [OF s2])
    next
      case False
      have "serves pf d [] (decodeQuantized pf keys d) ((?m ?fi @ ?m ?fr) @ concat (map ?m (filter (\<lambda>k. \<not> (k = ?fi \<or> k = ?fr)) keys)))"
        using serves_step [OF s2, of pf "[]" "?m ?fi @ ?m ?fr"] serve_preambles_messages [OF leaves(1) d2(3) sub2, of "?m ?fi @ ?m ?fr" True] run False
        unfolding rest by simp
      then show ?thesis using dual_order(1) [OF dist(1) in_keys k(3)]
        by (intro exI [of _ "?fi # ?fr # filter (\<lambda>k. \<not> (k = ?fi \<or> k = ?fr)) keys"]) simp
    qed
  qed
qed


end
