(* ===== verification/DecodeFront.thy ===== *)
theory DecodeFront
  imports DecodeRun
begin

text \<open>
  The three front ends of \<open>Decode\<close> against an abstract view of the decoder: the stream of decisions and
  the stream of samples, of which the last buffer length is retained. Every front end is one step of the
  view, and what the parsers report is a function of the view.
\<close>

section \<open>The leaves\<close>

text \<open>What the start-up self tests check of the native producers: they answer as the portable code does.\<close>

definition run_agrees :: "run_leaf \<Rightarrow> bool" where
  "run_agrees run \<longleftrightarrow> (\<forall>n window input r. power16ReferenceBlock n window input = Inr (Some r) \<longrightarrow> run n window input = Some r)"

definition packed_agrees :: "packed_leaf \<Rightarrow> bool" where
  "packed_agrees runPacked \<longleftrightarrow> (\<forall>n window input decs w. power16ReferenceBlock n window input = Inr (Some (decs, w)) \<longrightarrow>
     runPacked n (n div 8) window input = Some (decs, packed_of decs, w))"

definition signal_agrees :: "signal_platform \<Rightarrow> bool" where
  "signal_agrees pf \<longleftrightarrow>
     (magnitudeLUTA72Available pf \<longrightarrow> (\<forall>input lut out.
        magnitudeLUTGo input (length input div 2) lut = Inr out \<longrightarrow> magnitudeLUTA72Platform pf input lut = Inr out)) \<and>
     (\<forall>chip input n out out'. filterManchesterA72Platform pf input n chip = Some out \<longrightarrow>
        Filter_signal generic_signal_platform chip input n = Inr out' \<longrightarrow> out = out')"

lemma generic_signal_agrees: "signal_agrees generic_signal_platform"
  by (simp add: signal_agrees_def generic_signal_platform_def)

section \<open>The float path\<close>

definition magnitude :: "u8 list \<Rightarrow> nat \<Rightarrow> f64" where
  "magnitude input k = fadd (NewMagLUT ! unat (input ! (2 * k))) (NewMagLUT ! unat (input ! (2 * k + 1)))"

definition magnitudes :: "u8 list \<Rightarrow> f64 list" where
  "magnitudes input = map (magnitude input) [0..<length input div 2]"

lemma length_magnitudes [simp]: "length (magnitudes input) = length input div 2"
  by (simp add: magnitudes_def)

lemma length_NewMagLUT [simp]: "length NewMagLUT = 256"
  by (simp add: NewMagLUT_def)

lemma magnitudeLUTGo_ok:
  assumes "2 * n \<le> length input"
  shows "magnitudeLUTGo input n NewMagLUT = Inr (map (magnitude input) [0..<n])"
  using assms by (cases n) (auto simp: magnitudeLUTGo_def index_res_def magnitude_def)

lemma Execute_ok:
  assumes "signal_agrees pf" "length input = 2 * n"
  shows "MagLUT_Execute pf NewMagLUT input n = Inr (magnitudes input)"
proof (cases "n = 0")
  case False
  let ?bulk = "if magnitudeLUTA72Available pf then n - n mod 8 else 0"
  have bulk: "?bulk \<le> n" by simp
  have native: "(if ?bulk = 0 then Inr [] else magnitudeLUTA72Platform pf (take (?bulk * 2) input) NewMagLUT) =
      Inr (map (magnitude input) [0..<?bulk])"
  proof (cases "?bulk = 0")
    case nz: False
    then have "magnitudeLUTA72Available pf" by (auto split: if_splits)
    moreover have "magnitudeLUTGo (take (?bulk * 2) input) (length (take (?bulk * 2) input) div 2) NewMagLUT = Inr (map (magnitude input) [0..<?bulk])"
      using bulk assms(2) by (subst magnitudeLUTGo_ok) (auto simp: magnitude_def min_def)
    ultimately show ?thesis using assms(1) nz by (auto simp: signal_agrees_def)
  qed simp
  have rest: "magnitudeLUTGo (drop (?bulk * 2) input) (n - ?bulk) NewMagLUT = Inr (map (magnitude input) [?bulk..<n])"
  proof -
    have "map (magnitude (drop (?bulk * 2) input)) [0..<n - ?bulk] = map (magnitude input) [?bulk..<n]"
      using bulk assms(2) by (intro nth_equalityI) (auto simp: magnitude_def algebra_simps)
    then show ?thesis using bulk assms(2) by (subst magnitudeLUTGo_ok) auto
  qed
  have "[0..<?bulk] @ [?bulk..<n] = [0..<n]" using upt_add_eq_append [of 0 ?bulk "n - ?bulk"] bulk by simp
  then have "map (magnitude input) [0..<?bulk] @ map (magnitude input) [?bulk..<n] = magnitudes input"
    using assms(2) by (simp add: magnitudes_def flip: map_append)
  then show ?thesis using False assms(2) native rest
    unfolding MagLUT_Execute_def Let_def by (simp add: index_res_def)
qed (use assms in \<open>simp add: MagLUT_Execute_def magnitudes_def\<close>)

definition float_decisions :: "nat \<Rightarrow> f64 list \<Rightarrow> nat \<Rightarrow> u8 list" where
  "float_decisions chip w n =
     manchester_steps (sub w 0 n) (sub w chip (chip + n)) (sub w (chip * 2) (chip * 2 + n)) 0 n
       (foldl fadd (Fin 0) (take chip w)) (foldl fadd (Fin 0) (sub w chip (2 * chip)))"

lemma manchester_steps_binary:
  "length (manchester_steps l m u i n a b) = n" "binary (manchester_steps l m u i n a b)"
  by (induction n arbitrary: i a b) (simp_all add: binary_def sign_decision_def)

lemma float_decisions_binary [simp]: "length (float_decisions chip w n) = n" "binary (float_decisions chip w n)"
  by (simp_all add: float_decisions_def manchester_steps_binary)

lemma Filter_ok:
  assumes "signal_agrees pf" "length w = n + 2 * chip"
  shows "Filter_signal pf chip w n = Inr (float_decisions chip w n)"
proof -
  have go: "Filter_signal generic_signal_platform chip w n = Inr (float_decisions chip w n)"
    using assms(2) by (simp add: Filter_signal_def generic_signal_platform_def float_decisions_def filterManchester_def Let_def)
  show ?thesis
  proof (cases "filterManchesterA72Platform pf w n chip")
    case None
    then show ?thesis using go by (simp add: Filter_signal_def generic_signal_platform_def)
  next
    case (Some out)
    then have "out = float_decisions chip w n" using assms(1) go unfolding signal_agrees_def by blast
    then show ?thesis using Some by (simp add: Filter_signal_def)
  qed
qed

section \<open>The end of the sample history\<close>

text \<open>The last samples: one symbol of the past and the block.\<close>

definition recent :: "PacketConfig \<Rightarrow> 'a list \<Rightarrow> 'a list" where
  "recent c v = drop (length v - (BlockSize c + SymbolLength c)) v"

lemma hist_view_end:
  assumes "hist_inv c h" "i < BlockSize c"
  shows "BufferLength c - BlockSize c + i < BufferLength c"
    "hist_view c h ! (BufferLength c - BlockSize c + i) = backing h ! (block h * blockStride h + historyOverlap h + i)"
proof -
  let ?B = "BlockSize c" and ?n = "blockCount h"
  have i: "2 \<le> ?n" "block h < ?n" "gap h < ?B" "gap h + BufferLength c = ?n * ?B"
    using assms(1) by (auto simp: hist_inv_def)
  have "2 * ?B \<le> ?n * ?B" using i(1) by (rule mult_le_mono1)
  then have le: "?B \<le> BufferLength c" using i(3,4) by linarith
  then show lt: "BufferLength c - ?B + i < BufferLength c" using assms(2) by linarith
  have "?n * ?B = (?n - 1) * ?B + ?B" using i(1) by (cases ?n) simp_all
  then have p: "gap h + (BufferLength c - ?B + i) = (?n - 1) * ?B + i" using i(4) le by linarith
  have "wrap ?n (block h + 1 + (?n - 1)) = block h" using i(1,2) by (simp add: wrap_def)
  then show "hist_view c h ! (BufferLength c - ?B + i) = backing h ! (block h * blockStride h + historyOverlap h + i)"
    using lt assms(2) unfolding hist_view_def hist_at_def by (simp add: p)
qed

lemma hist_view_past:
  assumes "hist_inv c h" "i < S" "S \<le> historyOverlap h" "BlockSize c + S \<le> BufferLength c"
  shows "hist_view c h ! (BufferLength c - (BlockSize c + S) + i) = backing h ! (block h * blockStride h + (historyOverlap h - S) + i)"
proof -
  let ?B = "BlockSize c" and ?n = "blockCount h" and ?o = "historyOverlap h" and ?s = "blockStride h"
  have i: "2 \<le> ?n" "block h < ?n" "gap h < ?B" "gap h + BufferLength c = ?n * ?B" "?o \<le> ?B"
    using assms(1) by (auto simp: hist_inv_def)
  define prev where "prev = (if block h = 0 then ?n - 1 else block h - 1)"
  have prev: "prev < ?n" "prev \<noteq> block h" "(if prev + 1 = ?n then 0 else prev + 1) = block h"
    using i(1,2) by (auto simp: prev_def)
  have lt: "BufferLength c - (?B + S) + i < BufferLength c" using assms(2,4) by linarith
  have r: "?B - S + i < ?B" using assms(2,3) i(5) by linarith
  have "?n * ?B = (?n - 2) * ?B + 2 * ?B" using i(1) by (metis add_mult_distrib le_add_diff_inverse2)
  then have p: "gap h + (BufferLength c - (?B + S) + i) = (?n - 2) * ?B + (?B - S + i)" using i(4,5) assms(3,4) by linarith
  have q: "((?n - 2) * ?B + (?B - S + i)) div ?B = ?n - 2" "((?n - 2) * ?B + (?B - S + i)) mod ?B = ?B - S + i" using r by simp_all
  have "wrap ?n (block h + 1 + (?n - 2)) = prev" using i(1,2) by (auto simp: wrap_def prev_def)
  then have "hist_view c h ! (BufferLength c - (?B + S) + i) = backing h ! (prev * ?s + ?o + (?B - S + i))"
    using lt r unfolding hist_view_def hist_at_def by (simp add: p q)
  moreover have "backing h ! (block h * ?s + (?o - S + i)) = backing h ! (prev * ?s + ?B + (?o - S + i))"
  proof -
    have copies: "\<forall>k < ?n. k \<noteq> block h \<longrightarrow> (\<forall>i < ?o. backing h ! ((if k + 1 = ?n then 0 else k + 1) * ?s + i) = backing h ! (k * ?s + ?B + i))"
      using assms(1) unfolding hist_inv_def by blast
    have "?o - S + i < ?o" using assms(2,3) by linarith
    then show ?thesis using copies [rule_format, OF prev(1,2)] unfolding prev(3) by blast
  qed
  ultimately show ?thesis using assms(2,3) i(5) by (simp add: algebra_simps)
qed

lemma hist_recent:
  assumes "hist_inv c h" "SymbolLength c \<le> historyOverlap h" "BlockSize c + SymbolLength c \<le> BufferLength c"
  shows "sub (backing h) (block h * blockStride h + historyOverlap h - SymbolLength c) (block h * blockStride h + blockStride h) =
    recent c (hist_view c h)"
proof (rule nth_equalityI)
  let ?B = "BlockSize c" and ?S = "SymbolLength c" and ?o = "historyOverlap h" and ?s = "blockStride h" and ?b = "block h"
  have i: "?b < blockCount h" "length (backing h) = blockCount h * ?s" "?s = ?B + ?o" using assms(1) by (auto simp: hist_inv_def)
  have "Suc ?b * ?s \<le> blockCount h * ?s" using i(1) by (intro mult_le_mono1) simp
  then have fit: "?b * ?s + ?s \<le> length (backing h)" using i(2) by simp
  then show len: "length (sub (backing h) (?b * ?s + ?o - ?S) (?b * ?s + ?s)) = length (recent c (hist_view c h))"
    using assms(2,3) i(3) by (simp add: recent_def)
  fix k assume "k < length (sub (backing h) (?b * ?s + ?o - ?S) (?b * ?s + ?s))"
  then have k: "k < ?B + ?S" using len assms(3) by (simp add: recent_def)
  have l: "sub (backing h) (?b * ?s + ?o - ?S) (?b * ?s + ?s) ! k = backing h ! (?b * ?s + (?o - ?S) + k)"
    using k fit i(3) assms(2) by (subst nth_sub) simp_all
  have r: "recent c (hist_view c h) ! k = hist_view c h ! (BufferLength c - (?B + ?S) + k)" using assms(3) by (simp add: recent_def)
  show "sub (backing h) (?b * ?s + ?o - ?S) (?b * ?s + ?s) ! k = recent c (hist_view c h) ! k"
  proof (cases "k < ?S")
    case True
    then show ?thesis unfolding l r using hist_view_past [OF assms(1) True assms(2,3)] by simp
  next
    case False
    then have "BufferLength c - (?B + ?S) + k = BufferLength c - ?B + (k - ?S)" "?b * ?s + (?o - ?S) + k = ?b * ?s + ?o + (k - ?S)"
      using assms(2,3) by linarith+
    then show ?thesis unfolding l r using hist_view_end(2) [OF assms(1), of "k - ?S"] k False by simp
  qed
qed


section \<open>The abstract decoder\<close>

record stream_view =
  v_decisions :: "u8 list"
  v_powers :: "u16 list"
  v_magnitudes :: "f64 list"

text \<open>One block: the samples slide in, and the decisions of the block, taken from the recent samples,
  slide in.\<close>

definition view_step :: "PacketConfig \<Rightarrow> bool \<Rightarrow> stream_view \<Rightarrow> u8 list \<Rightarrow> stream_view" where
  "view_step c integer v input =
     (let ps = drop (BlockSize c) (v_powers v) @ powers input;
          ms = drop (BlockSize c) (v_magnitudes v) @ magnitudes input;
          decs = (if integer then map (decides (recent c ps) (ChipLength c)) [0..<BlockSize c]
                  else float_decisions (ChipLength c) (recent c ms) (BlockSize c))
      in \<lparr>v_decisions = drop (BlockSize c) (v_decisions v) @ decs,
          v_powers = (if integer then ps else []), v_magnitudes = (if integer then [] else ms)\<rparr>)"

definition view_symbol :: "PacketConfig \<Rightarrow> bool \<Rightarrow> stream_view \<Rightarrow> nat \<Rightarrow> u8" where
  "view_symbol c integer v idx =
     (if integer then exact_symbol (sub (v_powers v) idx (idx + 4 * ChipLength c)) (ChipLength c)
      else case quantize_float_window (sub (v_magnitudes v) idx (idx + 4 * ChipLength c)) (ChipLength c) of
             Inr s \<Rightarrow> s | Inl _ \<Rightarrow> 0)"

definition view_messages :: "PacketConfig \<Rightarrow> bool \<Rightarrow> stream_view \<Rightarrow> AnyParser list \<Rightarrow> (u8 list \<times> nat list) list \<Rightarrow> u8 list \<Rightarrow> Message list" where
  "view_messages c integer v ps table key =
     concat (map (\<lambda>i. parser_messages c (v_decisions v) (view_symbol c integer v)
         (preamble_positions (v_decisions v) (BlockSize c) (SymbolLength c) key) (ps ! i))
       (the (map_of table key)))"

section \<open>The invariant of the samples\<close>

abbreviation needs_history :: "Decoder \<Rightarrow> bool" where
  "needs_history d \<equiv> list_ex consumesPower16 (parsers d)"

definition history_ok :: "PacketConfig \<Rightarrow> bool \<Rightarrow> 'a Hist \<Rightarrow> bool" where
  "history_ok c needs h \<longleftrightarrow> hist_inv c h \<and> SymbolLength c \<le> historyOverlap h \<and> (needs \<longrightarrow> 4 * ChipLength c \<le> historyOverlap h)"

definition integer_ok :: "Decoder \<Rightarrow> power16State \<Rightarrow> bool" where
  "integer_ok d st \<longleftrightarrow> ChipLength (Cfg d) = power16ChipLength \<and> BlockSize (Cfg d) = power16BlockSize \<and>
     history_ok (Cfg d) (needs_history d) (p_hist st) \<and>
     (case p_runPacked st of
        None \<Rightarrow> run_agrees (p_run st)
      | Some runPacked \<Rightarrow> packed_agrees runPacked \<and> packed_inv (Cfg d) (p_packed st) \<and> quantizedAliased d \<and>
          packed_decisions (p_packed st) = packed_of (decisions d) \<and> packed d = packedSearchWindow (p_packed st))"

definition float_ok :: "Decoder \<Rightarrow> bool" where
  "float_ok d \<longleftrightarrow> demod d = NewMagLUT \<and>
     (case signalHist d of
        None \<Rightarrow> \<not> needs_history d \<and> length (shortSignal d) = BlockSize (Cfg d) + SymbolLength (Cfg d)
      | Some h \<Rightarrow> history_ok (Cfg d) (needs_history d) h)"

definition samples_ok :: "Decoder \<Rightarrow> bool" where
  "samples_ok d \<longleftrightarrow> SymbolLength (Cfg d) = 2 * ChipLength (Cfg d) \<and> BlockSize2 (Cfg d) = 2 * BlockSize (Cfg d) \<and>
     BlockSize (Cfg d) + SymbolLength (Cfg d) \<le> BufferLength (Cfg d) \<and> ChipLength (Cfg d) \<le> 8191 \<and>
     (needs_history d \<longrightarrow> payload_in_history (Cfg d)) \<and>
     (case power16 d of Some st \<Rightarrow> integer_ok d st | None \<Rightarrow> float_ok d)"

definition powers_of :: "Decoder \<Rightarrow> u16 list" where
  "powers_of d = (case power16 d of Some st \<Rightarrow> hist_view (Cfg d) (p_hist st) | None \<Rightarrow> [])"

definition magnitudes_of :: "Decoder \<Rightarrow> f64 list" where
  "magnitudes_of d =
     (case power16 d of
        Some st \<Rightarrow> []
      | None \<Rightarrow> (case signalHist d of Some h \<Rightarrow> hist_view (Cfg d) h | None \<Rightarrow> shortSignal d))"

definition view_of :: "Decoder \<Rightarrow> stream_view" where
  "view_of d = \<lparr>v_decisions = decisions d, v_powers = powers_of d, v_magnitudes = magnitudes_of d\<rparr>"

abbreviation integer :: "Decoder \<Rightarrow> bool" where
  "integer d \<equiv> power16 d \<noteq> None"

lemma quantize_float_window_ok: "4 * chip \<le> length w \<Longrightarrow> \<exists>s. quantize_float_window w chip = Inr s"
  by (simp add: quantize_float_window_def Let_def)

lemma decoder_quantize_view:
  assumes d: "samples_ok d" "needs_history d" and leaf: "leaf_agrees (quantizer_leaf pf)"
    and idx: "idx < BufferLength (Cfg d)" "idx + 4 * ChipLength (Cfg d) \<le> BufferLength (Cfg d)"
  shows "decoder_quantize pf d idx = Inr (view_symbol (Cfg d) (integer d) (view_of d) idx)"
proof (cases "power16 d")
  case (Some st)
  let ?c = "Cfg d"
  let ?w = "sub (hist_view ?c (p_hist st)) idx (idx + 4 * ChipLength ?c)"
  have h: "hist_inv ?c (p_hist st)" "4 * ChipLength ?c \<le> historyOverlap (p_hist st)" "ChipLength ?c \<le> 8191"
    using d Some by (auto simp: samples_ok_def integer_ok_def history_ok_def)
  have "dec_Power16Window d (int idx) (int (ChipLength ?c * 4)) = Inr ?w"
    using hist_slice_view [OF h(1) idx h(2)] h(2) idx Some
    by (simp add: dec_Power16Window_def Power16Window_def mult.commute del: of_nat_mult)
  moreover have "quantizePower16Window (quantizer_leaf pf) ?w (ChipLength ?c) = Inr (exact_symbol ?w (ChipLength ?c))"
    using idx by (intro quantizePower16Window_exact [OF leaf h(3)]) simp
  ultimately show ?thesis using Some
    by (simp add: decoder_quantize_def quantizeSignalAt_def quantizePower16At_def view_symbol_def view_of_def powers_of_def)
next
  case None
  let ?c = "Cfg d"
  obtain h where h: "signalHist d = Some h" "hist_inv ?c h" "4 * ChipLength ?c \<le> historyOverlap h"
    using d None by (auto simp: samples_ok_def float_ok_def history_ok_def split: option.splits)
  let ?w = "sub (hist_view ?c h) idx (idx + 4 * ChipLength ?c)"
  have "dec_SignalWindow d idx (ChipLength ?c * 4) = Inr ?w"
    using hist_slice_view [OF h(2) idx h(3)] h(1,3) by (simp add: dec_SignalWindow_def SignalWindow_def mult.commute)
  moreover obtain s where "quantize_float_window ?w (ChipLength ?c) = Inr s"
    using quantize_float_window_ok [of "ChipLength ?c" ?w] idx by auto
  ultimately show ?thesis using None h(1)
    by (simp add: decoder_quantize_def quantizeSignalAt_def view_symbol_def view_of_def magnitudes_of_def)
qed

lemma history_ready_view:
  assumes "samples_ok d" "needs_history d" "leaf_agrees (quantizer_leaf pf)"
  shows "history_ready pf d"
  using decoder_quantize_view [OF assms] assms(1,2) by (auto simp: history_ready_def samples_ok_def)


section \<open>What the parsers report is a function of the view\<close>

lemma candidate_symbols_cong:
  assumes "quantizes quantize c q indices" "quantizes quantize c q' indices"
  shows "candidate_symbols c q indices = candidate_symbols c q' indices"
proof -
  have "symbols_at q (ChipLength c) (payload_start c i) 21 = symbols_at q' (ChipLength c) (payload_start c i) 21"
    if i: "i \<in> set (takeWhile (\<lambda>i. i \<le> BlockSize c) indices)" for i
  proof -
    have eq: "q (payload_start c i + k * (ChipLength c * 4)) = q' (payload_start c i + k * (ChipLength c * 4))" if "k < 42" for k
      using assms i that unfolding quantizes_def by (metis sum.inject(2))
    have "q (payload_start c i + k * (ChipLength c * 8)) = q' (payload_start c i + k * (ChipLength c * 8))"
        "q (payload_start c i + k * (ChipLength c * 8) + ChipLength c * 4) = q' (payload_start c i + k * (ChipLength c * 8) + ChipLength c * 4)"
      if "k < 21" for k
      using eq [of "2 * k"] eq [of "2 * k + 1"] that by (simp_all add: algebra_simps)
    then show ?thesis by (simp add: symbols_at_def)
  qed
  then show ?thesis by (simp add: candidate_symbols_def)
qed

lemma quantizes_view:
  assumes d: "samples_ok d" "needs_history d" "leaf_agrees (quantizer_leaf pf)" "served pf d" "\<forall>q\<in>set indices. q \<le> BlockSize (Cfg d)"
  shows "quantizes (decoder_quantize pf d) (Cfg d) (view_symbol (Cfg d) (integer d) (view_of d)) indices"
    "quantizes (decoder_quantize pf d) (Cfg d) (quantized_symbol pf d) indices"
proof -
  let ?c = "Cfg d"
  have b: "BufferLength ?c = PacketConfig.PacketLength ?c + BlockSize ?c" "0 < ChipLength ?c" using d(4) by (simp_all add: served_def)
  show q: "quantizes (decoder_quantize pf d) ?c (quantized_symbol pf d) indices"
    by (rule quantizes_history [OF history_ready_view [OF d(1-3)] d(5) b])
  have p: "payload_in_history ?c" using d(1,2) by (simp add: samples_ok_def)
  show "quantizes (decoder_quantize pf d) ?c (view_symbol ?c (integer d) (view_of d)) indices"
    unfolding quantizes_def
  proof (intro ballI allI impI)
    fix i k :: nat
    assume i: "i \<in> set (takeWhile (\<lambda>i. i \<le> BlockSize ?c) indices)" and k: "k < 42"
    have "payload_start ?c i + k * (ChipLength ?c * 4) + 4 * ChipLength ?c \<le> BufferLength ?c"
      by (rule payload_fits [OF p b(1) _ k]) (use i in \<open>auto dest: set_takeWhileD\<close>)
    then show "decoder_quantize pf d (payload_start ?c i + k * (ChipLength ?c * 4)) =
        Inr (view_symbol ?c (integer d) (view_of d) (payload_start ?c i + k * (ChipLength ?c * 4)))"
      using b(2) by (intro decoder_quantize_view [OF d(1-3)]) simp_all
  qed
qed

lemma parser_messages_cong:
  "(consumesPower16 p \<longrightarrow> candidate_symbols c q indices = candidate_symbols c q' indices) \<Longrightarrow>
   parser_messages c w q indices p = parser_messages c w q' indices p"
  by (cases p) (simp_all add: r900_readings_def)

lemma preamble_messages_view:
  assumes d: "samples_ok d" "served pf d" "registry_ok d" and leaf: "leaf_agrees (quantizer_leaf pf)" and key: "key \<in> fst ` set (preambles d)"
  shows "preamble_messages pf d key = view_messages (Cfg d) (integer d) (view_of d) (parsers d) (preambles d) key"
proof -
  obtain members where m: "map_of (preambles d) key = Some members" "\<forall>i\<in>set members. i < length (parsers d)"
    using d(3) key by (force simp: registry_ok_def)
  have "member_messages pf d (preamble_candidates d key) i =
      parser_messages (Cfg d) (decisions d) (view_symbol (Cfg d) (integer d) (view_of d)) (preamble_candidates d key) (parsers d ! i)"
    if i: "i \<in> set members" for i
    unfolding member_messages_def
  proof (rule parser_messages_cong, rule impI)
    assume "consumesPower16 (parsers d ! i)"
    then have "needs_history d" using i m(2) by (auto simp: list_ex_length)
    from quantizes_view [OF d(1) this leaf d(2) candidates_in_block]
    show "candidate_symbols (Cfg d) (quantized_symbol pf d) (preamble_candidates d key) =
        candidate_symbols (Cfg d) (view_symbol (Cfg d) (integer d) (view_of d)) (preamble_candidates d key)"
      by (intro candidate_symbols_cong)
  qed
  then show ?thesis using m(1)
    by (simp add: preamble_messages_def view_messages_def preamble_candidates_def view_of_def cong: map_cong)
qed

section \<open>Advancing the decisions\<close>

lemma ring_other [simp]:
  "decisions (d\<lparr>power16 := a\<rparr>) = decisions d" "ring_inv c (d\<lparr>power16 := a\<rparr>) = ring_inv c d"
  "decisions (d\<lparr>packed := b\<rparr>) = decisions d" "ring_inv c (d\<lparr>packed := b\<rparr>) = ring_inv c d"
  "decisions (d\<lparr>shortSignal := s\<rparr>) = decisions d" "ring_inv c (d\<lparr>shortSignal := s\<rparr>) = ring_inv c d"
  "decisions (d\<lparr>signalHist := h\<rparr>) = decisions d" "ring_inv c (d\<lparr>signalHist := h\<rparr>) = ring_inv c d"
  by (simp_all add: decisions_def Quantized_def ring_inv_def)

definition advance :: "Decoder \<Rightarrow> u8 list \<Rightarrow> Decoder res" where
  "advance d decs =
     bind_res (appendQuantized d decs) (\<lambda>d.
     if packs_directly d then Inr d
     else bind_res (packQuantizedRing (length (packed d)) (Quantized d) (quantizedStart d)) (\<lambda>bytes.
       Inr (d\<lparr>packed := bytes\<rparr>)))"

lemma decodeFiltered_advance: "decodeFiltered pf keys d decs = bind_res (advance d decs) (decodeQuantized pf keys)"
  by (cases "appendQuantized d decs")
    (simp_all add: decodeFiltered_def advance_def, cases "packQuantizedRing (length (packed (projr (appendQuantized d decs))))
        (Quantized (projr (appendQuantized d decs))) (quantizedStart (projr (appendQuantized d decs)))", simp_all)

text \<open>What no front end changes, and what advancing the decisions does not change besides.\<close>

definition frame :: "Decoder \<Rightarrow> Decoder \<Rightarrow> bool" where
  "frame d d' \<longleftrightarrow> Cfg d' = Cfg d \<and> parsers d' = parsers d \<and> preambles d' = preambles d \<and> pkt d' = pkt d \<and>
     quantizedAliased d' = quantizedAliased d \<and> demod d' = demod d \<and> integer d' = integer d \<and>
     fixedIDMParsers d' = fixedIDMParsers d \<and> fixedR900Parsers d' = fixedR900Parsers d \<and>
     fixedIDMPreambleKey d' = fixedIDMPreambleKey d \<and> fixedR900PreambleKey d' = fixedR900PreambleKey d"

definition same_samples :: "Decoder \<Rightarrow> Decoder \<Rightarrow> bool" where
  "same_samples d d' \<longleftrightarrow> power16 d' = power16 d \<and> signalHist d' = signalHist d \<and> shortSignal d' = shortSignal d"

lemma frame_trans: "frame d d' \<Longrightarrow> frame d' d'' \<Longrightarrow> frame d d''"
  by (simp add: frame_def)

lemma appendQuantized_frame:
  assumes "appendQuantized d decs = Inr d'"
  shows "frame d d' \<and> same_samples d d' \<and> packed d' = packed d"
proof -
  obtain s q where "d' = set_Quantized (d\<lparr>quantizedStart := s\<rparr>) q"
    using assms unfolding appendQuantized_def Let_def by (auto split: if_splits)
  then show ?thesis by (simp add: set_Quantized_def frame_def same_samples_def)
qed

lemma advance_ok:
  assumes inv: "ring_inv (Cfg d) d" and bin: "binary (decisions d)" and decs: "length decs = BlockSize (Cfg d)" "binary decs"
    and direct: "\<not> packs_directly d" and len: "8 * length (packed d) \<le> length (decisions d)"
  shows "\<exists>d'. advance d decs = Inr d' \<and> frame d d' \<and> same_samples d d' \<and> ring_inv (Cfg d) d' \<and>
    decisions d' = drop (BlockSize (Cfg d)) (decisions d) @ decs \<and> binary (decisions d') \<and>
    packed d' = packed_of (take (8 * length (packed d)) (decisions d')) \<and> length (packed d') = length (packed d)"
proof -
  obtain d1 where d1: "appendQuantized d decs = Inr d1" "ring_inv (Cfg d) d1" "decisions d1 = drop (BlockSize (Cfg d)) (decisions d) @ decs"
    using appendQuantized_view [OF inv decs(1)] by blast
  have f: "frame d d1" "same_samples d d1" "packed d1 = packed d" using appendQuantized_frame [OF d1(1)] by auto
  have b: "binary (decisions d1)" using bin decs(2) d1(3) by (simp add: binary_drop)
  have l: "length (Quantized d1) = length (decisions d)" using d1(2) inv by (simp add: ring_inv_def)
  have "8 dvd length (Quantized d1) - quantizedStart d1"
    using d1(2) by (auto simp: ring_inv_def intro: dvd_diff_nat)
  then have "packQuantizedRing (length (packed d1)) (Quantized d1) (quantizedStart d1) = Inr (packed_of (take (8 * length (packed d)) (decisions d1)))"
    using b d1(2) len l unfolding f(3)
    by (subst packQuantizedRing_ok) (auto simp: ring_inv_def decisions_def)
  moreover have "\<not> packs_directly d1" using direct f(2) by (simp add: packs_directly_def same_samples_def)
  ultimately have run: "advance d decs = Inr (d1\<lparr>packed := packed_of (take (8 * length (packed d)) (decisions d1))\<rparr>)"
    using d1(1) by (simp add: advance_def)
  let ?d = "d1\<lparr>packed := packed_of (take (8 * length (packed d)) (decisions d1))\<rparr>"
  have "frame d ?d" "same_samples d ?d" using f(1,2) by (simp_all add: frame_def same_samples_def)
  moreover have "length (packed_of (take (8 * length (packed d)) (decisions d1))) = length (packed d)" using l len by simp
  ultimately show ?thesis using run d1(2) b unfolding d1(3) [symmetric] by (intro exI [of _ ?d]) simp
qed


section \<open>The decoder invariant\<close>

definition decoder_inv :: "decoder_platform \<Rightarrow> Decoder \<Rightarrow> bool" where
  "decoder_inv pf d \<longleftrightarrow> decoder_ready pf d \<and> samples_ok d"

lemma decoder_invD:
  assumes "decoder_inv pf d"
  shows "ring_inv (Cfg d) d" "binary (decisions d)" "8 * length (packed d) \<le> length (decisions d)" "samples_ok d" "registry_ok d"
    "length (decisions d) = BufferLength (Cfg d)"
  using assms by (auto simp: decoder_inv_def decoder_ready_def served_def ring_ready_def window_ready_def ring_inv_def)

lemma inv_advance:
  assumes d: "decoder_inv pf d" and leaf: "leaf_agrees (quantizer_leaf pf)" and f: "frame d d'"
    and ring: "ring_inv (Cfg d) d'" "binary (decisions d')" and s: "samples_ok d'"
    and p: "packed d' = packed_of (take (8 * length (packed d)) (decisions d'))" "length (packed d') = length (packed d)"
  shows "decoder_inv pf d'"
proof -
  have c: "Cfg d' = Cfg d" "parsers d' = parsers d" "pkt d' = pkt d" "integer d' = integer d" "preambles d' = preambles d"
      "fixedIDMParsers d' = fixedIDMParsers d" "fixedR900Parsers d' = fixedR900Parsers d"
      "fixedIDMPreambleKey d' = fixedIDMPreambleKey d" "fixedR900PreambleKey d' = fixedR900PreambleKey d"
    using f unfolding frame_def by blast+
  have l: "length (decisions d') = length (decisions d)" using ring(1) decoder_invD(1) [OF d] by (simp add: ring_inv_def)
  have "window_ready d'" using d p unfolding decoder_inv_def decoder_ready_def window_ready_def c p(2) l by auto
  moreover have "needs_history d' \<longrightarrow> history_ready pf d'" using history_ready_view [OF s _ leaf] by blast
  then have "served pf d'" using d ring unfolding decoder_inv_def decoder_ready_def served_def ring_ready_def c by blast
  moreover have "registry_ok d'" using decoder_invD(5) [OF d] unfolding registry_ok_def fixed_family_def c by blast
  ultimately show ?thesis using d s unfolding decoder_inv_def decoder_ready_def c by blast
qed

section \<open>The float front end\<close>

lemma magnitudes_length: "samples_ok d \<Longrightarrow> power16 d = None \<Longrightarrow> BlockSize (Cfg d) + SymbolLength (Cfg d) \<le> length (magnitudes_of d)"
  by (auto simp: samples_ok_def float_ok_def magnitudes_of_def split: option.splits)

lemma slide_short:
  assumes "length s = B + S" "length x = B"
  shows "write_at (copy_into s (drop B s)) S x = drop B s @ x"
  using assms by (intro nth_equalityI) (auto simp: nth_write_at copy_into_def nth_append)

lemma appendSignal_ok:
  assumes d: "decoder_inv pf d" "power16 d = None" and sig: "signal_agrees (signal_leaves pf)" and len: "length input = BlockSize2 (Cfg d)"
  shows "\<exists>d'. appendSignal (signal_leaves pf) d input = Inr d' \<and> samples_ok d' \<and> frame d d' \<and> packed d' = packed d \<and>
    decisions d' = decisions d \<and> ring_inv (Cfg d) d' \<and> magnitudes_of d' = drop (BlockSize (Cfg d)) (magnitudes_of d) @ magnitudes input \<and>
    Signal d' = recent (Cfg d) (magnitudes_of d')"
proof -
  let ?c = "Cfg d" and ?B = "BlockSize (Cfg d)" and ?S = "SymbolLength (Cfg d)"
  note i = decoder_invD [OF d(1)]
  have s: "?S = 2 * ChipLength ?c" "length input = 2 * ?B" "?B + ?S \<le> BufferLength ?c" "float_ok d"
    using i(4) len d(2) by (auto simp: samples_ok_def)
  have dem: "demod d = NewMagLUT" using s(4) by (simp add: float_ok_def)
  have exec: "MagLUT_Execute (signal_leaves pf) (demod d) input ?B = Inr (magnitudes input)"
    unfolding dem by (rule Execute_ok [OF sig s(2)])
  show ?thesis
  proof (cases "signalHist d")
    case None
    then have l: "length (shortSignal d) = ?B + ?S" and nn: "\<not> needs_history d" using s(4) by (auto simp: float_ok_def)
    let ?s = "drop ?B (shortSignal d) @ magnitudes input" and ?t = "copy_into (shortSignal d) (drop ?B (shortSignal d))"
    let ?d = "d\<lparr>shortSignal := ?s\<rparr>"
    have "write_at ?t ?S (magnitudes input) = ?s" using slide_short [OF l] s(2) by simp
    then have "appendSignal (signal_leaves pf) d input = Inr ?d"
      using None l exec by (simp add: appendSignal_def Let_def sub_def)
    moreover have "samples_ok ?d" using i(4) d(2) None nn l s(2) by (simp add: samples_ok_def float_ok_def)
    moreover have "frame d ?d" by (simp add: frame_def)
    moreover have "recent ?c ?s = ?s" using l s(2) by (simp add: recent_def)
    ultimately show ?thesis using i(1) None d(2) by (intro exI [of _ ?d]) (simp add: magnitudes_of_def Signal_def)
  next
    case (Some h)
    then have h: "hist_inv ?c h" "?S \<le> historyOverlap h" "needs_history d \<longrightarrow> 4 * ChipLength ?c \<le> historyOverlap h"
      using s(4) by (auto simp: float_ok_def history_ok_def)
    obtain h1 where h1: "hist_advance ?c h = Inr h1" "hist_inv ?c (hist_store h1 (magnitudes input))"
        "hist_view ?c (hist_store h1 (magnitudes input)) = drop ?B (hist_view ?c h) @ magnitudes input"
      using hist_append_view [OF h(1), of "magnitudes input"] s(2) by (auto simp: hist_append_def bind_res_eq_Inr)
    have o: "historyOverlap h1 = historyOverlap h" "blockStride h1 = blockStride h"
      using h1(1) by (auto simp: hist_advance_def Let_def bind_res_eq_Inr split: if_splits)
    let ?h = "hist_store h1 (magnitudes input)"
    let ?d = "d\<lparr>signalHist := Some ?h\<rparr>"
    have "blockStride h1 - historyOverlap h1 = ?B" using h(1) by (simp add: o hist_inv_def)
    then have run: "appendSignal (signal_leaves pf) d input = Inr ?d" using Some h1(1) exec by (simp add: appendSignal_def Let_def)
    have st: "historyOverlap ?h = historyOverlap h" by (simp add: hist_store_def o)
    have "samples_ok ?d" using i(4) d(2) Some h1(2) h(2,3) by (simp add: samples_ok_def float_ok_def history_ok_def st)
    moreover have "frame d ?d" by (simp add: frame_def)
    moreover have "Signal ?d = recent ?c (hist_view ?c ?h)"
      using hist_recent [OF h1(2) _ s(3)] h(2) by (simp add: Signal_def st)
    ultimately show ?thesis using run i(1) Some d(2) h1(3) by (intro exI [of _ ?d]) (simp add: magnitudes_of_def)
  qed
qed


text \<open>A front end is one step of the view, after which the decisions are served.\<close>

definition front_step :: "decoder_platform \<Rightarrow> Decoder \<Rightarrow> u8 list \<Rightarrow> Decoder \<Rightarrow> bool" where
  "front_step pf d input d' \<longleftrightarrow> (\<forall>keys. Decode pf keys d input = decodeQuantized pf keys d') \<and> decoder_inv pf d' \<and> frame d d' \<and>
     view_of d' = view_step (Cfg d) (integer d) (view_of d) input"

lemma same_samples_view:
  assumes "same_samples d d'" "Cfg d' = Cfg d"
  shows "powers_of d' = powers_of d" "magnitudes_of d' = magnitudes_of d"
  using assms by (simp_all add: same_samples_def powers_of_def magnitudes_of_def split: option.split)

lemma front_float:
  assumes d: "decoder_inv pf d" "power16 d = None" and sig: "signal_agrees (signal_leaves pf)" and leaf: "leaf_agrees (quantizer_leaf pf)"
    and len: "length input = BlockSize2 (Cfg d)"
  shows "\<exists>d'. front_step pf d input d'"
proof -
  let ?c = "Cfg d" and ?B = "BlockSize (Cfg d)"
  note i = decoder_invD [OF d(1)]
  obtain d0 where d0: "appendSignal (signal_leaves pf) d input = Inr d0" "samples_ok d0" "frame d d0" "packed d0 = packed d"
      "decisions d0 = decisions d" "ring_inv ?c d0" "magnitudes_of d0 = drop ?B (magnitudes_of d) @ magnitudes input"
      "Signal d0 = recent ?c (magnitudes_of d0)"
    using appendSignal_ok [OF d sig len] by blast
  have c0: "Cfg d0 = ?c" "power16 d0 = None" using d0(3) d(2) by (simp_all add: frame_def)
  have s: "SymbolLength ?c = 2 * ChipLength ?c" "length input = 2 * ?B" using i(4) len by (auto simp: samples_ok_def)
  have "length (Signal d0) = ?B + 2 * ChipLength ?c"
    using magnitudes_length [OF d0(2)] c0 s(1) unfolding d0(8) by (simp add: recent_def)
  then have filter: "Filter_signal (signal_leaves pf) (ChipLength ?c) (Signal d0) ?B = Inr (float_decisions (ChipLength ?c) (Signal d0) ?B)"
    by (rule Filter_ok [OF sig])
  let ?decs = "float_decisions (ChipLength ?c) (Signal d0) ?B"
  obtain d1 where d1: "advance d0 ?decs = Inr d1" "frame d0 d1" "same_samples d0 d1" "ring_inv ?c d1"
      "decisions d1 = drop ?B (decisions d) @ ?decs" "binary (decisions d1)"
      "packed d1 = packed_of (take (8 * length (packed d)) (decisions d1))" "length (packed d1) = length (packed d)"
    using advance_ok [of d0 ?decs] i(2,3) c0 d0(4-6) by (auto simp: packs_directly_def)
  have f: "frame d d1" using frame_trans [OF d0(3) d1(2)] .
  have c1: "Cfg d1 = ?c" "parsers d1 = parsers d0" "demod d1 = demod d0" using f d1(2) by (simp_all add: frame_def)
  have "samples_ok d1" using d0(2) d1(3) c1(2,3) c0 unfolding samples_ok_def float_ok_def same_samples_def c1(1)
    by (cases "signalHist d0") simp_all
  then have inv: "decoder_inv pf d1" by (rule inv_advance [OF d(1) leaf f d1(4,6) _ d1(7,8)])
  have v: "powers_of d1 = []" "magnitudes_of d1 = magnitudes_of d0"
    using same_samples_view [OF d1(3)] c1 c0 by (simp_all add: powers_of_def)
  have "view_of d1 = view_step ?c (integer d) (view_of d) input"
    unfolding view_of_def view_step_def using d(2) d0(7,8) d1(5) v by (simp add: Let_def)
  moreover have "Decode pf keys d input = decodeQuantized pf keys d1" for keys
    using d(2) d0(1) filter d1(1) c0 by (simp add: Decode_def decodeFiltered_advance)
  ultimately show ?thesis using inv f unfolding front_step_def by blast
qed


section \<open>The integer front ends\<close>

lemma write_behind:
  assumes "S \<le> p" "p + length x \<le> length b" "S \<le> length w" "\<And>k. k < S \<Longrightarrow> w ! k = b ! (p - S + k)"
  shows "write_at b (p - S) (take S w @ x) = write_at b p x"
  using assms by (intro nth_equalityI) (auto simp: nth_write_at nth_append)

lemma integer_window:
  assumes h: "hist_inv c h" "SymbolLength c \<le> historyOverlap h" and geo: "SymbolLength c = power16History" "BlockSize c = power16BlockSize"
      "BlockSize c + SymbolLength c \<le> BufferLength c" and len: "length input = 2 * BlockSize c"
  shows "\<exists>h1 window h'. hist_advance c h = Inr h1 \<and> power16_window c h1 = Inr window \<and> length window = power16Window \<and>
    put_window c h1 (take power16History window @ powers input) = h' \<and> hist_inv c h' \<and> historyOverlap h' = historyOverlap h \<and>
    hist_view c h' = drop (BlockSize c) (hist_view c h) @ powers input \<and> take power16History window @ powers input = recent c (hist_view c h')"
proof -
  let ?B = "BlockSize c" and ?S = "SymbolLength c"
  obtain h1 where h1: "hist_advance c h = Inr h1" "hist_inv c (hist_store h1 (powers input))"
      "hist_view c (hist_store h1 (powers input)) = drop ?B (hist_view c h) @ powers input"
    using hist_append_view [OF h(1), of "powers input"] len by (auto simp: hist_append_def bind_res_eq_Inr)
  let ?h = "hist_store h1 (powers input)" and ?p = "block h1 * blockStride h1 + historyOverlap h1"
  have o: "historyOverlap h1 = historyOverlap h" "blockStride h1 = blockStride h" "blockCount h1 = blockCount h"
      "block h1 < blockCount h" "length (backing h1) = length (backing h)"
    using h1(1) h(1) by (auto simp: hist_advance_def hist_inv_def Let_def bind_res_eq_Inr split: if_splits)
  have i: "blockStride h = ?B + historyOverlap h" "length (backing h) = blockCount h * blockStride h" using h(1) by (auto simp: hist_inv_def)
  have "Suc (block h1) * blockStride h \<le> blockCount h * blockStride h" using o(4) by (intro mult_le_mono1) simp
  then have fit: "?p + ?B \<le> length (backing h1)" using i o by simp
  define window where "window = sub (backing h1) (?p - ?S) (?p + ?B)"
  have S: "?S \<le> ?p" using h(2) o(1) by simp
  have e: "block h1 * blockStride h1 + blockStride h1 = ?p + ?B" by (simp add: o i)
  have w: "power16_window c h1 = Inr window" using fit S unfolding power16_window_def window_def e by simp
  have lw: "length window = power16Window" using fit S geo by (simp add: window_def power16Window_def)
  have "put_window c h1 (take ?S window @ powers input) = ?h"
  proof -
    have "window ! k = backing h1 ! (?p - ?S + k)" if "k < ?S" for k using that S fit by (simp add: window_def)
    then have "write_at (backing h1) (?p - ?S) (take ?S window @ powers input) = write_at (backing h1) ?p (powers input)"
      using S fit lw geo len by (intro write_behind) (simp_all add: power16Window_def)
    then show ?thesis by (simp add: put_window_def hist_store_def)
  qed
  moreover have oh: "historyOverlap ?h = historyOverlap h" by (simp add: hist_store_def o)
  moreover have "take ?S window @ powers input = recent c (hist_view c ?h)"
  proof -
    have "recent c (hist_view c ?h) = sub (backing ?h) (?p - ?S) (?p + ?B)"
      using hist_recent [OF h1(2) _ geo(3)] h(2) e oh by (simp add: hist_store_def)
    also have "\<dots> = take ?S window @ powers input"
      using fit S len lw geo
      by (intro nth_equalityI) (auto simp: hist_store_def window_def nth_append nth_write_at power16Window_def)
    finally show ?thesis by simp
  qed
  ultimately show ?thesis using h1 w lw unfolding geo(1) by blast
qed

lemma powers_length: "samples_ok d \<Longrightarrow> power16 d = Some st \<Longrightarrow> length (powers_of d) = BufferLength (Cfg d)"
  by (simp add: powers_of_def)


definition integer_view :: "PacketConfig \<Rightarrow> u16 list \<Rightarrow> u8 list \<Rightarrow> u8 list" where
  "integer_view c ps input = map (decides (recent c (drop (BlockSize c) ps @ powers input)) (ChipLength c)) [0..<BlockSize c]"

lemma integer_view_binary [simp]: "length (integer_view c ps input) = BlockSize c" "binary (integer_view c ps input)"
  by (auto simp: integer_view_def binary_def decides_def list_all_iff)

lemma integer_state:
  assumes d: "decoder_inv pf d" "power16 d = Some st" and len: "length input = BlockSize2 (Cfg d)"
  shows "\<exists>h1 window h'. hist_advance (Cfg d) (p_hist st) = Inr h1 \<and> power16_window (Cfg d) h1 = Inr window \<and>
    power16ReferenceBlock (BlockSize (Cfg d)) window input =
      Inr (Some (integer_view (Cfg d) (powers_of d) input, take power16History window @ powers input)) \<and>
    put_window (Cfg d) h1 (take power16History window @ powers input) = h' \<and> history_ok (Cfg d) (needs_history d) h' \<and>
    hist_view (Cfg d) h' = drop (BlockSize (Cfg d)) (powers_of d) @ powers input"
proof -
  let ?c = "Cfg d"
  have s: "SymbolLength ?c = 2 * ChipLength ?c" "length input = 2 * BlockSize ?c" "BlockSize ?c + SymbolLength ?c \<le> BufferLength ?c" "integer_ok d st"
    using decoder_invD(4) [OF d(1)] len d(2) by (auto simp: samples_ok_def)
  have g: "ChipLength ?c = power16ChipLength" "BlockSize ?c = power16BlockSize" "SymbolLength ?c = power16History"
      "hist_inv ?c (p_hist st)" "SymbolLength ?c \<le> historyOverlap (p_hist st)" "needs_history d \<longrightarrow> 4 * ChipLength ?c \<le> historyOverlap (p_hist st)"
    using s(1,4) unfolding integer_ok_def history_ok_def power16History_def by auto
  obtain h1 window h' where w: "hist_advance ?c (p_hist st) = Inr h1" "power16_window ?c h1 = Inr window" "length window = power16Window"
      "put_window ?c h1 (take power16History window @ powers input) = h'" "hist_inv ?c h'" "historyOverlap h' = historyOverlap (p_hist st)"
      "hist_view ?c h' = drop (BlockSize ?c) (hist_view ?c (p_hist st)) @ powers input"
      "take power16History window @ powers input = recent ?c (hist_view ?c h')"
    using integer_window [OF g(4,5,3,2) s(3,2)] by blast
  have p: "powers_of d = hist_view ?c (p_hist st)" using d(2) by (simp add: powers_of_def)
  have "power16ReferenceBlock (BlockSize ?c) window input =
      Inr (Some (integer_view ?c (powers_of d) input, take power16History window @ powers input))"
    using power16ReferenceBlock_exact [OF w(3), of input] s(2) g(1,2) w(7) unfolding w(8) integer_view_def p by simp
  then show ?thesis using w g(5,6) p by (simp add: history_ok_def)
qed

lemma view_integer:
  assumes "integer d" "integer d'" "decisions d' = drop (BlockSize (Cfg d)) (decisions d) @ integer_view (Cfg d) (powers_of d) input"
    "powers_of d' = drop (BlockSize (Cfg d)) (powers_of d) @ powers input"
  shows "view_of d' = view_step (Cfg d) (integer d) (view_of d) input"
  using assms by (auto simp: view_of_def view_step_def integer_view_def magnitudes_of_def Let_def)

lemma front_copied:
  assumes d: "decoder_inv pf d" "power16 d = Some st" "p_runPacked st = None" and leaf: "leaf_agrees (quantizer_leaf pf)"
    and len: "length input = BlockSize2 (Cfg d)"
  shows "\<exists>d'. front_step pf d input d'"
proof -
  let ?c = "Cfg d" and ?B = "BlockSize (Cfg d)" and ?decs = "integer_view (Cfg d) (powers_of d) input"
  note i = decoder_invD [OF d(1)]
  obtain h1 window h' where w: "hist_advance ?c (p_hist st) = Inr h1" "power16_window ?c h1 = Inr window"
      "power16ReferenceBlock ?B window input = Inr (Some (?decs, take power16History window @ powers input))"
      "put_window ?c h1 (take power16History window @ powers input) = h'" "history_ok ?c (needs_history d) h'"
      "hist_view ?c h' = drop ?B (powers_of d) @ powers input"
    using integer_state [OF d(1,2) len] by blast
  have io: "integer_ok d st" "run_agrees (p_run st)" using i(4) d(2,3) by (auto simp: samples_ok_def integer_ok_def)
  have run: "p_run st ?B window input = Some (?decs, take power16History window @ powers input)"
    using io(2) w(3) by (auto simp: run_agrees_def)
  let ?st = "st\<lparr>p_hist := h', nativeBlocks := nativeBlocks st + 1\<rparr>"
  define d0 where "d0 = d\<lparr>power16 := Some ?st\<rparr>"
  have app: "appendPower16AndFilter d st input = Inr (d0, False, ?decs)"
    using w(1,2,4) run d(3) len by (simp add: appendPower16AndFilter_def Let_def d0_def)
  have same: "decisions d0 = decisions d" "ring_inv ?c d0" "Cfg d0 = ?c" "packed d0 = packed d" "\<not> packs_directly d0" "power16 d0 = Some ?st"
    using i(1) d(3) by (simp_all add: d0_def packs_directly_def)
  obtain d1 where d1: "advance d0 ?decs = Inr d1" "frame d0 d1" "same_samples d0 d1" "ring_inv ?c d1"
      "decisions d1 = drop ?B (decisions d) @ ?decs" "binary (decisions d1)"
      "packed d1 = packed_of (take (8 * length (packed d)) (decisions d1))" "length (packed d1) = length (packed d)"
    using advance_ok [of d0 ?decs, unfolded same(1,3,4), OF same(2) i(2) integer_view_binary same(5) i(3)] by blast
  have f0: "frame d d0" using d(2) by (simp add: frame_def d0_def)
  note f = frame_trans [OF f0 d1(2)]
  have c1: "Cfg d1 = ?c" "parsers d1 = parsers d" "power16 d1 = Some ?st" using f d1(3) same(6) by (simp_all add: frame_def same_samples_def)
  have "samples_ok d1" using i(4) d(2,3) io w(5) unfolding samples_ok_def integer_ok_def c1 by simp
  then have inv: "decoder_inv pf d1" by (rule inv_advance [OF d(1) leaf f d1(4,6) _ d1(7,8)])
  have "powers_of d1 = drop ?B (powers_of d) @ powers input" using w(6) by (simp add: powers_of_def c1)
  then have "view_of d1 = view_step ?c (integer d) (view_of d) input" using d1(5) d(2) c1(3) by (intro view_integer) simp_all
  moreover have "Decode pf keys d input = decodeQuantized pf keys d1" for keys
    using d(2) app d1(1) by (simp add: Decode_def decodeFiltered_advance)
  ultimately show ?thesis using inv f unfolding front_step_def by blast
qed


lemma direct_write_parts:
  assumes "direct_write d decs = Inr d'"
  shows "\<exists>n t. nextQuantizedOutput d = Inr (n, t) \<and>
    d' = commitQuantizedOutput (d\<lparr>quantizedBacking := write_at (quantizedBacking d) t decs\<rparr>) n t (length decs)"
  using assms by (auto simp: direct_write_def bind_res_eq_Inr)

lemma commitQuantizedOutput_frame:
  "frame d (commitQuantizedOutput (d\<lparr>quantizedBacking := b\<rparr>) n t k) \<and> same_samples d (commitQuantizedOutput (d\<lparr>quantizedBacking := b\<rparr>) n t k) \<and>
   packed (commitQuantizedOutput (d\<lparr>quantizedBacking := b\<rparr>) n t k) = packed d"
  by (simp add: commitQuantizedOutput_def set_Quantized_def Let_def frame_def same_samples_def)

lemma packed_write_parts:
  assumes "packed_write c s packs = Inr s'"
  shows "\<exists>n t. nextPackedOutput s c = Inr (n, t) \<and>
    s' = commitPackedOutput (s\<lparr>packedBacking := write_at (packedBacking s) t packs\<rparr>) n t (length packs)"
  using assms by (auto simp: packed_write_def bind_res_eq_Inr)

lemma owns_ring: "ring_inv c d \<Longrightarrow> quantizedAliased d \<Longrightarrow> ownsQuantizedRing d"
  by (auto simp: ring_inv_def ownsQuantizedRing_def)

lemma packed_window_length: "packed_inv c s \<Longrightarrow> length (packedSearchWindow s) = packedLookahead s"
  by (auto simp: packedSearchWindow_def packed_inv_def)

lemma packed_window_of:
  assumes "packed_inv c s" "packed_decisions s = packed_of w" "length (packedSearchWindow s) = n"
  shows "packedSearchWindow s = packed_of (take (8 * n) w)"
proof -
  have "n = packedLookahead s" using assms(3) packed_window_length [OF assms(1)] by simp
  then show ?thesis using packedSearchWindow_prefix [OF assms(1)] assms(2) by (simp add: packed_of_take)
qed


lemma front_direct:
  assumes d: "decoder_inv pf d" "power16 d = Some st" "p_runPacked st = Some runPacked" and leaf: "leaf_agrees (quantizer_leaf pf)"
    and len: "length input = BlockSize2 (Cfg d)"
  shows "\<exists>d'. front_step pf d input d'"
proof -
  let ?c = "Cfg d" and ?B = "BlockSize (Cfg d)" and ?decs = "integer_view (Cfg d) (powers_of d) input"
  note i = decoder_invD [OF d(1)]
  have io: "integer_ok d st" "packed_agrees runPacked" "packed_inv ?c (p_packed st)" "quantizedAliased d"
      "packed_decisions (p_packed st) = packed_of (decisions d)" "packed d = packedSearchWindow (p_packed st)"
    using i(4) d(2,3) by (auto simp: samples_ok_def integer_ok_def)
  obtain h1 window h' where w: "hist_advance ?c (p_hist st) = Inr h1" "power16_window ?c h1 = Inr window"
      "power16ReferenceBlock ?B window input = Inr (Some (?decs, take power16History window @ powers input))"
      "put_window ?c h1 (take power16History window @ powers input) = h'" "history_ok ?c (needs_history d) h'"
      "hist_view ?c h' = drop ?B (powers_of d) @ powers input"
    using integer_state [OF d(1,2) len] by blast
  have run: "runPacked ?B (?B div 8) window input = Some (?decs, packed_of ?decs, take power16History window @ powers input)"
    using io(2) w(3) by (auto simp: packed_agrees_def)
  obtain d0 where d0: "direct_write d ?decs = Inr d0" "ring_inv ?c d0" "decisions d0 = drop ?B (decisions d) @ ?decs"
    using direct_write_view [OF i(1) io(4), of ?decs] by auto
  obtain qn qt where q: "nextQuantizedOutput d = Inr (qn, qt)"
      "d0 = commitQuantizedOutput (d\<lparr>quantizedBacking := write_at (quantizedBacking d) qt ?decs\<rparr>) qn qt (length ?decs)"
    using direct_write_parts [OF d0(1)] by blast
  have f0: "frame d d0" "same_samples d d0" "packed d0 = packed d" unfolding q(2) using commitQuantizedOutput_frame by blast+
  obtain s where s: "packed_write ?c (p_packed st) (packed_of ?decs) = Inr s" "packed_inv ?c s"
      "packed_decisions s = drop (?B div 8) (packed_decisions (p_packed st)) @ packed_of ?decs"
    using packed_write_view [OF io(3), of "packed_of ?decs"] by auto
  obtain pn pt where p: "nextPackedOutput (p_packed st) ?c = Inr (pn, pt)"
      "s = commitPackedOutput ((p_packed st)\<lparr>packedBacking := write_at (packedBacking (p_packed st)) pt (packed_of ?decs)\<rparr>) pn pt (length (packed_of ?decs))"
    using packed_write_parts [OF s(1)] by blast
  let ?st = "st\<lparr>p_hist := h', p_packed := s, nativeBlocks := nativeBlocks st + 1\<rparr>"
  define d1 where "d1 = d0\<lparr>power16 := Some ?st, packed := packedSearchWindow s\<rparr>"
  have app: "appendPower16AndFilter d st input = Inr (d1, True, ?decs)"
    using w(1,2,4) run d(3) len owns_ring [OF i(1) io(4)] q(1) p(1)
    by (simp add: appendPower16AndFilter_def Let_def d1_def q(2) p(2))
  have f: "frame d d1" using f0(1) d(2) by (simp add: frame_def d1_def)
  have c1: "Cfg d1 = ?c" "parsers d1 = parsers d" "power16 d1 = Some ?st" "packed d1 = packedSearchWindow s" "decisions d1 = decisions d0"
      "ring_inv ?c d1" "quantizedAliased d1" "powers_of d1 = drop ?B (powers_of d) @ powers input"
    using f f0 io(4) d0(2) w(6) by (simp_all add: frame_def d1_def powers_of_def)
  have b: "binary (decisions d1)" unfolding c1(5) d0(3) using i(2) by (simp add: binary_drop)
  have "packed_decisions s = packed_of (decisions d1)"
    unfolding s(3) c1(5) d0(3) io(5) using i(1) by (intro packed_of_slide [symmetric]) (auto simp: ring_inv_def)
  note pd = this
  have "length (packedSearchWindow s) = length (packed d)"
    unfolding io(6) packed_window_length [OF s(2)] packed_window_length [OF io(3)] by (simp add: p(2) commitPackedOutput_def Let_def)
  note pl = this
  have "samples_ok d1" using i(4) d(2,3) io w(5) s(2) c1 pd unfolding samples_ok_def integer_ok_def by simp
  then have inv: "decoder_inv pf d1"
    by (rule inv_advance [OF d(1) leaf f c1(6) b]) (use packed_window_of [OF s(2) pd pl] pl in \<open>simp_all add: c1(4)\<close>)
  have "view_of d1 = view_step ?c (integer d) (view_of d) input" using c1(3,5,8) d0(3) d(2) by (intro view_integer) simp_all
  moreover have "Decode pf keys d input = decodeQuantized pf keys d1" for keys
    using d(2) app by (simp add: Decode_def)
  ultimately show ?thesis using inv f unfolding front_step_def by blast
qed


section \<open>One call of Decode\<close>

definition platform_agrees :: "decoder_platform \<Rightarrow> bool" where
  "platform_agrees pf \<longleftrightarrow> leaves_agree (search_leaves pf) \<and> dual_agrees (search_leaves pf) \<and>
     signal_agrees (signal_leaves pf) \<and> leaf_agrees (quantizer_leaf pf)"

lemma front_ok:
  assumes "platform_agrees pf" "decoder_inv pf d" "length input = BlockSize2 (Cfg d)"
  shows "\<exists>d'. front_step pf d input d'"
proof (cases "power16 d")
  case None
  then show ?thesis using front_float [OF assms(2) None] assms(1,3) by (simp add: platform_agrees_def)
next
  case (Some st)
  then show ?thesis using front_copied [OF assms(2) Some] front_direct [OF assms(2) Some] assms(1,3)
    by (cases "p_runPacked st") (auto simp: platform_agrees_def)
qed

text \<open>The messages of the view for the registered parsers.\<close>

abbreviation reports :: "Decoder \<Rightarrow> stream_view \<Rightarrow> u8 list \<Rightarrow> Message list" where
  "reports d v key \<equiv> view_messages (Cfg d) (integer d) v (parsers d) (preambles d) key"

lemma samples_ok_serving:
  assumes "after_serving d d'" "samples_ok d"
  shows "samples_ok d'" "view_of d' = view_of d"
proof -
  obtain ps b where d': "d' = d\<lparr>parsers := ps, pkt := b\<rparr>" and k: "map kind ps = map kind (parsers d)"
    using assms(1) by (auto simp: after_serving_def)
  have n: "needs_history d' = needs_history d" using k by (simp add: d' list_ex_consumes)
  have e: "Cfg d' = Cfg d" "power16 d' = power16 d" "signalHist d' = signalHist d" "shortSignal d' = shortSignal d" "demod d' = demod d"
      "quantizedAliased d' = quantizedAliased d" "decisions d' = decisions d" "packed d' = packed d"
    by (simp_all add: d')
  show "samples_ok d'" using assms(2) unfolding samples_ok_def integer_ok_def float_ok_def n e .
  show "view_of d' = view_of d" unfolding view_of_def powers_of_def magnitudes_of_def e ..
qed

lemma Decode_messages:
  assumes pf: "platform_agrees pf" and d: "decoder_inv pf d" and len: "length input = BlockSize2 (Cfg d)"
    and keys: "mset keys = mset (map fst (preambles d))"
  shows "\<exists>d' keys'. mset keys' = mset keys \<and>
    Decode pf keys d input = Inr (d', concat (map (reports d (view_step (Cfg d) (integer d) (view_of d) input)) keys')) \<and>
    decoder_inv pf d' \<and> view_of d' = view_step (Cfg d) (integer d) (view_of d) input \<and>
    Cfg d' = Cfg d \<and> integer d' = integer d \<and> preambles d' = preambles d \<and> map kind (parsers d') = map kind (parsers d)"
proof -
  obtain d1 where d1: "\<forall>keys. Decode pf keys d input = decodeQuantized pf keys d1" "decoder_inv pf d1" "frame d d1"
      "view_of d1 = view_step (Cfg d) (integer d) (view_of d) input"
    using front_ok [OF pf d len] unfolding front_step_def by blast
  have f: "Cfg d1 = Cfg d" "integer d1 = integer d" "preambles d1 = preambles d" "parsers d1 = parsers d" using d1(3) unfolding frame_def by blast+
  have r: "decoder_ready pf d1" "samples_ok d1" "served pf d1" "registry_ok d1" using d1(2) by (simp_all add: decoder_inv_def decoder_ready_def)
  obtain keys' where k: "mset keys' = mset keys" "serves pf d1 [] (decodeQuantized pf keys d1) (concat (map (preamble_messages pf d1) keys'))"
    using decodeQuantized_messages [OF _ _ r(1), of keys] pf keys f(3) by (auto simp: platform_agrees_def)
  obtain d' where d': "decodeQuantized pf keys d1 = Inr (d', concat (map (preamble_messages pf d1) keys'))" "after_serving d1 d'" "decoder_ready pf d'"
    using serves_ready [OF k(2) r(1)] by auto
  have "set keys' = fst ` set (preambles d1)" using k(1) keys f(3) by (metis image_set set_mset_mset)
  then have m: "map (preamble_messages pf d1) keys' = map (reports d (view_of d1)) keys'"
    using preamble_messages_view [OF r(2,3,4)] pf f by (auto simp: platform_agrees_def)
  note s = samples_ok_serving [OF d'(2) r(2)]
  have "map kind (parsers d') = map kind (parsers d)" using d'(2) f(4) by (auto simp: after_serving_def)
  then show ?thesis using k(1) d1(1,4) d' s m f
    by (intro exI [of _ d'] exI [of _ keys']) (simp add: decoder_inv_def after_serving_same [OF d'(2)])
qed

end
