(* ===== verification/DecodeMain.thy ===== *)
theory DecodeMain
  imports DecodeFront
begin

text \<open>
  The decoder from construction on: registering any non-empty mix of the program's parsers and allocating
  establishes the invariant of the decoder on every backend, so that each call of \<open>Decode\<close> is one step
  of the abstract view and reports exactly its messages; and \<open>Reset\<close> restores the allocated view.
\<close>

section \<open>Registration\<close>

text \<open>The parsers as the program constructs them, all for one chip length.\<close>

definition fresh_parser :: "nat \<Rightarrow> AnyParser \<Rightarrow> bool" where
  "fresh_parser chip p \<longleftrightarrow> p = PScm (scm_NewParser chip) \<or> p = PScmPlus (scmplus_NewParser chip) \<or>
     p = PIdm (idm_NewParser chip) \<or> p = PNetIdm (netidm_NewParser chip) \<or>
     (\<exists>r. r900_NewParser chip = Inr r \<and> (p = PR900 r \<or> p = PR900bcd r))"

lemmas constructor_defs = scm_NewParser_def scmplus_NewParser_def idm_NewParser_def netidm_NewParser_def r900_NewParser_def

lemma fresh_parser_config:
  assumes "fresh_parser chip p"
  shows "ChipLength (parser_Cfg p) = chip" "length (PacketConfig.Preamble (parser_Cfg p)) = PreambleSymbols (parser_Cfg p)"
    "16 \<le> PreambleSymbols (parser_Cfg p)" "PreambleSymbols (parser_Cfg p) \<le> 32" "96 \<le> PacketSymbols (parser_Cfg p)"
    "consumesPower16 p \<longrightarrow> 116 \<le> PacketSymbols (parser_Cfg p)"
    "parser_overlap p = (if consumesPower16 p then Some (4 * chip) else None)"
  using assms unfolding fresh_parser_def
  by (auto simp: constructor_defs NewField_gf32 SignalHistoryOverlap_def)

lemma fresh_parser_ready:
  assumes "fresh_parser chip p" "PacketSymbols (parser_Cfg p) \<le> PacketSymbols cfg"
  shows "parser_ready cfg pw (set_power_history pw p)"
  using assms scm_inv_NewParser [of chip] scmplus_inv_NewParser [of chip] idm_inv_NewParser [of chip] netidm_inv_NewParser [of chip]
    r900_NewParser_inv [of chip]
  unfolding fresh_parser_def by (auto simp: constructor_defs SetPower16History_def r900_inv_def)

lemma kind_set_power_history [simp]: "kind (set_power_history b p) = kind p"
  by (cases p) simp_all

lemma add_parser_set:
  assumes "distinct (map fst m)" "(k, ms) \<in> set (add_parser m key i)"
  shows "k = key \<and> ms = (case map_of m key of None \<Rightarrow> [] | Some is \<Rightarrow> is) @ [i] \<or> k \<noteq> key \<and> (k, ms) \<in> set m"
proof -
  have "map_of (add_parser m key i) k = Some ms" using assms by (intro map_of_is_SomeI) (simp_all add: add_parser_def distinct_update)
  then show ?thesis using map_of_SomeD [of m k ms] by (auto simp: add_parser_def update_conv' split: if_splits)
qed

lemma map_of_add_parser:
  "map_of (add_parser m key i) = (map_of m)(key \<mapsto> (case map_of m key of None \<Rightarrow> [] | Some is \<Rightarrow> is) @ [i])"
  by (simp add: add_parser_def update_conv')

lemma length_preamble_bytes [simp]: "length (preamble_bytes s) = length s"
  by (simp add: preamble_bytes_def)

lemma binary_preamble_bytes [simp]: "binary (preamble_bytes s)"
  by (auto simp: preamble_bytes_def binary_def list_all_iff)

lemma fresh_preamble:
  assumes "fresh_parser chip p"
  shows "preamble_bytes (PacketConfig.Preamble (parser_Cfg p)) = preamble_bytes fixedIDMPreambleASCII \<longleftrightarrow>
      PacketConfig.Preamble (parser_Cfg p) = fixedIDMPreambleASCII"
    "preamble_bytes (PacketConfig.Preamble (parser_Cfg p)) = preamble_bytes fixedR900PreambleASCII \<longleftrightarrow>
      PacketConfig.Preamble (parser_Cfg p) = fixedR900PreambleASCII"
  using assms unfolding fresh_parser_def
  by (auto simp: constructor_defs NewField_gf32 fixedIDMPreambleASCII_def fixedR900PreambleASCII_def preamble_bytes_def)

definition registered :: "nat \<Rightarrow> Decoder \<Rightarrow> bool" where
  "registered chip d \<longleftrightarrow> list_all (fresh_parser chip) (parsers d) \<and> registry_ok d \<and> quantizedStart d = 0 \<and>
     ChipLength (Cfg d) = (if parsers d = [] then 0 else chip) \<and> PreambleSymbols (Cfg d) \<le> 32 \<and>
     list_all (\<lambda>p. PreambleSymbols (parser_Cfg p) \<le> PreambleSymbols (Cfg d) \<and> PacketSymbols (parser_Cfg p) \<le> PacketSymbols (Cfg d)) (parsers d) \<and>
     signalHistoryOverlap d = (if needs_history d then 4 * chip else 0)"

lemma registered_newDecoder: "registered chip (newDecoder automatic probe)"
  by (simp add: registered_def newDecoder_def registry_ok_def fixed_family_def zeroPacketConfig_def)

lemma RegisterProtocol_fields:
  "parsers (RegisterProtocol d p) = parsers d @ [p]" "Cfg (RegisterProtocol d p) = merge_config (Cfg d) (parser_Cfg p)"
  "quantizedStart (RegisterProtocol d p) = quantizedStart d"
  "signalHistoryOverlap (RegisterProtocol d p) =
     (case parser_overlap p of Some n \<Rightarrow> max n (signalHistoryOverlap d) | None \<Rightarrow> signalHistoryOverlap d)"
  "preambles (RegisterProtocol d p) = add_parser (preambles d) (preamble_bytes (PacketConfig.Preamble (parser_Cfg p))) (length (parsers d))"
  by (simp_all add: RegisterProtocol_def Let_def)

lemma RegisterProtocol_fixed:
  fixes d p
  defines "s \<equiv> PacketConfig.Preamble (parser_Cfg p)" and "d' \<equiv> RegisterProtocol d p"
  shows "fixedIDMParsers d' = (if s = fixedIDMPreambleASCII then the (map_of (preambles d') (preamble_bytes s)) else fixedIDMParsers d)"
    "fixedIDMPreambleKey d' = (if s = fixedIDMPreambleASCII then preamble_bytes s else fixedIDMPreambleKey d)"
    "fixedR900Parsers d' = (if s = fixedR900PreambleASCII then the (map_of (preambles d') (preamble_bytes s)) else fixedR900Parsers d)"
    "fixedR900PreambleKey d' = (if s = fixedR900PreambleASCII then preamble_bytes s else fixedR900PreambleKey d)"
  unfolding assms by (auto simp: RegisterProtocol_def Let_def fixedIDMPreambleASCII_def fixedR900PreambleASCII_def)

lemma registry_step:
  assumes d: "registry_ok d" and p: "fresh_parser chip p"
  shows "registry_ok (RegisterProtocol d p)"
proof -
  let ?d = "RegisterProtocol d p" and ?s = "PacketConfig.Preamble (parser_Cfg p)"
  let ?k = "preamble_bytes ?s" and ?n = "length (parsers d)"
  note f = RegisterProtocol_fields [of d p] and c = fresh_parser_config [OF p] and pre = fresh_preamble [OF p]
  have dist: "distinct (map fst (preambles d))" using d by (simp add: registry_ok_def)
  have "binary k \<and> length k \<le> PreambleSymbols (Cfg ?d) \<and> (\<forall>i\<in>set ms. i < length (parsers ?d))"
    if km: "(k, ms) \<in> set (preambles ?d)" for k ms
  proof (cases "k = ?k")
    case True
    then have "ms = (case map_of (preambles d) ?k of None \<Rightarrow> [] | Some is \<Rightarrow> is) @ [?n]"
      using add_parser_set [OF dist, of k ms ?k ?n] km f(5) by auto
    then have "\<forall>i\<in>set ms. i < length (parsers ?d)"
      using d map_of_SomeD [of "preambles d" ?k] by (fastforce simp: registry_ok_def f(1) split: option.splits)
    then show ?thesis using True c(2) by (simp add: f(2) merge_config_def)
  next
    case False
    then have "(k, ms) \<in> set (preambles d)" using add_parser_set [OF dist, of k ms ?k ?n] km f(5) by auto
    then show ?thesis using d by (fastforce simp: registry_ok_def f(1,2) merge_config_def)
  qed
  moreover have "distinct (map fst (preambles ?d))" using dist by (simp add: f(5) add_parser_def distinct_update)
  moreover have "fixed_family ?d (fixedIDMParsers ?d) (fixedIDMPreambleKey ?d) fixedIDMPreambleASCII"
    "fixed_family ?d (fixedR900Parsers ?d) (fixedR900PreambleKey ?d) fixedR900PreambleASCII"
    using d pre unfolding registry_ok_def fixed_family_def RegisterProtocol_fixed [of d p] unfolding f(5) map_of_add_parser by auto
  ultimately show ?thesis unfolding registry_ok_def by blast
qed

lemma registered_step:
  assumes d: "registered chip d" and p: "fresh_parser chip p"
  shows "registered chip (RegisterProtocol d p)"
  unfolding registered_def
proof (intro conjI)
  note f = RegisterProtocol_fields [of d p] and c = fresh_parser_config [OF p]
  show "registry_ok (RegisterProtocol d p)" using d by (intro registry_step [OF _ p]) (simp add: registered_def)
  show "list_all (fresh_parser chip) (parsers (RegisterProtocol d p))" "quantizedStart (RegisterProtocol d p) = 0"
      "PreambleSymbols (Cfg (RegisterProtocol d p)) \<le> 32"
    using d p c(4) by (simp_all add: registered_def f merge_config_def)
  show "ChipLength (Cfg (RegisterProtocol d p)) = (if parsers (RegisterProtocol d p) = [] then 0 else chip)"
    using d c(1) by (simp add: registered_def f merge_config_def)
  show "signalHistoryOverlap (RegisterProtocol d p) = (if needs_history (RegisterProtocol d p) then 4 * chip else 0)"
    using d c(7) by (simp add: registered_def f)
  show "list_all (\<lambda>q. PreambleSymbols (parser_Cfg q) \<le> PreambleSymbols (Cfg (RegisterProtocol d p)) \<and>
      PacketSymbols (parser_Cfg q) \<le> PacketSymbols (Cfg (RegisterProtocol d p))) (parsers (RegisterProtocol d p))"
    using d by (auto simp: registered_def f merge_config_def list_all_iff)
qed

lemma registered_all:
  "list_all (fresh_parser chip) ps \<Longrightarrow> registered chip d \<Longrightarrow> registered chip (foldl RegisterProtocol d ps)"
  by (induction ps arbitrary: d) (simp_all add: registered_step)

lemma registered_parsers: "parsers (foldl RegisterProtocol d ps) = parsers d @ ps"
  by (induction ps arbitrary: d) (simp_all add: RegisterProtocol_fields)


section \<open>Allocation\<close>

lemma double_until_power:
  assumes "2 ^ j < 2 * v"
  shows "\<exists>k. double_until v (2 ^ j) = 2 ^ k \<and> v \<le> 2 ^ k \<and> 2 ^ k < 2 * v"
  using assms
proof (induction "v - 2 ^ j" arbitrary: j rule: less_induct)
  case less
  show ?case
  proof (cases "2 ^ j < v")
    case True
    moreover have "(0 :: nat) < 2 ^ j" by simp
    ultimately have "v - 2 ^ Suc j < v - 2 ^ j" unfolding power_Suc by linarith
    moreover have "(2 :: nat) ^ Suc j < 2 * v" using True by simp
    ultimately obtain k where "double_until v (2 ^ Suc j) = 2 ^ k" "v \<le> 2 ^ k" "2 ^ k < 2 * v" using less.hyps by blast
    then show ?thesis using True by (subst double_until.simps) auto
  qed (use less.prems in \<open>subst double_until.simps, auto\<close>)
qed

lemma NextPowerOf2_power: "0 < v \<Longrightarrow> \<exists>k. NextPowerOf2 v = 2 ^ k \<and> v \<le> 2 ^ k \<and> 2 ^ k < 2 * v"
  using double_until_power [of 0 v] by (simp add: NextPowerOf2_def)

definition geometry :: "nat \<Rightarrow> PacketConfig \<Rightarrow> bool" where
  "geometry chip c \<longleftrightarrow> ChipLength c = chip \<and> SymbolLength c = 2 * chip \<and> PreambleLength c = PreambleSymbols c * (2 * chip) \<and>
     PacketConfig.PacketLength c = PacketSymbols c * (2 * chip) \<and> BlockSize2 c = 2 * BlockSize c \<and>
     BufferLength c = PacketConfig.PacketLength c + BlockSize c \<and> PreambleLength c \<le> BlockSize c \<and>
     16 \<le> PreambleSymbols c \<and> PreambleSymbols c \<le> 32 \<and> 96 \<le> PacketSymbols c \<and> 0 < chip \<and> 4 dvd chip \<and> chip \<le> 8191 \<and>
     (\<exists>s<64. BlockSize c = 2 ^ s) \<and> (chip = 72 \<and> PreambleSymbols c = 32 \<longrightarrow> BlockSize c = 8192)"

lemma geometryD:
  assumes "geometry chip c"
  shows "8 dvd BlockSize c" "8 dvd PacketConfig.PacketLength c" "8 dvd PreambleLength c" "8 dvd SymbolLength c" "4 * chip \<le> BlockSize c"
    "PreambleLength c \<le> PacketConfig.PacketLength c" "0 < BlockSize c" "BlockSize c + SymbolLength c \<le> BufferLength c"
    "BlockSize c < BufferLength c" "0 < PacketConfig.PacketLength c"
proof -
  have g: "PreambleLength c = PreambleSymbols c * (2 * chip)" "PacketConfig.PacketLength c = PacketSymbols c * (2 * chip)"
      "BufferLength c = PacketConfig.PacketLength c + BlockSize c" "PreambleLength c \<le> BlockSize c" "SymbolLength c = 2 * chip"
      "16 \<le> PreambleSymbols c" "PreambleSymbols c \<le> 32" "96 \<le> PacketSymbols c" "0 < chip" "4 dvd chip"
    using assms by (auto simp: geometry_def)
  obtain s where s: "BlockSize c = 2 ^ s" using assms by (auto simp: geometry_def)
  have e: "8 dvd 2 * chip" using g(10) by auto
  then show "8 dvd PacketConfig.PacketLength c" "8 dvd PreambleLength c" "8 dvd SymbolLength c" using g by simp_all
  have "16 * (2 * chip) \<le> PreambleLength c" unfolding g(1) using g(6) by (rule mult_le_mono1)
  then have big: "32 * chip \<le> BlockSize c" using g(4) by linarith
  then show "4 * chip \<le> BlockSize c" "0 < BlockSize c" using g(9) by linarith+
  have "32 \<le> BlockSize c" using big g(9) by linarith
  then have "\<not> s < 3" using s by (cases "s = 0 \<or> s = 1 \<or> s = 2") (auto simp: less_Suc_eq numeral_3_eq_3)
  then have "s = 3 + (s - 3)" by simp
  then show "8 dvd BlockSize c" unfolding s by (metis dvd_triv_left power_add power3_eq_cube numeral_times_numeral semiring_norm(12,13) mult_num_simps)
  have "PreambleSymbols c \<le> PacketSymbols c" using g(7,8) by linarith
  then show "PreambleLength c \<le> PacketConfig.PacketLength c" unfolding g(1,2) by (rule mult_le_mono1)
  have "96 * (2 * chip) \<le> PacketConfig.PacketLength c" unfolding g(2) using g(8) by (rule mult_le_mono1)
  then show "BlockSize c + SymbolLength c \<le> BufferLength c" "BlockSize c < BufferLength c" "0 < PacketConfig.PacketLength c"
    using g(3,5,9) by linarith+
qed

lemma registered_geometry:
  assumes d: "registered chip d" "parsers d \<noteq> []" and chip: "0 < chip" "4 dvd chip" "chip \<le> 8191"
  shows "geometry chip (derive_lengths (Cfg d))"
proof -
  let ?c = "Cfg d" and ?v = "PreambleSymbols (Cfg d) * (2 * chip)"
  obtain p where p: "p \<in> set (parsers d)" "fresh_parser chip p" using d by (cases "parsers d") (auto simp: registered_def)
  note f = fresh_parser_config [OF p(2)]
  have c: "ChipLength ?c = chip" "PreambleSymbols ?c \<le> 32" "16 \<le> PreambleSymbols ?c" "96 \<le> PacketSymbols ?c"
    using d p(1) f(3,5) by (auto simp: registered_def list_all_iff)
  have v: "0 < ?v" "?v \<le> 32 * (2 * 8191)" using c(2,3) chip by (simp, intro mult_le_mono) simp_all
  obtain k where k: "NextPowerOf2 ?v = 2 ^ k" "?v \<le> 2 ^ k" "2 ^ k < 2 * ?v" using NextPowerOf2_power [OF v(1)] by blast
  have "k < 64"
  proof (rule ccontr)
    assume "\<not> k < 64"
    then have "(2 :: nat) ^ 64 \<le> 2 ^ k" by (intro power_increasing) simp_all
    then show False using k(3) v(2) by simp
  qed
  moreover have "NextPowerOf2 (32 * (2 * 72)) = 8192" by code_simp
  ultimately show ?thesis using c chip k by (auto simp: geometry_def derive_lengths_def Let_def)
qed


lemma select_platform:
  assumes "selectPower16Platform d = (d1, platform)"
  shows "\<exists>st. d1 = d\<lparr>dispatchStatus := st\<rparr>"
    "platform = Some pp \<Longrightarrow> power16Probe d = Some pp \<and> pp_run pp \<noteq> None \<and> ChipLength (Cfg d) = power16ChipLength \<and> BlockSize (Cfg d) = power16BlockSize"
  using assms by (auto simp: selectPower16Platform_def Let_def split: if_splits option.splits)

lemma packed_of_zeros: "packed_of (replicate n 0) = replicate (n div 8) 0"
proof (rule nth_equalityI)
  fix i assume "i < length (packed_of (replicate n 0))"
  then have i: "i < n div 8" by simp
  have "bits_val (replicate k False) = 0" for k by (induction k) (simp_all add: bits_val_def)
  then show "packed_of (replicate n 0) ! i = replicate (n div 8) 0 ! i" using i by (simp add: nth_packed_of)
qed simp


text \<open>The state right after allocation: zero decisions, zero samples, a zero packed window.\<close>

definition allocated :: "nat \<Rightarrow> Decoder \<Rightarrow> bool" where
  "allocated chip d \<longleftrightarrow> geometry chip (Cfg d) \<and> registry_ok d \<and> quantizedStart d = 0 \<and>
     Quantized d = replicate (BufferLength (Cfg d)) 0 \<and> (quantizedAliased d \<longrightarrow> length (quantizedBacking d) = BufferLength (Cfg d) + BlockSize (Cfg d)) \<and>
     packed d = replicate ((BlockSize (Cfg d) + PreambleLength (Cfg d)) div 8) 0 \<and>
     length (pkt d) = (PacketSymbols (Cfg d) + 7) div 8 \<and>
     list_all (parser_ready (Cfg d) (integer d)) (parsers d) \<and> samples_ok d"

lemma allocated_inv:
  assumes a: "allocated chip d" and leaf: "leaf_agrees (quantizer_leaf pf)"
  shows "decoder_inv pf d" "decisions d = replicate (BufferLength (Cfg d)) 0"
proof -
  let ?c = "Cfg d"
  have g: "geometry chip ?c" "registry_ok d" "samples_ok d" using a by (simp_all add: allocated_def)
  note e = geometryD [OF g(1)]
  have g': "SymbolLength ?c = 2 * chip" "ChipLength ?c = chip" "PreambleLength ?c = PreambleSymbols ?c * (2 * chip)"
      "PacketConfig.PacketLength ?c = PacketSymbols ?c * (2 * chip)" "BufferLength ?c = PacketConfig.PacketLength ?c + BlockSize ?c"
      "PreambleSymbols ?c \<le> 32" "0 < chip" "4 dvd chip" "chip = 72 \<and> PreambleSymbols ?c = 32 \<longrightarrow> BlockSize ?c = 8192"
    using g(1) unfolding geometry_def by blast+
  show z: "decisions d = replicate (BufferLength ?c) 0"
    using a by (simp add: allocated_def decisions_def rotated_def)
  have ring: "ring_inv ?c d" using a e g'(5) by (auto simp: ring_inv_def allocated_def)
  have "binary (decisions d)" unfolding z by (simp add: binary_def set_replicate_conv_if)
  then have rr: "ring_ready d" using ring g' by (simp add: ring_ready_def)
  have n: "8 * length (packed d) = BlockSize ?c + PreambleLength ?c" using a e(1,3) by (simp add: allocated_def)
  have "window_ready d"
    unfolding window_ready_def z n using a e g'(1,3,5)
    by (simp add: allocated_def packed_of_zeros min_def)
  moreover have "served pf d"
    using a rr g' history_ready_view [OF g(3) _ leaf] by (auto simp: served_def allocated_def)
  moreover have "SymbolLength ?c div 8 = 18 \<and> 32 \<le> PreambleSymbols ?c \<longrightarrow> BlockSize ?c = 8192"
    using g'(1,6,8,9) by auto
  ultimately show "decoder_inv pf d" using g(2,3) by (simp add: decoder_inv_def decoder_ready_def)
qed

definition probe_agrees :: "power16Platform option \<Rightarrow> bool" where
  "probe_agrees probe \<longleftrightarrow> (\<forall>pp. probe = Some pp \<longrightarrow> (\<forall>run. pp_run pp = Some run \<longrightarrow> run_agrees run) \<and>
     (\<forall>runPacked. pp_runPacked pp = Some runPacked \<longrightarrow> packed_agrees runPacked))"

lemma needs_set_power_history: "list_ex consumesPower16 (map (set_power_history b) ps) = list_ex consumesPower16 ps"
  by (simp add: list_ex_consumes o_def)

lemma derive_lengths_symbols [simp]:
  "PreambleSymbols (derive_lengths c) = PreambleSymbols c" "PacketSymbols (derive_lengths c) = PacketSymbols c"
  by (simp_all add: derive_lengths_def Let_def)

lemma registered_ready:
  assumes "registered chip d"
  shows "list_all (parser_ready (derive_lengths (Cfg d)) b) (map (set_power_history b) (parsers d))"
  using assms fresh_parser_ready by (auto simp: registered_def list_all_iff)

lemma set_power_history_overwrite: "set_power_history b (set_power_history b' p) = set_power_history b p"
  by (cases p) (simp_all add: SetPower16History_def)

lemma registered_payload:
  assumes d: "registered chip d" "needs_history d" and g: "geometry chip (derive_lengths (Cfg d))"
  shows "payload_in_history (derive_lengths (Cfg d))"
proof -
  let ?c = "derive_lengths (Cfg d)"
  obtain p where p: "p \<in> set (parsers d)" "consumesPower16 p" using d(2) by (auto simp: list_ex_iff)
  have "116 \<le> PacketSymbols (parser_Cfg p)" "PacketSymbols (parser_Cfg p) \<le> PacketSymbols ?c"
    using d(1) p fresh_parser_config(6) [of chip p] by (auto simp: registered_def list_all_iff)
  then have m: "PreambleSymbols ?c + 84 \<le> PacketSymbols ?c + 1" using g by (simp add: geometry_def)
  have "(PreambleSymbols ?c + 84) * (2 * chip) \<le> (PacketSymbols ?c + 1) * (2 * chip)" by (rule mult_le_mono1 [OF m])
  moreover have "1 * (2 * chip) \<le> PreambleSymbols ?c * (2 * chip)" by (rule mult_le_mono1) (use g in \<open>simp add: geometry_def\<close>)
  ultimately show ?thesis using g by (simp add: payload_in_history_def geometry_def algebra_simps)
qed

lemma registry_allocated:
  assumes "registry_ok d" "preambles d' = preambles d" "length (parsers d') = length (parsers d)" "PreambleSymbols (Cfg d') = PreambleSymbols (Cfg d)"
    "fixedIDMParsers d' = fixedIDMParsers d" "fixedR900Parsers d' = fixedR900Parsers d"
    "fixedIDMPreambleKey d' = fixedIDMPreambleKey d" "fixedR900PreambleKey d' = fixedR900PreambleKey d"
  shows "registry_ok d'"
  using assms(1) unfolding registry_ok_def fixed_family_def assms(2-) .

lemma geometry_packed:
  assumes "geometry chip c"
  shows "(BlockSize c + PreambleLength c + 7) div 8 = (BlockSize c + PreambleLength c) div 8"
  using geometryD(1,3) [OF assms] by (auto elim!: dvdE) 

lemma history_allocated:
  assumes g: "geometry chip c" and o: "overlap \<le> BlockSize c" "SymbolLength c \<le> overlap" "needs \<longrightarrow> 4 * ChipLength c \<le> overlap"
  shows "history_ok c needs (allocateHistory c overlap z)" "hist_view c (allocateHistory c overlap z) = replicate (BufferLength c) z"
proof -
  obtain s where s: "BlockSize c = 2 ^ s" "s < 64" using g by (auto simp: geometry_def)
  note h = allocateHistory_inv [OF s o(1) geometryD(9) [OF g], of z]
  have "historyOverlap (allocateHistory c overlap z) = overlap" by (simp add: allocateHistory_def Let_def)
  then show "history_ok c needs (allocateHistory c overlap z)" using h(1) o(2,3) by (simp add: history_ok_def)
  show "hist_view c (allocateHistory c overlap z) = replicate (BufferLength c) z" by (rule h(2))
qed

lemma Allocate_float:
  assumes d: "registered chip d" and g: "geometry chip (derive_lengths (Cfg d))"
    and sel: "selectPower16Platform (d\<lparr>parsers := map (set_power_history False) (parsers d), power16 := None, Cfg := derive_lengths (Cfg d)\<rparr>) = (d1, None)"
  shows "allocated chip (Allocate d)" "\<not> integer (Allocate d)" "Cfg (Allocate d) = derive_lengths (Cfg d)"
    "preambles (Allocate d) = preambles d" "parsers (Allocate d) = map (set_power_history False) (parsers d)"
    "magnitudes_of (Allocate d) = replicate (length (magnitudes_of (Allocate d))) (Fin 0)"
proof -
  let ?c = "derive_lengths (Cfg d)" and ?ps = "map (set_power_history False) (parsers d)"
  obtain st where d1: "d1 = d\<lparr>parsers := ?ps, power16 := None, Cfg := ?c, dispatchStatus := st\<rparr>" using select_platform(1) [OF sel] by auto
  define a where "a = Allocate d"
  have f: "Cfg a = ?c" "parsers a = ?ps" "power16 a = None" "preambles a = preambles d" "quantizedStart a = 0" "quantizedAliased a = False"
      "QuantizedOwn a = replicate (BufferLength ?c) 0" "packed a = replicate ((BlockSize ?c + PreambleLength ?c + 7) div 8) 0"
      "pkt a = replicate ((PacketSymbols ?c + 7) div 8) 0" "demod a = NewMagLUT"
      "signalHist a = (if signalHistoryOverlap d > 0 then Some (allocateHistory ?c (signalHistoryOverlap d) (Fin 0)) else None)"
      "shortSignal a = (if signalHistoryOverlap d > 0 then [] else replicate (BlockSize ?c + SymbolLength ?c) (Fin 0))"
      "fixedIDMParsers a = fixedIDMParsers d" "fixedR900Parsers a = fixedR900Parsers d"
      "fixedIDMPreambleKey a = fixedIDMPreambleKey d" "fixedR900PreambleKey a = fixedR900PreambleKey d"
    using d unfolding a_def Allocate_def Let_def sel
    by (simp_all add: d1 allocateFloatSignal_def allocateRing_def initial_packed_def packs_directly_def Let_def registered_def)
  have n: "needs_history a = needs_history d" unfolding f(2) by (rule needs_set_power_history)
  have o: "signalHistoryOverlap d = (if needs_history d then 4 * chip else 0)" using d by (simp add: registered_def)
  have c: "ChipLength ?c = chip" "SymbolLength ?c = 2 * chip" "0 < chip" "chip \<le> 8191" "BlockSize2 ?c = 2 * BlockSize ?c" using g by (auto simp: geometry_def)
  have hist: "signalHist a = Some h \<Longrightarrow> history_ok ?c (needs_history d) h \<and> hist_view ?c h = replicate (BufferLength ?c) (Fin 0)" for h
    using history_allocated [OF g, of "signalHistoryOverlap d" "needs_history d" "Fin 0"] geometryD(5) [OF g] f(11) o c
    by (auto split: if_splits)
  have "float_ok a" unfolding float_ok_def n f(1,10)
    using hist f(11,12) o c(3) by (auto split: if_splits option.splits)
  then have s: "samples_ok a"
    unfolding samples_ok_def n f(1,3) using registered_payload [OF d _ g] geometryD(8) [OF g] c by auto
  have "registry_ok a" by (rule registry_allocated [of d]) (use d f in \<open>simp_all add: registered_def\<close>)
  then show "allocated chip (Allocate d)"
    unfolding a_def [symmetric] allocated_def f(1) using s g registered_ready [OF d, of False] geometry_packed [OF g] f
    by (simp add: Quantized_def)
  show "\<not> integer (Allocate d)" "Cfg (Allocate d) = ?c" "preambles (Allocate d) = preambles d" "parsers (Allocate d) = ?ps"
    using f by (simp_all add: a_def)
  show "magnitudes_of (Allocate d) = replicate (length (magnitudes_of (Allocate d))) (Fin 0)"
    unfolding a_def [symmetric] magnitudes_of_def f(1,3) using hist f(11,12) by (auto split: if_splits)
qed


definition fresh_packed :: "PacketConfig \<Rightarrow> Packed" where
  "fresh_packed c =
     \<lparr>packedBacking = replicate (BufferLength c div 8 + (BlockSize c + PreambleLength c) div 8) 0, packedLength = BufferLength c div 8,
      packedStart = 0, packedLookahead = (BlockSize c + PreambleLength c) div 8\<rparr>"

lemma packed_allocated:
  assumes g: "geometry chip c"
  shows "packed_inv c (fresh_packed c)"
    "packed_decisions (fresh_packed c) = replicate (BufferLength c div 8) 0" "packedSearchWindow (fresh_packed c) = replicate ((BlockSize c + PreambleLength c) div 8) 0"
proof -
  note e = geometryD [OF g]
  have b: "BufferLength c = PacketConfig.PacketLength c + BlockSize c" using g by (simp add: geometry_def)
  have "BufferLength c div 8 = PacketConfig.PacketLength c div 8 + BlockSize c div 8" unfolding b using e(2) by (simp add: div_plus_div_distrib_dvd_left)
  moreover have "(BlockSize c + PreambleLength c) div 8 \<le> BufferLength c div 8" unfolding b using e(6) by (intro div_le_mono) simp
  moreover have "0 < BlockSize c div 8" using e(1,7) by (auto elim!: dvdE)
  moreover have "BlockSize c div 8 \<le> (BlockSize c + PreambleLength c) div 8" by (intro div_le_mono) simp
  ultimately show "packed_inv c (fresh_packed c)" by (auto simp: packed_inv_def fresh_packed_def)
  show "packed_decisions (fresh_packed c) = replicate (BufferLength c div 8) 0" by (simp add: packed_decisions_def rotated_def fresh_packed_def)
  show "packedSearchWindow (fresh_packed c) = replicate ((BlockSize c + PreambleLength c) div 8) 0" by (simp add: packedSearchWindow_def sub_def fresh_packed_def)
qed

lemma Allocate_integer:
  assumes d: "registered chip d" and g: "geometry chip (derive_lengths (Cfg d))"
    and sel: "selectPower16Platform (d\<lparr>parsers := map (set_power_history False) (parsers d), power16 := None, Cfg := derive_lengths (Cfg d)\<rparr>) = (d1, Some pp)"
    and probe: "probe_agrees (power16Probe d)"
  shows "allocated chip (Allocate d)" "integer (Allocate d)" "Cfg (Allocate d) = derive_lengths (Cfg d)"
    "preambles (Allocate d) = preambles d" "parsers (Allocate d) = map (set_power_history True) (parsers d)"
    "powers_of (Allocate d) = replicate (BufferLength (Cfg (Allocate d))) 0"
proof -
  let ?c = "derive_lengths (Cfg d)" and ?ps = "map (set_power_history True) (parsers d)"
  obtain st where d1: "d1 = d\<lparr>parsers := map (set_power_history False) (parsers d), power16 := None, Cfg := ?c, dispatchStatus := st\<rparr>"
    using select_platform(1) [OF sel] by auto
  have pp: "power16Probe d = Some pp" "pp_run pp \<noteq> None" "ChipLength ?c = power16ChipLength" "BlockSize ?c = power16BlockSize"
    using select_platform(2) [OF sel refl] by simp_all
  let ?overlap = "if signalHistoryOverlap d < SymbolLength ?c then SymbolLength ?c else signalHistoryOverlap d"
  define a where "a = Allocate d"
  define pk where "pk = (if pp_runPacked pp \<noteq> None then fresh_packed ?c
      else \<lparr>packedBacking = [], packedLength = 0, packedStart = 0, packedLookahead = 0\<rparr>)"
  define s16 where "s16 = \<lparr>p_hist = allocateHistory ?c ?overlap 0, p_packed = pk, nativeBlocks = 0, p_run = the (pp_run pp), p_runPacked = pp_runPacked pp\<rparr>"
  have f: "Cfg a = ?c" "parsers a = ?ps" "power16 a = Some s16" "preambles a = preambles d" "quantizedStart a = 0" "quantizedAliased a = (pp_runPacked pp \<noteq> None)"
      "QuantizedOwn a = (if pp_runPacked pp = None then replicate (BufferLength ?c) 0 else [])"
      "quantizedBacking a = (if pp_runPacked pp = None then [] else replicate (BufferLength ?c + BlockSize ?c) 0)"
      "packed a = (if pp_runPacked pp \<noteq> None then packedSearchWindow pk else replicate ((BlockSize ?c + PreambleLength ?c + 7) div 8) 0)"
      "pkt a = replicate ((PacketSymbols ?c + 7) div 8) 0"
      "fixedIDMParsers a = fixedIDMParsers d" "fixedR900Parsers a = fixedR900Parsers d"
      "fixedIDMPreambleKey a = fixedIDMPreambleKey d" "fixedR900PreambleKey a = fixedR900PreambleKey d"
    using d unfolding a_def Allocate_def Let_def sel
    by (simp_all add: d1 allocatePower16_def allocateRing_def initial_packed_def packs_directly_def Let_def registered_def
        set_power_history_overwrite o_def s16_def pk_def fresh_packed_def)
  have n: "needs_history a = needs_history d" unfolding f(2) by (rule needs_set_power_history)
  have c: "ChipLength ?c = chip" "SymbolLength ?c = 2 * chip" "0 < chip" "chip \<le> 8191" "BlockSize2 ?c = 2 * BlockSize ?c" using g by (auto simp: geometry_def)
  have o: "signalHistoryOverlap d = (if needs_history d then 4 * chip else 0)" using d by (simp add: registered_def)
  then have ov: "?overlap \<le> BlockSize ?c" "SymbolLength ?c \<le> ?overlap" "needs_history d \<longrightarrow> 4 * ChipLength ?c \<le> ?overlap"
    using geometryD(5) [OF g] c by auto
  note hist = history_allocated [OF g ov]
  have q: "Quantized a = replicate (BufferLength ?c) 0" unfolding Quantized_def f(1,6,7,8) by simp
  then have dec: "decisions a = replicate (BufferLength ?c) 0" by (simp add: decisions_def f(5) rotated_def)
  have io: "integer_ok a s16"
    unfolding integer_ok_def n f(1,6,9) dec packed_of_zeros
    using hist(1) pp probe packed_allocated [OF g] by (auto simp: s16_def pk_def probe_agrees_def split: option.splits)
  then have s: "samples_ok a"
    unfolding samples_ok_def n f(1,3) using registered_payload [OF d _ g] geometryD(8) [OF g] c by auto
  have "registry_ok a" by (rule registry_allocated [of d]) (use d f in \<open>simp_all add: registered_def\<close>)
  moreover have "packed a = replicate ((BlockSize ?c + PreambleLength ?c) div 8) 0"
    unfolding f(9) using packed_allocated(3) [OF g] geometry_packed [OF g] by (simp add: pk_def)
  ultimately show "allocated chip (Allocate d)"
    unfolding a_def [symmetric] allocated_def f(1) q using s g registered_ready [OF d, of True] f by simp
  show "integer (Allocate d)" "Cfg (Allocate d) = ?c" "preambles (Allocate d) = preambles d" "parsers (Allocate d) = ?ps"
    using f by (simp_all add: a_def)
  show "powers_of (Allocate d) = replicate (BufferLength (Cfg (Allocate d))) 0"
    unfolding a_def [symmetric] powers_of_def f(1,3) by (simp add: s16_def hist(2) split del: if_split)
qed


section \<open>Runs\<close>

text \<open>The decoder of the program: the parsers are registered in order, then the buffers are allocated.\<close>

definition program_decoder :: "bool \<Rightarrow> power16Platform option \<Rightarrow> AnyParser list \<Rightarrow> Decoder" where
  "program_decoder automatic probe ps = Allocate (foldl RegisterProtocol (newDecoder automatic probe) ps)"

text \<open>A run decodes blocks one after the other; each comes with the order in which the map of preambles
  happens to be iterated.\<close>

fun run_blocks :: "decoder_platform \<Rightarrow> Decoder \<Rightarrow> (u8 list list \<times> u8 list) list \<Rightarrow> (Decoder \<times> Message list list) res" where
  "run_blocks pf d [] = Inr (d, [])"
| "run_blocks pf d ((keys, input) # blocks) =
     bind_res (Decode pf keys d input) (\<lambda>(d, ms).
     bind_res (run_blocks pf d blocks) (\<lambda>(d, mss). Inr (d, ms # mss)))"

text \<open>The messages of a run, read off the view: one list per block, for some order of the preambles.\<close>

fun view_run :: "Decoder \<Rightarrow> stream_view \<Rightarrow> (u8 list list \<times> u8 list) list \<Rightarrow> Message list list \<Rightarrow> bool" where
  "view_run d v [] mss \<longleftrightarrow> mss = []"
| "view_run d v ((keys, input) # blocks) mss \<longleftrightarrow>
     (let v' = view_step (Cfg d) (integer d) v input in
      \<exists>ms mss' keys'. mss = ms # mss' \<and> mset keys' = mset keys \<and> ms = concat (map (reports d v') keys') \<and> view_run d v' blocks mss')"

definition view_blocks :: "Decoder \<Rightarrow> stream_view \<Rightarrow> (u8 list list \<times> u8 list) list \<Rightarrow> stream_view" where
  "view_blocks d v blocks = foldl (\<lambda>v b. view_step (Cfg d) (integer d) v (snd b)) v blocks"

definition valid_blocks :: "Decoder \<Rightarrow> (u8 list list \<times> u8 list) list \<Rightarrow> bool" where
  "valid_blocks d blocks \<longleftrightarrow> (\<forall>(keys, input)\<in>set blocks. mset keys = mset (map fst (preambles d)) \<and> length input = BlockSize2 (Cfg d))"

lemma probe_kept: "power16Probe (foldl RegisterProtocol d ps) = power16Probe d"
  by (induction ps arbitrary: d) (simp_all add: RegisterProtocol_def Let_def)

lemma program_decoder_allocated:
  assumes "list_all (fresh_parser chip) ps" "ps \<noteq> []" "0 < chip" "4 dvd chip" "chip \<le> 8191" "probe_agrees probe"
  shows "allocated chip (program_decoder automatic probe ps)" "length (parsers (program_decoder automatic probe ps)) = length ps"
proof -
  let ?d = "foldl RegisterProtocol (newDecoder automatic probe) ps"
  have r: "registered chip ?d" by (rule registered_all [OF assms(1) registered_newDecoder])
  have p: "parsers ?d = ps" by (simp add: registered_parsers newDecoder_def)
  have g: "geometry chip (derive_lengths (Cfg ?d))" using registered_geometry [OF r] p assms(2-5) by simp
  have probe: "probe_agrees (power16Probe ?d)" using assms(6) by (simp add: probe_kept newDecoder_def)
  obtain d1 platform where sel:
      "selectPower16Platform (?d\<lparr>parsers := map (set_power_history False) (parsers ?d), power16 := None, Cfg := derive_lengths (Cfg ?d)\<rparr>) = (d1, platform)"
    by fastforce
  show "allocated chip (program_decoder automatic probe ps)" "length (parsers (program_decoder automatic probe ps)) = length ps"
    using Allocate_float [OF r g] Allocate_integer [OF r g _ probe] sel p unfolding program_decoder_def by (cases platform; force)+
qed

lemma reports_kind:
  assumes "Cfg d' = Cfg d" "integer d' = integer d" "preambles d' = preambles d" "map kind (parsers d') = map kind (parsers d)"
    and "registry_ok d" "key \<in> fst ` set (preambles d)"
  shows "reports d' v key = reports d v key"
proof -
  obtain members where m: "map_of (preambles d) key = Some members" "\<forall>i\<in>set members. i < length (parsers d)"
    using assms(5,6) by (force simp: registry_ok_def)
  have "kind (parsers d' ! i) = kind (parsers d ! i)" if "i < length (parsers d)" for i
    using assms(4) that by (metis map_eq_imp_length_eq nth_map)
  then show ?thesis unfolding view_messages_def assms(1,2,3) m(1) option.sel
    using m(2) by (intro arg_cong [of _ _ concat] map_cong refl parser_messages_kind) simp
qed

lemma view_run_cong:
  assumes "Cfg d' = Cfg d" "integer d' = integer d" "preambles d' = preambles d" "map kind (parsers d') = map kind (parsers d)"
    and "registry_ok d" "valid_blocks d blocks"
  shows "view_run d' v blocks mss = view_run d v blocks mss"
  using assms(6)
proof (induction blocks arbitrary: v mss)
  case (Cons b blocks)
  obtain keys input where b: "b = (keys, input)" by (cases b)
  have k: "mset keys = mset (map fst (preambles d))" "valid_blocks d blocks" using Cons.prems by (auto simp: valid_blocks_def b)
  have "map (reports d' w) keys' = map (reports d w) keys'" if "mset keys' = mset keys" for keys' w
  proof -
    have "set keys' = fst ` set (preambles d)" using that k(1) by (metis image_set set_mset_mset)
    then show ?thesis using reports_kind [OF assms(1-5)] by auto
  qed
  then show ?case using Cons.IH [OF k(2)] unfolding b view_run.simps Let_def assms(1,2) by metis
qed simp

lemma run_blocks_view:
  assumes "platform_agrees pf" "decoder_inv pf d" "valid_blocks d blocks"
  shows "\<exists>d' mss. run_blocks pf d blocks = Inr (d', mss) \<and> view_run d (view_of d) blocks mss \<and> decoder_inv pf d' \<and>
    view_of d' = view_blocks d (view_of d) blocks \<and>
    Cfg d' = Cfg d \<and> integer d' = integer d \<and> preambles d' = preambles d \<and> map kind (parsers d') = map kind (parsers d)"
  using assms(2,3)
proof (induction blocks arbitrary: d)
  case Nil
  then show ?case by (simp add: view_blocks_def)
next
  case (Cons b blocks)
  obtain keys input where b: "b = (keys, input)" by (cases b)
  have k: "mset keys = mset (map fst (preambles d))" "length input = BlockSize2 (Cfg d)" "valid_blocks d blocks"
    using Cons.prems(2) by (auto simp: valid_blocks_def b)
  let ?v = "view_step (Cfg d) (integer d) (view_of d) input"
  obtain d1 keys' where d1: "mset keys' = mset keys" "Decode pf keys d input = Inr (d1, concat (map (reports d ?v) keys'))" "decoder_inv pf d1"
      "view_of d1 = ?v" "Cfg d1 = Cfg d" "integer d1 = integer d" "preambles d1 = preambles d" "map kind (parsers d1) = map kind (parsers d)"
    using Decode_messages [OF assms(1) Cons.prems(1) k(2,1)] by blast
  have "valid_blocks d1 blocks" using k(3) unfolding valid_blocks_def d1(5,7) .
  then obtain d' mss where d': "run_blocks pf d1 blocks = Inr (d', mss)" "view_run d1 ?v blocks mss" "decoder_inv pf d'"
      "view_of d' = view_blocks d1 ?v blocks" "Cfg d' = Cfg d1" "integer d' = integer d1" "preambles d' = preambles d1" "map kind (parsers d') = map kind (parsers d1)"
    using Cons.IH [OF d1(3)] d1(4) by auto
  have "view_run d ?v blocks mss" using d'(2) view_run_cong [OF d1(5-8) decoder_invD(5) [OF Cons.prems(1)] k(3)] by simp
  then have "view_run d (view_of d) (b # blocks) (concat (map (reports d ?v) keys') # mss)" using d1(1) by (auto simp: b Let_def)
  moreover have "view_of d' = view_blocks d (view_of d) (b # blocks)" using d'(4) unfolding view_blocks_def d1(5,6) by (simp add: b)
  moreover have "run_blocks pf d (b # blocks) = Inr (d', concat (map (reports d ?v) keys') # mss)" using d1(2) d'(1) by (simp add: b)
  moreover have "Cfg d' = Cfg d" "integer d' = integer d" "preambles d' = preambles d" "map kind (parsers d') = map kind (parsers d)"
    using d1(5-8) d'(5-8) by simp_all
  ultimately show ?case using d'(3) by blast
qed

section \<open>Reset\<close>

lemma reset_history_ok:
  assumes "hist_inv c h"
  shows "hist_inv c (reset_history h z)" "hist_view c (reset_history h z) = replicate (BufferLength c) z"
proof -
  let ?r = "reset_history h z" and ?n = "blockCount h" and ?s = "blockStride h" and ?B = "BlockSize c" and ?o = "historyOverlap h"
  have i: "?s = ?B + ?o" "2 \<le> ?n" "length (backing h) = ?n * ?s" using assms by (auto simp: hist_inv_def)
  have z: "backing ?r ! x = z" if "x < ?n * ?s" for x using that i(3) by (simp add: reset_history_def)
  have f: "blockCount ?r = ?n" "blockStride ?r = ?s" "historyOverlap ?r = ?o" "block ?r = ?n - 1" "blockShift ?r = blockShift h"
      "blockMask ?r = blockMask h" "gap ?r = gap h" "length (backing ?r) = ?n * ?s"
    using i(3) by (simp_all add: reset_history_def)
  have "backing ?r ! ((if k + 1 = ?n then 0 else k + 1) * ?s + j) = backing ?r ! (k * ?s + ?B + j)" if k: "k < ?n" and j: "j < ?o" for k j
  proof -
    have "(if k + 1 = ?n then 0 else k + 1) < ?n" using k by simp
    then have "(if k + 1 = ?n then 0 else k + 1) * ?s + j < ?n * ?s" using j i(1) by (intro cell_less) simp_all
    moreover have "k * ?s + (?B + j) < ?n * ?s" using k j i(1) by (intro cell_less) simp_all
    ultimately show ?thesis by (simp only: z add.assoc)
  qed
  then show inv: "hist_inv c ?r" using assms i(2) unfolding hist_inv_def f by auto
  show "hist_view c ?r = replicate (BufferLength c) z"
  proof (rule nth_equalityI)
    fix x assume "x < length (hist_view c ?r)"
    then have x: "x < BufferLength c" by simp
    note lt = hist_index_less [OF inv x, unfolded f]
    have "wrap ?n (?n - 1 + 1 + (gap h + x) div ?B) < ?n" using lt(1) i(2) by (intro wrap_less) simp
    then have "wrap ?n (?n - 1 + 1 + (gap h + x) div ?B) * ?s + (?o + (gap h + x) mod ?B) < ?n * ?s"
      by (rule cell_less) (use lt(2) i(1) in linarith)
    then show "hist_view c ?r ! x = replicate (BufferLength c) z ! x"
      using x by (simp add: hist_view_def hist_at_def f z add.assoc)
  qed simp
qed

text \<open>The same view with nothing received.\<close>

definition blank :: "stream_view \<Rightarrow> stream_view" where
  "blank v = \<lparr>v_decisions = replicate (length (v_decisions v)) 0, v_powers = replicate (length (v_powers v)) 0,
     v_magnitudes = replicate (length (v_magnitudes v)) (Fin 0)\<rparr>"

lemma reset_ring:
  assumes "decoder_inv pf d"
  shows "Quantized (Reset_decoder d) = replicate (BufferLength (Cfg d)) 0" "frame d (Reset_decoder d\<lparr>pkt := pkt d\<rparr>)"
    "pkt (Reset_decoder d) = replicate (length (pkt d)) 0" "quantizedStart (Reset_decoder d) = 0"
    "quantizedAliased d \<longrightarrow> length (quantizedBacking (Reset_decoder d)) = BufferLength (Cfg d) + BlockSize (Cfg d)"
proof -
  note i = decoder_invD [OF assms]
  have r: "length (Quantized d) = BufferLength (Cfg d)" "quantizedAliased d \<longrightarrow> length (quantizedBacking d) = BufferLength (Cfg d) + BlockSize (Cfg d)"
    using i(1) by (auto simp: ring_inv_def)
  show "Quantized (Reset_decoder d) = replicate (BufferLength (Cfg d)) 0"
    using r by (auto simp: Reset_decoder_def Let_def Quantized_def ownsQuantizedRing_def split: option.splits if_splits)
  show "frame d (Reset_decoder d\<lparr>pkt := pkt d\<rparr>)" "pkt (Reset_decoder d) = replicate (length (pkt d)) 0" "quantizedStart (Reset_decoder d) = 0"
    by (auto simp: frame_def Reset_decoder_def Let_def split: option.splits)
  show "quantizedAliased d \<longrightarrow> length (quantizedBacking (Reset_decoder d)) = BufferLength (Cfg d) + BlockSize (Cfg d)"
    using r by (auto simp: Reset_decoder_def Let_def split: option.splits)
qed


lemma reset_packed:
  assumes p: "packed_inv c s" and c: "8 dvd BlockSize c" "8 dvd PacketConfig.PacketLength c" "BufferLength c = PacketConfig.PacketLength c + BlockSize c"
  defines "s' \<equiv> s\<lparr>packedStart := 0, packedBacking := replicate (length (packedBacking s)) 0\<rparr>"
  shows "packed_inv c s'" "packed_decisions s' = packed_of (replicate (BufferLength c) 0)" "length (packedSearchWindow s') = length (packedSearchWindow s)"
proof -
  have l: "packedLength s = BufferLength c div 8" "length (packedBacking s) = packedLength s + packedLookahead s"
    using p c by (auto simp: packed_inv_def div_plus_div_distrib_dvd_left)
  show i: "packed_inv c s'" using p by (auto simp: packed_inv_def s'_def)
  show "packed_decisions s' = packed_of (replicate (BufferLength c) 0)"
    unfolding packed_of_zeros using l by (simp add: packed_decisions_def s'_def rotated_def)
  show "length (packedSearchWindow s') = length (packedSearchWindow s)"
    unfolding packed_window_length [OF p] packed_window_length [OF i] by (simp add: s'_def)
qed

lemma reset_samples:
  assumes d: "decoder_inv pf d"
  shows "samples_ok (Reset_decoder d)" "powers_of (Reset_decoder d) = replicate (length (powers_of d)) 0"
    "magnitudes_of (Reset_decoder d) = replicate (length (magnitudes_of d)) (Fin 0)"
    "packed (Reset_decoder d) = packed_of (take (8 * length (packed d)) (replicate (BufferLength (Cfg d)) 0))"
    "length (packed (Reset_decoder d)) = length (packed d)"
proof -
  let ?r = "Reset_decoder d" and ?c = "Cfg d"
  note i = decoder_invD [OF d]
  have f: "Cfg ?r = ?c" "parsers ?r = parsers d" "demod ?r = demod d" "quantizedAliased ?r = quantizedAliased d"
    by (auto simp: Reset_decoder_def Let_def split: option.splits)
  have z: "decisions ?r = replicate (BufferLength ?c) 0" using reset_ring(1,4) [OF d] by (simp add: decisions_def rotated_def)
  have zl: "packed_of (take (8 * length (packed d)) (replicate (BufferLength ?c) 0)) = replicate (length (packed d)) 0"
    using i(3,6) by (simp add: packed_of_zeros)
  have r: "8 dvd BlockSize ?c" "8 dvd PacketConfig.PacketLength ?c" "BufferLength ?c = PacketConfig.PacketLength ?c + BlockSize ?c"
    using i(1) by (auto simp: ring_inv_def)
  note hist = reset_history_ok
  have goal: "samples_ok ?r \<and> powers_of ?r = replicate (length (powers_of d)) 0 \<and> magnitudes_of ?r = replicate (length (magnitudes_of d)) (Fin 0) \<and>
      packed ?r = replicate (length (packed d)) 0"
  proof (cases "power16 d")
    case None
    have g: "power16 ?r = None" "signalHist ?r = map_option (\<lambda>h. reset_history h (Fin 0)) (signalHist d)"
        "shortSignal ?r = replicate (length (shortSignal d)) (Fin 0)" "packed ?r = replicate (length (packed d)) 0"
      using None by (simp_all add: Reset_decoder_def Let_def)
    have "float_ok ?r" using i(4) None hist [of ?c _ "Fin 0"] unfolding float_ok_def samples_ok_def f g
      by (cases "signalHist d") (auto simp: history_ok_def reset_history_def)
    then have "samples_ok ?r" using i(4) None unfolding samples_ok_def f g by simp
    moreover have "magnitudes_of ?r = replicate (length (magnitudes_of d)) (Fin 0)"
      using i(4) None hist(2) [of ?c _ "Fin 0"] unfolding magnitudes_of_def samples_ok_def float_ok_def history_ok_def f g
      by (cases "signalHist d") auto
    ultimately show ?thesis using g None by (simp add: powers_of_def)
  next
    case (Some st)
    let ?pk = "(p_packed st)\<lparr>packedStart := 0, packedBacking := replicate (length (packedBacking (p_packed st))) 0\<rparr>"
    have g: "power16 ?r = Some (st\<lparr>p_hist := reset_history (p_hist st) 0, nativeBlocks := 0, p_packed := ?pk\<rparr>)"
        "packed ?r = (if p_runPacked st \<noteq> None then packedSearchWindow ?pk else replicate (length (packed d)) 0)"
      using Some by (simp_all add: Reset_decoder_def Let_def)
    have io: "integer_ok d st" using i(4) Some by (simp add: samples_ok_def)
    have h: "history_ok ?c (needs_history d) (reset_history (p_hist st) 0)"
      using io hist(1) [of ?c "p_hist st" 0] by (auto simp: integer_ok_def history_ok_def reset_history_def)
    have pk: "packed_inv ?c ?pk" "packed_decisions ?pk = packed_of (replicate (BufferLength ?c) 0)" "length (packedSearchWindow ?pk) = length (packed d)"
      if "p_runPacked st = Some rp" for rp
      using reset_packed [of ?c "p_packed st"] io that r by (auto simp: integer_ok_def)
    have p: "packed ?r = replicate (length (packed d)) 0"
      unfolding g(2) using packed_window_of [OF pk(1,2,3)] zl by auto
    have "integer_ok ?r (st\<lparr>p_hist := reset_history (p_hist st) 0, nativeBlocks := 0, p_packed := ?pk\<rparr>)"
      using io h pk unfolding integer_ok_def f z g(2) by (auto split: option.splits)
    then have "samples_ok ?r" using i(4) Some unfolding samples_ok_def f g by simp
    moreover have "powers_of ?r = replicate (length (powers_of d)) 0"
      using io hist(2) [of ?c "p_hist st" 0] Some unfolding powers_of_def f g by (simp add: integer_ok_def history_ok_def)
    ultimately show ?thesis using p g Some by (simp add: magnitudes_of_def)
  qed
  then show "samples_ok ?r" "powers_of ?r = replicate (length (powers_of d)) 0" "magnitudes_of ?r = replicate (length (magnitudes_of d)) (Fin 0)"
      "packed ?r = packed_of (take (8 * length (packed d)) (replicate (BufferLength ?c) 0))" "length (packed ?r) = length (packed d)"
    unfolding zl by simp_all
qed

lemma Reset_inv:
  assumes d: "decoder_inv pf d" and leaf: "leaf_agrees (quantizer_leaf pf)"
  shows "decoder_inv pf (Reset_decoder d)" "view_of (Reset_decoder d) = blank (view_of d)"
    "Cfg (Reset_decoder d) = Cfg d" "integer (Reset_decoder d) = integer d" "preambles (Reset_decoder d) = preambles d" "parsers (Reset_decoder d) = parsers d"
proof -
  let ?r = "Reset_decoder d" and ?c = "Cfg d"
  let ?d = "?r\<lparr>pkt := pkt d\<rparr>"
  note i = decoder_invD [OF d] and ring = reset_ring [OF d] and s = reset_samples [OF d]
  have z: "decisions ?r = replicate (BufferLength ?c) 0" using ring(1,4) by (simp add: decisions_def rotated_def)
  have f: "Cfg ?r = ?c" "parsers ?r = parsers d" "preambles ?r = preambles d" "integer ?r = integer d" "quantizedAliased ?r = quantizedAliased d"
    using ring(2) unfolding frame_def by auto
  have serv: "after_serving ?r ?d" by (rule after_serving_pkt)
  have "ring_inv ?c ?r" using i(1) ring(5) unfolding ring_inv_def f ring(1,4) by simp
  then have "ring_inv ?c ?d" by simp
  moreover have "binary (decisions ?d)" by (simp add: z binary_def set_replicate_conv_if)
  moreover have "samples_ok ?d" by (rule samples_ok_serving(1) [OF serv s(1)])
  ultimately have inv: "decoder_inv pf ?d"
    by (rule inv_advance [OF d leaf ring(2)]) (use s(4,5) z in simp_all)
  have rd: "decoder_ready pf ?d" "served pf ?d" using inv by (simp_all add: decoder_inv_def decoder_ready_def)
  have "served pf (?d\<lparr>pkt := pkt ?r\<rparr>)" by (rule served_pkt [OF rd(2)]) (simp add: ring(3))
  then have "decoder_ready pf (?d\<lparr>pkt := pkt ?r\<rparr>)" by (rule ready_serving [OF after_serving_pkt rd(1)])
  then show "decoder_inv pf ?r" using s(1) unfolding decoder_inv_def by simp
  show "view_of ?r = blank (view_of d)" using z s(2,3) i(6) by (simp add: view_of_def blank_def)
  show "Cfg ?r = ?c" "integer ?r = integer d" "preambles ?r = preambles d" "parsers ?r = parsers d" using f by auto
qed


lemma view_blocks_lengths:
  assumes "\<forall>b\<in>set blocks. length (snd b) = 2 * BlockSize (Cfg d)"
    and "BlockSize (Cfg d) \<le> length (v_decisions v)" "if integer d then v_magnitudes v = [] \<and> BlockSize (Cfg d) \<le> length (v_powers v)
      else v_powers v = [] \<and> BlockSize (Cfg d) \<le> length (v_magnitudes v)"
  shows "blank (view_blocks d v blocks) = blank v"
  using assms
proof (induction blocks arbitrary: v)
  case (Cons b blocks)
  let ?v = "view_step (Cfg d) (integer d) v (snd b)"
  have l: "length (v_decisions ?v) = length (v_decisions v)" "length (v_powers ?v) = length (v_powers v)" "length (v_magnitudes ?v) = length (v_magnitudes v)"
      "integer d \<longrightarrow> v_magnitudes ?v = []" "\<not> integer d \<longrightarrow> v_powers ?v = []"
    using Cons.prems by (simp_all add: view_step_def Let_def split: if_splits)
  have "blank ?v = blank v" unfolding blank_def l ..
  moreover have "blank (view_blocks d ?v blocks) = blank ?v"
  proof (rule Cons.IH)
    show "if integer d then v_magnitudes ?v = [] \<and> BlockSize (Cfg d) \<le> length (v_powers ?v)
        else v_powers ?v = [] \<and> BlockSize (Cfg d) \<le> length (v_magnitudes ?v)"
      using Cons.prems(3) l by (cases "integer d") simp_all
  qed (use Cons.prems l(1) in simp_all)
  ultimately show ?case by (simp add: view_blocks_def)
qed (simp add: view_blocks_def)

lemma allocated_blank:
  assumes "list_all (fresh_parser chip) ps" "ps \<noteq> []" "0 < chip" "4 dvd chip" "chip \<le> 8191" "probe_agrees probe"
  shows "blank (view_of (program_decoder automatic probe ps)) = view_of (program_decoder automatic probe ps)"
proof -
  let ?d = "foldl RegisterProtocol (newDecoder automatic probe) ps"
  let ?a = "program_decoder automatic probe ps"
  have r: "registered chip ?d" by (rule registered_all [OF assms(1) registered_newDecoder])
  have g: "geometry chip (derive_lengths (Cfg ?d))" using registered_geometry [OF r] assms(2-5) by (simp add: registered_parsers newDecoder_def)
  have probe: "probe_agrees (power16Probe ?d)" using assms(6) by (simp add: probe_kept newDecoder_def)
  obtain d1 platform where sel:
      "selectPower16Platform (?d\<lparr>parsers := map (set_power_history False) (parsers ?d), power16 := None, Cfg := derive_lengths (Cfg ?d)\<rparr>) = (d1, platform)"
    by fastforce
  have "Quantized ?a = replicate (BufferLength (Cfg ?a)) 0" "quantizedStart ?a = 0"
    using program_decoder_allocated(1) [OF assms] by (auto simp: allocated_def)
  then have dec: "decisions ?a = replicate (BufferLength (Cfg ?a)) 0" by (simp add: decisions_def rotated_def)
  have "powers_of ?a = replicate (length (powers_of ?a)) 0 \<and> magnitudes_of ?a = replicate (length (magnitudes_of ?a)) (Fin 0)"
  proof (cases platform)
    case None
    then show ?thesis using Allocate_float(2,6) [OF r g] sel unfolding program_decoder_def by (simp add: powers_of_def)
  next
    case (Some pp)
    then have "powers_of ?a = replicate (BufferLength (Cfg ?a)) 0" "integer ?a"
      using Allocate_integer(2,6) [OF r g _ probe] sel unfolding program_decoder_def by auto
    then show ?thesis by (auto simp: magnitudes_of_def)
  qed
  then show ?thesis using dec by (simp add: view_of_def blank_def)
qed

lemma inv_lengths:
  assumes "decoder_inv pf d"
  shows "BlockSize (Cfg d) \<le> length (v_decisions (view_of d))"
    "if integer d then v_magnitudes (view_of d) = [] \<and> BlockSize (Cfg d) \<le> length (v_powers (view_of d))
     else v_powers (view_of d) = [] \<and> BlockSize (Cfg d) \<le> length (v_magnitudes (view_of d))"
proof -
  note i = decoder_invD [OF assms]
  have b: "BlockSize (Cfg d) \<le> BufferLength (Cfg d)" using i(1) by (simp add: ring_inv_def)
  then show "BlockSize (Cfg d) \<le> length (v_decisions (view_of d))" using i(6) by (simp add: view_of_def)
  show "if integer d then v_magnitudes (view_of d) = [] \<and> BlockSize (Cfg d) \<le> length (v_powers (view_of d))
     else v_powers (view_of d) = [] \<and> BlockSize (Cfg d) \<le> length (v_magnitudes (view_of d))"
    using b magnitudes_length [OF i(4)] by (cases "power16 d") (simp_all add: view_of_def powers_of_def magnitudes_of_def)
qed

section \<open>Properties\<close>

text \<open>C1: Decoding refines the abstract view. For every non-empty mix of the program's parsers, every chip length that is a
  positive multiple of four up to 8191, every choice of backend and every agreement-tested leaf, the decoder
  never panics on blocks of the configured size, and for every block it reports exactly what the view of the
  streams says: the decisions and samples slide by one block, and each registered parser reports the valid distinct
  messages of the positions at which its preamble stands, preamble by preamble in some order. The message lists
  do not depend on the ring buffers, on the packed windows, on lazily sliced packets, on the native kernels
  or on earlier state of the parsers.\<close>
theorem decode_refines_the_view:
  assumes "list_all (fresh_parser chip) ps" "ps \<noteq> []" "0 < chip" "4 dvd chip" "chip \<le> 8191"
    and "platform_agrees pf" "probe_agrees probe" "valid_blocks (program_decoder automatic probe ps) blocks"
  shows "\<exists>d mss. run_blocks pf (program_decoder automatic probe ps) blocks = Inr (d, mss) \<and>
    view_run (program_decoder automatic probe ps) (view_of (program_decoder automatic probe ps)) blocks mss \<and>
    view_of d = view_blocks (program_decoder automatic probe ps) (view_of (program_decoder automatic probe ps)) blocks"
proof -
  have "decoder_inv pf (program_decoder automatic probe ps)"
    using allocated_inv(1) [OF program_decoder_allocated(1) [OF assms(1-5,7)]] assms(6) by (simp add: platform_agrees_def)
  from run_blocks_view [OF assms(6) this assms(8)] show ?thesis by blast
qed

definition portable :: decoder_platform where
  "portable = \<lparr>search_leaves = generic_platform, signal_leaves = generic_signal_platform, quantizer_leaf = power16R900PortablePlatform\<rparr>"

lemma portable_agrees: "platform_agrees portable" "probe_agrees None"
  by (simp_all add: platform_agrees_def portable_def generic_leaves_agree generic_dual_agrees generic_signal_agrees portable_leaf_agrees probe_agrees_def)

lemma Allocate_fields: "Cfg (Allocate d) = derive_lengths (Cfg d)" "preambles (Allocate d) = preambles d"
proof -
  obtain d1 platform where sel:
      "selectPower16Platform (d\<lparr>parsers := map (set_power_history False) (parsers d), power16 := None, Cfg := derive_lengths (Cfg d)\<rparr>) = (d1, platform)"
    by fastforce
  obtain st where "d1 = d\<lparr>parsers := map (set_power_history False) (parsers d), power16 := None, Cfg := derive_lengths (Cfg d), dispatchStatus := st\<rparr>"
    using select_platform(1) [OF sel] by auto
  then show "Cfg (Allocate d) = derive_lengths (Cfg d)" "preambles (Allocate d) = preambles d"
    unfolding Allocate_def Let_def sel
    by (cases platform; simp add: allocateFloatSignal_def allocatePower16_def allocateRing_def Let_def)+
qed

abbreviation scm_key :: "u8 list" where
  "scm_key \<equiv> preamble_bytes ''111110010101001100000''"

lemma scm_blocks_valid:
  "valid_blocks (program_decoder False None [PScm (scm_NewParser 4)]) [([scm_key], replicate 512 127), ([scm_key], replicate 512 3)]"
proof -
  have "preambles (foldl RegisterProtocol (newDecoder False None) [PScm (scm_NewParser 4)]) = [(scm_key, [0])]"
      "PreambleSymbols (Cfg (foldl RegisterProtocol (newDecoder False None) [PScm (scm_NewParser 4)])) = 21"
      "ChipLength (Cfg (foldl RegisterProtocol (newDecoder False None) [PScm (scm_NewParser 4)])) = 4"
    by (simp_all add: RegisterProtocol_def newDecoder_def scm_NewParser_def merge_config_def add_parser_def zeroPacketConfig_def Let_def)
  moreover have "NextPowerOf2 168 = 256" by code_simp
  ultimately show ?thesis by (simp add: valid_blocks_def program_decoder_def Allocate_fields derive_lengths_def Let_def del: foldl_Cons)
qed

lemma scm_mix: "list_all (fresh_parser 4) [PScm (scm_NewParser 4)]"
  by (simp add: fresh_parser_def)

theorem decode_refines_the_view_witness:
  "\<exists>d mss. run_blocks portable (program_decoder False None [PScm (scm_NewParser 4)])
      [([scm_key], replicate 512 127), ([scm_key], replicate 512 3)] = Inr (d, mss) \<and> length mss = 2"
  using decode_refines_the_view [OF scm_mix _ _ _ _ portable_agrees scm_blocks_valid] by (auto simp: Let_def)

text \<open>C2: \<open>Reset\<close> returns the decoder to where allocation left it: after any number of blocks and a reset, the decoder reports
  on every further sequence of blocks what a freshly allocated decoder reports on it, on every backend, without
  repeating registration, selection of the platform or allocation.\<close>
theorem reset_restarts_the_stream:
  assumes "list_all (fresh_parser chip) ps" "ps \<noteq> []" "0 < chip" "4 dvd chip" "chip \<le> 8191"
    and "platform_agrees pf" "probe_agrees probe"
    and "valid_blocks (program_decoder automatic probe ps) blocks" "valid_blocks (program_decoder automatic probe ps) further"
  shows "\<exists>d mss. run_blocks pf (program_decoder automatic probe ps) blocks = Inr (d, mss) \<and>
    view_of (Reset_decoder d) = view_of (program_decoder automatic probe ps) \<and>
    (\<exists>d' mss'. run_blocks pf (Reset_decoder d) further = Inr (d', mss') \<and>
       view_run (program_decoder automatic probe ps) (view_of (program_decoder automatic probe ps)) further mss')"
proof -
  let ?a = "program_decoder automatic probe ps"
  have leaf: "leaf_agrees (quantizer_leaf pf)" using assms(6) by (simp add: platform_agrees_def)
  have a: "decoder_inv pf ?a" by (rule allocated_inv(1) [OF program_decoder_allocated(1) [OF assms(1-5,7)] leaf])
  obtain d mss where d: "run_blocks pf ?a blocks = Inr (d, mss)" "decoder_inv pf d" "view_of d = view_blocks ?a (view_of ?a) blocks"
      "Cfg d = Cfg ?a" "integer d = integer ?a" "preambles d = preambles ?a" "map kind (parsers d) = map kind (parsers ?a)"
    using run_blocks_view [OF assms(6) a assms(8)] by blast
  note r = Reset_inv [OF d(2) leaf]
  have len: "\<forall>b\<in>set blocks. length (snd b) = 2 * BlockSize (Cfg ?a)"
    using assms(8) decoder_invD(4) [OF a] by (fastforce simp: valid_blocks_def samples_ok_def)
  have v: "view_of (Reset_decoder d) = view_of ?a"
    unfolding r(2) d(3) view_blocks_lengths [OF len inv_lengths [OF a]] by (rule allocated_blank [OF assms(1-5,7)])
  have same: "Cfg (Reset_decoder d) = Cfg ?a" "integer (Reset_decoder d) = integer ?a" "preambles (Reset_decoder d) = preambles ?a"
      "map kind (parsers (Reset_decoder d)) = map kind (parsers ?a)"
    using r d by simp_all
  have "valid_blocks (Reset_decoder d) further" using assms(9) unfolding valid_blocks_def same .
  then obtain d' mss' where "run_blocks pf (Reset_decoder d) further = Inr (d', mss')" "view_run (Reset_decoder d) (view_of ?a) further mss'"
    using run_blocks_view [OF assms(6) r(1), of further] unfolding v by blast
  then show ?thesis using d(1) v view_run_cong [OF same decoder_invD(5) [OF a] assms(9)] by blast
qed

theorem reset_restarts_the_stream_witness:
  "\<exists>d mss. run_blocks portable (program_decoder False None [PScm (scm_NewParser 4)])
      [([scm_key], replicate 512 127), ([scm_key], replicate 512 3)] = Inr (d, mss) \<and>
    view_of (Reset_decoder d) = view_of (program_decoder False None [PScm (scm_NewParser 4)])"
  using reset_restarts_the_stream [OF scm_mix _ _ _ _ portable_agrees scm_blocks_valid scm_blocks_valid] by auto


end
