(* ===== verification/SchedConfig.thy ===== *)
theory SchedConfig
  imports Float64 "HOL-Library.List_Lexorder" "HOL-Library.Char_ord"
begin

text \<open>
  The data of the duty scheduler (\<^verbatim>\<open>src/internal/dutyscheduler\<close>): its configuration with
  the defaults and the validation of \<^verbatim>\<open>New\<close>, and the state it keeps for every sender,
  every candidate policy and every protocol.

  A \<^verbatim>\<open>time.Duration\<close> is an \<open>int\<close> in the range of \<open>int64\<close>; every sum the code
  forms wraps by \<open>i64\<close>. Counters of events are natural numbers: they grow by one per event and
  64 bits are not exhausted. The code keeps each sender in a map by identifier and in a list that
  share the same object; the model keeps the list, in configuration order, and looks identifiers up
  in it. A pointer to the selected candidate is its index.
\<close>

section \<open>Durations and modes\<close>

abbreviation Second :: int where "Second \<equiv> 1000000000"
abbreviation Millisecond :: int where "Millisecond \<equiv> 1000000"
abbreviation Minute :: int where "Minute \<equiv> 60 * Second"
abbreviation Hour :: int where "Hour \<equiv> 60 * Minute"

type_synonym Mode = string

definition ModeOff :: Mode where "ModeOff = ''off''"
definition ModeShadow :: Mode where "ModeShadow = ''shadow''"
definition ModeGated :: Mode where "ModeGated = ''gated''"

lemmas mode_defs = ModeOff_def ModeShadow_def ModeGated_def

section \<open>Configuration\<close>

record SenderConfig =
  ID :: u64
  Overdue :: int
  CountWindow :: int
  MinimumCount :: int

record CandidateConfig =
  Name :: string
  HistoryLimit :: int
  MinHistoryLimit :: int
  WarmupIntervals :: int
  R900Floor :: int
  OtherFloor :: int
  JitterQuantile :: f64
  JitterMargin :: int
  PreScale :: f64
  PostScale :: f64
  AuditFraction :: f64
  ChangePointScale :: f64
  HistoryGrowAfter :: int
  WakeScaleStep :: f64
  MaxWakeScale :: f64

record Config =
  cfg_Mode :: Mode
  Senders :: "SenderConfig list"
  Candidates :: "CandidateConfig list"
  CaptureTarget :: f64
  Confidence :: f64
  MinimumAudit :: f64
  RecoveryDuration :: int
  RefreshInterval :: int
  RefreshDuration :: int
  PromotionMargin :: f64
  PromotionStability :: int
  WatchdogHistory :: int
  WatchdogMinIntervals :: int
  WatchdogWindow :: int
  WatchdogQuantile :: f64
  WatchdogMargin :: f64
  RandomSeed :: u64

record Decision =
  dec_Decode :: bool
  dec_Audit :: bool
  dec_Refresh :: bool
  dec_Selected :: string
  dec_State :: string

definition decision :: "bool \<Rightarrow> string \<Rightarrow> string \<Rightarrow> Decision" where
  "decision d st sel = \<lparr>dec_Decode = d, dec_Audit = False, dec_Refresh = False, dec_Selected = sel, dec_State = st\<rparr>"

section \<open>State\<close>

record senderModel =
  m_protocol :: string
  m_history :: "int list"
  m_last :: int
  m_seen :: bool
  m_learned :: bool
  m_period :: int
  m_anchor :: int
  m_preWake :: int
  m_postWake :: int
  m_events :: nat
  m_misses :: nat
  m_effectiveHistory :: int
  m_stableIntervals :: int
  m_changePoints :: nat
  m_boundEvents :: nat
  m_boundMisses :: nat
  m_boundAlpha :: f64
  m_boundUpper :: f64
  m_boundValid :: bool
  m_boundEvaluations :: nat

definition zero_model :: senderModel where
  "zero_model =
     \<lparr>m_protocol = [], m_history = [], m_last = 0, m_seen = False, m_learned = False, m_period = 0, m_anchor = 0,
      m_preWake = 0, m_postWake = 0, m_events = 0, m_misses = 0, m_effectiveHistory = 0, m_stableIntervals = 0,
      m_changePoints = 0, m_boundEvents = 0, m_boundMisses = 0, m_boundAlpha = Fin 0, m_boundUpper = Fin 0,
      m_boundValid = False, m_boundEvaluations = 0\<rparr>"

record candidate =
  c_cfg :: CandidateConfig
  c_senders :: "(u64 \<times> senderModel) list"
  c_lastEligible :: bool
  c_lastAwake :: bool
  c_totalDuration :: int
  c_totalAwake :: int
  c_eligibleDuration :: int
  c_awakeDuration :: int
  c_invalid :: bool
  c_qualified :: bool
  c_epoch :: nat
  c_wakeScale :: f64
  c_promotionReady :: int
  c_recoveryUntil :: int
  c_eligibilityDirty :: bool
  c_eligibleCached :: bool
  c_wakeCacheValid :: bool
  c_wakeUntil :: f64
  c_nextWakeStart :: f64

definition new_candidate :: "Config \<Rightarrow> CandidateConfig \<Rightarrow> candidate" where
  "new_candidate cfg cc =
     \<lparr>c_cfg = cc, c_senders = map (\<lambda>sc. (ID sc, zero_model)) (Senders cfg), c_lastEligible = False, c_lastAwake = False,
      c_totalDuration = 0, c_totalAwake = 0, c_eligibleDuration = 0, c_awakeDuration = 0, c_invalid = False,
      c_qualified = False, c_epoch = 1, c_wakeScale = Fin 1, c_promotionReady = 0, c_recoveryUntil = 0,
      c_eligibilityDirty = True, c_eligibleCached = False, c_wakeCacheValid = False, c_wakeUntil = Fin 0,
      c_nextWakeStart = Fin 0\<rparr>"

record senderRuntime =
  r_cfg :: SenderConfig
  r_protocol :: string
  r_lastSeen :: int
  r_seen :: bool
  r_observations :: "int list"
  r_total :: nat
  r_overdueOpen :: bool
  r_countOpen :: bool
  r_deadlineDeficits :: nat
  r_countDeficits :: nat
  r_gaps :: "int list"
  r_learnedOverdue :: int
  r_learnedMinimumCount :: int
  r_watchdogLearned :: bool
  r_obligationDue :: int
  r_obligationOpen :: bool
  r_obligationsOpened :: nat
  r_obligationsClosed :: nat
  r_obligationDeficits :: nat
  r_countStart :: nat

definition new_sender :: "SenderConfig \<Rightarrow> senderRuntime" where
  "new_sender sc =
     \<lparr>r_cfg = sc, r_protocol = [], r_lastSeen = 0, r_seen = False, r_observations = [], r_total = 0,
      r_overdueOpen = False, r_countOpen = False, r_deadlineDeficits = 0, r_countDeficits = 0, r_gaps = [],
      r_learnedOverdue = 0, r_learnedMinimumCount = 0, r_watchdogLearned = False, r_obligationDue = 0,
      r_obligationOpen = False, r_obligationsOpened = 0, r_obligationsClosed = 0, r_obligationDeficits = 0,
      r_countStart = 0\<rparr>"

record protocolRuntime =
  p_observations :: nat
  p_deadlineDeficits :: nat
  p_countDeficits :: nat
  p_obligationDeficits :: nat

definition zero_protocol :: protocolRuntime where
  "zero_protocol = \<lparr>p_observations = 0, p_deadlineDeficits = 0, p_countDeficits = 0, p_obligationDeficits = 0\<rparr>"

record Scheduler =
  s_cfg :: Config
  s_candidates :: "candidate list"
  s_senders :: "senderRuntime list"
  s_selected :: "nat option"
  s_lastEnd :: int
  s_started :: bool
  s_lastDecision :: Decision
  s_recoveryUntil :: int
  s_deadlineDeficits :: nat
  s_countDeficits :: nat
  s_discontinuities :: nat
  s_rng :: u64
  s_quietActive :: bool
  s_auditActive :: bool
  s_quietCandidate :: string
  s_refreshUntil :: int
  s_nextRefresh :: int
  s_refreshes :: nat
  s_protocols :: "(string \<times> protocolRuntime) list"
  s_reanchorPending :: "u64 list"
  s_watchdogDirty :: bool
  s_nextWatchdogCheck :: int
  s_forceFull :: bool

section \<open>Validation and construction\<close>

definition finite64 :: "f64 \<Rightarrow> bool" where
  "finite64 x \<longleftrightarrow> \<not> IsNaN x \<and> \<not> IsInf x"

definition normalizeCandidate :: "CandidateConfig \<Rightarrow> CandidateConfig" where
  "normalizeCandidate c =
     (let c = (if MinHistoryLimit c = 0
               then c\<lparr>MinHistoryLimit := (if 8 > HistoryLimit c then HistoryLimit c else 8)\<rparr> else c);
          c = (if feq (ChangePointScale c) (Fin 0) then c\<lparr>ChangePointScale := Fin 2\<rparr> else c);
          c = (if HistoryGrowAfter c = 0 then c\<lparr>HistoryGrowAfter := 8\<rparr> else c);
          c = (if feq (WakeScaleStep c) (Fin 0) then c\<lparr>WakeScaleStep := Fin (5 / 4)\<rparr> else c)
      in if feq (MaxWakeScale c) (Fin 0) then c\<lparr>MaxWakeScale := Fin 4\<rparr> else c)"

definition normalizeConfig :: "Config \<Rightarrow> Config" where
  "normalizeConfig cfg =
     (let cfg = (if RefreshInterval cfg = 0 then cfg\<lparr>RefreshInterval := 6 * Hour\<rparr> else cfg);
          cfg = (if RefreshDuration cfg = 0 then cfg\<lparr>RefreshDuration := 10 * Minute\<rparr> else cfg);
          cfg = (if feq (PromotionMargin cfg) (Fin 0) then cfg\<lparr>PromotionMargin := fround (25 / 100000)\<rparr> else cfg);
          cfg = (if PromotionStability cfg = 0 then cfg\<lparr>PromotionStability := 10 * Minute\<rparr> else cfg);
          cfg = (if WatchdogHistory cfg = 0 then cfg\<lparr>WatchdogHistory := 128\<rparr> else cfg);
          cfg = (if WatchdogMinIntervals cfg = 0 then cfg\<lparr>WatchdogMinIntervals := 16\<rparr> else cfg);
          cfg = (if WatchdogWindow cfg = 0 then cfg\<lparr>WatchdogWindow := 10 * Minute\<rparr> else cfg);
          cfg = (if feq (WatchdogQuantile cfg) (Fin 0) then cfg\<lparr>WatchdogQuantile := fround (99 / 100)\<rparr> else cfg);
          cfg = (if feq (WatchdogMargin cfg) (Fin 0) then cfg\<lparr>WatchdogMargin := Fin (1 / 4)\<rparr> else cfg)
      in cfg\<lparr>Candidates := map normalizeCandidate (Candidates cfg)\<rparr>)"

definition validateCandidate :: "CandidateConfig \<Rightarrow> f64 \<Rightarrow> unit res" where
  "validateCandidate c minimumAudit =
     (if Name c = [] \<or> HistoryLimit c < 2 \<or> MinHistoryLimit c < 2 \<or> MinHistoryLimit c > HistoryLimit c \<or>
         WarmupIntervals c < 2 \<or> WarmupIntervals c > MinHistoryLimit c
      then Inl (Err ''dutyscheduler: invalid candidate history'')
      else if R900Floor c \<le> 0 \<or> OtherFloor c \<le> 0 \<or> JitterMargin c < 0
      then Inl (Err ''dutyscheduler: invalid candidate timing'')
      else if \<not> finite64 (JitterQuantile c) \<or> \<not> finite64 (PreScale c) \<or> \<not> finite64 (PostScale c) \<or>
         fle (JitterQuantile c) (Fin 0) \<or> flt (Fin 1) (JitterQuantile c) \<or>
         fle (PreScale c) (Fin 0) \<or> fle (PostScale c) (Fin 0)
      then Inl (Err ''dutyscheduler: invalid candidate fitting'')
      else if \<not> finite64 (AuditFraction c) \<or> flt (AuditFraction c) minimumAudit \<or> flt (Fin 1) (AuditFraction c)
      then Inl (Err ''dutyscheduler: candidate audit is below the invariant'')
      else if \<not> finite64 (ChangePointScale c) \<or> \<not> finite64 (WakeScaleStep c) \<or> \<not> finite64 (MaxWakeScale c) \<or>
         fle (ChangePointScale c) (Fin 0) \<or> HistoryGrowAfter c < 1 \<or> fle (WakeScaleStep c) (Fin 1) \<or>
         flt (MaxWakeScale c) (WakeScaleStep c)
      then Inl (Err ''dutyscheduler: invalid adaptive controller policy'')
      else Inr ())"

definition validateConfig :: "Config \<Rightarrow> unit res" where
  "validateConfig cfg =
     (if cfg_Mode cfg \<noteq> ModeOff \<and> cfg_Mode cfg \<noteq> ModeShadow \<and> cfg_Mode cfg \<noteq> ModeGated
      then Inl (Err ''dutyscheduler: invalid mode'')
      else if \<not> finite64 (CaptureTarget cfg) \<or> fle (CaptureTarget cfg) (Fin 0) \<or> fle (Fin 1) (CaptureTarget cfg)
      then Inl (Err ''dutyscheduler: capture target must be between zero and one'')
      else if \<not> finite64 (Confidence cfg) \<or> fle (Confidence cfg) (Fin 0) \<or> fle (Fin 1) (Confidence cfg)
      then Inl (Err ''dutyscheduler: confidence must be between zero and one'')
      else if \<not> finite64 (MinimumAudit cfg) \<or> flt (MinimumAudit cfg) (Fin 0) \<or> flt (Fin 1) (MinimumAudit cfg)
      then Inl (Err ''dutyscheduler: minimum audit must be between zero and one'')
      else if RefreshInterval cfg \<le> 0 \<or> RefreshDuration cfg \<le> 0 \<or> RefreshDuration cfg \<ge> RefreshInterval cfg
      then Inl (Err ''dutyscheduler: invalid refresh policy'')
      else if \<not> finite64 (PromotionMargin cfg) \<or> flt (PromotionMargin cfg) (Fin 0) \<or>
         fle (Fin 1) (fadd (CaptureTarget cfg) (PromotionMargin cfg)) \<or> PromotionStability cfg < 0
      then Inl (Err ''dutyscheduler: invalid promotion policy'')
      else if WatchdogHistory cfg < 2 \<or> WatchdogMinIntervals cfg < 2 \<or> WatchdogMinIntervals cfg > WatchdogHistory cfg \<or>
         WatchdogWindow cfg \<le> 0 \<or> \<not> finite64 (WatchdogQuantile cfg) \<or> fle (WatchdogQuantile cfg) (Fin 0) \<or>
         flt (Fin 1) (WatchdogQuantile cfg) \<or> \<not> finite64 (WatchdogMargin cfg) \<or> flt (WatchdogMargin cfg) (Fin 0)
      then Inl (Err ''dutyscheduler: invalid learned watchdog policy'')
      else if cfg_Mode cfg \<noteq> ModeOff \<and> Senders cfg = []
      then Inl (Err ''dutyscheduler: sender inventory is empty'')
      else if cfg_Mode cfg \<noteq> ModeOff \<and> Candidates cfg = []
      then Inl (Err ''dutyscheduler: candidate inventory is empty'')
      else Inr ())"

definition addSender :: "senderRuntime list \<Rightarrow> SenderConfig \<Rightarrow> senderRuntime list res" where
  "addSender senders sc =
     (if ID sc = 0 \<or> Overdue sc < 0 \<or> CountWindow sc < 0 \<or> MinimumCount sc < 0
      then Inl (Err ''dutyscheduler: invalid sender configuration'')
      else if MinimumCount sc > 0 \<and> CountWindow sc = 0
      then Inl (Err ''dutyscheduler: count threshold requires a window'')
      else if ID sc \<in> set (map (ID \<circ> r_cfg) senders)
      then Inl (Err ''dutyscheduler: duplicate sender'')
      else Inr (senders @ [new_sender sc]))"

definition addCandidate :: "Config \<Rightarrow> candidate list \<Rightarrow> CandidateConfig \<Rightarrow> candidate list res" where
  "addCandidate cfg candidates cc =
     bind_res (validateCandidate cc (MinimumAudit cfg)) (\<lambda>_. Inr (candidates @ [new_candidate cfg cc]))"

definition New :: "Config \<Rightarrow> Scheduler res" where
  "New cfg0 =
     (let cfg = normalizeConfig cfg0 in
      bind_res (validateConfig cfg) (\<lambda>_.
      bind_res (fold_res addSender [] (Senders cfg)) (\<lambda>senders.
      bind_res (fold_res (addCandidate cfg) [] (Candidates cfg)) (\<lambda>candidates.
      Inr \<lparr>s_cfg = cfg, s_candidates = candidates, s_senders = senders, s_selected = None, s_lastEnd = 0,
           s_started = False, s_lastDecision = decision False [] [], s_recoveryUntil = 0,
           s_deadlineDeficits = 0, s_countDeficits = 0, s_discontinuities = 0,
           s_rng = (if RandomSeed cfg = 0 then 0x9e3779b97f4a7c15 else RandomSeed cfg),
           s_quietActive = False, s_auditActive = False, s_quietCandidate = [],
           s_refreshUntil = 0, s_nextRefresh = 0, s_refreshes = 0, s_protocols = [],
           s_reanchorPending = [], s_watchdogDirty = True, s_nextWatchdogCheck = 0, s_forceFull = False\<rparr>))))"

text \<open>\<^verbatim>\<open>Configuration\<close> returns the normalised configuration, its slices copied.\<close>

definition Configuration :: "Scheduler \<Rightarrow> Config" where
  "Configuration s = s_cfg s"

section \<open>The defaults\<close>

definition defaultCandidate :: "string \<Rightarrow> int \<Rightarrow> int \<Rightarrow> int \<Rightarrow> f64 \<Rightarrow> int \<Rightarrow> CandidateConfig" where
  "defaultCandidate name hist r900Floor otherFloor quantile margin =
     \<lparr>Name = name, HistoryLimit = hist, MinHistoryLimit = min 8 hist, WarmupIntervals = 4, R900Floor = r900Floor,
      OtherFloor = otherFloor, JitterQuantile = quantile, JitterMargin = margin, PreScale = Fin 1, PostScale = Fin 1,
      AuditFraction = fround (10 / 100), ChangePointScale = Fin 2, HistoryGrowAfter = 8, WakeScaleStep = Fin (5 / 4),
      MaxWakeScale = Fin 4\<rparr>"

definition DefaultCandidates :: "CandidateConfig list" where
  "DefaultCandidates =
     map (\<lambda>(name, hist). defaultCandidate name hist (500 * Millisecond) (5 * Second) (fround (95 / 100)) (500 * Millisecond))
       [(''balanced-n8'', 8), (''balanced-n16'', 16), (''balanced-n32'', 32), (''balanced-n64'', 64), (''balanced-n128'', 128)] @
     [defaultCandidate ''tight-n64'' 64 (250 * Millisecond) (3 * Second) (fround (90 / 100)) (250 * Millisecond),
      defaultCandidate ''conservative-n64'' 64 Second (8 * Second) (fround (99 / 100)) Second]"

definition DefaultSenderConfig :: "u64 \<Rightarrow> SenderConfig" where
  "DefaultSenderConfig i = \<lparr>ID = i, Overdue = 0, CountWindow = 0, MinimumCount = 0\<rparr>"

definition DefaultConfig :: "Mode \<Rightarrow> u64 list \<Rightarrow> Config" where
  "DefaultConfig mode ids =
     \<lparr>cfg_Mode = mode, Senders = map DefaultSenderConfig (sort ids), Candidates = DefaultCandidates,
      CaptureTarget = fround (995 / 1000), Confidence = fround (95 / 100), MinimumAudit = fround (10 / 100),
      RecoveryDuration = 10 * Minute, RefreshInterval = 6 * Hour, RefreshDuration = 10 * Minute,
      PromotionMargin = fround (25 / 100000), PromotionStability = 10 * Minute, WatchdogHistory = 128,
      WatchdogMinIntervals = 16, WatchdogWindow = 10 * Minute, WatchdogQuantile = fround (99 / 100),
      WatchdogMargin = Fin (1 / 4), RandomSeed = 0x72746c616d72\<rparr>"

end
