(* ===== verification/SchedModel.thy ===== *)
theory SchedModel
  imports SchedConfig
begin

text \<open>
  The cadence models of the duty scheduler (\<^verbatim>\<open>src/internal/dutyscheduler/scheduler.go\<close>):
  fitting a robust period to the intervals of a sender, its wake windows, the confidence bound on
  the miss rate, and the operations of one candidate policy with its three caches.
\<close>

section \<open>Numerical helpers\<close>

definition fless :: "f64 \<Rightarrow> f64 \<Rightarrow> bool" where
  "fless x y \<longleftrightarrow> flt x y \<or> (IsNaN x \<and> \<not> IsNaN y)"

fun finsert :: "f64 \<Rightarrow> f64 list \<Rightarrow> f64 list" where
  "finsert x [] = [x]"
| "finsert x (y # ys) = (if fless y x then y # finsert x ys else x # y # ys)"

text \<open>\<^verbatim>\<open>sort.Float64s\<close>.\<close>

definition Float64s :: "f64 list \<Rightarrow> f64 list" where
  "Float64s xs = foldr finsert xs []"

definition medianFloat :: "f64 list \<Rightarrow> f64" where
  "medianFloat values =
     (if values = [] then Fin 0
      else let ordered = Float64s values; middle = length ordered div 2 in
        if length ordered mod 2 = 0 then fdiv (fadd (ordered ! (middle - 1)) (ordered ! middle)) (Fin 2)
        else ordered ! middle)"

definition durationQuantile :: "fplib \<Rightarrow> int list \<Rightarrow> f64 \<Rightarrow> int res" where
  "durationQuantile fp values probability =
     (if values = [] then Inr 0
      else let ordered = sort values;
               rank0 = i64 (to_int64 fp (Ceil (fmul probability (float64 (int (length ordered))))) - 1);
               rank = (if rank0 < 0 then 0 else rank0)
           in index_res ordered (nat rank))"

text \<open>The whole number of periods nearest to an interval, at least one.\<close>

definition multiple_of :: "f64 \<Rightarrow> f64 \<Rightarrow> f64" where
  "multiple_of v period =
     (let multiple = Round (fdiv v period) in if flt multiple (Fin 1) then Fin 1 else multiple)"

definition robust_step :: "f64 list \<Rightarrow> f64 \<Rightarrow> f64" where
  "robust_step values period =
     (let normalized = map (\<lambda>v. fdiv v (multiple_of v period)) values;
          center = medianFloat normalized;
          deviations = map (\<lambda>v. Fabs (fsub v center)) normalized;
          mad = medianFloat deviations;
          retained = filter (\<lambda>v. feq mad (Fin 0) \<or> fle (Fabs (fsub v center)) (fmul (Fin 4) mad)) normalized
      in medianFloat retained)"

definition robustPeriod :: "fplib \<Rightarrow> int list \<Rightarrow> (int \<times> int list) res" where
  "robustPeriod fp hist =
     (if hist = [] then Inl (Panic ''index out of range'')
      else let base = foldl (\<lambda>b v. if v < b then v else b) (hd hist) hist;
               values = map float64 hist;
               period = robust_step values (robust_step values (robust_step values (robust_step values (float64 base))));
               residuals = map (\<lambda>v. to_int64 fp (Fabs (fsub v (fmul (multiple_of v period) period)))) values
           in Inr (to_int64 fp period, residuals))"

definition maxDuration :: "int \<Rightarrow> int \<Rightarrow> int" where
  "maxDuration l r = (if l > r then l else r)"

definition nextHistoryLimit :: "int \<Rightarrow> int \<Rightarrow> int" where
  "nextHistoryLimit current maximum =
     (case filter (\<lambda>c. c > current) [8, 16, 32, 64, 128] of [] \<Rightarrow> maximum | c # _ \<Rightarrow> min c maximum)"

text \<open>The last \<open>n\<close> intervals: the slice expression panics when there are fewer.\<close>

definition recent_history :: "int list \<Rightarrow> int \<Rightarrow> int list res" where
  "recent_history hist n =
     (if 0 \<le> n \<and> n \<le> int (length hist) then Inr (drop (length hist - nat n) hist)
      else Inl (Panic ''slice bounds out of range''))"

definition compatibleHistory :: "fplib \<Rightarrow> int list \<Rightarrow> int \<Rightarrow> int \<Rightarrow> int \<Rightarrow> bool res" where
  "compatibleHistory fp hist recentCount extendedCount tolerance =
     (if recentCount < 2 \<or> extendedCount \<le> recentCount \<or> extendedCount > int (length hist) then Inr False
      else bind_res (bind_res (recent_history hist recentCount) (robustPeriod fp)) (\<lambda>(recent, _).
           bind_res (bind_res (recent_history hist extendedCount) (robustPeriod fp)) (\<lambda>(extended, _).
           if recent \<le> 0 \<or> extended \<le> 0 then Inr False
           else let minimumTolerance = recent div 1000;
                    tolerance = (if tolerance < minimumTolerance then minimumTolerance else tolerance)
                in Inr (to_int64 fp (Fabs (float64 (i64 (recent - extended)))) \<le> tolerance))))"

definition scaleDuration :: "fplib \<Rightarrow> int \<Rightarrow> f64 \<Rightarrow> int" where
  "scaleDuration fp value scale =
     (if value \<le> 0 \<or> fle scale (Fin 0) then 0 else to_int64 fp (fmul (float64 value) scale))"

section \<open>The confidence bound\<close>

definition binomialCDF :: "fplib \<Rightarrow> nat \<Rightarrow> nat \<Rightarrow> f64 \<Rightarrow> f64" where
  "binomialCDF fp n through probability =
     (let logs = map (\<lambda>k.
            let ch = Lgamma fp (float64 (int n + 1));
                left = Lgamma fp (float64 (int k + 1));
                right = Lgamma fp (float64 (int n - int k + 1))
            in fadd (fadd (fsub (fsub ch left) right) (fmul (float64 (int k)) (Log fp probability)))
                 (fmul (float64 (int n - int k)) (Log1p fp (fuminus probability)))) [0..<through + 1];
          maximum = foldl (\<lambda>m v. if flt m v then v else m) (FInf True) logs;
          total = foldl (\<lambda>acc v. fadd acc (Expf fp (fsub v maximum))) (Fin 0) logs
      in fmul (Expf fp maximum) total)"

definition bound_step :: "fplib \<Rightarrow> nat \<Rightarrow> nat \<Rightarrow> f64 \<Rightarrow> f64 \<times> f64 \<Rightarrow> f64 \<times> f64" where
  "bound_step fp misses observations alpha = (\<lambda>(low, high).
     let mid = fdiv (fadd low high) (Fin 2) in
     if flt alpha (binomialCDF fp observations misses mid) then (mid, high) else (low, mid))"

definition upperMissBound :: "fplib \<Rightarrow> nat \<Rightarrow> nat \<Rightarrow> f64 \<Rightarrow> f64" where
  "upperMissBound fp misses observations alpha =
     (if observations = 0 \<or> misses \<ge> observations then Fin 1
      else if misses = 0 then fsub (Fin 1) (Pow fp alpha (fdiv (Fin 1) (float64 (int observations))))
      else snd ((bound_step fp misses observations alpha ^^ 80)
             (fdiv (float64 (int misses)) (float64 (int observations)), Fin 1)))"

text \<open>The memo of one evidence tuple.\<close>

definition confidenceUpperBound :: "fplib \<Rightarrow> senderModel \<Rightarrow> f64 \<Rightarrow> senderModel \<times> f64" where
  "confidenceUpperBound fp m alpha =
     (if m_boundValid m \<and> m_boundEvents m = m_events m \<and> m_boundMisses m = m_misses m \<and> feq (m_boundAlpha m) alpha
      then (m, m_boundUpper m)
      else let upper = upperMissBound fp (m_misses m) (m_events m) alpha in
        (m\<lparr>m_boundEvents := m_events m, m_boundMisses := m_misses m, m_boundAlpha := alpha, m_boundUpper := upper,
           m_boundValid := True, m_boundEvaluations := m_boundEvaluations m + 1\<rparr>, upper))"

text \<open>The estimate of the observations still needed, with the 64-bit wrap of its doubling loop. The
  loop is a partial function: not returning is \<open>None\<close>.\<close>

definition bound_passes :: "fplib \<Rightarrow> nat \<Rightarrow> f64 \<Rightarrow> f64 \<Rightarrow> nat \<Rightarrow> bool" where
  "bound_passes fp misses maxMiss alpha observations \<longleftrightarrow>
     observations > misses \<and> fle (upperMissBound fp misses observations alpha) maxMiss"

definition no_estimate :: nat where "no_estimate = 2 ^ 64 - 1"

partial_function (option) grow_high :: "(nat \<Rightarrow> bool) \<Rightarrow> nat \<Rightarrow> (nat option) option" where
  "grow_high passes high =
     (if passes high then Some (Some high)
      else if high \<ge> 2 ^ 62 then Some None
      else grow_high passes ((high * 2) mod 2 ^ 64))"

function bisect_bound :: "(nat \<Rightarrow> bool) \<Rightarrow> nat \<Rightarrow> nat \<Rightarrow> nat" where
  "bisect_bound passes low high =
     (if low + 1 < high
      then let middle = low + (high - low) div 2 in
        if passes middle then bisect_bound passes low middle else bisect_bound passes middle high
      else high)"
  by pat_completeness auto
termination
  by (relation "measure (\<lambda>(_, low, high). high - low)") auto

declare bisect_bound.simps [simp del]

definition RequiredObservations :: "fplib \<Rightarrow> nat \<Rightarrow> f64 \<Rightarrow> f64 \<Rightarrow> nat option" where
  "RequiredObservations fp misses captureTarget confidence =
     (let maxMiss = fsub (Fin 1) captureTarget;
          alpha = fsub (Fin 1) confidence
      in if fle maxMiss (Fin 0) \<or> fle (Fin 1) maxMiss \<or> fle alpha (Fin 0) \<or> fle (Fin 1) alpha then Some no_estimate
         else case grow_high (bound_passes fp misses maxMiss alpha) ((misses + 1) mod 2 ^ 64) of
             None \<Rightarrow> None
           | Some None \<Rightarrow> Some no_estimate
           | Some (Some high) \<Rightarrow> Some (bisect_bound (bound_passes fp misses maxMiss alpha) misses high))"

section \<open>The model of one sender\<close>

text \<open>\<^verbatim>\<open>strings.HasPrefix(strings.ToLower(protocol), "r900")\<close>.\<close>

definition ascii_lower :: "char \<Rightarrow> char" where
  "ascii_lower c = (if CHR ''A'' \<le> c \<and> c \<le> CHR ''Z'' then char_of ((of_char c :: nat) + 32) else c)"

definition is_r900 :: "string \<Rightarrow> bool" where
  "is_r900 protocol \<longleftrightarrow> take 4 (map ascii_lower protocol) = ''r900''"

definition change_point :: "fplib \<Rightarrow> senderModel \<Rightarrow> CandidateConfig \<Rightarrow> int \<Rightarrow> bool" where
  "change_point fp m cfg delta =
     (let multiple = multiple_of (float64 delta) (float64 (m_period m));
          residual = to_int64 fp (Fabs (fsub (float64 delta) (fmul multiple (float64 (m_period m)))));
          tolerance = to_int64 fp (fmul (float64 (maxDuration (m_preWake m) (m_postWake m))) (ChangePointScale cfg));
          tolerance = (if tolerance < m_period m div 20 then m_period m div 20 else tolerance)
      in residual > tolerance)"

text \<open>The three stages of \<^verbatim>\<open>senderModel.observe\<close>: the protocol, the interval, the fit.\<close>

definition observe_protocol :: "senderModel \<Rightarrow> string \<Rightarrow> senderModel \<times> bool" where
  "observe_protocol m protocol =
     (if m_protocol m \<noteq> [] \<and> m_protocol m \<noteq> protocol
      then (m\<lparr>m_history := [], m_seen := False, m_learned := False, m_effectiveHistory := 0, m_protocol := protocol\<rparr>, True)
      else (m\<lparr>m_protocol := protocol\<rparr>, False))"

definition observe_interval :: "fplib \<Rightarrow> CandidateConfig \<Rightarrow> senderModel \<times> bool \<Rightarrow> int \<Rightarrow> senderModel \<times> bool" where
  "observe_interval fp cfg mc now = (let (m, changed) = mc;
          delta = i64 (now - m_last m) in
     if m_seen m \<and> delta > 0 then
       let (m, changed) =
             (if m_learned m \<and> m_period m > 0 then
                if change_point fp m cfg delta
                then (m\<lparr>m_changePoints := m_changePoints m + 1, m_stableIntervals := 0,
                        m_effectiveHistory := min (MinHistoryLimit cfg) (int (length (m_history m)) + 1)\<rparr>, True)
                else (m\<lparr>m_stableIntervals := m_stableIntervals m + 1\<rparr>, changed)
              else (m, changed));
           hist = m_history m @ [delta];
           hist = (if int (length hist) > HistoryLimit cfg then drop (length hist - nat (HistoryLimit cfg)) hist else hist)
       in (m\<lparr>m_history := hist\<rparr>, changed)
     else (m, changed))"

definition grow_history :: "fplib \<Rightarrow> CandidateConfig \<Rightarrow> senderModel \<Rightarrow> senderModel res" where
  "grow_history fp cfg m =
     (let limit = min (int (length (m_history m))) (HistoryLimit cfg) in
      if m_stableIntervals m \<ge> HistoryGrowAfter cfg \<and> m_effectiveHistory m < limit then
        let nxt = nextHistoryLimit (m_effectiveHistory m) limit in
        bind_res (compatibleHistory fp (m_history m) (m_effectiveHistory m) nxt (maxDuration (m_preWake m) (m_postWake m))) (\<lambda>ok.
        Inr (if ok then m\<lparr>m_effectiveHistory := nxt, m_stableIntervals := 0\<rparr> else m))
      else Inr m)"

definition fit_model :: "fplib \<Rightarrow> CandidateConfig \<Rightarrow> senderModel \<Rightarrow> string \<Rightarrow> int \<Rightarrow> f64 \<Rightarrow> senderModel res" where
  "fit_model fp cfg m protocol now wakeScale =
     bind_res (bind_res (recent_history (m_history m) (m_effectiveHistory m)) (robustPeriod fp)) (\<lambda>(period, residuals).
     bind_res (durationQuantile fp residuals (JitterQuantile cfg)) (\<lambda>q.
     let flr = (if is_r900 protocol then R900Floor cfg else OtherFloor cfg);
         learned = i64 (q + JitterMargin cfg);
         halfwidth = (if learned > flr then learned else flr)
     in Inr (m\<lparr>m_period := period, m_anchor := now,
               m_preWake := scaleDuration fp halfwidth (fmul (PreScale cfg) wakeScale),
               m_postWake := scaleDuration fp halfwidth (fmul (PostScale cfg) wakeScale),
               m_learned := (period > 0)\<rparr>)))"

definition model_observe :: "fplib \<Rightarrow> senderModel \<Rightarrow> string \<Rightarrow> int \<Rightarrow> CandidateConfig \<Rightarrow> f64 \<Rightarrow> (senderModel \<times> bool) res" where
  "model_observe fp m protocol now cfg wakeScale =
     (let (m, changed) = observe_interval fp cfg (observe_protocol m protocol) now;
          m = m\<lparr>m_last := now, m_seen := True\<rparr>
      in if int (length (m_history m)) < WarmupIntervals cfg then Inr (m, changed)
         else let m = (if m_effectiveHistory m = 0
                       then m\<lparr>m_effectiveHistory := min (int (length (m_history m))) (MinHistoryLimit cfg)\<rparr> else m)
              in bind_res (grow_history fp cfg m) (\<lambda>m.
                 bind_res (fit_model fp cfg m protocol now wakeScale) (\<lambda>m. Inr (m, changed))))"

definition reanchor :: "senderModel \<Rightarrow> string \<Rightarrow> int \<Rightarrow> senderModel" where
  "reanchor m protocol now = m\<lparr>m_protocol := protocol, m_last := now, m_anchor := now, m_seen := True\<rparr>"

definition awakeWindow :: "senderModel \<Rightarrow> int \<Rightarrow> int \<Rightarrow> bool \<times> f64 \<times> f64" where
  "awakeWindow m start stop =
     (if \<not> m_learned m \<or> m_period m \<le> 0 then (True, FInf False, FInf False)
      else let period = float64 (m_period m);
               first = Ceil (fdiv (float64 (i64 (i64 (start - m_postWake m) - m_anchor m))) period);
               center = fadd (float64 (m_anchor m)) (fmul first period);
               windowStart = fsub center (float64 (m_preWake m));
               windowEnd = fadd center (float64 (m_postWake m))
           in if flt windowStart (float64 stop) \<and> flt (float64 start) windowEnd then (True, windowEnd, FInf False)
              else (False, Fin 0, if fle windowEnd (float64 start) then fadd windowStart period else windowStart))"

section \<open>One candidate\<close>

definition invalidateSchedule :: "candidate \<Rightarrow> candidate" where
  "invalidateSchedule c =
     c\<lparr>c_eligibilityDirty := True, c_wakeCacheValid := False, c_wakeUntil := Fin 0, c_nextWakeStart := Fin 0\<rparr>"

definition map_models :: "(senderModel \<Rightarrow> senderModel) \<Rightarrow> candidate \<Rightarrow> candidate" where
  "map_models f c = c\<lparr>c_senders := map (map_prod id f) (c_senders c)\<rparr>"

definition widen_model :: "fplib \<Rightarrow> f64 \<Rightarrow> senderModel \<Rightarrow> senderModel" where
  "widen_model fp ratio m =
     (if m_learned m then m\<lparr>m_preWake := scaleDuration fp (m_preWake m) ratio,
                           m_postWake := scaleDuration fp (m_postWake m) ratio\<rparr> else m)"

definition beginNewEpoch :: "fplib \<Rightarrow> candidate \<Rightarrow> int \<Rightarrow> bool \<Rightarrow> candidate" where
  "beginNewEpoch fp c now widen =
     (let scaled = fmul (c_wakeScale c) (WakeScaleStep (c_cfg c));
          ws = (if widen then (if flt (MaxWakeScale (c_cfg c)) scaled then MaxWakeScale (c_cfg c) else scaled)
                else c_wakeScale c);
          c = c\<lparr>c_epoch := c_epoch c + 1, c_qualified := False, c_promotionReady := 0, c_wakeScale := ws\<rparr>;
          c = map_models (\<lambda>m. let m = m\<lparr>m_events := 0, m_misses := 0\<rparr> in
                if widen then widen_model fp (WakeScaleStep (c_cfg c)) m else m) c
      in invalidateSchedule (c\<lparr>c_recoveryUntil := now\<rparr>))"

definition tightenAfterRefresh :: "fplib \<Rightarrow> candidate \<Rightarrow> int \<Rightarrow> candidate" where
  "tightenAfterRefresh fp c now =
     (if fle (c_wakeScale c) (Fin 1) then c
      else let oldScale = c_wakeScale c;
               scaled = fdiv oldScale (WakeScaleStep (c_cfg c));
               ws = (if flt scaled (Fin 1) then Fin 1 else scaled);
               c = map_models (widen_model fp (fdiv ws oldScale)) (c\<lparr>c_wakeScale := ws\<rparr>)
           in beginNewEpoch fp c now False)"

definition allLearned :: "candidate \<Rightarrow> candidate \<times> bool" where
  "allLearned c =
     (if \<not> c_eligibilityDirty c then (c, c_eligibleCached c)
      else let e = list_all (\<lambda>(_, m). m_learned m) (c_senders c) in
        (c\<lparr>c_eligibleCached := e, c_eligibilityDirty := False\<rparr>, e))"

text \<open>The loop of \<^verbatim>\<open>candidate.awakeDuring\<close> over the senders.\<close>

definition scan_step :: "int \<Rightarrow> int \<Rightarrow> bool \<times> f64 \<times> f64 \<Rightarrow> senderModel \<Rightarrow> bool \<times> f64 \<times> f64" where
  "scan_step start stop acc m = (let (awake, wakeUntil, nextWakeStart) = acc; (a, u, n) = awakeWindow m start stop in
     if a then (True, if flt wakeUntil u then u else wakeUntil, nextWakeStart)
     else (awake, wakeUntil, if flt n nextWakeStart then n else nextWakeStart))"

definition scan_windows :: "int \<Rightarrow> int \<Rightarrow> senderModel list \<Rightarrow> bool \<times> f64 \<times> f64" where
  "scan_windows start stop ms = foldl (scan_step start stop) (False, Fin 0, FInf False) ms"

definition awakeDuring :: "candidate \<Rightarrow> int \<Rightarrow> int \<Rightarrow> candidate \<times> bool" where
  "awakeDuring c start stop =
     (if c_wakeCacheValid c \<and> flt (float64 start) (c_wakeUntil c) then (c, True)
      else if c_wakeCacheValid c \<and> feq (c_wakeUntil c) (Fin 0) \<and> fle (float64 stop) (c_nextWakeStart c) then (c, False)
      else let (awake, wakeUntil, nextWakeStart) = scan_windows start stop (map snd (c_senders c)) in
        (c\<lparr>c_wakeCacheValid := True, c_wakeUntil := wakeUntil, c_nextWakeStart := nextWakeStart\<rparr>, awake))"

definition projectedSleep :: "candidate \<Rightarrow> f64" where
  "projectedSleep c = (if c_totalDuration c \<le> 0 then Fin 0
     else fsub (Fin 1) (fdiv (float64 (c_totalAwake c)) (float64 (c_totalDuration c))))"

definition steadySleep :: "candidate \<Rightarrow> f64" where
  "steadySleep c = (if c_eligibleDuration c \<le> 0 then Fin 0
     else fsub (Fin 1) (fdiv (float64 (c_awakeDuration c)) (float64 (c_eligibleDuration c))))"

definition auditFraction :: "candidate \<Rightarrow> f64" where
  "auditFraction c = (let r = fmul (AuditFraction (c_cfg c)) (c_wakeScale c) in if flt (Fin 1) r then Fin 1 else r)"

definition effectiveSleep :: "candidate \<Rightarrow> f64" where
  "effectiveSleep c = fmul (steadySleep c) (fsub (Fin 1) (auditFraction c))"

definition refreshInterval :: "fplib \<Rightarrow> candidate \<Rightarrow> int \<Rightarrow> int" where
  "refreshInterval fp c base =
     (if fle (c_wakeScale c) (Fin 1) then base
      else let interval = to_int64 fp (fdiv (float64 base) (Fmin (c_wakeScale c) (Fin 4))) in
        if interval < Minute then Minute else interval)"

text \<open>\<^verbatim>\<open>qualifiesAt\<close>: the loop over the senders stops at the first one that fails.\<close>

fun senders_qualify :: "fplib \<Rightarrow> f64 \<Rightarrow> f64 \<Rightarrow> (u64 \<times> senderModel) list \<Rightarrow> (u64 \<times> senderModel) list \<times> bool" where
  "senders_qualify fp alpha maxMiss [] = ([], True)"
| "senders_qualify fp alpha maxMiss ((i, m) # ms) =
     (if m_events m = 0 then ((i, m) # ms, False)
      else let (m', upper) = confidenceUpperBound fp m alpha in
        if flt maxMiss upper then ((i, m') # ms, False)
        else let (ms', ok) = senders_qualify fp alpha maxMiss ms in ((i, m') # ms', ok))"

definition qualifiesAt :: "fplib \<Rightarrow> Config \<Rightarrow> candidate \<Rightarrow> f64 \<Rightarrow> candidate \<times> bool" where
  "qualifiesAt fp cfg c target =
     (if c_invalid c then (c, False)
      else let (c, learned) = allLearned c in
        if \<not> learned \<or> c_eligibleDuration c \<le> 0 then (c, False)
        else let (ms, ok) = senders_qualify fp (fsub (Fin 1) (Confidence cfg)) (fsub (Fin 1) target) (c_senders c) in
          (c\<lparr>c_senders := ms\<rparr>, ok))"

definition refreshCandidate :: "fplib \<Rightarrow> Config \<Rightarrow> int \<Rightarrow> candidate \<Rightarrow> candidate" where
  "refreshCandidate fp cfg now c =
     (let c = (if c_invalid c \<and> now \<ge> c_recoveryUntil c then c\<lparr>c_invalid := False\<rparr> else c) in
      if c_qualified c then
        let (c, ok) = qualifiesAt fp cfg c (CaptureTarget cfg) in
        (if \<not> ok then c\<lparr>c_qualified := False, c_promotionReady := 0\<rparr> else c)
      else
        let (c, ok) = qualifiesAt fp cfg c (fadd (CaptureTarget cfg) (PromotionMargin cfg)) in
        if \<not> ok then c\<lparr>c_promotionReady := 0\<rparr>
        else let c = (if c_promotionReady c = 0 then c\<lparr>c_promotionReady := i64 (now + PromotionStability cfg)\<rparr> else c) in
          if now \<ge> c_promotionReady c then c\<lparr>c_qualified := True\<rparr> else c)"

end
