(* ===== verification/Scheduler.thy ===== *)
theory Scheduler
  imports SchedModel
begin

text \<open>
  The duty scheduler itself (\<^verbatim>\<open>src/internal/dutyscheduler/scheduler.go\<close>): the clock
  (\<open>Advance\<close>), the observations (\<open>observe\<close>), the watchdogs, recovery and the choice of a
  candidate. Every operation takes the state and returns the new one; a panic of the code is an
  error value.
\<close>

section \<open>Helpers\<close>

text \<open>The code tests whether the pointer is nil; an index outside the list does not occur.\<close>

definition selectedCandidate :: "Scheduler \<Rightarrow> candidate option" where
  "selectedCandidate s = map_option (\<lambda>i. s_candidates s ! i) (s_selected s)"

definition update_candidate :: "nat \<Rightarrow> (candidate \<Rightarrow> candidate) \<Rightarrow> Scheduler \<Rightarrow> Scheduler" where
  "update_candidate i f s = s\<lparr>s_candidates := (s_candidates s)[i := f (s_candidates s ! i)]\<rparr>"

definition stop_quiet :: "Scheduler \<Rightarrow> Scheduler" where
  "stop_quiet s = s\<lparr>s_quietActive := False, s_auditActive := False, s_quietCandidate := []\<rparr>"

fun find_index :: "('a \<Rightarrow> bool) \<Rightarrow> 'a list \<Rightarrow> nat option" where
  "find_index P [] = None"
| "find_index P (x # xs) = (if P x then Some 0 else map_option Suc (find_index P xs))"

text \<open>The totals of a protocol, when it has any.\<close>

definition modify_protocol :: "string \<Rightarrow> (protocolRuntime \<Rightarrow> protocolRuntime) \<Rightarrow> (string \<times> protocolRuntime) list \<Rightarrow> (string \<times> protocolRuntime) list" where
  "modify_protocol name f ps = map (\<lambda>(n, p). if n = name then (n, f p) else (n, p)) ps"

definition ensure_protocol :: "string \<Rightarrow> (string \<times> protocolRuntime) list \<Rightarrow> (string \<times> protocolRuntime) list" where
  "ensure_protocol name ps = (if name \<in> set (map fst ps) then ps else ps @ [(name, zero_protocol)])"

section \<open>Effective watchdog limits\<close>

definition effectiveOverdue :: "senderRuntime \<Rightarrow> int" where
  "effectiveOverdue r =
     (if r_learnedOverdue r > Overdue (r_cfg r) then r_learnedOverdue r else Overdue (r_cfg r))"

definition effectiveCountWindow :: "Scheduler \<Rightarrow> senderRuntime \<Rightarrow> int" where
  "effectiveCountWindow s r =
     (if CountWindow (r_cfg r) > 0 then CountWindow (r_cfg r)
      else if r_watchdogLearned r then WatchdogWindow (s_cfg s) else 0)"

definition effectiveMinimumCount :: "senderRuntime \<Rightarrow> int" where
  "effectiveMinimumCount r =
     (let result = MinimumCount (r_cfg r) in
      if r_watchdogLearned r \<and> (result = 0 \<or> r_learnedMinimumCount r < result) then r_learnedMinimumCount r else result)"

definition learnWatchdog :: "fplib \<Rightarrow> Config \<Rightarrow> senderRuntime \<Rightarrow> senderRuntime res" where
  "learnWatchdog fp cfg r =
     (if int (length (r_gaps r)) < WatchdogMinIntervals cfg then Inr r
      else bind_res (durationQuantile fp (r_gaps r) (WatchdogQuantile cfg)) (\<lambda>g.
        let learned = to_int64 fp (fmul (float64 g) (fadd (Fin 1) (WatchdogMargin cfg))) in
        if learned \<le> 0 then Inr r
        else let minimum = WatchdogWindow cfg div learned;
                 minimum = (if minimum < 1 then 1 else minimum)
             in Inr (r\<lparr>r_learnedOverdue := learned, r_learnedMinimumCount := minimum, r_watchdogLearned := True\<rparr>)))"

definition watchdogsReady :: "Scheduler \<Rightarrow> bool" where
  "watchdogsReady s = list_all (\<lambda>r.
     (Overdue (r_cfg r) > 0 \<and> CountWindow (r_cfg r) > 0 \<and> MinimumCount (r_cfg r) > 0) \<or> r_watchdogLearned r) (s_senders s)"

section \<open>Recovery, qualification and choice\<close>

definition enterRecovery :: "Scheduler \<Rightarrow> int \<Rightarrow> Scheduler" where
  "enterRecovery s now =
     (let until = i64 (now + RecoveryDuration (s_cfg s));
          s = (if until > s_recoveryUntil s then s\<lparr>s_recoveryUntil := until\<rparr> else s)
      in (stop_quiet s)\<lparr>s_selected := None, s_refreshUntil := 0, s_nextRefresh := 0\<rparr>)"

definition recoverAtLeast :: "fplib \<Rightarrow> Scheduler \<Rightarrow> f64 \<Rightarrow> int \<Rightarrow> Scheduler" where
  "recoverAtLeast fp s skip now =
     s\<lparr>s_candidates := map (\<lambda>c.
        if fle skip (steadySleep c)
        then (beginNewEpoch fp (c\<lparr>c_invalid := True\<rparr>) now True)\<lparr>c_recoveryUntil := i64 (now + RecoveryDuration (s_cfg s))\<rparr>
        else c) (s_candidates s)\<rparr>"

text \<open>The best qualified candidate, the earlier one on a tie.\<close>

fun best_candidate :: "nat \<Rightarrow> (nat \<times> candidate) option \<Rightarrow> candidate list \<Rightarrow> nat option" where
  "best_candidate i best [] = map_option fst best"
| "best_candidate i best (c # cs) =
     best_candidate (i + 1)
       (if \<not> c_qualified c then best
        else case best of None \<Rightarrow> Some (i, c)
          | Some (j, b) \<Rightarrow> if flt (effectiveSleep b) (effectiveSleep c) then Some (i, c) else Some (j, b)) cs"

definition chooseCandidate :: "Scheduler \<Rightarrow> Scheduler" where
  "chooseCandidate s =
     (if cfg_Mode (s_cfg s) \<noteq> ModeGated \<or> s_lastEnd s < s_recoveryUntil s \<or> s_reanchorPending s \<noteq> [] \<or> \<not> watchdogsReady s
      then s\<lparr>s_selected := None\<rparr>
      else s\<lparr>s_selected := best_candidate 0 None (s_candidates s)\<rparr>)"

definition refreshQualifications :: "fplib \<Rightarrow> Scheduler \<Rightarrow> int \<Rightarrow> Scheduler" where
  "refreshQualifications fp s now = s\<lparr>s_candidates := map (refreshCandidate fp (s_cfg s) now) (s_candidates s)\<rparr>"

definition qualificationDue :: "Scheduler \<Rightarrow> int \<Rightarrow> bool" where
  "qualificationDue s now = list_ex (\<lambda>c.
     (c_invalid c \<and> now \<ge> c_recoveryUntil c) \<or> (\<not> c_qualified c \<and> c_promotionReady c > 0 \<and> now \<ge> c_promotionReady c)) (s_candidates s)"

definition sched_state :: "Scheduler \<Rightarrow> string" where
  "sched_state s =
     (if cfg_Mode (s_cfg s) = ModeOff then ''OFF''
      else if s_lastEnd s < s_recoveryUntil s then ''RECOVERY''
      else if cfg_Mode (s_cfg s) = ModeGated \<and> s_selected s \<noteq> None then ''GATED''
      else if list_ex c_qualified (s_candidates s) then (if watchdogsReady s then ''QUALIFIED'' else ''SEED'')
      else ''SEED'')"

definition selectedName :: "Scheduler \<Rightarrow> string" where
  "selectedName s = (case selectedCandidate s of None \<Rightarrow> [] | Some c \<Rightarrow> Name (c_cfg c))"

section \<open>Random audits\<close>

definition xorshift :: "u64 \<Rightarrow> u64" where
  "xorshift x0 = (let x = x0 XOR drop_bit 12 x0; x = x XOR push_bit 25 x in x XOR drop_bit 27 x)"

definition randomUnit :: "Scheduler \<Rightarrow> Scheduler \<times> f64" where
  "randomUnit s = (let x = xorshift (s_rng s) in
     (s\<lparr>s_rng := x\<rparr>, fdiv (float64 (uint (drop_bit 11 (x * 2685821657736338717)))) (float64 (2 ^ 53))))"

section \<open>Watchdogs\<close>

definition scheduleCheck :: "int \<Rightarrow> int \<Rightarrow> Scheduler \<Rightarrow> Scheduler" where
  "scheduleCheck now t s =
     (if t \<le> now then s
      else if s_nextWatchdogCheck s = 0 \<or> t < s_nextWatchdogCheck s then s\<lparr>s_nextWatchdogCheck := t\<rparr> else s)"

definition check_deadline :: "int \<Rightarrow> Scheduler \<Rightarrow> senderRuntime \<Rightarrow> Scheduler \<times> senderRuntime \<times> bool" where
  "check_deadline now s r =
     (if r_seen r \<and> r_obligationOpen r \<and> effectiveOverdue r > 0 then
        if now \<ge> r_obligationDue r then
          if \<not> r_overdueOpen r then
            (s\<lparr>s_deadlineDeficits := s_deadlineDeficits s + 1,
               s_protocols := modify_protocol (r_protocol r)
                 (\<lambda>p. p\<lparr>p_deadlineDeficits := p_deadlineDeficits p + 1, p_obligationDeficits := p_obligationDeficits p + 1\<rparr>)
                 (s_protocols s)\<rparr>,
             r\<lparr>r_deadlineDeficits := r_deadlineDeficits r + 1, r_obligationDeficits := r_obligationDeficits r + 1,
               r_overdueOpen := True, r_obligationOpen := False\<rparr>, True)
          else (s, r, False)
        else (scheduleCheck now (r_obligationDue r) s, r, False)
      else (s, r, False))"

definition check_count :: "int \<Rightarrow> Scheduler \<Rightarrow> senderRuntime \<Rightarrow> (Scheduler \<times> senderRuntime \<times> bool) res" where
  "check_count now s r =
     (let window = effectiveCountWindow s r; minimum = effectiveMinimumCount r; obs = r_observations r in
      if r_seen r \<and> minimum > 0 \<and> window > 0 then
        if now < window then Inr (scheduleCheck now window s, r, False)
        else
          let lower = i64 (now - window);
              start0 = (if r_countStart r > length obs then length obs else r_countStart r);
              start = start0 + length (takeWhile (\<lambda>t. t < lower) (drop start0 obs));
              r = r\<lparr>r_countStart := start\<rparr>;
              deficit = (int (length obs - start) < minimum)
          in if deficit \<and> \<not> r_countOpen r then
               Inr (s\<lparr>s_countDeficits := s_countDeficits s + 1,
                      s_protocols := modify_protocol (r_protocol r)
                        (\<lambda>p. p\<lparr>p_countDeficits := p_countDeficits p + 1\<rparr>) (s_protocols s)\<rparr>,
                    r\<lparr>r_countDeficits := r_countDeficits r + 1, r_countOpen := True\<rparr>, True)
             else if \<not> deficit then
               if int (length obs) < minimum then Inl (Panic ''index out of range'')
               else bind_res (index_res obs (nat (int (length obs) - minimum))) (\<lambda>expires.
                 Inr (if expires \<le> 2 ^ 63 - 1 - window - 1 then scheduleCheck now (i64 (expires + window + 1)) s else s,
                      r\<lparr>r_countOpen := False\<rparr>, False))
             else Inr (s, r, False)
      else Inr (s, r, False))"

definition check_sender :: "int \<Rightarrow> Scheduler \<times> senderRuntime list \<times> bool \<Rightarrow> senderRuntime \<Rightarrow> (Scheduler \<times> senderRuntime list \<times> bool) res" where
  "check_sender now acc r =
     (let (s, checked, failed) = acc;
          (s, r, f1) = check_deadline now s r
      in bind_res (check_count now s r) (\<lambda>(s, r, f2). Inr (s, checked @ [r], failed \<or> f1 \<or> f2)))"

definition checkWatchdogs :: "fplib \<Rightarrow> Scheduler \<Rightarrow> int \<Rightarrow> Scheduler res" where
  "checkWatchdogs fp s now =
     bind_res (fold_res (check_sender now) (s\<lparr>s_watchdogDirty := False, s_nextWatchdogCheck := 0\<rparr>, [], False) (s_senders s))
       (\<lambda>(s', checked, failed).
     let s = s'\<lparr>s_senders := checked\<rparr> in
     Inr (case selectedCandidate s of
            Some c \<Rightarrow>
              if failed \<and> cfg_Mode (s_cfg s) = ModeGated \<and> now \<ge> s_recoveryUntil s
              then enterRecovery (recoverAtLeast fp s (steadySleep c) now) now else s
          | None \<Rightarrow> s))"

section \<open>The clock\<close>

definition reset_candidate :: "candidate \<Rightarrow> candidate" where
  "reset_candidate c =
     invalidateSchedule ((map_models (\<lambda>_. zero_model) c)
       \<lparr>c_lastEligible := False, c_lastAwake := True, c_eligibleDuration := 0, c_awakeDuration := 0, c_invalid := False,
        c_qualified := False, c_epoch := c_epoch c + 1, c_promotionReady := 0, c_recoveryUntil := 0, c_wakeScale := Fin 1\<rparr>)"

definition reset_sender :: "senderRuntime \<Rightarrow> senderRuntime" where
  "reset_sender r =
     r\<lparr>r_protocol := [], r_lastSeen := 0, r_seen := False, r_observations := [], r_overdueOpen := False,
       r_countOpen := False, r_gaps := [], r_learnedOverdue := 0, r_learnedMinimumCount := 0, r_watchdogLearned := False,
       r_obligationDue := 0, r_obligationOpen := False, r_countStart := 0\<rparr>"

definition resetLearning :: "Scheduler \<Rightarrow> Scheduler" where
  "resetLearning s =
     s\<lparr>s_discontinuities := s_discontinuities s + 1, s_candidates := map reset_candidate (s_candidates s),
       s_senders := map reset_sender (s_senders s), s_watchdogDirty := True, s_nextWatchdogCheck := 0,
       s_refreshUntil := 0, s_nextRefresh := 0\<rparr>"

text \<open>Scoring one candidate over the interval; the flag says that its first eligible duration was
  accumulated.\<close>

definition score_candidate :: "int \<Rightarrow> int \<Rightarrow> candidate \<Rightarrow> candidate \<times> bool" where
  "score_candidate start stop c =
     (let (c, eligible) = allLearned c;
          c = c\<lparr>c_lastEligible := eligible, c_lastAwake := True\<rparr>;
          duration = i64 (stop - start);
          (c, first) =
            (if eligible then
               let (c, awake) = awakeDuring c start stop; first = (c_eligibleDuration c = 0) in
               (c\<lparr>c_lastAwake := awake, c_eligibleDuration := i64 (c_eligibleDuration c + duration),
                  c_awakeDuration := (if awake then i64 (c_awakeDuration c + duration) else c_awakeDuration c)\<rparr>, first)
             else (c, False));
          c = c\<lparr>c_totalDuration := i64 (c_totalDuration c + duration)\<rparr>
      in (if c_lastAwake c then c\<lparr>c_totalAwake := i64 (c_totalAwake c + duration)\<rparr> else c, first))"

definition end_refresh :: "fplib \<Rightarrow> Scheduler \<Rightarrow> int \<Rightarrow> Scheduler" where
  "end_refresh fp s start =
     (if s_refreshUntil s > 0 \<and> start \<ge> s_refreshUntil s then
        let s = (case s_selected s of None \<Rightarrow> s
                 | Some i \<Rightarrow> (update_candidate i (\<lambda>c. tightenAfterRefresh fp c start) s)\<lparr>s_selected := None\<rparr>)
        in s\<lparr>s_refreshUntil := 0, s_nextRefresh := 0\<rparr>
      else s)"

definition schedule_refresh :: "fplib \<Rightarrow> Scheduler \<Rightarrow> int \<Rightarrow> Scheduler" where
  "schedule_refresh fp s stop =
     (case selectedCandidate s of None \<Rightarrow> s
      | Some c \<Rightarrow>
        if stop \<ge> s_recoveryUntil s then
          let interval = refreshInterval fp c (RefreshInterval (s_cfg s));
              s = (if s_nextRefresh s = 0 then s\<lparr>s_nextRefresh := i64 (stop + interval)\<rparr> else s)
          in if stop \<ge> s_nextRefresh s
             then s\<lparr>s_refreshUntil := i64 (stop + RefreshDuration (s_cfg s)), s_nextRefresh := i64 (stop + interval),
                    s_refreshes := s_refreshes s + 1\<rparr>
             else s
        else s)"

text \<open>The end of \<^verbatim>\<open>Advance\<close>: whether to suppress the block, and the audits.\<close>

definition decide_block :: "fplib \<Rightarrow> Scheduler \<Rightarrow> int \<Rightarrow> Scheduler \<times> Decision" where
  "decide_block fp s stop =
     (let d = decision True (sched_state s) (selectedName s);
          s = schedule_refresh fp s stop
      in case selectedCandidate s of
           None \<Rightarrow> let s = stop_quiet s in (s\<lparr>s_lastDecision := d\<rparr>, d)
         | Some c \<Rightarrow>
           if stop < s_refreshUntil s then
             let d = d\<lparr>dec_Refresh := True, dec_State := sched_state s\<rparr>; s = stop_quiet s in (s\<lparr>s_lastDecision := d\<rparr>, d)
           else if cfg_Mode (s_cfg s) = ModeGated \<and> stop \<ge> s_recoveryUntil s \<and> c_lastEligible c \<and> \<not> c_lastAwake c then
             let name = Name (c_cfg c);
                 s = (if \<not> s_quietActive s \<or> s_quietCandidate s \<noteq> name then
                        let s = s\<lparr>s_quietActive := True, s_quietCandidate := name\<rparr>; (s, u) = randomUnit s in
                        s\<lparr>s_auditActive := flt u (auditFraction c)\<rparr>
                      else s);
                 d = d\<lparr>dec_Decode := s_auditActive s, dec_Audit := s_auditActive s\<rparr>
             in (s\<lparr>s_lastDecision := d\<rparr>, d)
           else let s = stop_quiet s in (s\<lparr>s_lastDecision := d\<rparr>, d))"

definition score_all :: "Scheduler \<Rightarrow> int \<Rightarrow> int \<Rightarrow> Scheduler \<times> bool" where
  "score_all s start stop =
     (let scored = map (score_candidate start stop) (s_candidates s) in
      (s\<lparr>s_candidates := map fst scored\<rparr>, list_ex snd scored))"

definition discontinuity :: "Scheduler \<Rightarrow> int \<Rightarrow> int \<Rightarrow> bool" where
  "discontinuity s start stop \<longleftrightarrow> start < 0 \<or> stop \<le> start \<or> (s_started s \<and> start \<noteq> s_lastEnd s)"

definition Advance :: "fplib \<Rightarrow> Scheduler \<Rightarrow> int \<Rightarrow> int \<Rightarrow> (Scheduler \<times> Decision) res" where
  "Advance fp s start stop =
     (if discontinuity s start stop then
        let (now, s) = (if stop > start \<and> stop \<ge> 0 then (stop, s\<lparr>s_lastEnd := stop\<rparr>) else (s_lastEnd s, s));
            s = enterRecovery (resetLearning (s\<lparr>s_started := True\<rparr>)) now;
            d = decision True (sched_state s) []
        in Inr (s\<lparr>s_lastDecision := d\<rparr>, d)
      else
        let s = end_refresh fp (s\<lparr>s_started := True, s_lastEnd := stop\<rparr>) start;
            (s, qualificationChanged) = score_all s start stop
        in bind_res (if s_watchdogDirty s \<or> (s_nextWatchdogCheck s > 0 \<and> stop \<ge> s_nextWatchdogCheck s)
                     then checkWatchdogs fp s stop else Inr s) (\<lambda>s.
           let s = (if s_forceFull s \<or> qualificationChanged \<or> qualificationDue s stop then refreshQualifications fp s stop else s)
           in Inr (decide_block fp (chooseCandidate s) stop)))"

section \<open>Observations\<close>

text \<open>What an accepted arrival does to the sender it belongs to, up to the trimming of its
  observations.\<close>

definition trim_observations :: "int \<Rightarrow> senderRuntime \<Rightarrow> senderRuntime" where
  "trim_observations trimBefore r =
     (let first = length (takeWhile (\<lambda>t. t < trimBefore) (r_observations r)) in
      if first > 0 then r\<lparr>r_observations := drop first (r_observations r), r_countStart := r_countStart r - first\<rparr> else r)"

definition observe_sender :: "fplib \<Rightarrow> Scheduler \<Rightarrow> senderRuntime \<Rightarrow> string \<Rightarrow> int \<Rightarrow> bool \<Rightarrow> senderRuntime res" where
  "observe_sender fp s r0 protocol t pending =
     (let r = r0\<lparr>r_protocol := protocol, r_lastSeen := t, r_seen := True, r_total := r_total r0 + 1, r_overdueOpen := False\<rparr>;
          r = (if r_obligationOpen r then r\<lparr>r_obligationsClosed := r_obligationsClosed r + 1, r_obligationOpen := False\<rparr> else r);
          r = r\<lparr>r_observations := r_observations r @ [t]\<rparr>
      in bind_res
           (if r_seen r0 \<and> \<not> pending then
              let gs = r_gaps r @ [i64 (t - r_lastSeen r0)];
                  gs = (if int (length gs) > WatchdogHistory (s_cfg s) then drop (length gs - nat (WatchdogHistory (s_cfg s))) gs else gs)
              in learnWatchdog fp (s_cfg s) (r\<lparr>r_gaps := gs\<rparr>)
            else Inr r) (\<lambda>r.
         let window = effectiveCountWindow s r;
             r = (if window > 0 then trim_observations (i64 (t - i64 (window * 2))) r else r);
             overdue = effectiveOverdue r
         in Inr (if overdue > 0
                 then r\<lparr>r_obligationDue := i64 (t + overdue), r_obligationOpen := True,
                        r_obligationsOpened := r_obligationsOpened r + 1\<rparr> else r)))"

definition set_model :: "u64 \<Rightarrow> senderModel \<Rightarrow> candidate \<Rightarrow> candidate" where
  "set_model i m c = c\<lparr>c_senders := map (\<lambda>(j, m0). if j = i then (j, m) else (j, m0)) (c_senders c)\<rparr>"

definition observe_candidate :: "fplib \<Rightarrow> u64 \<Rightarrow> string \<Rightarrow> int \<Rightarrow> bool \<Rightarrow> candidate \<Rightarrow> candidate res" where
  "observe_candidate fp i protocol t pending c =
     (case map_of (c_senders c) i of
        None \<Rightarrow> Inl (Panic ''nil pointer dereference'')
      | Some m \<Rightarrow>
        if pending then Inr (invalidateSchedule (set_model i (reanchor m protocol t) c))
        else
        let m = (if c_lastEligible c
                 then m\<lparr>m_events := m_events m + 1, m_misses := (if \<not> c_lastAwake c then m_misses m + 1 else m_misses m)\<rparr> else m)
        in bind_res (model_observe fp m protocol t (c_cfg c) (c_wakeScale c)) (\<lambda>(m, changed).
           let c = set_model i m c;
               c = (if changed then beginNewEpoch fp c t True else c)
           in Inr (invalidateSchedule c)))"

text \<open>An arrival from a sender that the selected candidate did not expect is an escape.\<close>

definition escape_recovery :: "fplib \<Rightarrow> bool \<Rightarrow> int \<Rightarrow> Scheduler \<Rightarrow> Scheduler" where
  "escape_recovery fp forcedEscape t s =
     (case selectedCandidate s of
        Some c \<Rightarrow>
          if cfg_Mode (s_cfg s) = ModeGated \<and> (forcedEscape \<or> (c_lastEligible c \<and> \<not> c_lastAwake c))
          then enterRecovery (recoverAtLeast fp s (steadySleep c) t) (s_lastEnd s) else s
      | None \<Rightarrow> s)"

definition count_protocol :: "string \<Rightarrow> Scheduler \<Rightarrow> Scheduler" where
  "count_protocol protocol s =
     (if protocol \<noteq> []
      then s\<lparr>s_protocols := modify_protocol protocol (\<lambda>p. p\<lparr>p_observations := p_observations p + 1\<rparr>)
               (ensure_protocol protocol (s_protocols s))\<rparr> else s)"

definition accept_arrival :: "fplib \<Rightarrow> Scheduler \<Rightarrow> nat \<Rightarrow> u64 \<Rightarrow> string \<Rightarrow> int \<Rightarrow> bool \<Rightarrow> Scheduler res" where
  "accept_arrival fp s k i protocol t forcedEscape =
     (let pending = i \<in> set (s_reanchorPending s) in
      bind_res (observe_sender fp s (s_senders s ! k) protocol t pending) (\<lambda>r.
      let s = count_protocol protocol (s\<lparr>s_senders := (s_senders s)[k := r]\<rparr>) in
      bind_res (mapM_res (observe_candidate fp i protocol t pending) (s_candidates s)) (\<lambda>cs.
      let s = s\<lparr>s_candidates := cs, s_watchdogDirty := True,
                s_reanchorPending := (if pending then filter (\<lambda>j. j \<noteq> i) (s_reanchorPending s) else s_reanchorPending s)\<rparr>
      in Inr (chooseCandidate (refreshQualifications fp (escape_recovery fp forcedEscape t s) t)))))"

definition sched_observe :: "fplib \<Rightarrow> Scheduler \<Rightarrow> u64 \<Rightarrow> string \<Rightarrow> int \<Rightarrow> bool \<Rightarrow> Scheduler res" where
  "sched_observe fp s i protocol t forcedEscape =
     (case find_index (\<lambda>r. ID (r_cfg r) = i) (s_senders s) of
        None \<Rightarrow> Inr s
      | Some k \<Rightarrow>
        let r = s_senders s ! k in
        if t < 0 \<or> (r_seen r \<and> t \<le> r_lastSeen r)
        then Inr (if r_seen r \<and> t < r_lastSeen r then enterRecovery s (s_lastEnd s) else s)
        else if r_protocol r \<noteq> [] \<and> r_protocol r \<noteq> protocol then Inr (enterRecovery s (s_lastEnd s))
        else accept_arrival fp s k i protocol t forcedEscape)"

definition Observe :: "fplib \<Rightarrow> Scheduler \<Rightarrow> u64 \<Rightarrow> string \<Rightarrow> int \<Rightarrow> Scheduler res" where
  "Observe fp s i protocol t = sched_observe fp s i protocol t False"

definition ObserveEscape :: "fplib \<Rightarrow> Scheduler \<Rightarrow> u64 \<Rightarrow> string \<Rightarrow> int \<Rightarrow> Scheduler res" where
  "ObserveEscape fp s i protocol t = sched_observe fp s i protocol t True"

definition PrepareResume :: "Scheduler \<Rightarrow> Scheduler" where
  "PrepareResume s =
     (stop_quiet s)\<lparr>s_reanchorPending := map (ID \<circ> r_cfg) (filter r_seen (s_senders s)), s_selected := None\<rparr>"

end
