(* ===== verification/SchedSafety.thy ===== *)
theory SchedSafety
  imports Scheduler
begin

text \<open>
  What the duty scheduler promises about suppressed blocks. A reachable scheduler suppresses a
  block only in gated mode, outside recovery and refresh, with every watchdog armed, and only for a
  candidate whose evidence satisfies the capture contract for every sender; and after an escape, a
  failed watchdog, a discontinuity or a protocol conflict it decodes every block until the recovery
  time has passed.
\<close>

section \<open>Which fields the operations keep\<close>

named_theorems sched_keeps \<open>projections that an operation of the scheduler leaves alone\<close>

lemma keeps_stop_quiet [sched_keeps]:
  "s_cfg (stop_quiet s) = s_cfg s" "s_candidates (stop_quiet s) = s_candidates s" "s_senders (stop_quiet s) = s_senders s"
  "s_selected (stop_quiet s) = s_selected s" "s_lastEnd (stop_quiet s) = s_lastEnd s"
  "s_recoveryUntil (stop_quiet s) = s_recoveryUntil s" "s_refreshUntil (stop_quiet s) = s_refreshUntil s"
  "s_reanchorPending (stop_quiet s) = s_reanchorPending s"
  by (simp_all add: stop_quiet_def)

lemma keeps_enterRecovery [sched_keeps]:
  "s_cfg (enterRecovery s now) = s_cfg s" "s_candidates (enterRecovery s now) = s_candidates s"
  "s_senders (enterRecovery s now) = s_senders s" "s_lastEnd (enterRecovery s now) = s_lastEnd s"
  "s_reanchorPending (enterRecovery s now) = s_reanchorPending s" "s_selected (enterRecovery s now) = None"
  by (simp_all add: enterRecovery_def Let_def sched_keeps)

lemma enterRecovery_until:
  "s_recoveryUntil (enterRecovery s now) = max (s_recoveryUntil s) (i64 (now + RecoveryDuration (s_cfg s)))"
  by (simp add: enterRecovery_def Let_def sched_keeps)

lemma keeps_recoverAtLeast [sched_keeps]:
  "s_cfg (recoverAtLeast fp s skip now) = s_cfg s" "s_senders (recoverAtLeast fp s skip now) = s_senders s"
  "s_lastEnd (recoverAtLeast fp s skip now) = s_lastEnd s" "s_recoveryUntil (recoverAtLeast fp s skip now) = s_recoveryUntil s"
  "s_reanchorPending (recoverAtLeast fp s skip now) = s_reanchorPending s"
  by (simp_all add: recoverAtLeast_def)

lemma keeps_refreshQualifications [sched_keeps]:
  "s_cfg (refreshQualifications fp s now) = s_cfg s" "s_senders (refreshQualifications fp s now) = s_senders s"
  "s_lastEnd (refreshQualifications fp s now) = s_lastEnd s"
  "s_recoveryUntil (refreshQualifications fp s now) = s_recoveryUntil s"
  "s_reanchorPending (refreshQualifications fp s now) = s_reanchorPending s"
  "s_selected (refreshQualifications fp s now) = s_selected s"
  by (simp_all add: refreshQualifications_def)

lemma keeps_chooseCandidate [sched_keeps]:
  "s_cfg (chooseCandidate s) = s_cfg s" "s_senders (chooseCandidate s) = s_senders s"
  "s_candidates (chooseCandidate s) = s_candidates s" "s_lastEnd (chooseCandidate s) = s_lastEnd s"
  "s_recoveryUntil (chooseCandidate s) = s_recoveryUntil s" "s_reanchorPending (chooseCandidate s) = s_reanchorPending s"
  by (simp_all add: chooseCandidate_def)

lemma keeps_resetLearning [sched_keeps]:
  "s_cfg (resetLearning s) = s_cfg s" "s_lastEnd (resetLearning s) = s_lastEnd s"
  "s_recoveryUntil (resetLearning s) = s_recoveryUntil s" "s_reanchorPending (resetLearning s) = s_reanchorPending s"
  by (simp_all add: resetLearning_def)

lemma keeps_scheduleCheck [sched_keeps]:
  "s_cfg (scheduleCheck now t s) = s_cfg s" "s_lastEnd (scheduleCheck now t s) = s_lastEnd s"
  "s_recoveryUntil (scheduleCheck now t s) = s_recoveryUntil s" "s_reanchorPending (scheduleCheck now t s) = s_reanchorPending s"
  "s_candidates (scheduleCheck now t s) = s_candidates s" "s_selected (scheduleCheck now t s) = s_selected s"
  by (simp_all add: scheduleCheck_def)

lemma keeps_end_refresh [sched_keeps]:
  "s_cfg (end_refresh fp s start) = s_cfg s" "s_senders (end_refresh fp s start) = s_senders s"
  "s_lastEnd (end_refresh fp s start) = s_lastEnd s" "s_recoveryUntil (end_refresh fp s start) = s_recoveryUntil s"
  "s_reanchorPending (end_refresh fp s start) = s_reanchorPending s"
  by (simp_all add: end_refresh_def Let_def update_candidate_def split: option.splits)

lemma keeps_schedule_refresh [sched_keeps]:
  "s_cfg (schedule_refresh fp s stop) = s_cfg s" "s_senders (schedule_refresh fp s stop) = s_senders s"
  "s_candidates (schedule_refresh fp s stop) = s_candidates s" "s_lastEnd (schedule_refresh fp s stop) = s_lastEnd s"
  "s_recoveryUntil (schedule_refresh fp s stop) = s_recoveryUntil s" "s_selected (schedule_refresh fp s stop) = s_selected s"
  "s_reanchorPending (schedule_refresh fp s stop) = s_reanchorPending s"
  by (simp_all add: schedule_refresh_def Let_def split: option.splits)

lemma selected_schedule_refresh [sched_keeps]:
  "selectedCandidate (schedule_refresh fp s stop) = selectedCandidate s"
  by (simp add: selectedCandidate_def sched_keeps)

lemma keeps_decide_block [sched_keeps]:
  "s_cfg (fst (decide_block fp s stop)) = s_cfg s" "s_senders (fst (decide_block fp s stop)) = s_senders s"
  "s_candidates (fst (decide_block fp s stop)) = s_candidates s" "s_lastEnd (fst (decide_block fp s stop)) = s_lastEnd s"
  "s_recoveryUntil (fst (decide_block fp s stop)) = s_recoveryUntil s"
  "s_reanchorPending (fst (decide_block fp s stop)) = s_reanchorPending s"
  "s_selected (fst (decide_block fp s stop)) = s_selected s"
  by (simp_all add: decide_block_def Let_def randomUnit_def sched_keeps split: option.splits)

lemma watchdogsReady_cong: "s_senders s = s_senders s' \<Longrightarrow> watchdogsReady s = watchdogsReady s'"
  by (simp add: watchdogsReady_def)

section \<open>The watchdog pass\<close>

text \<open>The part of the state that the pass over the senders does not touch.\<close>

definition same_plan :: "Scheduler \<Rightarrow> Scheduler \<Rightarrow> bool" where
  "same_plan s s' \<longleftrightarrow> s_cfg s' = s_cfg s \<and> s_lastEnd s' = s_lastEnd s \<and> s_recoveryUntil s' = s_recoveryUntil s \<and>
    s_reanchorPending s' = s_reanchorPending s \<and> s_candidates s' = s_candidates s \<and> s_selected s' = s_selected s"

lemma same_plan_trans: "same_plan s s' \<Longrightarrow> same_plan s' s'' \<Longrightarrow> same_plan s s''"
  by (simp add: same_plan_def)

lemma check_deadline_plan: "same_plan s (fst (check_deadline now s r))"
  by (simp add: check_deadline_def same_plan_def sched_keeps)

lemma check_count_plan:
  assumes "check_count now s r = Inr (s', r', f)"
  shows "same_plan s s'"
proof (cases "r_seen r \<and> effectiveMinimumCount r > 0 \<and> effectiveCountWindow s r > 0")
  case True
  then show ?thesis using assms unfolding check_count_def Let_def
    by (simp only: if_P if_True refl) (auto simp: same_plan_def sched_keeps bind_res_eq_Inr split: if_splits)
next
  case False
  then show ?thesis using assms unfolding check_count_def Let_def by (auto simp: same_plan_def)
qed

lemma check_sender_plan:
  assumes "check_sender now (s, rs, f) r = Inr (s', rs', f')"
  shows "same_plan s s'"
proof -
  obtain s1 r1 f1 where 1: "check_deadline now s r = (s1, r1, f1)" by (cases "check_deadline now s r") auto
  obtain s2 r2 f2 where 2: "check_count now s1 r1 = Inr (s2, r2, f2)" and "s' = s2"
    using assms by (auto simp: check_sender_def 1 bind_res_eq_Inr)
  then show ?thesis using check_deadline_plan [of s now r] check_count_plan [OF 2] by (auto simp: 1 intro: same_plan_trans)
qed

lemma check_senders_plan:
  "fold_res (check_sender now) (s, rs, f) xs = Inr (s', rs', f') \<Longrightarrow> same_plan s s'"
proof (induction xs arbitrary: s rs f)
  case Nil
  then show ?case by (simp add: same_plan_def)
next
  case (Cons x xs)
  then obtain s1 rs1 f1 where "check_sender now (s, rs, f) x = Inr (s1, rs1, f1)"
      "fold_res (check_sender now) (s1, rs1, f1) xs = Inr (s', rs', f')"
    by (auto simp: bind_res_eq_Inr)
  then show ?case using check_sender_plan Cons.IH by (blast intro: same_plan_trans)
qed

text \<open>The pass either leaves the plan alone or, when a watchdog failed under a selected candidate,
  enters recovery.\<close>

lemma checkWatchdogs_cases:
  assumes "checkWatchdogs fp s now = Inr s'"
  obtains s1 where "same_plan s s1" "s' = s1"
    | s1 c where "same_plan s s1" "selectedCandidate s = Some c" "s' = enterRecovery (recoverAtLeast fp s1 (steadySleep c) now) now"
proof -
  obtain s1 rs f where 1: "fold_res (check_sender now) (s\<lparr>s_watchdogDirty := False, s_nextWatchdogCheck := 0\<rparr>, [], False) (s_senders s) = Inr (s1, rs, f)"
    and s': "s' = (case selectedCandidate (s1\<lparr>s_senders := rs\<rparr>) of
            Some c \<Rightarrow> if f \<and> cfg_Mode (s_cfg (s1\<lparr>s_senders := rs\<rparr>)) = ModeGated \<and> now \<ge> s_recoveryUntil (s1\<lparr>s_senders := rs\<rparr>)
              then enterRecovery (recoverAtLeast fp (s1\<lparr>s_senders := rs\<rparr>) (steadySleep c) now) now else s1\<lparr>s_senders := rs\<rparr>
          | None \<Rightarrow> s1\<lparr>s_senders := rs\<rparr>)"
    using assms unfolding checkWatchdogs_def by (auto simp: bind_res_eq_Inr Let_def)
  have p: "same_plan s (s1\<lparr>s_senders := rs\<rparr>)" using check_senders_plan [OF 1] by (simp add: same_plan_def)
  then have "selectedCandidate (s1\<lparr>s_senders := rs\<rparr>) = selectedCandidate s"
    by (simp add: same_plan_def selectedCandidate_def)
  then show thesis using s' p that by (auto split: option.splits if_splits)
qed

lemma checkWatchdogs_keeps:
  assumes "checkWatchdogs fp s now = Inr s'"
  shows "s_cfg s' = s_cfg s" "s_lastEnd s' = s_lastEnd s" "s_recoveryUntil s \<le> s_recoveryUntil s'"
    "s_reanchorPending s' = s_reanchorPending s"
  using assms by (auto elim!: checkWatchdogs_cases simp: same_plan_def sched_keeps enterRecovery_until)

section \<open>The evidence behind a qualified candidate\<close>

definition alpha_of :: "Config \<Rightarrow> f64" where
  "alpha_of cfg = fsub (Fin 1) (Confidence cfg)"

text \<open>The capture contract for one sender of a candidate: at least one scored arrival, and the upper
  confidence bound of its miss rate does not exceed what the target allows.\<close>

definition contract_met :: "fplib \<Rightarrow> Config \<Rightarrow> f64 \<Rightarrow> senderModel \<Rightarrow> bool" where
  "contract_met fp cfg target m \<longleftrightarrow> m_learned m \<and> m_events m \<noteq> 0 \<and>
     \<not> flt (fsub (Fin 1) target) (upperMissBound fp (m_misses m) (m_events m) (alpha_of cfg))"

definition evidence_ok :: "fplib \<Rightarrow> Config \<Rightarrow> f64 \<Rightarrow> candidate \<Rightarrow> bool" where
  "evidence_ok fp cfg target c \<longleftrightarrow> \<not> c_invalid c \<and> (\<forall>m \<in> snd ` set (c_senders c). contract_met fp cfg target m)"

text \<open>The memo of the confidence bound and the cache of the eligibility hold what they stand for.\<close>

definition bound_cache_ok :: "fplib \<Rightarrow> Config \<Rightarrow> senderModel \<Rightarrow> bool" where
  "bound_cache_ok fp cfg m \<longleftrightarrow> (m_boundValid m \<longrightarrow> m_boundAlpha m = alpha_of cfg \<and>
     m_boundUpper m = upperMissBound fp (m_boundMisses m) (m_boundEvents m) (alpha_of cfg))"

definition caches_ok :: "fplib \<Rightarrow> Config \<Rightarrow> candidate \<Rightarrow> bool" where
  "caches_ok fp cfg c \<longleftrightarrow>
     (\<not> c_eligibilityDirty c \<longrightarrow> c_eligibleCached c = (\<forall>m \<in> snd ` set (c_senders c). m_learned m)) \<and>
     (\<forall>m \<in> snd ` set (c_senders c). bound_cache_ok fp cfg m)"

definition cand_inv :: "fplib \<Rightarrow> Config \<Rightarrow> candidate \<Rightarrow> bool" where
  "cand_inv fp cfg c \<longleftrightarrow> caches_ok fp cfg c \<and> (c_qualified c \<longrightarrow> evidence_ok fp cfg (CaptureTarget cfg) c)"

lemma allLearned_spec:
  assumes "caches_ok fp cfg c" "allLearned c = (c', e)"
  shows "e = (\<forall>m \<in> snd ` set (c_senders c). m_learned m)"
    and "\<exists>d k. c' = c\<lparr>c_eligibleCached := k, c_eligibilityDirty := d\<rparr>" and "caches_ok fp cfg c'"
proof -
  have *: "list_all (\<lambda>(_, m). m_learned m) (c_senders c) = (\<forall>m \<in> snd ` set (c_senders c). m_learned m)"
    by (simp add: list_all_iff split_beta)
  have "e = (\<forall>m \<in> snd ` set (c_senders c). m_learned m) \<and>
    (\<exists>d k. c' = c\<lparr>c_eligibleCached := k, c_eligibilityDirty := d\<rparr>) \<and> caches_ok fp cfg c'"
  proof (cases "c_eligibilityDirty c")
    case True
    define L where "L = list_all (\<lambda>(_, m). m_learned m) (c_senders c)"
    have "allLearned c = (c\<lparr>c_eligibleCached := L, c_eligibilityDirty := False\<rparr>, L)"
      using True by (simp add: allLearned_def Let_def L_def)
    then have "c' = c\<lparr>c_eligibleCached := L, c_eligibilityDirty := False\<rparr>" "e = L" using assms(2) by simp_all
    then have "c' = c\<lparr>c_eligibleCached := e, c_eligibilityDirty := False\<rparr>" "e = (\<forall>m \<in> snd ` set (c_senders c). m_learned m)"
      using * by (simp_all add: L_def)
    then show ?thesis using assms(1) unfolding caches_ok_def by (intro conjI exI) simp_all
  next
    case False
    then have "c' = c" "e = c_eligibleCached c" using assms(2) by (auto simp: allLearned_def)
    moreover have "c = c\<lparr>c_eligibleCached := c_eligibleCached c, c_eligibilityDirty := c_eligibilityDirty c\<rparr>" by simp
    moreover have "c_eligibleCached c = (\<forall>m \<in> snd ` set (c_senders c). m_learned m)"
      using False assms(1) by (simp add: caches_ok_def)
    ultimately show ?thesis using assms(1) by metis
  qed
  then show "e = (\<forall>m \<in> snd ` set (c_senders c). m_learned m)"
    "\<exists>d k. c' = c\<lparr>c_eligibleCached := k, c_eligibilityDirty := d\<rparr>" "caches_ok fp cfg c'" by blast+
qed

lemma confidenceUpperBound_spec:
  assumes "bound_cache_ok fp cfg m" "confidenceUpperBound fp m (alpha_of cfg) = (m', u)"
  shows "u = upperMissBound fp (m_misses m) (m_events m) (alpha_of cfg)"
    and "bound_cache_ok fp cfg m'" and "m_learned m' = m_learned m" "m_events m' = m_events m" "m_misses m' = m_misses m"
  using assms by (auto simp: confidenceUpperBound_def bound_cache_ok_def Let_def split: if_splits)

lemma senders_qualify_spec:
  "\<forall>m \<in> snd ` set ms. bound_cache_ok fp cfg m \<Longrightarrow> \<forall>m \<in> snd ` set ms. m_learned m \<Longrightarrow>
   senders_qualify fp (alpha_of cfg) (fsub (Fin 1) target) ms = (ms', ok) \<Longrightarrow>
   (\<forall>m \<in> snd ` set ms'. bound_cache_ok fp cfg m \<and> m_learned m) \<and> (ok \<longrightarrow> (\<forall>m \<in> snd ` set ms'. contract_met fp cfg target m))"
proof (induction ms arbitrary: ms' ok)
  case (Cons x ms)
  obtain i m where x: "x = (i, m)" by (cases x)
  obtain m1 u where 1: "confidenceUpperBound fp m (alpha_of cfg) = (m1, u)" by (cases "confidenceUpperBound fp m (alpha_of cfg)")
  obtain ms1 ok1 where 2: "senders_qualify fp (alpha_of cfg) (fsub (Fin 1) target) ms = (ms1, ok1)"
    by (cases "senders_qualify fp (alpha_of cfg) (fsub (Fin 1) target) ms")
  have m: "bound_cache_ok fp cfg m" "m_learned m" using Cons.prems by (auto simp: x)
  note spec = confidenceUpperBound_spec [OF m(1) 1]
  have ih: "(\<forall>m \<in> snd ` set ms1. bound_cache_ok fp cfg m \<and> m_learned m) \<and> (ok1 \<longrightarrow> (\<forall>m \<in> snd ` set ms1. contract_met fp cfg target m))"
    by (rule Cons.IH [OF _ _ 2]) (use Cons.prems(1,2) in simp_all)
  consider "m_events m = 0" "ms' = (i, m) # ms" "\<not> ok"
    | "m_events m \<noteq> 0" "flt (fsub (Fin 1) target) u" "ms' = (i, m1) # ms" "\<not> ok"
    | "m_events m \<noteq> 0" "\<not> flt (fsub (Fin 1) target) u" "ms' = (i, m1) # ms1" "ok = ok1"
    using Cons.prems(3) by (auto simp: x 1 2 split: if_splits)
  then show ?case
  proof cases
    case 3
    then have "contract_met fp cfg target m1" using m spec by (simp add: contract_met_def)
    then show ?thesis using 3 ih m spec by simp
  qed (use Cons.prems m spec in \<open>simp_all add: x\<close>)
qed simp

lemma qualifiesAt_spec:
  assumes c: "caches_ok fp cfg c" and q: "qualifiesAt fp cfg c target = (c', ok)"
  shows "caches_ok fp cfg c'" and "ok \<Longrightarrow> evidence_ok fp cfg target c'"
    and "c_qualified c' = c_qualified c" and "c_invalid c' = c_invalid c"
proof -
  obtain c1 e where 1: "allLearned c = (c1, e)" by (cases "allLearned c")
  note al = allLearned_spec [OF c 1]
  obtain d k where c1: "c1 = c\<lparr>c_eligibleCached := k, c_eligibilityDirty := d\<rparr>" using al(2) by auto
  obtain ms okm where 2: "senders_qualify fp (fsub (Fin 1) (Confidence cfg)) (fsub (Fin 1) target) (c_senders c1) = (ms, okm)"
    by (cases "senders_qualify fp (fsub (Fin 1) (Confidence cfg)) (fsub (Fin 1) target) (c_senders c1)")
  have bc: "\<forall>m \<in> snd ` set (c_senders c1). bound_cache_ok fp cfg m" using al(3) by (simp add: caches_ok_def)
  consider (invalid) "c_invalid c" "c' = c" "\<not> ok" | (ineligible) "\<not> c_invalid c" "\<not> e \<or> c_eligibleDuration c1 \<le> 0" "c' = c1" "\<not> ok"
    | (scored) "\<not> c_invalid c" "e" "c' = c1\<lparr>c_senders := ms\<rparr>" "ok = okm"
    using q by (auto simp: qualifiesAt_def 1 2 Let_def split: if_splits)
  then have "caches_ok fp cfg c' \<and> (ok \<longrightarrow> evidence_ok fp cfg target c') \<and> c_qualified c' = c_qualified c \<and> c_invalid c' = c_invalid c"
  proof cases
    case scored
    then have learned: "\<forall>m \<in> snd ` set (c_senders c1). m_learned m" using al(1) by (simp add: c1)
    note sq = senders_qualify_spec [OF bc learned 2 [folded alpha_of_def]]
    have "caches_ok fp cfg c'" using sq al(3) learned unfolding scored by (simp add: caches_ok_def)
    moreover have "ok \<longrightarrow> evidence_ok fp cfg target c'" using sq scored(1) unfolding scored by (simp add: evidence_ok_def c1)
    ultimately show ?thesis by (simp add: scored c1)
  qed (use c al(3) c1 in auto)
  then show "caches_ok fp cfg c'" "ok \<Longrightarrow> evidence_ok fp cfg target c'" "c_qualified c' = c_qualified c" "c_invalid c' = c_invalid c"
    by auto
qed

section \<open>Every operation keeps the evidence\<close>

definition good_contract :: "Config \<Rightarrow> bool" where
  "good_contract cfg \<longleftrightarrow> validateConfig cfg = Inr () \<and> f64_ok (CaptureTarget cfg)"

text \<open>Promotion is judged against a stricter target than the contract.\<close>

lemma promotion_stricter:
  assumes good: "good_contract cfg" and met: "contract_met fp cfg (fadd (CaptureTarget cfg) (PromotionMargin cfg)) m"
  shows "contract_met fp cfg (CaptureTarget cfg) m"
proof -
  have v: "finite64 (CaptureTarget cfg)" "\<not> fle (CaptureTarget cfg) (Fin 0)" "\<not> fle (Fin 1) (CaptureTarget cfg)"
      "finite64 (PromotionMargin cfg)" "\<not> flt (PromotionMargin cfg) (Fin 0)"
      "\<not> fle (Fin 1) (fadd (CaptureTarget cfg) (PromotionMargin cfg))"
    using good by (auto simp: good_contract_def validateConfig_def split: if_splits)
  obtain t where t: "CaptureTarget cfg = Fin t" "0 < t" "t < 1"
    using v(1-3) by (cases "CaptureTarget cfg") (auto simp: finite64_def IsNaN_def IsInf_def fle_def)
  have rt: "representable t" using good t by (simp add: good_contract_def)
  have mg: "0 \<le> fval (PromotionMargin cfg)" and sum: "fadd (CaptureTarget cfg) (PromotionMargin cfg) = fround (t + fval (PromotionMargin cfg))"
    using v(4,5) t by (cases "PromotionMargin cfg"; auto simp: finite64_def IsNaN_def IsInf_def)+
  obtain y where y: "fround (t + fval (PromotionMargin cfg)) = Fin y" "t \<le> y" "y < 1"
  proof -
    have "\<not> fle (Fin 1) (fround (t + fval (PromotionMargin cfg)))" using v(6) unfolding sum .
    then show ?thesis using fround_ge [of t "t + fval (PromotionMargin cfg)"] t rt mg that by (auto simp: fle_def)
  qed
  have z: "fsub (Fin 1) (Fin z) = fround (1 - z)" if "0 < z" for z using that by (simp add: fsub_def)
  have "fsub (Fin 1) (fadd (CaptureTarget cfg) (PromotionMargin cfg)) = fround (1 - y)" unfolding sum y(1) using t y by (simp add: z)
  moreover have "fsub (Fin 1) (CaptureTarget cfg) = fround (1 - t)" using t by (simp add: z)
  ultimately have "flt (fsub (Fin 1) (CaptureTarget cfg)) u \<Longrightarrow> flt (fsub (Fin 1) (fadd (CaptureTarget cfg) (PromotionMargin cfg))) u" for u
    using fround_unit_mono [of "1 - y" "1 - t" u] t y by simp
  then show ?thesis using met by (auto simp: contract_met_def)
qed

lemma caches_ok_cong:
  "c_senders c' = c_senders c \<Longrightarrow> c_eligibilityDirty c' = c_eligibilityDirty c \<Longrightarrow> c_eligibleCached c' = c_eligibleCached c \<Longrightarrow>
   caches_ok fp cfg c' = caches_ok fp cfg c"
  by (simp add: caches_ok_def)

lemma evidence_ok_cong: "c_senders c' = c_senders c \<Longrightarrow> c_invalid c' = c_invalid c \<Longrightarrow> evidence_ok fp cfg t c' = evidence_ok fp cfg t c"
  by (simp add: evidence_ok_def)

lemma cand_inv_cong:
  "c_senders c' = c_senders c \<Longrightarrow> c_eligibilityDirty c' = c_eligibilityDirty c \<Longrightarrow> c_eligibleCached c' = c_eligibleCached c \<Longrightarrow>
   c_invalid c' = c_invalid c \<Longrightarrow> c_qualified c' = c_qualified c \<Longrightarrow> cand_inv fp cfg c' = cand_inv fp cfg c"
  by (simp add: cand_inv_def caches_ok_def evidence_ok_def)

lemma refreshCandidate_inv:
  assumes good: "good_contract cfg" and c: "caches_ok fp cfg c"
  shows "cand_inv fp cfg (refreshCandidate fp cfg now c)"
proof -
  define c0 where "c0 = (if c_invalid c \<and> now \<ge> c_recoveryUntil c then c\<lparr>c_invalid := False\<rparr> else c)"
  have c0: "caches_ok fp cfg c0" using c by (simp add: c0_def caches_ok_def)
  show ?thesis
  proof (cases "c_qualified c0")
    case True
    obtain c1 ok where q: "qualifiesAt fp cfg c0 (CaptureTarget cfg) = (c1, ok)" by (cases "qualifiesAt fp cfg c0 (CaptureTarget cfg)")
    have "refreshCandidate fp cfg now c = (if \<not> ok then c1\<lparr>c_qualified := False, c_promotionReady := 0\<rparr> else c1)"
      using True by (simp add: refreshCandidate_def Let_def q c0_def [symmetric])
    then show ?thesis using qualifiesAt_spec [OF c0 q] by (cases ok) (simp_all add: cand_inv_def caches_ok_def)
  next
    case False
    let ?pt = "fadd (CaptureTarget cfg) (PromotionMargin cfg)"
    obtain c1 ok where q: "qualifiesAt fp cfg c0 ?pt = (c1, ok)" by (cases "qualifiesAt fp cfg c0 ?pt")
    note spec = qualifiesAt_spec [OF c0 q]
    have nq: "\<not> c_qualified c1" using spec(3) False by simp
    have "refreshCandidate fp cfg now c = (if \<not> ok then c1\<lparr>c_promotionReady := 0\<rparr>
        else let c2 = (if c_promotionReady c1 = 0 then c1\<lparr>c_promotionReady := i64 (now + PromotionStability cfg)\<rparr> else c1) in
          if now \<ge> c_promotionReady c2 then c2\<lparr>c_qualified := True\<rparr> else c2)"
      using False by (simp add: refreshCandidate_def Let_def q c0_def [symmetric])
    moreover have "ok \<Longrightarrow> evidence_ok fp cfg (CaptureTarget cfg) c1"
      using spec(2) promotion_stricter [OF good] by (auto simp: evidence_ok_def)
    ultimately show ?thesis using spec(1) nq
      by (cases ok) (simp_all add: Let_def cand_inv_def caches_ok_def evidence_ok_def)
  qed
qed

lemma invalidateSchedule_caches:
  "(\<forall>m \<in> snd ` set (c_senders c). bound_cache_ok fp cfg m) \<Longrightarrow> caches_ok fp cfg (invalidateSchedule c)"
  by (simp add: invalidateSchedule_def caches_ok_def)

lemma beginNewEpoch_inv:
  "(\<forall>m \<in> snd ` set (c_senders c). bound_cache_ok fp cfg m) \<Longrightarrow> cand_inv fp cfg (beginNewEpoch fp c now w)"
  by (auto simp: cand_inv_def beginNewEpoch_def Let_def invalidateSchedule_def caches_ok_def map_models_def
      widen_model_def bound_cache_ok_def)

lemma widen_bounds: "bound_cache_ok fp cfg (widen_model fp2 r m) = bound_cache_ok fp cfg m"
  by (simp add: widen_model_def bound_cache_ok_def)

lemma tighten_inv:
  assumes "cand_inv fp cfg c"
  shows "cand_inv fp cfg (tightenAfterRefresh fp c now)"
proof (cases "fle (c_wakeScale c) (Fin 1)")
  case True
  then show ?thesis using assms by (simp add: tightenAfterRefresh_def)
next
  case False
  have "\<forall>m \<in> snd ` set (c_senders (map_models (widen_model fp r) (c\<lparr>c_wakeScale := ws\<rparr>))). bound_cache_ok fp cfg m" for r ws
    using assms by (auto simp: map_models_def widen_bounds cand_inv_def caches_ok_def)
  note b = beginNewEpoch_inv [OF this]
  show ?thesis using False unfolding tightenAfterRefresh_def Let_def by (simp only: if_False) (rule b)
qed

lemma reset_candidate_inv: "cand_inv fp cfg (reset_candidate c)"
  by (auto simp: reset_candidate_def cand_inv_def invalidateSchedule_def caches_ok_def map_models_def bound_cache_ok_def zero_model_def)

lemma recover_inv:
  "cand_inv fp cfg c \<Longrightarrow> cand_inv fp cfg ((beginNewEpoch fp (c\<lparr>c_invalid := True\<rparr>) now True)\<lparr>c_recoveryUntil := u\<rparr>)"
  using beginNewEpoch_inv [of "c\<lparr>c_invalid := True\<rparr>" fp cfg now True] by (simp add: cand_inv_def caches_ok_def evidence_ok_def)

lemma score_candidate_inv:
  assumes "cand_inv fp cfg c"
  shows "cand_inv fp cfg (fst (score_candidate start stop c))"
proof -
  have cache: "caches_ok fp cfg c" using assms by (simp add: cand_inv_def)
  obtain c1 e where al: "allLearned c = (c1, e)" by (cases "allLearned c")
  obtain d k where c1: "c1 = c\<lparr>c_eligibleCached := k, c_eligibilityDirty := d\<rparr>"
    using allLearned_spec(2) [OF cache al] by blast
  have inv1: "cand_inv fp cfg c1"
    using allLearned_spec(3) [OF cache al] assms by (simp add: cand_inv_def evidence_ok_def c1)
  let ?f = "fst (score_candidate start stop c)"
  have "c_senders ?f = c_senders c1 \<and> c_eligibilityDirty ?f = c_eligibilityDirty c1 \<and> c_eligibleCached ?f = c_eligibleCached c1 \<and>
      c_invalid ?f = c_invalid c1 \<and> c_qualified ?f = c_qualified c1"
    by (simp add: score_candidate_def al Let_def awakeDuring_def split_beta)
  then show ?thesis using inv1 cand_inv_cong [of ?f c1] by simp
qed

text \<open>Fitting a model leaves the memo of its bound alone.\<close>

definition bounds :: "senderModel \<Rightarrow> nat \<times> nat \<times> f64 \<times> f64 \<times> bool" where
  "bounds m = (m_boundEvents m, m_boundMisses m, m_boundAlpha m, m_boundUpper m, m_boundValid m)"

lemma bound_cache_bounds: "bounds m' = bounds m \<Longrightarrow> bound_cache_ok fp cfg m' = bound_cache_ok fp cfg m"
  by (simp add: bounds_def bound_cache_ok_def)

lemma observe_protocol_bounds: "bounds (fst (observe_protocol m p)) = bounds m"
  by (simp add: observe_protocol_def bounds_def)

lemma observe_interval_bounds: "bounds (fst (observe_interval fp cfg (m, ch) now)) = bounds m"
  by (simp add: observe_interval_def Let_def bounds_def)

lemma grow_history_bounds: "grow_history fp cfg m = Inr m' \<Longrightarrow> bounds m' = bounds m"
  by (auto simp: grow_history_def Let_def bind_res_eq_Inr bounds_def split: if_splits)

lemma fit_model_bounds: "fit_model fp cfg m p now ws = Inr m' \<Longrightarrow> bounds m' = bounds m"
  by (auto simp: fit_model_def Let_def bind_res_eq_Inr bounds_def)

lemma model_observe_bounds:
  assumes "model_observe fp m p now cfg ws = Inr (m', ch')"
  shows "bounds m' = bounds m"
proof -
  obtain m1 ch where 1: "observe_interval fp cfg (observe_protocol m p) now = (m1, ch)" by (cases "observe_interval fp cfg (observe_protocol m p) now")
  have b1: "bounds m1 = bounds m"
    using observe_interval_bounds [of fp cfg "fst (observe_protocol m p)" "snd (observe_protocol m p)" now] observe_protocol_bounds [of m p]
    by (simp add: 1)
  define m2 where "m2 = m1\<lparr>m_last := now, m_seen := True\<rparr>"
  define m3 where "m3 = (if m_effectiveHistory m2 = 0 then m2\<lparr>m_effectiveHistory := min (int (length (m_history m2))) (MinHistoryLimit cfg)\<rparr> else m2)"
  have b: "bounds m2 = bounds m" "bounds m3 = bounds m" using b1 by (simp_all add: m2_def m3_def bounds_def)
  have "(if int (length (m_history m2)) < WarmupIntervals cfg then Inr (m2, ch)
      else bind_res (grow_history fp cfg m3) (\<lambda>m. bind_res (fit_model fp cfg m p now ws) (\<lambda>m. Inr (m, ch)))) = Inr (m', ch')"
    using assms unfolding model_observe_def 1 Let_def m3_def m2_def by simp
  then show ?thesis using b grow_history_bounds fit_model_bounds by (auto simp: bind_res_eq_Inr split: if_splits)
qed

lemma set_model_bounds:
  "(\<forall>m \<in> snd ` set (c_senders c). bound_cache_ok fp cfg m) \<Longrightarrow> bound_cache_ok fp cfg m' \<Longrightarrow>
   \<forall>m \<in> snd ` set (c_senders (set_model i m' c)). bound_cache_ok fp cfg m"
  by (auto simp: set_model_def)

lemma observe_candidate_caches:
  assumes c: "caches_ok fp cfg c" and o: "observe_candidate fp i p t pending c = Inr c'"
  shows "caches_ok fp cfg c'"
proof -
  obtain m where m: "map_of (c_senders c) i = Some m" using o by (auto simp: observe_candidate_def split: option.splits)
  have all: "\<forall>m \<in> snd ` set (c_senders c). bound_cache_ok fp cfg m" using c by (simp add: caches_ok_def)
  then have bm: "bound_cache_ok fp cfg m" using map_of_SomeD [OF m] by force
  show ?thesis
  proof (cases pending)
    case True
    have "bounds (reanchor m p t) = bounds m" by (simp add: reanchor_def bounds_def)
    then have "bound_cache_ok fp cfg (reanchor m p t)" using bm bound_cache_bounds by blast
    moreover have "c' = invalidateSchedule (set_model i (reanchor m p t) c)" using o m True by (simp add: observe_candidate_def)
    ultimately show ?thesis using invalidateSchedule_caches [OF set_model_bounds [OF all]] by blast
  next
    case False
    define m1 where "m1 = (if c_lastEligible c
      then m\<lparr>m_events := m_events m + 1, m_misses := (if \<not> c_lastAwake c then m_misses m + 1 else m_misses m)\<rparr> else m)"
    have "bounds m1 = bounds m" by (simp add: m1_def bounds_def)
    then have "bound_cache_ok fp cfg m1" using bm bound_cache_bounds by blast
    moreover have "bind_res (model_observe fp m1 p t (c_cfg c) (c_wakeScale c)) (\<lambda>(m, ch).
        Inr (invalidateSchedule (if ch then beginNewEpoch fp (set_model i m c) t True else set_model i m c))) = Inr c'"
      using o unfolding observe_candidate_def m1_def Let_def by (simp only: m option.case if_not_P [OF False])
    then obtain m2 ch where m2: "model_observe fp m1 p t (c_cfg c) (c_wakeScale c) = Inr (m2, ch)"
      and c': "c' = invalidateSchedule (if ch then beginNewEpoch fp (set_model i m2 c) t True else set_model i m2 c)"
      unfolding bind_res_eq_Inr by (metis (no_types, lifting) case_prod_conv prod.collapse sum.inject(2))
    ultimately have "bound_cache_ok fp cfg m2" using model_observe_bounds [OF m2] bound_cache_bounds by blast
    then have s: "\<forall>m \<in> snd ` set (c_senders (set_model i m2 c)). bound_cache_ok fp cfg m" using all by (rule set_model_bounds [rotated])
    then have "\<forall>m \<in> snd ` set (c_senders (beginNewEpoch fp (set_model i m2 c) t True)). bound_cache_ok fp cfg m"
      using beginNewEpoch_inv [OF s] by (simp add: cand_inv_def caches_ok_def)
    then show ?thesis unfolding c' using s by (cases ch) (simp_all only: if_True if_False invalidateSchedule_caches)
  qed
qed

section \<open>The scheduler as a state machine\<close>

definition sched_inv :: "fplib \<Rightarrow> Scheduler \<Rightarrow> bool" where
  "sched_inv fp s \<longleftrightarrow> good_contract (s_cfg s) \<and> (\<forall>c \<in> set (s_candidates s). cand_inv fp (s_cfg s) c) \<and>
     (\<forall>i. s_selected s = Some i \<longrightarrow> i < length (s_candidates s))"

inductive sched_step :: "fplib \<Rightarrow> Scheduler \<Rightarrow> Scheduler \<Rightarrow> bool" for fp where
  advance: "Advance fp s start stop = Inr (s', d) \<Longrightarrow> sched_step fp s s'"
| observe: "sched_observe fp s i protocol t escape = Inr s' \<Longrightarrow> sched_step fp s s'"
| resume: "sched_step fp s (PrepareResume s)"

inductive_cases sched_stepE: "sched_step fp s s'"

lemma best_candidate_qualified:
  "best_candidate k best cs = Some i \<Longrightarrow> (\<forall>j b. best = Some (j, b) \<longrightarrow> P j) \<Longrightarrow>
   (\<forall>j < length cs. c_qualified (cs ! j) \<longrightarrow> P (k + j)) \<Longrightarrow> P i"
proof (induction cs arbitrary: k best)
  case (Cons c cs)
  have tail: "\<forall>j < length cs. c_qualified (cs ! j) \<longrightarrow> P (k + 1 + j)" using Cons.prems(3) by force
  have "c_qualified c \<Longrightarrow> P k" using Cons.prems(3) by force
  then show ?case using Cons.IH [OF Cons.prems(1) [simplified]] Cons.prems(2) tail
    by (auto split: if_splits option.splits)
qed auto

lemma chooseCandidate_selected:
  assumes "s_selected (chooseCandidate s) = Some i"
  shows "cfg_Mode (s_cfg s) = ModeGated" "s_recoveryUntil s \<le> s_lastEnd s" "s_reanchorPending s = []" "watchdogsReady s"
    "i < length (s_candidates s)" "c_qualified (s_candidates s ! i)"
proof -
  show "cfg_Mode (s_cfg s) = ModeGated" "s_recoveryUntil s \<le> s_lastEnd s" "s_reanchorPending s = []" "watchdogsReady s"
    using assms by (auto simp: chooseCandidate_def split: if_splits)
  have b: "best_candidate 0 None (s_candidates s) = Some i" using assms by (auto simp: chooseCandidate_def split: if_splits)
  show "i < length (s_candidates s)" "c_qualified (s_candidates s ! i)"
    using best_candidate_qualified [OF b, of "\<lambda>i. i < length (s_candidates s)"]
      best_candidate_qualified [OF b, of "\<lambda>i. c_qualified (s_candidates s ! i)"] by auto
qed

lemma recover_cands:
  "\<forall>c \<in> set (s_candidates s). caches_ok fp (s_cfg s) c \<Longrightarrow>
   \<forall>c \<in> set (s_candidates (recoverAtLeast fp s k now)). caches_ok fp (s_cfg s) c"
proof
  fix c' assume c: "\<forall>c \<in> set (s_candidates s). caches_ok fp (s_cfg s) c" and "c' \<in> set (s_candidates (recoverAtLeast fp s k now))"
  then obtain c where "c \<in> set (s_candidates s)" and
    c': "c' = (if fle k (steadySleep c)
       then (beginNewEpoch fp (c\<lparr>c_invalid := True\<rparr>) now True)\<lparr>c_recoveryUntil := i64 (now + RecoveryDuration (s_cfg s))\<rparr> else c)"
    unfolding recoverAtLeast_def by auto
  then have "caches_ok fp (s_cfg s) c" using c by blast
  moreover from this have "cand_inv fp (s_cfg s) (beginNewEpoch fp (c\<lparr>c_invalid := True\<rparr>) now True)"
    by (intro beginNewEpoch_inv) (simp add: caches_ok_def)
  ultimately show "caches_ok fp (s_cfg s) c'" unfolding c' by (simp add: cand_inv_def caches_ok_def)
qed

lemma recover_inv_all:
  assumes "sched_inv fp s"
  shows "sched_inv fp (enterRecovery (recoverAtLeast fp s k now) later)"
proof -
  have "\<forall>c \<in> set (s_candidates (recoverAtLeast fp s k now)). cand_inv fp (s_cfg s) c"
    using assms recover_inv by (auto simp: sched_inv_def recoverAtLeast_def)
  then show ?thesis using assms by (simp add: sched_inv_def sched_keeps)
qed

lemma same_plan_inv: "same_plan s s' \<Longrightarrow> sched_inv fp s \<Longrightarrow> sched_inv fp s'"
  by (simp add: same_plan_def sched_inv_def)

lemma checkWatchdogs_inv: "checkWatchdogs fp s now = Inr s' \<Longrightarrow> sched_inv fp s \<Longrightarrow> sched_inv fp s'"
  by (erule checkWatchdogs_cases) (auto intro: recover_inv_all same_plan_inv)

lemma chooseCandidate_inv: "sched_inv fp s \<Longrightarrow> sched_inv fp (chooseCandidate s)"
  using chooseCandidate_selected(5) [of s] by (auto simp: sched_inv_def sched_keeps)

lemma refreshQualifications_inv:
  assumes "good_contract (s_cfg s)" "\<forall>c \<in> set (s_candidates s). caches_ok fp (s_cfg s) c"
    "\<forall>i. s_selected s = Some i \<longrightarrow> i < length (s_candidates s)"
  shows "sched_inv fp (refreshQualifications fp s now)"
  using assms refreshCandidate_inv by (auto simp: sched_inv_def refreshQualifications_def)

lemma sched_inv_caches: "sched_inv fp s \<Longrightarrow> \<forall>c \<in> set (s_candidates s). caches_ok fp (s_cfg s) c"
  by (auto simp: sched_inv_def cand_inv_def)

lemma end_refresh_inv:
  assumes "sched_inv fp s"
  shows "sched_inv fp (end_refresh fp s start)"
proof (cases "s_refreshUntil s > 0 \<and> start \<ge> s_refreshUntil s")
  case True
  show ?thesis
  proof (cases "s_selected s")
    case None
    then show ?thesis using assms True by (simp add: end_refresh_def sched_inv_def)
  next
    case (Some i)
    then have i: "i < length (s_candidates s)" using assms by (simp add: sched_inv_def)
    then have "cand_inv fp (s_cfg s) (tightenAfterRefresh fp (s_candidates s ! i) start)"
      using assms by (intro tighten_inv) (simp add: sched_inv_def)
    then have "\<forall>c \<in> set ((s_candidates s)[i := tightenAfterRefresh fp (s_candidates s ! i) start]). cand_inv fp (s_cfg s) c"
      using assms set_update_subset_insert [of "s_candidates s" i] by (fastforce simp: sched_inv_def)
    then show ?thesis using assms True Some by (simp add: end_refresh_def sched_inv_def update_candidate_def Let_def)
  qed
next
  case False
  then show ?thesis using assms unfolding end_refresh_def by (simp only: if_False)
qed

lemma score_all_inv:
  assumes "sched_inv fp s"
  shows "sched_inv fp (fst (score_all s start stop))"
proof -
  have "\<forall>c \<in> set (map fst (map (score_candidate start stop) (s_candidates s))). cand_inv fp (s_cfg s) c"
    using assms score_candidate_inv by (auto simp: sched_inv_def)
  then show ?thesis using assms by (simp add: score_all_def sched_inv_def Let_def)
qed

lemma keeps_score_all [sched_keeps]:
  "s_cfg (fst (score_all s start stop)) = s_cfg s" "s_lastEnd (fst (score_all s start stop)) = s_lastEnd s"
  "s_recoveryUntil (fst (score_all s start stop)) = s_recoveryUntil s"
  "s_reanchorPending (fst (score_all s start stop)) = s_reanchorPending s"
  by (simp_all add: score_all_def Let_def)

text \<open>A contiguous call ends in a choice made on the refreshed state and a decision about it.\<close>

lemma Advance_cases:
  assumes "Advance fp s start stop = Inr (s', d)" "sched_inv fp s"
  obtains (discontinuous) s0 where "discontinuity s start stop" "dec_Decode d" "s_cfg s0 = s_cfg s" "s_recoveryUntil s0 = s_recoveryUntil s"
      "s' = (enterRecovery (resetLearning s0) (if stop > start \<and> stop \<ge> 0 then stop else s_lastEnd s))\<lparr>s_lastDecision := d\<rparr>"
      "s_lastEnd s0 = (if stop > start \<and> stop \<ge> 0 then stop else s_lastEnd s)" "s_candidates s0 = s_candidates s"
    | (contiguous) s4 where "\<not> discontinuity s start stop" "sched_inv fp s4" "s_cfg s4 = s_cfg s" "s_lastEnd s4 = stop"
      "s_recoveryUntil s \<le> s_recoveryUntil s4" "(s', d) = decide_block fp (chooseCandidate s4) stop"
proof (cases "discontinuity s start stop")
  case True
  define s0 where "s0 = (if stop > start \<and> stop \<ge> 0 then s\<lparr>s_lastEnd := stop\<rparr> else s)\<lparr>s_started := True\<rparr>"
  have "s' = (enterRecovery (resetLearning s0) (if stop > start \<and> stop \<ge> 0 then stop else s_lastEnd s))\<lparr>s_lastDecision := d\<rparr>" "dec_Decode d"
    using assms(1) True unfolding Advance_def Let_def s0_def by (auto simp: decision_def split: if_splits)
  then show thesis using True by (intro discontinuous [of s0]) (simp_all add: s0_def)
next
  case False
  define s1 where "s1 = end_refresh fp (s\<lparr>s_started := True, s_lastEnd := stop\<rparr>) start"
  have "sched_inv fp (s\<lparr>s_started := True, s_lastEnd := stop\<rparr>)" using assms(2) by (simp add: sched_inv_def)
  then have i1: "sched_inv fp s1" by (simp add: s1_def end_refresh_inv)
  obtain s2 q where 2: "score_all s1 start stop = (s2, q)" by (cases "score_all s1 start stop")
  have k1: "s_cfg s1 = s_cfg s" "s_lastEnd s1 = stop" "s_recoveryUntil s1 = s_recoveryUntil s" by (simp_all add: s1_def sched_keeps)
  have i2: "sched_inv fp s2" and k2: "s_cfg s2 = s_cfg s" "s_lastEnd s2 = stop" "s_recoveryUntil s2 = s_recoveryUntil s"
    using score_all_inv [OF i1, of start stop] keeps_score_all [of s1 start stop] k1 by (simp_all add: 2)
  obtain s3 where 3: "(if s_watchdogDirty s2 \<or> (s_nextWatchdogCheck s2 > 0 \<and> stop \<ge> s_nextWatchdogCheck s2) then checkWatchdogs fp s2 stop else Inr s2) = Inr s3"
    and d: "(s', d) = decide_block fp (chooseCandidate (if s_forceFull s3 \<or> q \<or> qualificationDue s3 stop then refreshQualifications fp s3 stop else s3)) stop"
    using assms(1) False unfolding Advance_def by (auto simp: Let_def s1_def [symmetric] 2 bind_res_eq_Inr)
  have i3: "sched_inv fp s3" and k3: "s_cfg s3 = s_cfg s" "s_lastEnd s3 = stop" "s_recoveryUntil s \<le> s_recoveryUntil s3"
    using 3 i2 k2 checkWatchdogs_inv [of fp s2 stop s3] checkWatchdogs_keeps [of fp s2 stop s3] by (auto split: if_splits)
  have "sched_inv fp (refreshQualifications fp s3 stop)"
    using i3 by (intro refreshQualifications_inv) (auto simp: sched_inv_def cand_inv_def)
  then show thesis using False d i3 k3 contiguous [of "refreshQualifications fp s3 stop"] contiguous [of s3]
    by (simp add: sched_keeps split: if_splits)
qed

text \<open>An arrival is ignored, sends the scheduler into recovery, or is accepted; an accepted escape
  sends it into recovery too.\<close>

definition accepts :: "Scheduler \<Rightarrow> u64 \<Rightarrow> string \<Rightarrow> int \<Rightarrow> bool" where
  "accepts s i protocol t \<longleftrightarrow> (\<exists>k. find_index (\<lambda>r. ID (r_cfg r) = i) (s_senders s) = Some k \<and>
     \<not> (t < 0 \<or> (r_seen (s_senders s ! k) \<and> t \<le> r_lastSeen (s_senders s ! k))) \<and>
     \<not> (r_protocol (s_senders s ! k) \<noteq> [] \<and> r_protocol (s_senders s ! k) \<noteq> protocol))"

lemma keeps_count_protocol [sched_keeps]:
  "s_cfg (count_protocol p s) = s_cfg s" "s_candidates (count_protocol p s) = s_candidates s"
  "s_lastEnd (count_protocol p s) = s_lastEnd s" "s_recoveryUntil (count_protocol p s) = s_recoveryUntil s"
  "s_reanchorPending (count_protocol p s) = s_reanchorPending s" "s_selected (count_protocol p s) = s_selected s"
  "s_senders (count_protocol p s) = s_senders s"
  by (simp_all add: count_protocol_def)

lemma observe_cases:
  assumes "sched_observe fp s i protocol t forced = Inr s'"
  obtains (ignored) "\<not> accepts s i protocol t" "s' = s" | (conflict) "\<not> accepts s i protocol t" "s' = enterRecovery s (s_lastEnd s)"
    | (accepted) s2 cs pending where "accepts s i protocol t" "mapM_res (observe_candidate fp i protocol t pending) (s_candidates s) = Inr cs"
      "s_candidates s2 = cs" "s_cfg s2 = s_cfg s" "s_lastEnd s2 = s_lastEnd s" "s_recoveryUntil s2 = s_recoveryUntil s"
      "s_selected s2 = s_selected s" "s' = chooseCandidate (refreshQualifications fp (escape_recovery fp forced t s2) t)"
proof (cases "find_index (\<lambda>r. ID (r_cfg r) = i) (s_senders s)")
  case None
  then show thesis using assms by (intro ignored) (simp_all add: sched_observe_def accepts_def)
next
  case (Some k)
  let ?r = "s_senders s ! k"
  consider (old) "t < 0 \<or> (r_seen ?r \<and> t \<le> r_lastSeen ?r)"
    | (proto) "\<not> (t < 0 \<or> (r_seen ?r \<and> t \<le> r_lastSeen ?r))" "r_protocol ?r \<noteq> [] \<and> r_protocol ?r \<noteq> protocol"
    | (ok) "\<not> (t < 0 \<or> (r_seen ?r \<and> t \<le> r_lastSeen ?r))" "\<not> (r_protocol ?r \<noteq> [] \<and> r_protocol ?r \<noteq> protocol)" by blast
  then show thesis
  proof cases
    case old
    then have "s' = (if r_seen ?r \<and> t < r_lastSeen ?r then enterRecovery s (s_lastEnd s) else s)"
      using assms by (simp add: sched_observe_def Some Let_def split: if_splits)
    moreover have "\<not> accepts s i protocol t" using old Some by (auto simp: accepts_def)
    ultimately show thesis using conflict ignored by (cases "r_seen ?r \<and> t < r_lastSeen ?r") simp_all
  next
    case proto
    then have "s' = enterRecovery s (s_lastEnd s)"
      using assms by (auto simp: sched_observe_def Some Let_def split: if_splits)
    moreover have "\<not> accepts s i protocol t" using proto Some by (auto simp: accepts_def)
    ultimately show thesis using conflict by blast
  next
    case ok
    define pending where "pending = (i \<in> set (s_reanchorPending s))"
    have acc: "accepts s i protocol t" using ok Some by (auto simp: accepts_def)
    have "accept_arrival fp s k i protocol t forced = Inr s'" using assms ok by (auto simp: sched_observe_def Some Let_def split: if_splits)
    define s1 where "s1 r = count_protocol protocol (s\<lparr>s_senders := (s_senders s)[k := r]\<rparr>)" for r
    have c1: "s_candidates (s1 r) = s_candidates s" for r by (simp add: s1_def sched_keeps)
    from \<open>accept_arrival fp s k i protocol t forced = Inr s'\<close>
    obtain r cs where cs: "mapM_res (observe_candidate fp i protocol t pending) (s_candidates s) = Inr cs"
      and s': "s' = chooseCandidate (refreshQualifications fp (escape_recovery fp forced t
        (s1 r\<lparr>s_candidates := cs, s_watchdogDirty := True,
          s_reanchorPending := (if pending then filter (\<lambda>j. j \<noteq> i) (s_reanchorPending (s1 r)) else s_reanchorPending (s1 r))\<rparr>)) t)"
      unfolding accept_arrival_def Let_def pending_def [symmetric] bind_res_eq_Inr s1_def [symmetric] by (auto simp: c1)
    show thesis by (rule accepted [OF acc cs _ _ _ _ _ s']) (simp_all add: s1_def sched_keeps)
  qed
qed

lemma escape_recovery_inv:
  assumes "\<forall>c \<in> set (s_candidates s). caches_ok fp (s_cfg s) c" "\<forall>i. s_selected s = Some i \<longrightarrow> i < length (s_candidates s)"
  shows "\<forall>c \<in> set (s_candidates (escape_recovery fp forced t s)). caches_ok fp (s_cfg s) c"
    and "s_cfg (escape_recovery fp forced t s) = s_cfg s" and "s_recoveryUntil s \<le> s_recoveryUntil (escape_recovery fp forced t s)"
    and "\<forall>i. s_selected (escape_recovery fp forced t s) = Some i \<longrightarrow> i < length (s_candidates (escape_recovery fp forced t s))"
    and "s_lastEnd (escape_recovery fp forced t s) = s_lastEnd s"
  using assms recover_cands [OF assms(1)]
  by (auto simp: escape_recovery_def sched_keeps enterRecovery_until split: option.splits)

lemma observe_inv:
  assumes "sched_observe fp s i protocol t forced = Inr s'" "sched_inv fp s"
  shows "sched_inv fp s' \<and> s_recoveryUntil s \<le> s_recoveryUntil s'"
  using assms(1)
proof (cases rule: observe_cases)
  case ignored
  then show ?thesis using assms by simp
next
  case conflict
  then show ?thesis using assms by (simp add: sched_inv_def sched_keeps enterRecovery_until)
next
  case (accepted s2 cs pending)
  have "\<exists>ys. mapM_res (observe_candidate fp i protocol t pending) (s_candidates s) = Inr ys \<and>
      list_all2 (\<lambda>c c'. caches_ok fp (s_cfg s) c') (s_candidates s) ys"
  proof -
    have "mapM_res f xs = Inr ys \<Longrightarrow> list_all2 (\<lambda>x y. f x = Inr y) xs ys" for f :: "candidate \<Rightarrow> candidate res" and xs ys
      by (induction xs arbitrary: ys) (auto simp: bind_res_eq_Inr)
    then have "list_all2 (\<lambda>c c'. observe_candidate fp i protocol t pending c = Inr c') (s_candidates s) cs" using accepted(2) by blast
    then have "list_all2 (\<lambda>c c'. caches_ok fp (s_cfg s) c') (s_candidates s) cs"
      using sched_inv_caches [OF assms(2)] observe_candidate_caches unfolding list_all2_conv_all_nth by (metis nth_mem)
    then show ?thesis using accepted(2) by blast
  qed
  then have len: "length cs = length (s_candidates s)" and ok: "\<forall>c \<in> set cs. caches_ok fp (s_cfg s) c"
    using accepted(2) by (auto simp: list_all2_conv_all_nth in_set_conv_nth)
  have pre: "\<forall>c \<in> set (s_candidates s2). caches_ok fp (s_cfg s2) c" "\<forall>i. s_selected s2 = Some i \<longrightarrow> i < length (s_candidates s2)"
    using accepted ok len assms(2) by (simp_all add: sched_inv_def)
  note er = escape_recovery_inv [OF pre, of forced t]
  have "sched_inv fp (refreshQualifications fp (escape_recovery fp forced t s2) t)"
    using er accepted(4) assms(2) by (intro refreshQualifications_inv) (simp_all add: sched_inv_def)
  then show ?thesis using accepted er by (simp add: chooseCandidate_inv sched_keeps)
qed

lemma Advance_inv:
  assumes "Advance fp s start stop = Inr (s', d)" "sched_inv fp s"
  shows "sched_inv fp s' \<and> s_recoveryUntil s \<le> s_recoveryUntil s'"
  using assms
proof (cases rule: Advance_cases)
  case (discontinuous s0)
  have "\<forall>c \<in> set (s_candidates (resetLearning s0)). cand_inv fp (s_cfg s) c"
    using reset_candidate_inv by (auto simp: resetLearning_def)
  then show ?thesis using discontinuous assms(2) by (simp add: sched_inv_def sched_keeps enterRecovery_until)
next
  case (contiguous s4)
  have s': "s' = fst (decide_block fp (chooseCandidate s4) stop)" using contiguous(6) by (metis fst_conv)
  have "sched_inv fp (chooseCandidate s4)" using contiguous(2) by (rule chooseCandidate_inv)
  then have "sched_inv fp s'" unfolding s' by (simp add: sched_inv_def sched_keeps)
  then show ?thesis using contiguous(5) by (simp add: s' sched_keeps)
qed

interpretation sched: clocked_machine "sched_step fp" "sched_inv fp" s_recoveryUntil
proof
  fix s s' assume inv: "sched_inv fp s" and "sched_step fp s s'"
  from this(2) have "sched_inv fp s' \<and> s_recoveryUntil s \<le> s_recoveryUntil s'"
  proof cases
    case resume
    then show ?thesis using inv by (simp add: PrepareResume_def sched_inv_def sched_keeps)
  qed (use inv Advance_inv observe_inv in blast)+
  then show "sched_inv fp s'" "s_recoveryUntil s \<le> s_recoveryUntil s'" by auto
qed

text \<open>A fresh scheduler.\<close>

lemma fold_addCandidate:
  "fold_res (addCandidate cfg) cs0 ccs = Inr cs \<Longrightarrow> \<exists>ccs'. cs = cs0 @ map (new_candidate cfg) ccs'"
proof (induction ccs arbitrary: cs0)
  case (Cons cc ccs)
  then have "fold_res (addCandidate cfg) (cs0 @ [new_candidate cfg cc]) ccs = Inr cs"
    by (auto simp: addCandidate_def [of cfg cs0 cc] bind_res_eq_Inr)
  from Cons.IH [OF this] obtain ccs' where "cs = (cs0 @ [new_candidate cfg cc]) @ map (new_candidate cfg) ccs'" by blast
  then have "cs = cs0 @ map (new_candidate cfg) (cc # ccs')" by simp
  then show ?case by blast
qed simp

lemma New_inv:
  assumes "New cfg = Inr s" "f64_ok (CaptureTarget cfg)"
  shows "sched_inv fp s"
proof -
  have n: "s_cfg s = normalizeConfig cfg" "validateConfig (normalizeConfig cfg) = Inr ()" "s_selected s = None"
    and cs: "fold_res (addCandidate (normalizeConfig cfg)) [] (Candidates (normalizeConfig cfg)) = Inr (s_candidates s)"
    using assms(1) by (auto simp: New_def Let_def bind_res_eq_Inr)
  obtain ccs where "s_candidates s = map (new_candidate (normalizeConfig cfg)) ccs" using fold_addCandidate [OF cs] by auto
  then have "\<forall>c \<in> set (s_candidates s). cand_inv fp (s_cfg s) c"
    by (auto simp: new_candidate_def cand_inv_def caches_ok_def bound_cache_ok_def zero_model_def)
  moreover have "CaptureTarget (normalizeConfig cfg) = CaptureTarget cfg" by (simp add: normalizeConfig_def Let_def)
  ultimately show ?thesis using n assms(2) by (simp add: sched_inv_def good_contract_def)
qed

section \<open>When a block is suppressed\<close>

lemma decide_suppress:
  assumes "\<not> dec_Decode (snd (decide_block fp s stop))"
  shows "\<exists>c. selectedCandidate s = Some c \<and> c_lastEligible c \<and> \<not> c_lastAwake c \<and> s_recoveryUntil s \<le> stop \<and>
    s_refreshUntil (fst (decide_block fp s stop)) \<le> stop"
  using assms
  by (auto simp: decide_block_def Let_def decision_def randomUnit_def sched_keeps split: option.splits if_splits)

definition suppression_justified :: "fplib \<Rightarrow> Scheduler \<Rightarrow> int \<Rightarrow> bool" where
  "suppression_justified fp s stop \<longleftrightarrow>
     cfg_Mode (s_cfg s) = ModeGated \<and> s_recoveryUntil s \<le> stop \<and> s_refreshUntil s \<le> stop \<and> s_reanchorPending s = [] \<and> watchdogsReady s \<and>
     (\<exists>i c. s_selected s = Some i \<and> i < length (s_candidates s) \<and> c = s_candidates s ! i \<and>
        c_lastEligible c \<and> \<not> c_lastAwake c \<and> \<not> c_invalid c \<and>
        (\<forall>m \<in> snd ` set (c_senders c). contract_met fp (s_cfg s) (CaptureTarget (s_cfg s)) m))"

lemma suppression_is_justified:
  assumes "sched_inv fp s" "Advance fp s start stop = Inr (s', d)" "\<not> dec_Decode d"
  shows "\<not> discontinuity s start stop \<and> suppression_justified fp s' stop"
  using assms(2,1)
proof (cases rule: Advance_cases)
  case (contiguous s4)
  let ?s = "chooseCandidate s4"
  have d: "d = snd (decide_block fp ?s stop)" and s': "s' = fst (decide_block fp ?s stop)" 
    by (simp_all flip: contiguous(6))
  obtain c where c: "selectedCandidate ?s = Some c" "c_lastEligible c" "\<not> c_lastAwake c" "s_recoveryUntil ?s \<le> stop" "s_refreshUntil s' \<le> stop"
    using decide_suppress [of fp ?s stop] assms(3) unfolding d s' by blast
  then obtain i where i: "s_selected ?s = Some i" "c = s_candidates s4 ! i" by (auto simp: selectedCandidate_def sched_keeps)
  note ch = chooseCandidate_selected [OF i(1)]
  have "cand_inv fp (s_cfg s4) c" using contiguous(2) i ch(5) by (simp add: sched_inv_def)
  then have "evidence_ok fp (s_cfg s4) (CaptureTarget (s_cfg s4)) c" using ch(6) i by (simp add: cand_inv_def)
  moreover have "watchdogsReady s'" using ch(4) watchdogsReady_cong [of s' s4] by (simp add: s' sched_keeps)
  ultimately have "suppression_justified fp s' stop" using c i ch unfolding suppression_justified_def evidence_ok_def
    by (simp add: s' sched_keeps)
  then show ?thesis using contiguous(1) by blast
qed (use assms(3) in simp)

text \<open>Recovery: once the recovery time is set, no run of the scheduler suppresses a block that ends
  before it.\<close>

lemma recovery_holds:
  assumes "sched_inv fp s" "(sched_step fp)\<^sup>*\<^sup>* s s1" "Advance fp s1 start stop = Inr (s2, d)" "stop < s_recoveryUntil s"
  shows "dec_Decode d"
proof (rule ccontr)
  assume "\<not> dec_Decode d"
  then have "s_recoveryUntil s2 \<le> stop"
    using suppression_is_justified [OF sched.run_inv [OF assms(2,1)] assms(3)] by (simp add: suppression_justified_def)
  moreover have "s_recoveryUntil s \<le> s_recoveryUntil s1" by (rule sched.run_clock [OF assms(2,1)])
  moreover have "s_recoveryUntil s1 \<le> s_recoveryUntil s2" using Advance_inv [OF assms(3) sched.run_inv [OF assms(2,1)]] by simp
  ultimately show False using assms(4) by linarith
qed

lemma escape_recovers:
  assumes "sched_inv fp s" "sched_observe fp s i protocol t True = Inr s'" "accepts s i protocol t"
    "cfg_Mode (s_cfg s) = ModeGated" "s_selected s \<noteq> None"
  shows "i64 (s_lastEnd s + RecoveryDuration (s_cfg s)) \<le> s_recoveryUntil s'"
  using assms(2)
proof (cases rule: observe_cases)
  case (accepted s2 cs pending)
  then obtain c where "selectedCandidate s2 = Some c" using assms(5) by (auto simp: selectedCandidate_def)
  then have "i64 (s_lastEnd s + RecoveryDuration (s_cfg s)) \<le> s_recoveryUntil (escape_recovery fp True t s2)"
    using accepted(4,5) assms(4) by (simp add: escape_recovery_def sched_keeps enterRecovery_until)
  then show ?thesis using accepted(8) by (simp add: sched_keeps)
qed (use assms(3) in simp_all)

lemma discontinuity_recovers:
  assumes "sched_inv fp s" "Advance fp s start stop = Inr (s', d)" "discontinuity s start stop"
  shows "i64 ((if start < stop \<and> 0 \<le> stop then stop else s_lastEnd s) + RecoveryDuration (s_cfg s)) \<le> s_recoveryUntil s'"
  using assms(2,1)
proof (cases rule: Advance_cases)
  case (discontinuous s0)
  then show ?thesis by (simp add: sched_keeps enterRecovery_until)
qed (use assms(3) in simp)

end
