(* ===== verification/SchedState.thy ===== *)
theory SchedState
  imports SchedSafety
begin

text \<open>
  Checkpoints of the duty scheduler (\<^verbatim>\<open>src/internal/dutyscheduler/state.go\<close>) and its
  snapshots: exporting the state, validating and applying a state that was read back, the three ways
  of restoring one and the import of an old report. The fingerprint of a configuration (its JSON
  text hashed with SHA-256) is a parameter.
\<close>

section \<open>The exported state\<close>

record SenderState =
  ss_ID :: u64
  ss_Protocol :: string
  ss_LastSeenNS :: int
  ss_Seen :: bool
  ss_ObservationsNS :: "int list"
  ss_Total :: nat
  ss_OverdueOpen :: bool
  ss_CountOpen :: bool
  ss_DeadlineDeficits :: nat
  ss_CountDeficits :: nat
  ss_GapsNS :: "int list"
  ss_LearnedOverdueNS :: int
  ss_LearnedMinimumCount :: int
  ss_WatchdogLearned :: bool
  ss_ObligationDueNS :: int
  ss_ObligationOpen :: bool
  ss_ObligationsOpened :: nat
  ss_ObligationsClosed :: nat
  ss_ObligationDeficits :: nat

record ProtocolState =
  ps_Name :: string
  ps_Observations :: nat
  ps_DeadlineDeficits :: nat
  ps_CountDeficits :: nat
  ps_ObligationDeficits :: nat

record SenderModelState =
  ms_ID :: u64
  ms_Protocol :: string
  ms_HistoryNS :: "int list"
  ms_LastNS :: int
  ms_Seen :: bool
  ms_Learned :: bool
  ms_PeriodNS :: int
  ms_AnchorNS :: int
  ms_PreWakeNS :: int
  ms_PostWakeNS :: int
  ms_Events :: nat
  ms_Misses :: nat
  ms_EffectiveHistory :: int
  ms_StableIntervals :: int
  ms_ChangePoints :: nat

record CandidateState =
  cs_Name :: string
  cs_LastEligible :: bool
  cs_LastAwake :: bool
  cs_TotalDurationNS :: int
  cs_TotalAwakeNS :: int
  cs_EligibleDurationNS :: int
  cs_AwakeDurationNS :: int
  cs_Invalid :: bool
  cs_Qualified :: bool
  cs_Epoch :: nat
  cs_WakeScale :: f64
  cs_PromotionReadyNS :: int
  cs_RecoveryUntilNS :: int
  cs_Senders :: "SenderModelState list"

record State =
  st_Schema :: string
  st_ConfigSHA256 :: string
  st_LastEndNS :: int
  st_Started :: bool
  st_RecoveryUntilNS :: int
  st_DeadlineDeficits :: nat
  st_CountDeficits :: nat
  st_Discontinuities :: nat
  st_RefreshUntilNS :: int
  st_NextRefreshNS :: int
  st_Refreshes :: nat
  st_RNG :: u64
  st_Senders :: "SenderState list"
  st_Candidates :: "CandidateState list"
  st_Protocols :: "ProtocolState list"

definition StateSchema :: string where "StateSchema = ''rtlamr-duty-scheduler-state-v2''"

definition export_sender :: "senderRuntime \<Rightarrow> SenderState" where
  "export_sender r =
     \<lparr>ss_ID = ID (r_cfg r), ss_Protocol = r_protocol r, ss_LastSeenNS = r_lastSeen r, ss_Seen = r_seen r,
      ss_ObservationsNS = r_observations r, ss_Total = r_total r, ss_OverdueOpen = r_overdueOpen r,
      ss_CountOpen = r_countOpen r, ss_DeadlineDeficits = r_deadlineDeficits r, ss_CountDeficits = r_countDeficits r,
      ss_GapsNS = r_gaps r, ss_LearnedOverdueNS = r_learnedOverdue r, ss_LearnedMinimumCount = r_learnedMinimumCount r,
      ss_WatchdogLearned = r_watchdogLearned r, ss_ObligationDueNS = r_obligationDue r,
      ss_ObligationOpen = r_obligationOpen r, ss_ObligationsOpened = r_obligationsOpened r,
      ss_ObligationsClosed = r_obligationsClosed r, ss_ObligationDeficits = r_obligationDeficits r\<rparr>"

definition export_model :: "u64 \<times> senderModel \<Rightarrow> SenderModelState" where
  "export_model im = (let (i, m) = im in
     \<lparr>ms_ID = i, ms_Protocol = m_protocol m, ms_HistoryNS = m_history m, ms_LastNS = m_last m, ms_Seen = m_seen m,
      ms_Learned = m_learned m, ms_PeriodNS = m_period m, ms_AnchorNS = m_anchor m, ms_PreWakeNS = m_preWake m,
      ms_PostWakeNS = m_postWake m, ms_Events = m_events m, ms_Misses = m_misses m,
      ms_EffectiveHistory = m_effectiveHistory m, ms_StableIntervals = m_stableIntervals m, ms_ChangePoints = m_changePoints m\<rparr>)"

definition export_candidate :: "candidate \<Rightarrow> CandidateState" where
  "export_candidate c =
     \<lparr>cs_Name = Name (c_cfg c), cs_LastEligible = c_lastEligible c, cs_LastAwake = c_lastAwake c,
      cs_TotalDurationNS = c_totalDuration c, cs_TotalAwakeNS = c_totalAwake c, cs_EligibleDurationNS = c_eligibleDuration c,
      cs_AwakeDurationNS = c_awakeDuration c, cs_Invalid = c_invalid c, cs_Qualified = c_qualified c, cs_Epoch = c_epoch c,
      cs_WakeScale = c_wakeScale c, cs_PromotionReadyNS = c_promotionReady c, cs_RecoveryUntilNS = c_recoveryUntil c,
      cs_Senders = map export_model (sort_key fst (c_senders c))\<rparr>"

definition export_protocol :: "string \<times> protocolRuntime \<Rightarrow> ProtocolState" where
  "export_protocol np = (let (n, p) = np in
     \<lparr>ps_Name = n, ps_Observations = p_observations p, ps_DeadlineDeficits = p_deadlineDeficits p,
      ps_CountDeficits = p_countDeficits p, ps_ObligationDeficits = p_obligationDeficits p\<rparr>)"

definition ExportState :: "(Config \<Rightarrow> string res) \<Rightarrow> Scheduler \<Rightarrow> State res" where
  "ExportState configSHA256 s =
     bind_res (configSHA256 (s_cfg s)) (\<lambda>fingerprint.
     Inr \<lparr>st_Schema = StateSchema, st_ConfigSHA256 = fingerprint, st_LastEndNS = s_lastEnd s, st_Started = s_started s,
          st_RecoveryUntilNS = s_recoveryUntil s, st_DeadlineDeficits = s_deadlineDeficits s,
          st_CountDeficits = s_countDeficits s, st_Discontinuities = s_discontinuities s,
          st_RefreshUntilNS = s_refreshUntil s, st_NextRefreshNS = s_nextRefresh s, st_Refreshes = s_refreshes s,
          st_RNG = s_rng s, st_Senders = map export_sender (sort_key (ID \<circ> r_cfg) (s_senders s)),
          st_Candidates = map export_candidate (s_candidates s),
          st_Protocols = map export_protocol (sort_key fst (s_protocols s))\<rparr>)"

section \<open>Validating and applying a state\<close>

definition validDurations :: "int \<Rightarrow> int \<Rightarrow> int \<Rightarrow> int \<Rightarrow> bool" where
  "validDurations duration awake eligible eligibleAwake \<longleftrightarrow>
     duration \<ge> 0 \<and> awake \<ge> 0 \<and> eligible \<ge> 0 \<and> eligibleAwake \<ge> 0 \<and> awake \<le> duration \<and> eligible \<le> duration \<and> eligibleAwake \<le> eligible"

definition validateModelState :: "SenderModelState \<Rightarrow> CandidateConfig \<Rightarrow> int \<Rightarrow> unit res" where
  "validateModelState m cfg lastEnd =
     (if ms_LastNS m < 0 \<or> ms_PeriodNS m < 0 \<or> ms_AnchorNS m < 0 \<or> ms_PreWakeNS m < 0 \<or> ms_PostWakeNS m < 0 \<or>
         ms_Misses m > ms_Events m \<or> ms_EffectiveHistory m < 0 \<or> ms_EffectiveHistory m > int (length (ms_HistoryNS m)) \<or>
         ms_StableIntervals m < 0
      then Inl (Err ''dutyscheduler: invalid sender model'')
      else if int (length (ms_HistoryNS m)) > HistoryLimit cfg \<or>
         (\<not> ms_Seen m \<and> (ms_LastNS m \<noteq> 0 \<or> ms_Protocol m \<noteq> [] \<or> ms_Learned m)) \<or> ms_LastNS m > lastEnd
      then Inl (Err ''dutyscheduler: invalid sender model history'')
      else if list_ex (\<lambda>x. x \<le> 0) (ms_HistoryNS m) then Inl (Err ''dutyscheduler: invalid sender model interval'')
      else if ms_Learned m \<and> (\<not> ms_Seen m \<or> ms_PeriodNS m \<le> 0 \<or> int (length (ms_HistoryNS m)) < WarmupIntervals cfg)
      then Inl (Err ''dutyscheduler: invalid learned sender model'')
      else if ms_Learned m \<and> ms_EffectiveHistory m < WarmupIntervals cfg
      then Inl (Err ''dutyscheduler: invalid effective history'')
      else Inr ())"

text \<open>The observations strictly increase up to the end of the clock.\<close>

fun valid_observations :: "int \<Rightarrow> int \<Rightarrow> int list \<Rightarrow> bool" where
  "valid_observations lastEnd prev [] \<longleftrightarrow> True"
| "valid_observations lastEnd prev (t # ts) \<longleftrightarrow>
     \<not> (t < 0 \<or> t \<le> prev \<or> t > lastEnd) \<and> valid_observations lastEnd t ts"

definition restore_sender :: "SenderState \<Rightarrow> senderRuntime \<Rightarrow> senderRuntime" where
  "restore_sender x r =
     r\<lparr>r_protocol := ss_Protocol x, r_lastSeen := ss_LastSeenNS x, r_seen := ss_Seen x,
       r_observations := r_observations r @ ss_ObservationsNS x, r_total := ss_Total x, r_overdueOpen := ss_OverdueOpen x,
       r_countOpen := ss_CountOpen x, r_deadlineDeficits := ss_DeadlineDeficits x, r_countDeficits := ss_CountDeficits x,
       r_gaps := r_gaps r @ ss_GapsNS x, r_learnedOverdue := ss_LearnedOverdueNS x,
       r_learnedMinimumCount := ss_LearnedMinimumCount x, r_watchdogLearned := ss_WatchdogLearned x,
       r_obligationDue := ss_ObligationDueNS x, r_obligationOpen := ss_ObligationOpen x,
       r_obligationsOpened := ss_ObligationsOpened x, r_obligationsClosed := ss_ObligationsClosed x,
       r_obligationDeficits := ss_ObligationDeficits x\<rparr>"

definition valid_sender :: "Config \<Rightarrow> int \<Rightarrow> SenderState \<Rightarrow> senderRuntime \<Rightarrow> unit res" where
  "valid_sender cfg lastEnd x r =
     (if ss_LastSeenNS x < 0 \<or> (ss_Seen x \<and> ss_LastSeenNS x > lastEnd) \<or>
         (\<not> ss_Seen x \<and> (ss_LastSeenNS x \<noteq> 0 \<or> ss_Protocol x \<noteq> []))
      then Inl (Err ''dutyscheduler: invalid sender clock'')
      else if ss_Total x < length (ss_ObservationsNS x) then Inl (Err ''dutyscheduler: invalid sender observation total'')
      else if \<not> valid_observations lastEnd (-1) (ss_ObservationsNS x) then Inl (Err ''dutyscheduler: invalid sender observations'')
      else if ss_LearnedOverdueNS x < 0 \<or> ss_LearnedMinimumCount x < 0 \<or> ss_ObligationDueNS x < 0 \<or>
         ss_ObligationsClosed x > ss_ObligationsOpened x \<or> ss_ObligationDeficits x > ss_ObligationsOpened x
      then Inl (Err ''dutyscheduler: invalid learned sender state'')
      else if list_ex (\<lambda>g. g \<le> 0) (ss_GapsNS x) \<or>
         (ss_GapsNS x \<noteq> [] \<and> int (length (r_gaps r) + length (ss_GapsNS x)) > WatchdogHistory cfg)
      then Inl (Err ''dutyscheduler: invalid sender gap history'')
      else Inr ())"

fun apply_senders :: "Config \<Rightarrow> int \<Rightarrow> u64 list \<Rightarrow> senderRuntime list \<Rightarrow> SenderState list \<Rightarrow> senderRuntime list res" where
  "apply_senders cfg lastEnd seen rs [] = Inr rs"
| "apply_senders cfg lastEnd seen rs (x # xs) =
     (case find_index (\<lambda>r. ID (r_cfg r) = ss_ID x) rs of
        None \<Rightarrow> Inl (Err ''dutyscheduler: invalid state sender inventory'')
      | Some k \<Rightarrow>
        if ss_ID x \<in> set seen then Inl (Err ''dutyscheduler: invalid state sender inventory'')
        else bind_res (valid_sender cfg lastEnd x (rs ! k)) (\<lambda>_.
             apply_senders cfg lastEnd (ss_ID x # seen) (rs[k := restore_sender x (rs ! k)]) xs))"

fun apply_protocols :: "string list \<Rightarrow> (string \<times> protocolRuntime) list \<Rightarrow> ProtocolState list \<Rightarrow> (string \<times> protocolRuntime) list res" where
  "apply_protocols seen ps [] = Inr ps"
| "apply_protocols seen ps (x # xs) =
     (if ps_Name x = [] \<or> ps_Name x \<in> set seen then Inl (Err ''dutyscheduler: invalid protocol state'')
      else apply_protocols (ps_Name x # seen)
             (modify_protocol (ps_Name x) (\<lambda>_.
                \<lparr>p_observations = ps_Observations x, p_deadlineDeficits = ps_DeadlineDeficits x,
                 p_countDeficits = ps_CountDeficits x, p_obligationDeficits = ps_ObligationDeficits x\<rparr>)
              (ensure_protocol (ps_Name x) ps)) xs)"

definition restore_model :: "SenderModelState \<Rightarrow> senderModel \<Rightarrow> senderModel" where
  "restore_model x m =
     m\<lparr>m_protocol := ms_Protocol x, m_last := ms_LastNS x, m_seen := ms_Seen x, m_learned := ms_Learned x,
       m_period := ms_PeriodNS x, m_anchor := ms_AnchorNS x, m_preWake := ms_PreWakeNS x, m_postWake := ms_PostWakeNS x,
       m_events := ms_Events x, m_misses := ms_Misses x, m_effectiveHistory := ms_EffectiveHistory x,
       m_stableIntervals := ms_StableIntervals x, m_changePoints := ms_ChangePoints x,
       m_history := m_history m @ ms_HistoryNS x\<rparr>"

fun apply_models :: "CandidateConfig \<Rightarrow> int \<Rightarrow> u64 list \<Rightarrow> (u64 \<times> senderModel) list \<Rightarrow> SenderModelState list \<Rightarrow> (u64 \<times> senderModel) list res" where
  "apply_models cfg lastEnd seen ms [] = Inr ms"
| "apply_models cfg lastEnd seen ms (x # xs) =
     (case find_index (\<lambda>(i, m). i = ms_ID x) ms of
        None \<Rightarrow> Inl (Err ''dutyscheduler: invalid model sender inventory'')
      | Some k \<Rightarrow>
        if ms_ID x \<in> set seen then Inl (Err ''dutyscheduler: invalid model sender inventory'')
        else bind_res (validateModelState x cfg lastEnd) (\<lambda>_.
             apply_models cfg lastEnd (ms_ID x # seen) (ms[k := (fst (ms ! k), restore_model x (snd (ms ! k)))]) xs))"

definition install_candidate :: "candidate \<Rightarrow> CandidateState \<Rightarrow> (u64 \<times> senderModel) list \<Rightarrow> candidate" where
  "install_candidate c x ms =
     c\<lparr>c_lastEligible := cs_LastEligible x, c_lastAwake := cs_LastAwake x, c_totalDuration := cs_TotalDurationNS x,
       c_totalAwake := cs_TotalAwakeNS x, c_eligibleDuration := cs_EligibleDurationNS x,
       c_awakeDuration := cs_AwakeDurationNS x, c_invalid := cs_Invalid x, c_qualified := cs_Qualified x,
       c_epoch := cs_Epoch x, c_wakeScale := cs_WakeScale x, c_promotionReady := cs_PromotionReadyNS x,
       c_recoveryUntil := cs_RecoveryUntilNS x, c_senders := ms\<rparr>"

definition apply_candidate :: "int \<Rightarrow> candidate \<Rightarrow> CandidateState \<Rightarrow> candidate res" where
  "apply_candidate lastEnd c x =
     (if cs_Name x \<noteq> Name (c_cfg c) \<or> length (cs_Senders x) \<noteq> length (c_senders c)
      then Inl (Err ''dutyscheduler: invalid state candidate inventory'')
      else if \<not> validDurations (cs_TotalDurationNS x) (cs_TotalAwakeNS x) (cs_EligibleDurationNS x) (cs_AwakeDurationNS x)
      then Inl (Err ''dutyscheduler: invalid candidate durations'')
      else if cs_Epoch x = 0 \<or> \<not> finite64 (cs_WakeScale x) \<or> flt (cs_WakeScale x) (Fin 1) \<or>
         flt (MaxWakeScale (c_cfg c)) (cs_WakeScale x) \<or> cs_PromotionReadyNS x < 0 \<or> cs_RecoveryUntilNS x < 0
      then Inl (Err ''dutyscheduler: invalid adaptive candidate state'')
      else bind_res (apply_models (c_cfg c) lastEnd [] (c_senders c) (cs_Senders x)) (\<lambda>ms.
        Inr (install_candidate c x ms)))"

text \<open>Once every field has passed: the scheduler with the state installed. A gated scheduler starts in
  recovery.\<close>

definition install_state :: "fplib \<Rightarrow> Scheduler \<Rightarrow> State \<Rightarrow> senderRuntime list \<Rightarrow> (string \<times> protocolRuntime) list \<Rightarrow> candidate list \<Rightarrow> Scheduler" where
  "install_state fp s st rs ps cs =
     (let s = (stop_quiet s)\<lparr>s_senders := rs, s_protocols := ps, s_candidates := cs, s_lastEnd := st_LastEndNS st,
            s_started := st_Started st, s_recoveryUntil := st_RecoveryUntilNS st, s_deadlineDeficits := st_DeadlineDeficits st,
            s_countDeficits := st_CountDeficits st, s_discontinuities := st_Discontinuities st,
            s_refreshUntil := st_RefreshUntilNS st, s_nextRefresh := st_NextRefreshNS st, s_refreshes := st_Refreshes st,
            s_rng := st_RNG st, s_selected := None\<rparr>;
          s = (if cfg_Mode (s_cfg s) = ModeGated then enterRecovery s (s_lastEnd s) else s)
      in chooseCandidate (refreshQualifications fp s (s_lastEnd s)))"

definition applyState :: "fplib \<Rightarrow> Scheduler \<Rightarrow> State \<Rightarrow> Scheduler res" where
  "applyState fp s st =
     (if st_LastEndNS st < 0 \<or> st_RecoveryUntilNS st < 0 \<or> st_RefreshUntilNS st < 0 \<or> st_NextRefreshNS st < 0 \<or>
         (\<not> st_Started st \<and> st_LastEndNS st \<noteq> 0) \<or> st_RNG st = 0
      then Inl (Err ''dutyscheduler: invalid state clock'')
      else if length (st_Senders st) \<noteq> length (s_senders s) \<or> length (st_Candidates st) \<noteq> length (s_candidates s)
      then Inl (Err ''dutyscheduler: state inventory mismatch'')
      else
        bind_res (apply_senders (s_cfg s) (st_LastEndNS st) [] (s_senders s) (st_Senders st)) (\<lambda>rs.
        bind_res (apply_protocols [] (s_protocols s) (st_Protocols st)) (\<lambda>ps.
        bind_res (mapM_res (\<lambda>(c, x). apply_candidate (st_LastEndNS st) c x) (zip (s_candidates s) (st_Candidates st))) (\<lambda>cs.
        Inr (install_state fp s st rs ps cs)))))"

section \<open>Restoring\<close>

definition ErrStateConfigurationMismatch :: go_error where
  "ErrStateConfigurationMismatch = Err ''dutyscheduler: state configuration mismatch''"

definition ErrStateSchemaMismatch :: go_error where
  "ErrStateSchemaMismatch = Err ''dutyscheduler: state schema mismatch''"

definition restore_with :: "fplib \<Rightarrow> (Config \<Rightarrow> string res) \<Rightarrow> Config \<Rightarrow> Scheduler \<Rightarrow> State \<Rightarrow> Scheduler res" where
  "restore_with fp configSHA256 expected s st =
     bind_res (configSHA256 expected) (\<lambda>fingerprint.
     if st_ConfigSHA256 st \<noteq> fingerprint then Inl ErrStateConfigurationMismatch
     else bind_res (New (s_cfg s)) (\<lambda>restored. applyState fp restored st))"

definition RestoreState :: "fplib \<Rightarrow> (Config \<Rightarrow> string res) \<Rightarrow> Scheduler \<Rightarrow> State \<Rightarrow> Scheduler res" where
  "RestoreState fp configSHA256 s st =
     (if st_Schema st \<noteq> StateSchema then Inl ErrStateSchemaMismatch
      else restore_with fp configSHA256 (s_cfg s) s st)"

definition RestoreCaptureTargetState :: "fplib \<Rightarrow> (Config \<Rightarrow> string res) \<Rightarrow> Scheduler \<Rightarrow> State \<Rightarrow> f64 \<Rightarrow> Scheduler res" where
  "RestoreCaptureTargetState fp configSHA256 s st previousCaptureTarget =
     (if st_Schema st \<noteq> StateSchema then Inl ErrStateSchemaMismatch
      else let previous = (s_cfg s)\<lparr>CaptureTarget := previousCaptureTarget\<rparr> in
        bind_res (New previous) (\<lambda>_.
        bind_res (restore_with fp configSHA256 previous s st) (\<lambda>restored.
        let restored = (stop_quiet restored)\<lparr>s_candidates := map (\<lambda>c. c\<lparr>c_qualified := False, c_promotionReady := 0\<rparr>) (s_candidates restored),
                         s_selected := None\<rparr>
        in Inr (chooseCandidate (refreshQualifications fp restored (s_lastEnd restored))))))"

definition RestoreShadowState :: "fplib \<Rightarrow> (Config \<Rightarrow> string res) \<Rightarrow> Scheduler \<Rightarrow> State \<Rightarrow> Scheduler res" where
  "RestoreShadowState fp configSHA256 s st =
     (if cfg_Mode (s_cfg s) \<noteq> ModeGated then Inl (Err ''dutyscheduler: shadow promotion requires gated mode'')
      else if st_Schema st \<noteq> StateSchema then Inl ErrStateSchemaMismatch
      else restore_with fp configSHA256 ((s_cfg s)\<lparr>cfg_Mode := ModeShadow\<rparr>) s st)"

section \<open>Snapshots\<close>

record SenderSnapshot =
  sn_Protocol :: string
  sn_EligibleEvents :: nat
  sn_WouldMiss :: nat
  sn_RequiredEligibleEvents :: nat
  sn_RemainingEligibleEvents :: nat
  sn_UpperMissBound :: f64
  sn_PeriodNS :: int
  sn_PreWakeNS :: int
  sn_PostWakeNS :: int
  sn_EffectiveHistory :: int
  sn_ChangePoints :: nat

record CandidateSnapshot =
  cn_Name :: string
  cn_HistoryLimit :: int
  cn_Eligible :: bool
  cn_Qualified :: bool
  cn_ContractQualified :: bool
  cn_Invalid :: bool
  cn_Epoch :: nat
  cn_WakeScale :: f64
  cn_AuditFraction :: f64
  cn_PromotionReadyNS :: int
  cn_RecoveryUntilNS :: int
  cn_ProjectedSleepFraction :: f64
  cn_SteadySleepFraction :: f64
  cn_EffectiveSleepFraction :: f64
  cn_TotalDurationNS :: int
  cn_TotalAwakeDurationNS :: int
  cn_EligibleDurationNS :: int
  cn_AwakeDurationNS :: int
  cn_Senders :: "(u64 \<times> SenderSnapshot) list"

record ObservedSenderSnapshot =
  on_Protocol :: string
  on_Observations :: nat
  on_LastSeenNS :: int
  on_DeadlineDeficits :: nat
  on_CountDeficits :: nat
  on_OverdueOpen :: bool
  on_CountOpen :: bool
  on_WatchdogLearned :: bool
  on_LearnedOverdueNS :: int
  on_LearnedMinimumCount :: int
  on_ObligationDueNS :: int
  on_ObligationsOpened :: nat
  on_ObligationsClosed :: nat
  on_ObligationDeficits :: nat

record Snapshot =
  sp_Mode :: Mode
  sp_State :: string
  sp_Selected :: string
  sp_SampleTimeNS :: int
  sp_RecoveryUntilNS :: int
  sp_DeadlineDeficits :: nat
  sp_CountDeficits :: nat
  sp_Discontinuities :: nat
  sp_Refreshes :: nat
  sp_RefreshUntilNS :: int
  sp_NextRefreshNS :: int
  sp_ObservedSenders :: "(u64 \<times> ObservedSenderSnapshot) list"
  sp_Protocols :: "(string \<times> protocolRuntime) list"
  sp_Candidates :: "CandidateSnapshot list"

definition observed_snapshot :: "senderRuntime \<Rightarrow> u64 \<times> ObservedSenderSnapshot" where
  "observed_snapshot r = (ID (r_cfg r),
     \<lparr>on_Protocol = r_protocol r, on_Observations = r_total r, on_LastSeenNS = r_lastSeen r,
      on_DeadlineDeficits = r_deadlineDeficits r, on_CountDeficits = r_countDeficits r, on_OverdueOpen = r_overdueOpen r,
      on_CountOpen = r_countOpen r, on_WatchdogLearned = r_watchdogLearned r, on_LearnedOverdueNS = r_learnedOverdue r,
      on_LearnedMinimumCount = r_learnedMinimumCount r, on_ObligationDueNS = r_obligationDue r,
      on_ObligationsOpened = r_obligationsOpened r, on_ObligationsClosed = r_obligationsClosed r,
      on_ObligationDeficits = r_obligationDeficits r\<rparr>)"

text \<open>The snapshot of one model also evaluates its memo; it is \<open>None\<close> when the estimate of the
  required observations does not return.\<close>

definition model_snapshot :: "fplib \<Rightarrow> Config \<Rightarrow> u64 \<times> senderModel \<Rightarrow> ((u64 \<times> senderModel) \<times> (u64 \<times> SenderSnapshot)) option" where
  "model_snapshot fp cfg im =
     (let (i, m) = im in
      case RequiredObservations fp (m_misses m) (CaptureTarget cfg) (Confidence cfg) of
        None \<Rightarrow> None
      | Some required \<Rightarrow>
        let (m, upper) = confidenceUpperBound fp m (fsub (Fin 1) (Confidence cfg)) in
        Some ((i, m), (i,
          \<lparr>sn_Protocol = m_protocol m, sn_EligibleEvents = m_events m, sn_WouldMiss = m_misses m,
           sn_RequiredEligibleEvents = required,
           sn_RemainingEligibleEvents = (if required > m_events m then required - m_events m else 0),
           sn_UpperMissBound = upper, sn_PeriodNS = m_period m, sn_PreWakeNS = m_preWake m, sn_PostWakeNS = m_postWake m,
           sn_EffectiveHistory = m_effectiveHistory m, sn_ChangePoints = m_changePoints m\<rparr>)))"

definition candidate_snapshot :: "fplib \<Rightarrow> Config \<Rightarrow> candidate \<Rightarrow> (candidate \<times> CandidateSnapshot) option" where
  "candidate_snapshot fp cfg c =
     (let (c, eligible) = allLearned c;
          (c, contract) = qualifiesAt fp cfg c (CaptureTarget cfg)
      in case those (map (model_snapshot fp cfg) (c_senders c)) of
           None \<Rightarrow> None
         | Some ms \<Rightarrow>
           Some (c\<lparr>c_senders := map fst ms\<rparr>,
             \<lparr>cn_Name = Name (c_cfg c), cn_HistoryLimit = HistoryLimit (c_cfg c), cn_Eligible = eligible,
              cn_Qualified = c_qualified c, cn_ContractQualified = contract, cn_Invalid = c_invalid c, cn_Epoch = c_epoch c,
              cn_WakeScale = c_wakeScale c, cn_AuditFraction = auditFraction c, cn_PromotionReadyNS = c_promotionReady c,
              cn_RecoveryUntilNS = c_recoveryUntil c, cn_ProjectedSleepFraction = projectedSleep c,
              cn_SteadySleepFraction = steadySleep c, cn_EffectiveSleepFraction = effectiveSleep c,
              cn_TotalDurationNS = c_totalDuration c, cn_TotalAwakeDurationNS = c_totalAwake c,
              cn_EligibleDurationNS = c_eligibleDuration c, cn_AwakeDurationNS = c_awakeDuration c,
              cn_Senders = map snd ms\<rparr>))"

definition take_Snapshot :: "fplib \<Rightarrow> Scheduler \<Rightarrow> (Scheduler \<times> Snapshot) option" where
  "take_Snapshot fp s =
     (case those (map (candidate_snapshot fp (s_cfg s)) (s_candidates s)) of
        None \<Rightarrow> None
      | Some cs \<Rightarrow>
        Some (s\<lparr>s_candidates := map fst cs\<rparr>,
          \<lparr>sp_Mode = cfg_Mode (s_cfg s), sp_State = sched_state s, sp_Selected = selectedName s,
           sp_SampleTimeNS = s_lastEnd s, sp_RecoveryUntilNS = s_recoveryUntil s, sp_DeadlineDeficits = s_deadlineDeficits s,
           sp_CountDeficits = s_countDeficits s, sp_Discontinuities = s_discontinuities s, sp_Refreshes = s_refreshes s,
           sp_RefreshUntilNS = s_refreshUntil s, sp_NextRefreshNS = s_nextRefresh s,
           sp_ObservedSenders = map observed_snapshot (s_senders s), sp_Protocols = s_protocols s,
           sp_Candidates = map snd cs\<rparr>))"

subsection \<open>Importing an old report\<close>

definition legacy_sender :: "senderRuntime list \<Rightarrow> u64 \<times> ObservedSenderSnapshot \<Rightarrow> senderRuntime list res" where
  "legacy_sender rs io =
     (let (i, old) = io in
      case find_index (\<lambda>r. ID (r_cfg r) = i) rs of
        None \<Rightarrow> Inl (Err ''dutyscheduler: legacy sender inventory mismatch'')
      | Some k \<Rightarrow> Inr (rs[k := (rs ! k)\<lparr>r_total := on_Observations old, r_deadlineDeficits := on_DeadlineDeficits old,
                                      r_countDeficits := on_CountDeficits old\<rparr>]))"

definition legacy_model :: "(u64 \<times> senderModel) list \<Rightarrow> u64 \<times> SenderSnapshot \<Rightarrow> (u64 \<times> senderModel) list res" where
  "legacy_model ms io =
     (let (i, old) = io in
      case find_index (\<lambda>(j, m). j = i) ms of
        None \<Rightarrow> Inl (Err ''dutyscheduler: invalid legacy model'')
      | Some k \<Rightarrow>
        if sn_WouldMiss old > sn_EligibleEvents old then Inl (Err ''dutyscheduler: invalid legacy model'')
        else Inr (ms[k := (fst (ms ! k), (snd (ms ! k))\<lparr>m_events := sn_EligibleEvents old, m_misses := sn_WouldMiss old\<rparr>)]))"

definition legacy_candidate :: "candidate \<Rightarrow> CandidateSnapshot \<Rightarrow> candidate res" where
  "legacy_candidate c old =
     (if cn_Name old \<noteq> Name (c_cfg c) \<or> cn_HistoryLimit old \<noteq> HistoryLimit (c_cfg c) \<or> length (cn_Senders old) \<noteq> length (c_senders c)
      then Inl (Err ''dutyscheduler: legacy candidate inventory mismatch'')
      else if \<not> validDurations (cn_TotalDurationNS old) (cn_TotalAwakeDurationNS old) (cn_EligibleDurationNS old) (cn_AwakeDurationNS old)
      then Inl (Err ''dutyscheduler: invalid legacy candidate durations'')
      else bind_res (fold_res legacy_model (c_senders c) (cn_Senders old)) (\<lambda>ms.
        Inr (c\<lparr>c_totalDuration := cn_TotalDurationNS old, c_totalAwake := cn_TotalAwakeDurationNS old,
               c_eligibleDuration := cn_EligibleDurationNS old, c_awakeDuration := cn_AwakeDurationNS old,
               c_invalid := cn_Invalid old, c_senders := ms\<rparr>)))"

definition install_legacy :: "fplib \<Rightarrow> Scheduler \<Rightarrow> Snapshot \<Rightarrow> senderRuntime list \<Rightarrow> candidate list \<Rightarrow> Scheduler" where
  "install_legacy fp restored sp rs cs =
     (let restored = restored\<lparr>s_senders := rs, s_candidates := cs, s_lastEnd := sp_SampleTimeNS sp,
            s_started := (sp_SampleTimeNS sp > 0), s_deadlineDeficits := sp_DeadlineDeficits sp,
            s_countDeficits := sp_CountDeficits sp, s_discontinuities := sp_Discontinuities sp + 1\<rparr>;
          restored = (if cfg_Mode (s_cfg restored) = ModeGated then enterRecovery restored (s_lastEnd restored) else restored)
      in refreshQualifications fp restored (s_lastEnd restored))"

definition RestoreLegacySnapshot :: "fplib \<Rightarrow> Scheduler \<Rightarrow> Snapshot \<Rightarrow> Scheduler res" where
  "RestoreLegacySnapshot fp s sp =
     (let compatibleMode = (sp_Mode sp = cfg_Mode (s_cfg s) \<or> (sp_Mode sp = ModeShadow \<and> cfg_Mode (s_cfg s) = ModeGated)) in
      if \<not> compatibleMode \<or> sp_SampleTimeNS sp < 0 \<or> length (sp_ObservedSenders sp) \<noteq> length (s_senders s) \<or>
         length (sp_Candidates sp) \<noteq> length (s_candidates s)
      then Inl (Err ''dutyscheduler: incompatible legacy snapshot'')
      else
        bind_res (New (s_cfg s)) (\<lambda>restored.
        bind_res (fold_res legacy_sender (s_senders restored) (sp_ObservedSenders sp)) (\<lambda>rs.
        bind_res (mapM_res (\<lambda>(c, old). legacy_candidate c old) (zip (s_candidates restored) (sp_Candidates sp))) (\<lambda>cs.
        Inr (install_legacy fp restored sp rs cs)))))"

section \<open>A restored scheduler is fail-open and keeps the invariant\<close>

text \<open>What applying a state may leave behind in a candidate: no memo is valid yet and the eligibility
  is to be recomputed.\<close>

definition uncached :: "candidate \<Rightarrow> bool" where
  "uncached c \<longleftrightarrow> c_eligibilityDirty c \<and> (\<forall>m \<in> snd ` set (c_senders c). \<not> m_boundValid m)"

lemma uncached_caches: "uncached c \<Longrightarrow> caches_ok fp cfg c"
  by (simp add: uncached_def caches_ok_def bound_cache_ok_def)

lemma update_models:
  "\<forall>m \<in> snd ` set ms. \<not> m_boundValid m \<Longrightarrow> \<not> m_boundValid m' \<Longrightarrow> \<forall>m \<in> snd ` set (ms[k := (i, m')]). \<not> m_boundValid m"
  using set_update_subset_insert [of ms k "(i, m')"] by fastforce

lemma find_index_nth: "find_index P xs = Some k \<Longrightarrow> k < length xs \<and> P (xs ! k)"
  by (induction xs arbitrary: k) (auto split: if_splits)

lemma apply_models_uncached:
  "apply_models cfg lastEnd seen ms xs = Inr ms' \<Longrightarrow> \<forall>m \<in> snd ` set ms. \<not> m_boundValid m \<Longrightarrow> \<forall>m \<in> snd ` set ms'. \<not> m_boundValid m"
proof (induction xs arbitrary: seen ms)
  case (Cons x xs)
  from Cons.prems(1) obtain k where k: "find_index (\<lambda>(i, m). i = ms_ID x) ms = Some k"
    and rest: "apply_models cfg lastEnd (ms_ID x # seen) (ms[k := (fst (ms ! k), restore_model x (snd (ms ! k)))]) xs = Inr ms'"
    by (auto simp: bind_res_eq_Inr split: option.splits if_splits)
  have "snd (ms ! k) \<in> snd ` set ms" using find_index_nth [OF k] by simp
  with Cons.prems(2) have "\<not> m_boundValid (snd (ms ! k))" by blast
  then have "\<not> m_boundValid (restore_model x (snd (ms ! k)))" by (simp add: restore_model_def)
  then show ?case using Cons.IH [OF rest] update_models [OF Cons.prems(2)] by blast
qed simp

lemma apply_candidate_uncached:
  assumes "apply_candidate lastEnd c x = Inr c'" "uncached c"
  shows "uncached c'"
proof -
  obtain ms where ms: "apply_models (c_cfg c) lastEnd [] (c_senders c) (cs_Senders x) = Inr ms" and c': "c' = install_candidate c x ms"
    using assms(1) unfolding apply_candidate_def by (auto simp: bind_res_eq_Inr split: if_splits)
  show ?thesis using apply_models_uncached [OF ms] assms(2) by (simp add: c' install_candidate_def uncached_def)
qed

lemma legacy_models_uncached:
  "fold_res legacy_model ms xs = Inr ms' \<Longrightarrow> \<forall>m \<in> snd ` set ms. \<not> m_boundValid m \<Longrightarrow> \<forall>m \<in> snd ` set ms'. \<not> m_boundValid m"
proof (induction xs arbitrary: ms)
  case (Cons x xs)
  from Cons.prems(1) obtain ms1 where 1: "legacy_model ms x = Inr ms1" and rest: "fold_res legacy_model ms1 xs = Inr ms'" by (auto simp: bind_res_eq_Inr)
  obtain k where k: "find_index (\<lambda>(j, m). j = fst x) ms = Some k"
    and ms1: "ms1 = ms[k := (fst (ms ! k), (snd (ms ! k))\<lparr>m_events := sn_EligibleEvents (snd x), m_misses := sn_WouldMiss (snd x)\<rparr>)]"
    using 1 by (cases x) (auto simp: legacy_model_def split: option.splits if_splits)
  have "snd (ms ! k) \<in> snd ` set ms" using find_index_nth [OF k] by simp
  with Cons.prems(2) have "\<not> m_boundValid (snd (ms ! k))" by blast
  then have "\<forall>m \<in> snd ` set ms1. \<not> m_boundValid m" unfolding ms1 by (intro update_models [OF Cons.prems(2)]) simp
  then show ?case using Cons.IH [OF rest] by blast
qed simp

lemma legacy_candidate_uncached:
  assumes "legacy_candidate c x = Inr c'" "uncached c"
  shows "uncached c'"
proof -
  obtain ms where ms: "fold_res legacy_model (c_senders c) (cn_Senders x) = Inr ms"
    and c': "c_senders c' = ms" "c_eligibilityDirty c' = c_eligibilityDirty c"
    using assms(1) by (auto simp: legacy_candidate_def bind_res_eq_Inr split: if_splits)
  show ?thesis using legacy_models_uncached [OF ms] assms(2) c' by (simp add: uncached_def)
qed

lemma mapM_res_zip_all:
  "mapM_res (\<lambda>(x, y). f x y) (zip xs ys) = Inr zs \<Longrightarrow> (\<And>x y z. P x \<Longrightarrow> f x y = Inr z \<Longrightarrow> Q z) \<Longrightarrow> \<forall>x \<in> set xs. P x \<Longrightarrow> \<forall>z \<in> set zs. Q z"
proof (induction xs arbitrary: ys zs)
  case (Cons x xs)
  then show ?case by (cases ys) (auto simp: bind_res_eq_Inr)
qed simp

lemma New_uncached:
  assumes "New cfg = Inr s"
  shows "\<forall>c \<in> set (s_candidates s). uncached c" "s_cfg s = normalizeConfig cfg" "validateConfig (s_cfg s) = Inr ()"
    "s_selected s = None" "s_recoveryUntil s = 0"
proof -
  have cs: "fold_res (addCandidate (normalizeConfig cfg)) [] (Candidates (normalizeConfig cfg)) = Inr (s_candidates s)"
    and "s_cfg s = normalizeConfig cfg" "validateConfig (s_cfg s) = Inr ()" "s_selected s = None" "s_recoveryUntil s = 0"
    using assms by (auto simp: New_def Let_def bind_res_eq_Inr)
  then show "s_cfg s = normalizeConfig cfg" "validateConfig (s_cfg s) = Inr ()" "s_selected s = None" "s_recoveryUntil s = 0" by simp_all
  obtain ccs where "s_candidates s = map (new_candidate (normalizeConfig cfg)) ccs" using fold_addCandidate [OF cs] by auto
  then show "\<forall>c \<in> set (s_candidates s). uncached c" by (auto simp: uncached_def new_candidate_def zero_model_def)
qed

lemma install_state_inv:
  assumes "good_contract (s_cfg s)" "\<forall>c \<in> set cs. uncached c"
  shows "sched_inv fp (install_state fp s st rs ps cs) \<and> s_cfg (install_state fp s st rs ps cs) = s_cfg s \<and>
    s_lastEnd (install_state fp s st rs ps cs) = st_LastEndNS st \<and>
    (cfg_Mode (s_cfg s) = ModeGated \<longrightarrow> i64 (st_LastEndNS st + RecoveryDuration (s_cfg s)) \<le> s_recoveryUntil (install_state fp s st rs ps cs))"
proof -
  have caches: "\<forall>c \<in> set cs. caches_ok fp (s_cfg s) c" using assms(2) uncached_caches by blast
  define s1 where "s1 = (stop_quiet s)\<lparr>s_senders := rs, s_protocols := ps, s_candidates := cs, s_lastEnd := st_LastEndNS st,
            s_started := st_Started st, s_recoveryUntil := st_RecoveryUntilNS st, s_deadlineDeficits := st_DeadlineDeficits st,
            s_countDeficits := st_CountDeficits st, s_discontinuities := st_Discontinuities st,
            s_refreshUntil := st_RefreshUntilNS st, s_nextRefresh := st_NextRefreshNS st, s_refreshes := st_Refreshes st,
            s_rng := st_RNG st, s_selected := None\<rparr>"
  have s1: "s_cfg s1 = s_cfg s" "s_lastEnd s1 = st_LastEndNS st" "s_candidates s1 = cs" "s_selected s1 = None"
    by (simp_all add: s1_def sched_keeps)
  define s2 where "s2 = (if cfg_Mode (s_cfg s) = ModeGated then enterRecovery s1 (st_LastEndNS st) else s1)"
  have s2: "s_cfg s2 = s_cfg s" "s_lastEnd s2 = st_LastEndNS st" "s_candidates s2 = cs" "s_selected s2 = None"
    "cfg_Mode (s_cfg s) = ModeGated \<longrightarrow> i64 (st_LastEndNS st + RecoveryDuration (s_cfg s)) \<le> s_recoveryUntil s2"
    by (simp_all add: s2_def s1 sched_keeps enterRecovery_until)
  have e: "install_state fp s st rs ps cs = chooseCandidate (refreshQualifications fp s2 (st_LastEndNS st))"
    unfolding install_state_def Let_def s1_def [symmetric] s1 s2_def [symmetric] s2 ..
  have "sched_inv fp (refreshQualifications fp s2 (st_LastEndNS st))"
    using caches assms(1) s2 by (intro refreshQualifications_inv) simp_all
  then show ?thesis using s2 by (simp add: e chooseCandidate_inv sched_keeps)
qed

lemma install_legacy_inv:
  assumes "good_contract (s_cfg s)" "\<forall>c \<in> set cs. uncached c" "s_selected s = None"
  shows "sched_inv fp (install_legacy fp s sp rs cs) \<and> s_cfg (install_legacy fp s sp rs cs) = s_cfg s \<and>
    s_lastEnd (install_legacy fp s sp rs cs) = sp_SampleTimeNS sp \<and>
    (cfg_Mode (s_cfg s) = ModeGated \<longrightarrow> i64 (sp_SampleTimeNS sp + RecoveryDuration (s_cfg s)) \<le> s_recoveryUntil (install_legacy fp s sp rs cs))"
proof -
  have caches: "\<forall>c \<in> set cs. caches_ok fp (s_cfg s) c" using assms(2) uncached_caches by blast
  define s1 where "s1 = s\<lparr>s_senders := rs, s_candidates := cs, s_lastEnd := sp_SampleTimeNS sp,
            s_started := (sp_SampleTimeNS sp > 0), s_deadlineDeficits := sp_DeadlineDeficits sp,
            s_countDeficits := sp_CountDeficits sp, s_discontinuities := sp_Discontinuities sp + 1\<rparr>"
  have s1: "s_cfg s1 = s_cfg s" "s_lastEnd s1 = sp_SampleTimeNS sp" "s_candidates s1 = cs" "s_selected s1 = None"
    using assms(3) by (simp_all add: s1_def)
  define s2 where "s2 = (if cfg_Mode (s_cfg s) = ModeGated then enterRecovery s1 (sp_SampleTimeNS sp) else s1)"
  have s2: "s_cfg s2 = s_cfg s" "s_lastEnd s2 = sp_SampleTimeNS sp" "s_candidates s2 = cs" "s_selected s2 = None"
    "cfg_Mode (s_cfg s) = ModeGated \<longrightarrow> i64 (sp_SampleTimeNS sp + RecoveryDuration (s_cfg s)) \<le> s_recoveryUntil s2"
    by (simp_all add: s2_def s1 sched_keeps enterRecovery_until)
  have e: "install_legacy fp s sp rs cs = refreshQualifications fp s2 (sp_SampleTimeNS sp)"
    unfolding install_legacy_def Let_def s1_def [symmetric] s1 s2_def [symmetric] s2 ..
  have "sched_inv fp (refreshQualifications fp s2 (sp_SampleTimeNS sp))"
    using caches assms(1) s2 by (intro refreshQualifications_inv) simp_all
  then show ?thesis using s2 by (simp add: e sched_keeps)
qed

lemma New_contract: "New cfg = Inr s \<Longrightarrow> f64_ok (CaptureTarget cfg) \<Longrightarrow> good_contract (s_cfg s)"
  using New_inv [of cfg s] by (simp add: sched_inv_def)

lemma applyState_inv:
  assumes new: "New cfg = Inr s" "f64_ok (CaptureTarget cfg)" and st: "applyState fp s st = Inr s'"
  shows "sched_inv fp s' \<and> s_cfg s' = s_cfg s \<and> s_lastEnd s' = st_LastEndNS st \<and>
    (cfg_Mode (s_cfg s) = ModeGated \<longrightarrow> i64 (s_lastEnd s' + RecoveryDuration (s_cfg s)) \<le> s_recoveryUntil s')"
proof -
  obtain rs ps cs where
    cs: "mapM_res (\<lambda>(c, x). apply_candidate (st_LastEndNS st) c x) (zip (s_candidates s) (st_Candidates st)) = Inr cs"
    and s': "s' = install_state fp s st rs ps cs"
    using st unfolding applyState_def by (auto simp: bind_res_eq_Inr split: if_splits)
  have "\<forall>c \<in> set cs. uncached c" by (rule mapM_res_zip_all [OF cs apply_candidate_uncached New_uncached(1) [OF new(1)]])
  then show ?thesis using install_state_inv [OF New_contract [OF new]] by (simp add: s')
qed

lemma RestoreLegacySnapshot_inv:
  assumes ok: "f64_ok (CaptureTarget (s_cfg s))" and st: "RestoreLegacySnapshot fp s sp = Inr s'"
  shows "sched_inv fp s' \<and> s_cfg s' = normalizeConfig (s_cfg s) \<and> s_lastEnd s' = sp_SampleTimeNS sp \<and>
    (cfg_Mode (s_cfg s') = ModeGated \<longrightarrow> i64 (s_lastEnd s' + RecoveryDuration (s_cfg s')) \<le> s_recoveryUntil s')"
proof -
  obtain s0 rs cs where new: "New (s_cfg s) = Inr s0"
    and cs: "mapM_res (\<lambda>(c, x). legacy_candidate c x) (zip (s_candidates s0) (sp_Candidates sp)) = Inr cs"
    and s': "s' = install_legacy fp s0 sp rs cs"
    using st unfolding RestoreLegacySnapshot_def by (auto simp: bind_res_eq_Inr Let_def split: if_splits)
  note n = New_uncached [OF new]
  have "\<forall>c \<in> set cs. uncached c" by (rule mapM_res_zip_all [OF cs legacy_candidate_uncached n(1)])
  then show ?thesis using install_legacy_inv [OF New_contract [OF new ok] _ n(4)] n(2) by (simp add: s')
qed

section \<open>Every scheduler a process can hold\<close>

text \<open>Evaluating a snapshot only fills caches.\<close>

definition evidence_of :: "senderModel \<Rightarrow> bool \<times> nat \<times> nat" where
  "evidence_of m = (m_learned m, m_events m, m_misses m)"

lemma contract_evidence: "evidence_of m' = evidence_of m \<Longrightarrow> contract_met fp cfg t m' = contract_met fp cfg t m"
  by (simp add: evidence_of_def contract_met_def)

lemma evidence_ok_models:
  assumes "map (evidence_of \<circ> snd) (c_senders c') = map (evidence_of \<circ> snd) (c_senders c)" "c_invalid c' = c_invalid c"
  shows "evidence_ok fp cfg t c' = evidence_ok fp cfg t c"
proof -
  have *: "(\<forall>m \<in> snd ` set (c_senders d). contract_met fp cfg t m) =
      (\<forall>e \<in> set (map (evidence_of \<circ> snd) (c_senders d)). \<forall>m. evidence_of m = e \<longrightarrow> contract_met fp cfg t m)" for d
    unfolding set_map image_comp [symmetric] using contract_evidence by blast
  show ?thesis unfolding evidence_ok_def * assms ..
qed

lemma confidenceUpperBound_evidence: "confidenceUpperBound fp m a = (m', u) \<Longrightarrow> evidence_of m' = evidence_of m"
  by (auto simp: confidenceUpperBound_def evidence_of_def Let_def split: if_splits)

lemma senders_qualify_evidence:
  "senders_qualify fp a x ms = (ms', ok) \<Longrightarrow> map (evidence_of \<circ> snd) ms' = map (evidence_of \<circ> snd) ms"
proof (induction ms arbitrary: ms' ok)
  case (Cons im ms)
  obtain i m where im: "im = (i, m)" by (cases im)
  obtain m1 u where 1: "confidenceUpperBound fp m a = (m1, u)" by (cases "confidenceUpperBound fp m a")
  obtain ms1 ok1 where 2: "senders_qualify fp a x ms = (ms1, ok1)" by (cases "senders_qualify fp a x ms")
  consider "ms' = (i, m) # ms" | "ms' = (i, m1) # ms" | "ms' = (i, m1) # ms1"
    using Cons.prems by (auto simp: im 1 2 split: if_splits)
  then show ?case using Cons.IH [OF 2] confidenceUpperBound_evidence [OF 1] by cases (simp_all add: im)
qed simp

lemma qualifiesAt_evidence:
  assumes "qualifiesAt fp cfg c t = (c', ok)"
  shows "map (evidence_of \<circ> snd) (c_senders c') = map (evidence_of \<circ> snd) (c_senders c)"
proof -
  obtain c1 e where 1: "allLearned c = (c1, e)" by (cases "allLearned c")
  then have s1: "c_senders c1 = c_senders c" by (auto simp: allLearned_def Let_def split: if_splits)
  obtain ms okm where 2: "senders_qualify fp (fsub (Fin 1) (Confidence cfg)) (fsub (Fin 1) t) (c_senders c1) = (ms, okm)"
    by (cases "senders_qualify fp (fsub (Fin 1) (Confidence cfg)) (fsub (Fin 1) t) (c_senders c1)")
  have "c' = c \<or> c' = c1 \<or> c' = c1\<lparr>c_senders := ms\<rparr>" using assms by (auto simp: qualifiesAt_def 1 2 Let_def split: if_splits)
  then show ?thesis using senders_qualify_evidence [OF 2] s1 by auto
qed

lemma model_snapshots_spec:
  "those (map (model_snapshot fp cfg) ms) = Some xs \<Longrightarrow> \<forall>m \<in> snd ` set ms. bound_cache_ok fp cfg m \<Longrightarrow>
   map (evidence_of \<circ> snd) (map fst xs) = map (evidence_of \<circ> snd) ms \<and> (\<forall>m \<in> snd ` set (map fst xs). bound_cache_ok fp cfg m)"
proof (induction ms arbitrary: xs)
  case (Cons im ms)
  obtain i m where im: "im = (i, m)" by (cases im)
  obtain m1 u where 1: "confidenceUpperBound fp m (alpha_of cfg) = (m1, u)" by (cases "confidenceUpperBound fp m (alpha_of cfg)")
  obtain y ys where y: "model_snapshot fp cfg (i, m) = Some y" and ys: "those (map (model_snapshot fp cfg) ms) = Some ys" and xs: "xs = y # ys"
    using Cons.prems(1) by (auto simp: im split: option.splits)
  have fy: "fst y = (i, m1)" using y 1 by (auto simp: model_snapshot_def alpha_of_def split: option.splits)
  have m: "bound_cache_ok fp cfg m" using Cons.prems(2) by (simp add: im)
  have "map (evidence_of \<circ> snd) (map fst ys) = map (evidence_of \<circ> snd) ms \<and> (\<forall>m \<in> snd ` set (map fst ys). bound_cache_ok fp cfg m)"
    by (rule Cons.IH [OF ys]) (use Cons.prems(2) in simp)
  then show ?case using confidenceUpperBound_evidence [OF 1] confidenceUpperBound_spec(2) [OF m 1] by (simp add: xs im fy comp_def)
qed simp

lemma candidate_snapshot_inv:
  assumes "cand_inv fp cfg c" "candidate_snapshot fp cfg c = Some (c', sn)"
  shows "cand_inv fp cfg c'"
proof -
  have cache: "caches_ok fp cfg c" using assms(1) by (simp add: cand_inv_def)
  obtain c1 e where 1: "allLearned c = (c1, e)" by (cases "allLearned c")
  obtain c2 ok where 2: "qualifiesAt fp cfg c1 (CaptureTarget cfg) = (c2, ok)" by (cases "qualifiesAt fp cfg c1 (CaptureTarget cfg)")
  obtain xs where xs: "those (map (model_snapshot fp cfg) (c_senders c2)) = Some xs" and c': "c' = c2\<lparr>c_senders := map fst xs\<rparr>"
    using assms(2) by (auto simp: candidate_snapshot_def 1 2 split: option.splits)
  obtain d k where c1: "c1 = c\<lparr>c_eligibleCached := k, c_eligibilityDirty := d\<rparr>" using allLearned_spec(2) [OF cache 1] by blast
  note q = qualifiesAt_spec [OF allLearned_spec(3) [OF cache 1] 2]
  have b: "\<forall>m \<in> snd ` set (c_senders c2). bound_cache_ok fp cfg m" using q(1) by (simp add: caches_ok_def)
  note ms = model_snapshots_spec [OF xs b]
  have ev: "map (evidence_of \<circ> snd) (c_senders c') = map (evidence_of \<circ> snd) (c_senders c2)" using ms by (simp add: c')
  have l: "(\<forall>m \<in> snd ` set (c_senders c'). m_learned m) = (\<forall>m \<in> snd ` set (c_senders c2). m_learned m)"
  proof -
    have *: "(\<forall>m \<in> snd ` set (c_senders x). m_learned m) = (\<forall>e \<in> set (map (evidence_of \<circ> snd) (c_senders x)). fst e)" for x
      by (simp add: evidence_of_def)
    show ?thesis unfolding * [of c'] * [of c2] ev ..
  qed
  have e: "c_eligibilityDirty c' = c_eligibilityDirty c2" "c_eligibleCached c' = c_eligibleCached c2" by (simp_all add: c')
  have "\<forall>m \<in> snd ` set (c_senders c'). bound_cache_ok fp cfg m" using ms unfolding c' by simp
  then have "caches_ok fp cfg c'" unfolding caches_ok_def e l using q(1) [unfolded caches_ok_def] by blast
  moreover have "evidence_ok fp cfg (CaptureTarget cfg) c' = evidence_ok fp cfg (CaptureTarget cfg) c"
    using ev qualifiesAt_evidence [OF 2] q(4) by (intro evidence_ok_models) (simp_all add: c' c1)
  ultimately show ?thesis using assms(1) q(3) by (simp add: cand_inv_def c' c1)
qed

lemma those_Some_all: "those (map f xs) = Some ys \<Longrightarrow> (\<And>x y. P x \<Longrightarrow> f x = Some y \<Longrightarrow> Q y) \<Longrightarrow> \<forall>x \<in> set xs. P x \<Longrightarrow> length ys = length xs \<and> (\<forall>y \<in> set ys. Q y)"
  by (induction xs arbitrary: ys) (auto split: option.splits)

lemma take_Snapshot_inv:
  assumes "sched_inv fp s" "take_Snapshot fp s = Some (s', sp)"
  shows "sched_inv fp s'"
proof -
  obtain cs where cs: "those (map (candidate_snapshot fp (s_cfg s)) (s_candidates s)) = Some cs" and s': "s' = s\<lparr>s_candidates := map fst cs\<rparr>"
    using assms(2) by (auto simp: take_Snapshot_def split: option.splits)
  have "length cs = length (s_candidates s) \<and> (\<forall>y \<in> set cs. cand_inv fp (s_cfg s) (fst y))"
    by (rule those_Some_all [OF cs, where P = "cand_inv fp (s_cfg s)"])
      (use assms(1) candidate_snapshot_inv in \<open>auto simp: sched_inv_def\<close>)
  then show ?thesis using assms(1) by (simp add: sched_inv_def s')
qed

inductive sched_reachable :: "fplib \<Rightarrow> (Config \<Rightarrow> string res) \<Rightarrow> Scheduler \<Rightarrow> bool" for fp sha where
  built: "New cfg = Inr s \<Longrightarrow> f64_ok (CaptureTarget cfg) \<Longrightarrow> sched_reachable fp sha s"
| stepped: "sched_reachable fp sha s \<Longrightarrow> sched_step fp s s' \<Longrightarrow> sched_reachable fp sha s'"
| restored: "sched_reachable fp sha s \<Longrightarrow> RestoreState fp sha s st = Inr s' \<Longrightarrow> sched_reachable fp sha s'"
| retargeted: "sched_reachable fp sha s \<Longrightarrow> RestoreCaptureTargetState fp sha s st old = Inr s' \<Longrightarrow> sched_reachable fp sha s'"
| promoted: "sched_reachable fp sha s \<Longrightarrow> RestoreShadowState fp sha s st = Inr s' \<Longrightarrow> sched_reachable fp sha s'"
| imported: "sched_reachable fp sha s \<Longrightarrow> RestoreLegacySnapshot fp s sp = Inr s' \<Longrightarrow> sched_reachable fp sha s'"
| snapped: "sched_reachable fp sha s \<Longrightarrow> take_Snapshot fp s = Some (s', sp) \<Longrightarrow> sched_reachable fp sha s'"

definition starts_in_recovery :: "Scheduler \<Rightarrow> bool" where
  "starts_in_recovery s \<longleftrightarrow>
     (cfg_Mode (s_cfg s) = ModeGated \<longrightarrow> i64 (s_lastEnd s + RecoveryDuration (s_cfg s)) \<le> s_recoveryUntil s)"

lemma starts_in_recovery_keeps:
  "s_cfg s' = s_cfg s \<Longrightarrow> s_lastEnd s' = s_lastEnd s \<Longrightarrow> s_recoveryUntil s' = s_recoveryUntil s \<Longrightarrow>
   starts_in_recovery s' = starts_in_recovery s"
  by (simp add: starts_in_recovery_def)

lemma restore_with_inv:
  assumes "sched_inv fp s" "restore_with fp sha expected s st = Inr s'"
  shows "sched_inv fp s' \<and> s_cfg s' = normalizeConfig (s_cfg s) \<and>
    starts_in_recovery s'"
proof -
  have ok: "f64_ok (CaptureTarget (s_cfg s))" using assms(1) by (simp add: sched_inv_def good_contract_def)
  obtain s0 where new: "New (s_cfg s) = Inr s0" and st: "applyState fp s0 st = Inr s'"
    using assms(2) by (auto simp: restore_with_def bind_res_eq_Inr split: if_splits)
  show ?thesis using applyState_inv [OF new ok st] New_uncached(2) [OF new] by (auto simp: starts_in_recovery_def)
qed

text \<open>Each way of restoring a scheduler: the invariant, and recovery when gated.\<close>

definition restores :: "fplib \<Rightarrow> (Config \<Rightarrow> string res) \<Rightarrow> Scheduler \<Rightarrow> Scheduler \<Rightarrow> bool" where
  "restores fp sha s s' \<longleftrightarrow> (\<exists>st. RestoreState fp sha s st = Inr s') \<or> (\<exists>st old. RestoreCaptureTargetState fp sha s st old = Inr s') \<or>
     (\<exists>st. RestoreShadowState fp sha s st = Inr s') \<or> (\<exists>sp. RestoreLegacySnapshot fp s sp = Inr s')"

lemma caches_ok_promotion: "caches_ok fp cfg (c\<lparr>c_qualified := q, c_promotionReady := p\<rparr>) = caches_ok fp cfg c"
  by (simp add: caches_ok_def)

lemma RestoreCaptureTargetState_inv:
  assumes "sched_inv fp s" "RestoreCaptureTargetState fp sha s st old = Inr s'"
  shows "sched_inv fp s' \<and> starts_in_recovery s'"
proof -
  obtain s1 where s1: "restore_with fp sha ((s_cfg s)\<lparr>CaptureTarget := old\<rparr>) s st = Inr s1"
    and s': "s' = chooseCandidate (refreshQualifications fp ((stop_quiet s1)\<lparr>s_candidates :=
       map (\<lambda>c. c\<lparr>c_qualified := False, c_promotionReady := 0\<rparr>) (s_candidates s1), s_selected := None\<rparr>) (s_lastEnd s1))"
    using assms(2) by (auto simp: RestoreCaptureTargetState_def bind_res_eq_Inr Let_def sched_keeps split: if_splits)
  note r = restore_with_inv [OF assms(1) s1]
  have "sched_inv fp (refreshQualifications fp ((stop_quiet s1)\<lparr>s_candidates :=
       map (\<lambda>c. c\<lparr>c_qualified := False, c_promotionReady := 0\<rparr>) (s_candidates s1), s_selected := None\<rparr>) (s_lastEnd s1))"
    using r sched_inv_caches [of fp s1]
    by (intro refreshQualifications_inv) (auto simp: sched_keeps sched_inv_def caches_ok_promotion)
  moreover have "starts_in_recovery s' = starts_in_recovery s1" by (intro starts_in_recovery_keeps) (simp_all add: s' sched_keeps)
  ultimately show ?thesis using r by (simp add: s' chooseCandidate_inv)
qed

lemma restores_inv:
  assumes "sched_inv fp s" "restores fp sha s s'"
  shows "sched_inv fp s' \<and> starts_in_recovery s'"
proof -
  have ok: "f64_ok (CaptureTarget (s_cfg s))" using assms(1) by (simp add: sched_inv_def good_contract_def)
  have "RestoreLegacySnapshot fp s sp = Inr s' \<Longrightarrow> sched_inv fp s' \<and> starts_in_recovery s'" for sp
    using RestoreLegacySnapshot_inv [OF ok] unfolding starts_in_recovery_def by blast
  then show ?thesis using assms(2) RestoreCaptureTargetState_inv [OF assms(1)] restore_with_inv [OF assms(1)]
    unfolding restores_def RestoreState_def RestoreShadowState_def by (auto split: if_splits)
qed

lemma reachable_inv: "sched_reachable fp sha s \<Longrightarrow> sched_inv fp s"
proof (induction rule: sched_reachable.induct)
  case (built cfg s)
  then show ?case by (rule New_inv)
next
  case (stepped s s')
  then show ?case using sched.step_inv by blast
next
  case (snapped s s' sp)
  then show ?case using take_Snapshot_inv by blast
qed (use restores_inv in \<open>unfold restores_def, blast\<close>)+

section \<open>Properties\<close>

text \<open>The events that must stop all suppression, with the time until which it has to stop.\<close>

inductive recovery_event :: "fplib \<Rightarrow> (Config \<Rightarrow> string res) \<Rightarrow> Scheduler \<Rightarrow> Scheduler \<Rightarrow> int \<Rightarrow> bool" for fp sha where
  escape: "ObserveEscape fp s i protocol t = Inr s' \<Longrightarrow> accepts s i protocol t \<Longrightarrow> cfg_Mode (s_cfg s) = ModeGated \<Longrightarrow>
    s_selected s \<noteq> None \<Longrightarrow> recovery_event fp sha s s' (i64 (s_lastEnd s + RecoveryDuration (s_cfg s)))"
| gap: "Advance fp s start stop = Inr (s', d) \<Longrightarrow> discontinuity s start stop \<Longrightarrow>
    recovery_event fp sha s s' (i64 ((if start < stop \<and> 0 \<le> stop then stop else s_lastEnd s) + RecoveryDuration (s_cfg s)))"
| restart: "restores fp sha s s' \<Longrightarrow> cfg_Mode (s_cfg s') = ModeGated \<Longrightarrow>
    recovery_event fp sha s s' (i64 (s_lastEnd s' + RecoveryDuration (s_cfg s')))"

lemma recovery_event_until:
  assumes "recovery_event fp sha s s' until" "sched_inv fp s"
  shows "sched_inv fp s' \<and> until \<le> s_recoveryUntil s'"
  using assms(1)
proof cases
  case (escape i protocol t)
  then show ?thesis using escape_recovers [OF assms(2)] observe_inv [OF _ assms(2)] unfolding ObserveEscape_def by blast
next
  case (gap start stop d)
  then show ?thesis using discontinuity_recovers [OF assms(2)] Advance_inv [OF _ assms(2)] by blast
next
  case restart
  then show ?thesis using restores_inv [OF assms(2)] by (auto simp: starts_in_recovery_def)
qed


text \<open>C28: After an escape, a gap in the clock or a restart in gated mode the scheduler decodes every block
  that ends before the recovery time has passed, whatever happens in between.\<close>
theorem recovery_decodes_every_block:
  assumes "sched_reachable fp sha s" "recovery_event fp sha s s0 until" "(sched_step fp)\<^sup>*\<^sup>* s0 s1"
    "Advance fp s1 start stop = Inr (s2, d)" "stop < until"
  shows "dec_Decode d"
  using recovery_event_until [OF assms(2) reachable_inv [OF assms(1)]] recovery_holds [OF _ assms(3,4)] assms(5) by fastforce

section \<open>A concrete scheduler\<close>

text \<open>One sender seen every microsecond, a state restored from a checkpoint, and the next blocks.\<close>

definition demo_lib :: fplib where
  "demo_lib = \<lparr>Pow = (\<lambda>_ _. Fin 1), Lgamma = (\<lambda>_. Fin 0), Log = (\<lambda>_. Fin 0), Log1p = (\<lambda>_. Fin 0), Expf = (\<lambda>_. Fin 1),
     out_of_range = (\<lambda>_. 0)\<rparr>"

definition demo_sha :: "Config \<Rightarrow> string res" where "demo_sha _ = Inr ''demo''"

definition demo_candidate :: CandidateConfig where
  "demo_candidate =
     \<lparr>Name = ''demo'', HistoryLimit = 4, MinHistoryLimit = 2, WarmupIntervals = 2, R900Floor = 10, OtherFloor = 10,
      JitterQuantile = Fin 1, JitterMargin = 0, PreScale = Fin 1, PostScale = Fin 1, AuditFraction = Fin 0,
      ChangePointScale = Fin 2, HistoryGrowAfter = 8, WakeScaleStep = Fin 2, MaxWakeScale = Fin 4\<rparr>"

definition demo_config :: Config where
  "demo_config =
     \<lparr>cfg_Mode = ''gated'', Senders = [\<lparr>ID = 7, Overdue = 100000, CountWindow = 100000, MinimumCount = 1\<rparr>],
      Candidates = [demo_candidate], CaptureTarget = Fin (1 / 2), Confidence = Fin (1 / 2), MinimumAudit = Fin 0,
      RecoveryDuration = 100, RefreshInterval = 50000, RefreshDuration = 10, PromotionMargin = Fin (1 / 4),
      PromotionStability = 1, WatchdogHistory = 4, WatchdogMinIntervals = 2, WatchdogWindow = 100000,
      WatchdogQuantile = Fin 1, WatchdogMargin = Fin (1 / 4), RandomSeed = 1\<rparr>"

definition demo_state :: State where
  "demo_state =
     \<lparr>st_Schema = ''rtlamr-duty-scheduler-state-v2'', st_ConfigSHA256 = ''demo'', st_LastEndNS = 3200, st_Started = True,
      st_RecoveryUntilNS = 0, st_DeadlineDeficits = 0, st_CountDeficits = 0, st_Discontinuities = 0, st_RefreshUntilNS = 0,
      st_NextRefreshNS = 0, st_Refreshes = 0, st_RNG = 1,
      st_Senders = [\<lparr>ss_ID = 7, ss_Protocol = ''SCM'', ss_LastSeenNS = 3000, ss_Seen = True, ss_ObservationsNS = [1000, 2000, 3000],
        ss_Total = 3, ss_OverdueOpen = False, ss_CountOpen = False, ss_DeadlineDeficits = 0, ss_CountDeficits = 0,
        ss_GapsNS = [1000, 1000], ss_LearnedOverdueNS = 0, ss_LearnedMinimumCount = 0, ss_WatchdogLearned = False,
        ss_ObligationDueNS = 103000, ss_ObligationOpen = True, ss_ObligationsOpened = 3, ss_ObligationsClosed = 2,
        ss_ObligationDeficits = 0\<rparr>],
      st_Candidates = [\<lparr>cs_Name = ''demo'', cs_LastEligible = True, cs_LastAwake = False, cs_TotalDurationNS = 3200,
        cs_TotalAwakeNS = 2100, cs_EligibleDurationNS = 200, cs_AwakeDurationNS = 10, cs_Invalid = False, cs_Qualified = True,
        cs_Epoch = 1, cs_WakeScale = Fin 1, cs_PromotionReadyNS = 3000, cs_RecoveryUntilNS = 0,
        cs_Senders = [\<lparr>ms_ID = 7, ms_Protocol = ''SCM'', ms_HistoryNS = [1000, 1000], ms_LastNS = 3000, ms_Seen = True,
          ms_Learned = True, ms_PeriodNS = 1000, ms_AnchorNS = 3000, ms_PreWakeNS = 10, ms_PostWakeNS = 10, ms_Events = 3,
          ms_Misses = 0, ms_EffectiveHistory = 2, ms_StableIntervals = 0, ms_ChangePoints = 0\<rparr>]\<rparr>],
      st_Protocols = [\<lparr>ps_Name = ''SCM'', ps_Observations = 3, ps_DeadlineDeficits = 0, ps_CountDeficits = 0, ps_ObligationDeficits = 0\<rparr>]\<rparr>"

definition the_res :: "'a res \<Rightarrow> 'a" where "the_res r = (case r of Inr x \<Rightarrow> x | Inl _ \<Rightarrow> undefined)"

definition demo0 :: Scheduler where "demo0 = the_res (New demo_config)"
definition demo1 :: Scheduler where "demo1 = the_res (RestoreState demo_lib demo_sha demo0 demo_state)"
definition demo2 :: Scheduler where "demo2 = fst (the_res (Advance demo_lib demo1 3200 3350))"
definition demo3 :: "Scheduler \<times> Decision" where "demo3 = the_res (Advance demo_lib demo2 3350 3400)"

lemma the_res_Inr: "\<not> isl r \<Longrightarrow> r = Inr (the_res r)"
  by (cases r) (simp_all add: the_res_def)

lemma demo0: "New demo_config = Inr demo0"
  unfolding demo0_def by (rule the_res_Inr) code_simp

lemma demo1: "RestoreState demo_lib demo_sha demo0 demo_state = Inr demo1"
  unfolding demo1_def by (rule the_res_Inr) code_simp

lemma demo2: "Advance demo_lib demo1 3200 3350 = Inr (demo2, snd (the_res (Advance demo_lib demo1 3200 3350)))"
  unfolding demo2_def by (simp, rule the_res_Inr) code_simp

lemma demo3: "Advance demo_lib demo2 3350 3400 = Inr (fst demo3, snd demo3)" "\<not> dec_Decode (snd demo3)"
proof -
  show "Advance demo_lib demo2 3350 3400 = Inr (fst demo3, snd demo3)" unfolding demo3_def by (simp, rule the_res_Inr) code_simp
  show "\<not> dec_Decode (snd demo3)" by code_simp
qed

lemma demo_reachable: "sched_reachable demo_lib demo_sha demo0" "sched_reachable demo_lib demo_sha demo1" "sched_reachable demo_lib demo_sha demo2"
proof -
  have "representable (1 / 2)" using scaled_representable [of 1 "- 1"] by (simp add: pow2_def)
  then show 0: "sched_reachable demo_lib demo_sha demo0" by (intro sched_reachable.built [OF demo0]) (simp add: demo_config_def)
  show 1: "sched_reachable demo_lib demo_sha demo1" by (rule sched_reachable.restored [OF 0 demo1])
  show "sched_reachable demo_lib demo_sha demo2" by (rule sched_reachable.stepped [OF 1 sched_step.advance [OF demo2]])
qed


definition demo4 :: "Scheduler \<times> Decision" where "demo4 = the_res (Advance demo_lib demo1 3200 3250)"

lemma demo_restart: "recovery_event demo_lib demo_sha demo0 demo1 3300"
proof -
  have g: "cfg_Mode (s_cfg demo1) = ModeGated" by code_simp
  have u: "i64 (s_lastEnd demo1 + RecoveryDuration (s_cfg demo1)) = 3300" by code_simp
  have "restores demo_lib demo_sha demo0 demo1" unfolding restores_def using demo1 by blast
  then show ?thesis using recovery_event.restart [of demo_lib demo_sha demo0 demo1] g u by simp
qed

lemma demo4: "Advance demo_lib demo1 3200 3250 = Inr (fst demo4, snd demo4)"
  unfolding demo4_def by (simp, rule the_res_Inr) code_simp

theorem recovery_decodes_every_block_witness: "dec_Decode (snd demo4)"
  by (rule recovery_decodes_every_block [OF demo_reachable(1) demo_restart rtranclp.rtrancl_refl demo4]) simp

end
