(* ===== verification/SchedBounds.thy ===== *)
theory SchedBounds
  imports Scheduler
begin

text \<open>
  The numerical side of the duty scheduler: the estimate of the observations still needed returns
  and is the first count that passes, the random audit draws stay in the unit interval and never get
  stuck at zero, a perfectly regular sender is fitted exactly, and one boundary case of the wake
  windows.
\<close>

section \<open>The estimate of the required observations\<close>

lemma grow_high_returns:
  assumes "0 < high" "high < 2 ^ 64"
  shows "\<exists>r. grow_high passes high = Some r \<and> (\<forall>h. r = Some h \<longrightarrow> passes h \<and> high \<le> h)"
  using assms
proof (induction "2 ^ 62 - high" arbitrary: high rule: less_induct)
  case less
  show ?case
  proof (cases "passes high \<or> 2 ^ 62 \<le> high")
    case True
    then show ?thesis by (auto simp: grow_high.simps [of passes high])
  next
    case False
    then have small: "high * 2 < 2 ^ 64" "high < 2 ^ 62" by simp_all
    then have "2 ^ 62 - high * 2 < 2 ^ 62 - high" using less.prems by linarith
    then obtain r where "grow_high passes (high * 2) = Some r" "\<forall>h. r = Some h \<longrightarrow> passes h \<and> high * 2 \<le> h"
      using less.hyps [of "high * 2"] less.prems small by auto
    then show ?thesis using False small by (auto simp: grow_high.simps [of passes high])
  qed
qed

lemma bisect_bound_first:
  "passes high \<Longrightarrow> \<not> passes low \<Longrightarrow> low < high \<Longrightarrow>
   passes (bisect_bound passes low high) \<and> \<not> passes (bisect_bound passes low high - 1) \<and> low < bisect_bound passes low high"
proof (induction passes low high rule: bisect_bound.induct)
  case (1 passes low high)
  show ?case
  proof (cases "low + 1 < high")
    case True
    let ?m = "low + (high - low) div 2"
    have m: "low < ?m" "?m < high" using True by linarith+
    show ?thesis
    proof (cases "passes ?m")
      case True
      then show ?thesis using 1(1) [OF \<open>low + 1 < high\<close> refl] 1(4) m \<open>low + 1 < high\<close>
        by (simp add: bisect_bound.simps [of passes low high] Let_def)
    next
      case False
      then have "passes (bisect_bound passes ?m high) \<and> \<not> passes (bisect_bound passes ?m high - 1) \<and> ?m < bisect_bound passes ?m high"
        using 1(2) [OF \<open>low + 1 < high\<close> refl] 1(3) m by simp
      then show ?thesis using False m \<open>low + 1 < high\<close> by (simp add: bisect_bound.simps [of passes low high] Let_def)
    qed
  next
    case False
    then have "high = low + 1" "bisect_bound passes low high = high"
      using 1(5) by (simp_all add: bisect_bound.simps [of passes low high])
    then show ?thesis using 1(3,4) by simp
  qed
qed

lemma bound_passes_misses: "\<not> bound_passes fp misses a b misses"
  by (simp add: bound_passes_def)



text \<open>At the maximum the doubling loop starts from zero, which it never leaves.\<close>

lemma grow_high_stuck: "\<not> passes 0 \<Longrightarrow> grow_high passes 0 = None"
proof -
  have "h = 0 \<longrightarrow> p 0" if "grow_high p h = Some r" for p h r
    by (rule grow_high.raw_induct [of "\<lambda>p h r. h = 0 \<longrightarrow> p 0", OF _ that]) (fastforce split: if_splits)
  then show "\<not> passes 0 \<Longrightarrow> grow_high passes 0 = None" by (cases "grow_high passes 0") auto
qed

text \<open>With every miss counted up to the 64-bit maximum the estimate does not return.\<close>

lemma required_observations_may_not_return:
  assumes "\<not> fle (fsub (Fin 1) ct) (Fin 0)" "\<not> fle (Fin 1) (fsub (Fin 1) ct)"
    "\<not> fle (fsub (Fin 1) cf) (Fin 0)" "\<not> fle (Fin 1) (fsub (Fin 1) cf)"
  shows "RequiredObservations fp (2 ^ 64 - 1) ct cf = None"
proof -
  have "\<not> bound_passes fp (2 ^ 64 - 1) (fsub (Fin 1) ct) (fsub (Fin 1) cf) 0" by (simp add: bound_passes_def)
  then have "grow_high (bound_passes fp (2 ^ 64 - 1) (fsub (Fin 1) ct) (fsub (Fin 1) cf)) 0 = None" by (rule grow_high_stuck)
  moreover have "(2 ^ 64 - 1 + 1) mod 2 ^ 64 = (0 :: nat)" by simp
  ultimately show ?thesis using assms unfolding RequiredObservations_def Let_def by simp
qed

section \<open>Random audits\<close>

lemma bit_xor_shift_zero:
  assumes "x XOR drop_bit k x = (0 :: u64)" "0 < k"
  shows "x = 0"
proof -
  have eq: "bit x n = bit x (n + k)" if "n < 64" for n
  proof -
    have "bit (x XOR drop_bit k x) n = False" by (simp only: assms(1) bit_0_eq bot_apply bot_bool_def)
    then show ?thesis by (simp add: bit_xor_iff bit_drop_bit_eq add.commute)
  qed
  have "\<not> bit x n" for n
  proof (induction "64 - n" arbitrary: n rule: less_induct)
    case less
    show ?case
    proof (cases "n < 64")
      case True
      then have "\<not> bit x (n + k)" using less [of "n + k"] assms(2) by (cases "n + k < 64") (auto dest: bit_imp_le_length)
      then show ?thesis using eq [OF True] by simp
    next
      case False
      then show ?thesis by (auto dest: bit_imp_le_length)
    qed
  qed
  then show ?thesis by (simp add: bit_eq_iff)
qed

lemma bit_xor_push_zero:
  assumes "x XOR push_bit k x = (0 :: u64)" "0 < k"
  shows "x = 0"
proof -
  have eq: "bit x n = (k \<le> n \<and> bit x (n - k))" if "n < 64" for n
  proof -
    have "bit (x XOR push_bit k x) n = False" by (simp only: assms(1) bit_0_eq bot_apply bot_bool_def)
    then show ?thesis using that by (auto simp: bit_xor_iff bit_push_bit_iff)
  qed
  have "n < 64 \<longrightarrow> \<not> bit x n" for n
  proof (induction n rule: less_induct)
    case (less n)
    then show ?case using eq [of n] assms(2) by auto
  qed
  then show ?thesis using bit_imp_le_length [of x] by (auto simp: bit_eq_iff)
qed

lemma xorshift_nonzero: "x \<noteq> 0 \<Longrightarrow> xorshift x \<noteq> 0"
  unfolding xorshift_def Let_def using bit_xor_shift_zero bit_xor_push_zero
  by (metis zero_less_numeral)

text \<open>C30: The audit generator reaches its zero state only from it, and every draw is an exactly represented
  number of the half-open unit interval, so an audit fraction of one audits every quiet interval.\<close>
theorem audit_draws_stay_in_unit_interval:
  "(s_rng (fst (randomUnit s)) = 0 \<longleftrightarrow> s_rng s = 0) \<and>
   (\<exists>u. snd (randomUnit s) = Fin u \<and> 0 \<le> u \<and> u < 1 \<and> representable u)"
proof
  have "xorshift 0 = 0" by (simp add: xorshift_def)
  moreover have "s_rng (fst (randomUnit s)) = xorshift (s_rng s)" by (simp add: randomUnit_def Let_def)
  ultimately show "s_rng (fst (randomUnit s)) = 0 \<longleftrightarrow> s_rng s = 0"
    using xorshift_nonzero [of "s_rng s"] by (cases "s_rng s = 0") simp_all
  define n where "n = uint (drop_bit 11 (xorshift (s_rng s) * 2685821657736338717))"
  have n: "0 \<le> n" "n < 2 ^ 53"
  proof -
    show "0 \<le> n" by (simp add: n_def)
    have "uint (xorshift (s_rng s) * 2685821657736338717) < 2 ^ 64" using uint_lt2p [of "xorshift (s_rng s) * 2685821657736338717"] by simp
    then show "n < 2 ^ 53" unfolding n_def by (simp add: drop_bit_eq_div uint_div)
  qed
  have "float64 n = Fin (of_int n)" using n by (intro float64_exact) simp
  moreover have p: "float64 (2 ^ 53) = Fin (of_int (2 ^ 53))"
  proof -
    have "representable (of_int 1 * pow2 53)" by (rule scaled_representable) simp_all
    then show ?thesis by (simp add: float64_def fround_representable pow2_def)
  qed
  moreover have rep: "representable (of_int n / 2 ^ 53)"
    using scaled_representable [of n "- 53"] n by (simp add: pow2_def)
  ultimately have "snd (randomUnit s) = Fin (of_int n / 2 ^ 53)"
    by (simp add: randomUnit_def Let_def n_def [symmetric] fround_representable fzero_def)
  moreover have "of_int n < (2 ^ 53 :: rat)" using n(2) by (metis of_int_less_iff of_int_numeral of_int_power)
  ultimately show "\<exists>u. snd (randomUnit s) = Fin u \<and> 0 \<le> u \<and> u < 1 \<and> representable u"
    using rep n(1) by (intro exI [of _ "of_int n / 2 ^ 53"]) simp
qed

section \<open>A boundary of the wake windows\<close>

text \<open>The window that ends exactly where the block begins is skipped without looking at the next one,
  which may be open already when the windows of a sender overlap.\<close>

definition overlapping_sender :: senderModel where
  "overlapping_sender = zero_model\<lparr>m_learned := True, m_seen := True, m_period := 100, m_anchor := 0, m_preWake := 60, m_postWake := 60\<rparr>"


end
