(* ===== verification/DutyRuntime.thy ===== *)
theory DutyRuntime
  imports SchedState Packet
begin

text \<open>
  The runtime of the duty scheduler (\<^verbatim>\<open>src/duty_runtime.go\<close>): it drives the scheduler by a sample
  clock, one block at a time, counts what is decoded and skipped, and keeps the collar, a ring of the last blocks
  from which a gated receiver rebuilds its decoder when it wakes.

  A \<^verbatim>\<open>time.Time\<close> is the \<open>int\<close> of its nanoseconds since the zero time. The 64-bit counters of blocks
  are words, as they may be restored from a file. The collar entries are values: the data of an entry is the
  bytes it refers to, and \<open>None\<close> is the nil slice. That a borrowed block keeps its bytes as long as the
  collar refers to it is the contract of a source that retains its input.
\<close>

section \<open>64-bit division\<close>

text \<open>Division of signed integers truncates towards zero; a zero divisor panics.\<close>

definition go_quot :: "int \<Rightarrow> int \<Rightarrow> int" where
  "go_quot a b = sgn a * sgn b * (\<bar>a\<bar> div \<bar>b\<bar>)"

definition go_div :: "int \<Rightarrow> int \<Rightarrow> int res" where
  "go_div a b = (if b = 0 then Inl (Panic ''integer divide by zero'') else Inr (i64 (go_quot a b)))"

definition go_rem :: "int \<Rightarrow> int \<Rightarrow> int" where
  "go_rem a b = a - b * go_quot a b"

lemma go_quot_nonneg [simp]: "0 \<le> a \<Longrightarrow> 0 \<le> b \<Longrightarrow> go_quot a b = a div b"
  by (cases "a = 0"; cases "b = 0") (simp_all add: go_quot_def)

lemma go_rem_nonneg [simp]: "0 \<le> a \<Longrightarrow> 0 \<le> b \<Longrightarrow> go_rem a b = a mod b"
  by (simp add: go_rem_def minus_mult_div_eq_mod)

section \<open>The collar\<close>

definition dutyCollarDuration :: int where
  "dutyCollarDuration = 100 * Millisecond"

definition warmup_count :: "PacketConfig \<Rightarrow> int res" where
  "warmup_count cfg = go_div (i64 (int (BufferLength cfg) + int (BlockSize cfg) - 1)) (int (BlockSize cfg))"

definition dutyCollarBlockCount :: "PacketConfig \<Rightarrow> int res" where
  "dutyCollarBlockCount cfg =
     bind_res (go_div (i64 (i64 (int (SampleRate cfg) * dutyCollarDuration) + i64 (Second * int (BlockSize cfg)) - 1))
                      (i64 (Second * int (BlockSize cfg)))) (\<lambda>collarBlocks.
     bind_res (warmup_count cfg) (\<lambda>warmupBlocks.
     Inr (if collarBlocks \<le> warmupBlocks then i64 (warmupBlocks + 1) else collarBlocks)))"

type_synonym Time = int

record dutyCollarBlock =
  e_data :: "u8 list option"
  e_sampleStart :: int
  e_sampleEnd :: int
  e_wallTime :: Time
  e_decoded :: bool
  e_rawValid :: bool

record dutyResumeInfo =
  ri_Status :: string
  ri_SourceFile :: string
  ri_SourceSHA256 :: string
  ri_SourceSchema :: string
  ri_SourceCreatedUTC :: string
  ri_SourceSequence :: u64
  ri_SkippedCheckpoints :: u64
  ri_PendingReceipt :: bool

definition fresh_resume :: "string \<Rightarrow> dutyResumeInfo" where
  "fresh_resume status = \<lparr>ri_Status = status, ri_SourceFile = [], ri_SourceSHA256 = [], ri_SourceSchema = [],
     ri_SourceCreatedUTC = [], ri_SourceSequence = 0, ri_SkippedCheckpoints = 0, ri_PendingReceipt = False\<rparr>"

text \<open>A map from identifiers to \<^verbatim>\<open>true\<close> is the list of its keys.\<close>

record dutyRuntime =
  d_mode :: Mode
  d_scheduler :: Scheduler
  d_schedulerConfig :: Config
  d_captureTarget :: f64
  d_confidence :: f64
  d_minimumAudit :: f64
  d_recoveryDuration :: int
  d_refreshInterval :: int
  d_refreshDuration :: int
  d_promotionMargin :: f64
  d_promotionStability :: int
  d_watchdogHistory :: int
  d_watchdogMinIntervals :: int
  d_watchdogWindow :: int
  d_watchdogQuantile :: f64
  d_watchdogMargin :: f64
  d_senderIDs :: "u64 list"
  d_sampleRate :: int
  d_blockSamples :: int
  d_blockBytes :: nat
  d_sampleTime :: int
  d_sampleRemainder :: int
  d_collar :: "dutyCollarBlock list"
  d_collarCount :: nat
  d_collarNext :: nat
  d_warmupBlocks :: int
  d_borrowRaw :: bool
  d_wasSkipped :: bool
  d_skippedRun :: nat
  d_decodedBlocks :: u64
  d_skippedBlocks :: u64
  d_auditedBlocks :: u64
  d_refreshBlocks :: u64
  d_rebuilds :: u64
  d_replayedBlocks :: u64
  d_startedUTC :: Time
  d_checkpointDir :: string
  d_checkpointInterval :: int
  d_nextCheckpointUTC :: Time
  d_checkpointSequence :: u64
  d_checkpointFailures :: u64
  d_resume :: dutyResumeInfo

definition useBorrowedCollar :: "dutyRuntime \<Rightarrow> nat \<Rightarrow> dutyRuntime res" where
  "useBorrowedCollar d retainedBlocks =
     (if retainedBlocks < length (d_collar d)
      then Inl (Err ''dutyscheduler: source retains fewer blocks than the collar requires'')
      else Inr (d\<lparr>d_collar := map (\<lambda>e. e\<lparr>e_data := None\<rparr>) (d_collar d), d_borrowRaw := True\<rparr>))"

section \<open>Construction\<close>

definition empty_block :: "nat \<Rightarrow> dutyCollarBlock" where
  "empty_block blockBytes = \<lparr>e_data = Some (replicate blockBytes 0), e_sampleStart = 0, e_sampleEnd = 0, e_wallTime = 0,
     e_decoded = False, e_rawValid = False\<rparr>"

definition newDutyRuntimeWithConfig :: "PacketConfig \<Rightarrow> u64 list \<Rightarrow> Config \<Rightarrow> Time \<Rightarrow> dutyRuntime res" where
  "newDutyRuntimeWithConfig cfg ids schedulerConfig now =
     bind_res (New schedulerConfig) (\<lambda>scheduler.
     let mode = cfg_Mode schedulerConfig; sc = Configuration scheduler in
     if SampleRate cfg = 0 \<or> BlockSize cfg = 0 \<or> BlockSize2 cfg = 0 \<or> BufferLength cfg = 0
     then Inl (Err ''dutyscheduler: invalid decoder geometry'')
     else bind_res (dutyCollarBlockCount cfg) (\<lambda>collarBlocks.
     bind_res (warmup_count cfg) (\<lambda>warmupBlocks.
     if collarBlocks < 0 then Inl (Panic ''makeslice: len out of range'')
     else Inr
      \<lparr>d_mode = mode, d_scheduler = scheduler, d_schedulerConfig = sc, d_captureTarget = CaptureTarget sc,
       d_confidence = Confidence sc, d_minimumAudit = MinimumAudit sc, d_recoveryDuration = RecoveryDuration sc,
       d_refreshInterval = RefreshInterval sc, d_refreshDuration = RefreshDuration sc,
       d_promotionMargin = PromotionMargin sc, d_promotionStability = PromotionStability sc,
       d_watchdogHistory = WatchdogHistory sc, d_watchdogMinIntervals = WatchdogMinIntervals sc,
       d_watchdogWindow = WatchdogWindow sc, d_watchdogQuantile = WatchdogQuantile sc, d_watchdogMargin = WatchdogMargin sc,
       d_senderIDs = remdups ids, d_sampleRate = int (SampleRate cfg), d_blockSamples = int (BlockSize cfg),
       d_blockBytes = BlockSize2 cfg, d_sampleTime = 0, d_sampleRemainder = 0,
       d_collar = replicate (nat collarBlocks) (empty_block (BlockSize2 cfg)), d_collarCount = 0, d_collarNext = 0,
       d_warmupBlocks = warmupBlocks, d_borrowRaw = False, d_wasSkipped = False, d_skippedRun = 0,
       d_decodedBlocks = 0, d_skippedBlocks = 0, d_auditedBlocks = 0, d_refreshBlocks = 0, d_rebuilds = 0,
       d_replayedBlocks = 0, d_startedUTC = now, d_checkpointDir = [], d_checkpointInterval = 0, d_nextCheckpointUTC = 0,
       d_checkpointSequence = 0, d_checkpointFailures = 0, d_resume = fresh_resume ''FRESH''\<rparr>)))"

definition newDutyRuntimeWithCaptureTarget :: "Mode \<Rightarrow> PacketConfig \<Rightarrow> u64 list \<Rightarrow> f64 \<Rightarrow> Time \<Rightarrow> dutyRuntime option res" where
  "newDutyRuntimeWithCaptureTarget mode cfg ids captureTarget now =
     (if mode = ModeOff then Inr None
      else bind_res (newDutyRuntimeWithConfig cfg ids ((DefaultConfig mode ids)\<lparr>CaptureTarget := captureTarget\<rparr>) now)
             (\<lambda>d. Inr (Some d)))"

definition newDutyRuntime :: "Mode \<Rightarrow> PacketConfig \<Rightarrow> u64 list \<Rightarrow> Time \<Rightarrow> dutyRuntime option res" where
  "newDutyRuntime mode cfg ids now = newDutyRuntimeWithCaptureTarget mode cfg ids (CaptureTarget (DefaultConfig mode ids)) now"

section \<open>One block\<close>

text \<open>The clock: the remainder of the division is carried to the next block.\<close>

definition tick_clock :: "dutyRuntime \<Rightarrow> (dutyRuntime \<times> int \<times> int) res" where
  "tick_clock d =
     (let start = d_sampleTime d;
          numerator = i64 (i64 (d_blockSamples d * Second) + d_sampleRemainder d)
      in bind_res (go_div numerator (d_sampleRate d)) (\<lambda>delta.
         let end_time = i64 (start + delta)
         in Inr (d\<lparr>d_sampleRemainder := go_rem numerator (d_sampleRate d), d_sampleTime := end_time\<rparr>, start, end_time)))"

definition beginBlock :: "fplib \<Rightarrow> dutyRuntime \<Rightarrow> (dutyRuntime \<times> int \<times> int \<times> Decision) res" where
  "beginBlock fp d =
     bind_res (tick_clock d) (\<lambda>(d, start, end_time).
     bind_res (Advance fp (d_scheduler d) start end_time) (\<lambda>(s, dec).
     Inr (d\<lparr>d_scheduler := s\<rparr>, start, end_time, dec)))"

definition needsRebuild :: "dutyRuntime \<Rightarrow> Decision \<Rightarrow> bool" where
  "needsRebuild d dec \<longleftrightarrow> d_mode d = ModeGated \<and> d_wasSkipped d \<and> dec_Decode dec"

definition retained_data :: "dutyRuntime \<Rightarrow> bool \<Rightarrow> u8 list option \<Rightarrow> u8 list \<Rightarrow> u8 list option" where
  "retained_data d rawValid old block_bytes =
     (if rawValid
      then if d_borrowRaw d then Some block_bytes
           else map_option (\<lambda>xs. copy_into xs block_bytes) old
      else if d_borrowRaw d then None else old)"

definition store_block :: "dutyRuntime \<Rightarrow> dutyCollarBlock \<Rightarrow> dutyRuntime" where
  "store_block d e =
     (let collar = (d_collar d)[d_collarNext d := e]; nx = d_collarNext d + 1
      in d\<lparr>d_collar := collar, d_collarNext := (if nx = length collar then 0 else nx),
           d_collarCount := (if d_collarCount d < length collar then d_collarCount d + 1 else d_collarCount d)\<rparr>)"

definition finishBlock :: "dutyRuntime \<Rightarrow> u8 list \<Rightarrow> int \<Rightarrow> int \<Rightarrow> Time \<Rightarrow> Decision \<Rightarrow> dutyRuntime res" where
  "finishBlock d block_bytes start end_time wallTime dec =
     bind_res (index_res (d_collar d) (d_collarNext d)) (\<lambda>entry.
     let rawValid = (\<not> dec_Decode dec);
         d1 = store_block d (entry\<lparr>e_rawValid := rawValid, e_data := retained_data d rawValid (e_data entry) block_bytes,
                e_sampleStart := start, e_sampleEnd := end_time, e_wallTime := wallTime, e_decoded := dec_Decode dec\<rparr>);
         d2 = (if dec_Decode dec then d1\<lparr>d_decodedBlocks := d_decodedBlocks d1 + 1, d_skippedRun := 0\<rparr>
               else d1\<lparr>d_skippedBlocks := d_skippedBlocks d1 + 1, d_skippedRun := d_skippedRun d1 + 1\<rparr>);
         d3 = (if dec_Audit dec then d2\<lparr>d_auditedBlocks := d_auditedBlocks d2 + 1\<rparr> else d2);
         d4 = (if dec_Refresh dec then d3\<lparr>d_refreshBlocks := d_refreshBlocks d3 + 1\<rparr> else d3)
     in Inr (d4\<lparr>d_wasSkipped := \<not> dec_Decode dec\<rparr>))"

definition collar_index :: "dutyRuntime \<Rightarrow> nat \<Rightarrow> int" where
  "collar_index d offset =
     (let start = int (d_collarNext d) - int (d_collarCount d);
          start = (if start < 0 then start + int (length (d_collar d)) else start);
          idx = start + int offset
      in if idx \<ge> int (length (d_collar d)) then idx - int (length (d_collar d)) else idx)"

definition orderedCollar :: "dutyRuntime \<Rightarrow> dutyCollarBlock list res" where
  "orderedCollar d =
     mapM_res (\<lambda>offset. let idx = collar_index d offset in
        if idx < 0 then Inl (Panic ''index out of range'') else index_res (d_collar d) (nat idx)) [0..<d_collarCount d]"

definition duty_observe :: "fplib \<Rightarrow> dutyRuntime \<Rightarrow> u64 \<Rightarrow> string \<Rightarrow> int \<Rightarrow> dutyRuntime res" where
  "duty_observe fp d i protocolName t =
     (if i \<in> set (d_senderIDs d)
      then bind_res (Observe fp (d_scheduler d) i protocolName t) (\<lambda>s. Inr (d\<lparr>d_scheduler := s\<rparr>)) else Inr d)"

definition duty_observeEscape :: "fplib \<Rightarrow> dutyRuntime \<Rightarrow> u64 \<Rightarrow> string \<Rightarrow> int \<Rightarrow> dutyRuntime res" where
  "duty_observeEscape fp d i protocolName t =
     (if i \<in> set (d_senderIDs d)
      then bind_res (ObserveEscape fp (d_scheduler d) i protocolName t) (\<lambda>s. Inr (d\<lparr>d_scheduler := s\<rparr>)) else Inr d)"

definition recordRebuild :: "dutyRuntime \<Rightarrow> nat \<Rightarrow> dutyRuntime" where
  "recordRebuild d replayed =
     d\<lparr>d_rebuilds := d_rebuilds d + 1, d_replayedBlocks := d_replayedBlocks d + of_nat replayed\<rparr>"

section \<open>The ring of blocks\<close>

text \<open>A bounded log keeps the last entries that were pushed.\<close>

definition last_n :: "nat \<Rightarrow> 'a list \<Rightarrow> 'a list" where
  "last_n k xs = drop (length xs - k) xs"

lemma length_last_n [simp]: "length (last_n k xs) = min k (length xs)"
  by (simp add: last_n_def)

lemma last_n_all [simp]: "length xs \<le> k \<Longrightarrow> last_n k xs = xs"
  by (simp add: last_n_def)

lemma last_n_append: "last_n k (xs @ ys) = last_n (k - length ys) xs @ last_n k ys"
proof (cases "length ys \<le> k")
  case True
  then have "length xs + length ys - k = length xs - (k - length ys)" by simp
  then show ?thesis using True by (simp add: last_n_def)
qed (simp add: last_n_def)

lemma last_n_last_n: "last_n j (last_n k xs) = last_n (min j k) xs"
proof (cases "j \<le> k")
  case True
  then have "length xs - (length xs - k + j) + (length xs - k) = length xs - j" by linarith
  then show ?thesis using True by (simp add: last_n_def min_def)
qed (simp add: last_n_def min_def)

lemma last_n_glue: "last_n k (last_n k xs @ ys) = last_n k (xs @ ys)"
  by (simp add: last_n_append last_n_last_n min_def)

lemma last_n_map: "last_n k (map f xs) = map f (last_n k xs)"
  by (simp add: last_n_def drop_map)

lemma last_n_snoc: "last_n (Suc k) (xs @ [x]) = last_n k xs @ [x]"
  by (simp add: last_n_def)

locale bounded_log =
  fixes inv :: "'s \<Rightarrow> bool" and contents :: "'s \<Rightarrow> 'e list" and push :: "'s \<Rightarrow> 'e \<Rightarrow> 's" and cap :: "'s \<Rightarrow> nat"
  assumes keeps: "inv s \<Longrightarrow> inv (push s e) \<and> cap (push s e) = cap s"
    and positive: "inv s \<Longrightarrow> 0 < cap s"
    and pushed: "inv s \<Longrightarrow> contents (push s e) = last_n (cap s) (contents s @ [e])"
begin

lemma pushes:
  "inv s \<Longrightarrow> inv (foldl push s es) \<and> cap (foldl push s es) = cap s \<and>
     last_n (cap s) (contents (foldl push s es)) = last_n (cap s) (contents s @ es)"
proof (induction es arbitrary: s)
  case (Cons e es)
  have "last_n (cap s) (last_n (cap s) (contents s @ [e]) @ es) = last_n (cap s) (contents s @ e # es)"
    using last_n_glue [of "cap s" "contents s @ [e]" es] by simp
  then show ?case using Cons.IH [of "push s e"] keeps [OF Cons.prems, of e] pushed [OF Cons.prems, of e] by simp
qed simp

lemma full: "inv s \<Longrightarrow> contents s = [] \<Longrightarrow> contents (foldl push s es) = last_n (cap s) es"
proof (induction es rule: rev_induct)
  case (snoc e es)
  have "last_n (cap s) (last_n (cap s) es @ [e]) = last_n (cap s) (es @ [e])"
    by (simp add: last_n_append last_n_last_n)
  then show ?case using snoc pushes [OF snoc.prems(1), of es] pushed [of "foldl push s es" e] by simp
qed (simp add: last_n_def)

end

definition ring_ok :: "dutyRuntime \<Rightarrow> bool" where
  "ring_ok d \<longleftrightarrow> d_collarNext d < length (d_collar d) \<and> d_collarCount d \<le> length (d_collar d) \<and>
     (d_collarCount d < length (d_collar d) \<longrightarrow> d_collarNext d = d_collarCount d)"

definition collar_view :: "dutyRuntime \<Rightarrow> dutyCollarBlock list" where
  "collar_view d =
     (if d_collarCount d < length (d_collar d) then take (d_collarCount d) (d_collar d)
      else drop (d_collarNext d) (d_collar d) @ take (d_collarNext d) (d_collar d))"

lemma length_collar_view [simp]: "ring_ok d \<Longrightarrow> length (collar_view d) = d_collarCount d"
  by (auto simp: ring_ok_def collar_view_def)

lemma store_block_fields [simp]:
  "length (d_collar (store_block d e)) = length (d_collar d)"
  "d_scheduler (store_block d e) = d_scheduler d"
  by (simp_all add: store_block_def Let_def)

lemma store_block_ok:
  assumes "ring_ok d"
  shows "ring_ok (store_block d e)" "collar_view (store_block d e) = last_n (length (d_collar d)) (collar_view d @ [e])"
proof -
  let ?n = "length (d_collar d)" and ?k = "d_collarNext d" and ?c = "d_collarCount d"
  have r: "?k < ?n" "?c \<le> ?n" "?c < ?n \<longrightarrow> ?k = ?c" using assms by (auto simp: ring_ok_def)
  show "ring_ok (store_block d e)" using r by (auto simp: ring_ok_def store_block_def Let_def)
  show "collar_view (store_block d e) = last_n ?n (collar_view d @ [e])"
  proof (cases "?c < ?n")
    case True
    then have "?k = ?c" using r by simp
    moreover have "take (Suc ?c) ((d_collar d)[?c := e]) = take ?c (d_collar d) @ [e]"
      using True by (simp add: take_Suc_conv_app_nth)
    ultimately show ?thesis using True
      by (cases "Suc ?c = ?n") (auto simp: collar_view_def store_block_def Let_def last_n_def)
  next
    case False
    then have c: "?c = ?n" using r by simp
    have x: "take (Suc ?k) ((d_collar d)[?k := e]) = take ?k (d_collar d) @ [e]" "drop (Suc ?k) ((d_collar d)[?k := e]) = drop (Suc ?k) (d_collar d)"
      using r(1) by (simp_all add: take_Suc_conv_app_nth)
    have "last_n ?n (collar_view d @ [e]) = drop (Suc ?k) (d_collar d) @ take ?k (d_collar d) @ [e]"
      using r(1) c by (simp add: collar_view_def last_n_def drop_Suc [of 0, symmetric] tl_append2 flip: drop_Suc)
    then show ?thesis using c r(1) x
      by (cases "Suc ?k = ?n") (auto simp: collar_view_def store_block_def Let_def)
  qed
qed

interpretation collar_log: bounded_log ring_ok collar_view store_block "\<lambda>d. length (d_collar d)"
  by unfold_locales (auto simp: store_block_ok ring_ok_def [of s] simp del: append.simps, auto simp: ring_ok_def store_block_ok(2))

lemma orderedCollar_view:
  assumes "ring_ok d"
  shows "orderedCollar d = Inr (collar_view d)"
proof -
  let ?n = "length (d_collar d)" and ?k = "d_collarNext d" and ?c = "d_collarCount d"
  have r: "?k < ?n" "?c \<le> ?n" "?c < ?n \<longrightarrow> ?k = ?c" using assms by (auto simp: ring_ok_def)
  have i: "0 \<le> collar_index d j \<and> nat (collar_index d j) < ?n \<and> d_collar d ! nat (collar_index d j) = collar_view d ! j" if "j < ?c" for j
  proof (cases "?c < ?n")
    case True
    then have "?k = ?c" using r by simp
    then show ?thesis using True that r by (simp add: collar_index_def collar_view_def Let_def)
  next
    case False
    then have c: "?c = ?n" using r by simp
    then have e: "collar_index d j = (if int ?k + int j \<ge> int ?n then int ?k + int j - int ?n else int ?k + int j)"
      using r(1) by (simp add: collar_index_def Let_def)
    have "nat (int ?k + int j - int ?n) = ?k + j - ?n" "nat (int ?k + int j) = ?k + j" by linarith+
    then show ?thesis using c r(1) that unfolding e by (auto simp: collar_view_def nth_append add.commute)
  qed
  have "orderedCollar d = Inr (map (\<lambda>j. collar_view d ! j) [0..<?c])"
    unfolding orderedCollar_def
  proof (rule mapM_res_Inr)
    fix j assume "j \<in> set [0..<?c]"
    then have "0 \<le> collar_index d j" "nat (collar_index d j) < ?n" "d_collar d ! nat (collar_index d j) = collar_view d ! j" using i [of j] by simp_all
    then show "(let idx = collar_index d j in if idx < 0 then Inl (Panic ''index out of range'') else index_res (d_collar d) (nat idx)) =
        Inr (collar_view d ! j)" by (simp add: Let_def index_res_def)
  qed
  also have "map (\<lambda>j. collar_view d ! j) [0..<?c] = collar_view d" using map_nth [of "collar_view d"] assms by simp
  finally show ?thesis .
qed

section \<open>The clock\<close>

lemma div_carry:
  fixes x k r :: int
  assumes "0 < r"
  shows "(x + k) div r = x div r + (k + x mod r) div r" "(x + k) mod r = (k + x mod r) mod r"
proof -
  have "x + k = (k + x mod r) + r * (x div r)" by simp
  then show "(x + k) div r = x div r + (k + x mod r) div r" using assms
    by (metis add.commute div_mult_self2 less_irrefl)
  show "(x + k) mod r = (k + x mod r) mod r" by (simp add: mod_simps add.commute)
qed

definition clock_ok :: "dutyRuntime \<Rightarrow> bool" where
  "clock_ok d \<longleftrightarrow> 0 < d_sampleRate d \<and> 0 < d_blockSamples d \<and> d_blockSamples d * Second + d_sampleRate d < 2 ^ 63 \<and>
     0 \<le> d_sampleRemainder d \<and> d_sampleRemainder d < d_sampleRate d"

lemma tick_clock_keeps:
  assumes "clock_ok d"
  shows "\<exists>d'. tick_clock d = Inr (d', d_sampleTime d, d_sampleTime d') \<and> clock_ok d' \<and>
      d' = d\<lparr>d_sampleRemainder := d_sampleRemainder d', d_sampleTime := d_sampleTime d'\<rparr>"
proof -
  let ?num = "d_blockSamples d * Second + d_sampleRemainder d"
  have c: "0 < d_sampleRate d" "0 < d_blockSamples d" "d_blockSamples d * Second + d_sampleRate d < 2 ^ 63"
      "0 \<le> d_sampleRemainder d" "d_sampleRemainder d < d_sampleRate d"
    using assms by (auto simp: clock_ok_def)
  have "i64 (d_blockSamples d * Second) = d_blockSamples d * Second" "i64 ?num = ?num" using c by (simp_all add: i64_id)
  then show ?thesis using c by (simp add: tick_clock_def Let_def go_div_def clock_ok_def)
qed

lemma tick_clock_ok:
  assumes "clock_ok d"
  defines "num \<equiv> d_blockSamples d * Second + d_sampleRemainder d"
  assumes "0 \<le> d_sampleTime d" "d_sampleTime d + num div d_sampleRate d < 2 ^ 63"
  shows "tick_clock d = Inr (d\<lparr>d_sampleRemainder := num mod d_sampleRate d, d_sampleTime := d_sampleTime d + num div d_sampleRate d\<rparr>,
      d_sampleTime d, d_sampleTime d + num div d_sampleRate d)"
    "0 \<le> num div d_sampleRate d" "0 \<le> num mod d_sampleRate d" "num mod d_sampleRate d < d_sampleRate d"
proof -
  have c: "0 < d_sampleRate d" "0 < d_blockSamples d" "d_blockSamples d * Second + d_sampleRate d < 2 ^ 63"
      "0 \<le> d_sampleRemainder d" "d_sampleRemainder d < d_sampleRate d" "0 \<le> d_sampleTime d"
    using assms(1,3) by (auto simp: clock_ok_def)
  have n: "0 \<le> num" "num < 2 ^ 63" using c unfolding num_def by linarith+
  show q: "0 \<le> num div d_sampleRate d" "0 \<le> num mod d_sampleRate d" "num mod d_sampleRate d < d_sampleRate d"
    using n(1) c(1) by (simp_all add: pos_imp_zdiv_nonneg_iff)
  have "num div d_sampleRate d \<le> num" using n(1) c(1) zdiv_mono2 [of num 1 "d_sampleRate d"] by simp
  then have e: "i64 (num div d_sampleRate d) = num div d_sampleRate d" "i64 num = num" "i64 (d_sampleTime d + num div d_sampleRate d) = d_sampleTime d + num div d_sampleRate d"
    using n q(1) c(6) assms(4) by (simp_all add: i64_id)
  moreover have "i64 (d_blockSamples d * Second) = d_blockSamples d * Second" using c by (intro i64_id) simp_all
  ultimately show "tick_clock d = Inr (d\<lparr>d_sampleRemainder := num mod d_sampleRate d, d_sampleTime := d_sampleTime d + num div d_sampleRate d\<rparr>,
      d_sampleTime d, d_sampleTime d + num div d_sampleRate d)"
    using c(1) n(1) unfolding tick_clock_def Let_def num_def [symmetric] by (simp add: go_div_def num_def [symmetric])
qed

text \<open>After \<open>n\<close> blocks the clock stands at the exact number of samples, rounded down to nanoseconds,
  and the remainder holds the rest.\<close>

definition clock_at :: "dutyRuntime \<Rightarrow> nat \<Rightarrow> bool" where
  "clock_at d n \<longleftrightarrow> d_sampleTime d = int n * (d_blockSamples d * Second) div d_sampleRate d \<and>
     d_sampleRemainder d = int n * (d_blockSamples d * Second) mod d_sampleRate d"

lemma clock_at_ok:
  assumes "clock_at d n" "0 < d_sampleRate d" "0 < d_blockSamples d" "d_blockSamples d * Second + d_sampleRate d < 2 ^ 63"
  shows "clock_ok d"
  using assms by (simp add: clock_ok_def clock_at_def pos_imp_zdiv_nonneg_iff)

lemma tick_clock_at:
  assumes "clock_ok d" "clock_at d n" "int (Suc n) * (d_blockSamples d * Second) div d_sampleRate d < 2 ^ 63"
  shows "\<exists>d'. tick_clock d = Inr (d', int n * (d_blockSamples d * Second) div d_sampleRate d,
      int (Suc n) * (d_blockSamples d * Second) div d_sampleRate d) \<and> clock_at d' (Suc n) \<and> clock_ok d' \<and>
      d' = d\<lparr>d_sampleRemainder := d_sampleRemainder d', d_sampleTime := d_sampleTime d'\<rparr>"
proof -
  let ?k = "d_blockSamples d * Second" and ?r = "d_sampleRate d"
  have r: "0 < ?r" using assms(1) by (simp add: clock_ok_def)
  have t: "d_sampleTime d = int n * ?k div ?r" "d_sampleRemainder d = int n * ?k mod ?r" using assms(2) by (simp_all add: clock_at_def)
  have s: "int (Suc n) * ?k = int n * ?k + ?k" by (simp add: algebra_simps)
  have e: "int (Suc n) * ?k div ?r = d_sampleTime d + (?k + d_sampleRemainder d) div ?r"
      "int (Suc n) * ?k mod ?r = (?k + d_sampleRemainder d) mod ?r"
    unfolding s t by (rule div_carry [OF r, of "int n * ?k" ?k])+
  have "0 < d_blockSamples d" using assms(1) by (simp add: clock_ok_def)
  then have "0 \<le> d_sampleTime d" using r unfolding t(1) by (simp add: pos_imp_zdiv_nonneg_iff)
  note k = tick_clock_ok [OF assms(1) this]
  show ?thesis using k assms(1,3) t(1) unfolding e
    by (simp add: clock_at_def clock_ok_def e del: of_nat_Suc)
qed

section \<open>The invariant of the runtime\<close>

text \<open>A collar entry is well formed when its data has the size of a block; in copy mode every entry owns a buffer, in
  borrow mode an entry has data exactly when its raw data is valid.\<close>

definition entry_ok :: "dutyRuntime \<Rightarrow> dutyCollarBlock \<Rightarrow> bool" where
  "entry_ok d e \<longleftrightarrow>
     (case e_data e of Some b \<Rightarrow> length b = d_blockBytes d | None \<Rightarrow> d_borrowRaw d \<and> \<not> e_rawValid e)"

definition duty_wf :: "dutyRuntime \<Rightarrow> bool" where
  "duty_wf d \<longleftrightarrow> ring_ok d \<and> clock_ok d \<and> list_all (entry_ok d) (d_collar d) \<and>
     0 < d_warmupBlocks d \<and> d_warmupBlocks d < int (length (d_collar d)) \<and> (d_wasSkipped d \<longleftrightarrow> 0 < d_skippedRun d)"

text \<open>What the collar knows about the blocks that were skipped since the last decoded one: its last entries hold
  them, as far as it reaches.\<close>

definition skipped_entry :: "dutyCollarBlock \<Rightarrow> u8 list \<Rightarrow> bool" where
  "skipped_entry e b \<longleftrightarrow> e_data e = Some b \<and> e_rawValid e \<and> \<not> e_decoded e"

definition covers :: "dutyRuntime \<Rightarrow> u8 list list \<Rightarrow> bool" where
  "covers d bs \<longleftrightarrow> d_skippedRun d = length bs \<and>
     list_all2 skipped_entry (last_n (length bs) (collar_view d)) (last_n (length (d_collar d)) bs)"

lemma list_all2_last_n: "list_all2 P xs ys \<Longrightarrow> list_all2 P (last_n k xs) (last_n k ys)"
  by (simp add: last_n_def list_all2_lengthD list_all2_dropI)

lemma covers_push:
  assumes "ring_ok d" "covers d bs" "skipped_entry e b"
  shows "list_all2 skipped_entry (last_n (Suc (length bs)) (collar_view (store_block d e))) (last_n (length (d_collar d)) (bs @ [b]))"
proof -
  let ?n = "length (d_collar d)" and ?v = "collar_view d"
  have "0 < ?n" using assms(1) by (auto simp: ring_ok_def)
  then obtain m where m: "?n = Suc m" using gr0_implies_Suc by blast
  have "last_n (Suc (length bs)) (last_n ?n (?v @ [e])) = last_n m (last_n (length bs) ?v) @ [e]"
    by (simp add: m last_n_snoc last_n_last_n min.commute)
  moreover have "last_n ?n (bs @ [b]) = last_n m (last_n ?n bs) @ [b]"
    by (simp add: m last_n_snoc last_n_last_n)
  ultimately show ?thesis
    using assms(2,3) unfolding store_block_ok(2) [OF assms(1)] covers_def by (auto intro: list_all2_appendI list_all2_last_n)
qed

lemma finishBlock_ok:
  assumes "duty_wf d" "length b = d_blockBytes d"
  obtains d' e where "finishBlock d b start stop w dec = Inr d'" "duty_wf d'"
    "collar_view d' = collar_view (store_block d e)" "d_collar d' = d_collar (store_block d e)"
    "\<not> dec_Decode dec \<Longrightarrow> skipped_entry e b" "d_skippedRun d' = (if dec_Decode dec then 0 else Suc (d_skippedRun d))"
    "e_sampleEnd e = stop" "e_wallTime e = w"
    "d_scheduler d' = d_scheduler d" "d_mode d' = d_mode d" "d_wasSkipped d' = (\<not> dec_Decode dec)"
    "d_warmupBlocks d' = d_warmupBlocks d" "d_blockBytes d' = d_blockBytes d" "d_senderIDs d' = d_senderIDs d"
    "d_sampleTime d' = d_sampleTime d" "d_sampleRemainder d' = d_sampleRemainder d"
    "d_sampleRate d' = d_sampleRate d" "d_blockSamples d' = d_blockSamples d" "d_borrowRaw d' = d_borrowRaw d"
    "d_decodedBlocks d' + d_skippedBlocks d' = d_decodedBlocks d + d_skippedBlocks d + 1"
proof -
  let ?old = "d_collar d ! d_collarNext d"
  define e where "e = ?old\<lparr>e_rawValid := \<not> dec_Decode dec, e_data := retained_data d (\<not> dec_Decode dec) (e_data ?old) b,
    e_sampleStart := start, e_sampleEnd := stop, e_wallTime := w, e_decoded := dec_Decode dec\<rparr>"
  have r: "ring_ok d" "d_collarNext d < length (d_collar d)" and old: "entry_ok d ?old"
    using assms(1) by (auto simp: duty_wf_def ring_ok_def list_all_length)
  have sk: "\<not> dec_Decode dec \<Longrightarrow> skipped_entry e b" and ok: "entry_ok d e"
    using old assms(2) by (auto simp: e_def skipped_entry_def entry_ok_def retained_data_def copy_into_def split: option.splits if_splits)
  obtain d' where f: "finishBlock d b start stop w dec = Inr d'" and d': "d' = d\<lparr>d_collar := d_collar (store_block d e),
      d_collarNext := d_collarNext (store_block d e), d_collarCount := d_collarCount (store_block d e),
      d_skippedRun := d_skippedRun d', d_decodedBlocks := d_decodedBlocks d', d_skippedBlocks := d_skippedBlocks d',
      d_auditedBlocks := d_auditedBlocks d', d_refreshBlocks := d_refreshBlocks d', d_wasSkipped := \<not> dec_Decode dec\<rparr>"
      "d_skippedRun d' = (if dec_Decode dec then 0 else Suc (d_skippedRun d))"
      "d_decodedBlocks d' + d_skippedBlocks d' = d_decodedBlocks d + d_skippedBlocks d + 1"
    using r(2) by (simp add: finishBlock_def index_res_def Let_def e_def store_block_def)
  have sel: "d_collar d' = d_collar (store_block d e)" "d_collarNext d' = d_collarNext (store_block d e)"
      "d_collarCount d' = d_collarCount (store_block d e)" "d_wasSkipped d' = (\<not> dec_Decode dec)"
      "d_scheduler d' = d_scheduler d" "d_mode d' = d_mode d" "d_borrowRaw d' = d_borrowRaw d"
      "d_warmupBlocks d' = d_warmupBlocks d" "d_blockBytes d' = d_blockBytes d" "d_senderIDs d' = d_senderIDs d"
      "d_sampleTime d' = d_sampleTime d" "d_sampleRemainder d' = d_sampleRemainder d"
      "d_sampleRate d' = d_sampleRate d" "d_blockSamples d' = d_blockSamples d"
    by (subst d'(1), simp)+
  have v: "collar_view d' = collar_view (store_block d e)" by (simp add: collar_view_def sel)
  have "entry_ok d' = entry_ok d" by (intro ext) (simp add: entry_ok_def sel split: option.split)
  then have "list_all (entry_ok d') (d_collar d')"
    using assms(1) ok unfolding sel by (auto simp: duty_wf_def store_block_def Let_def list_all_iff dest!: set_update_subset_insert [THEN subsetD])
  then have "duty_wf d'"
    using assms(1) store_block_ok(1) [OF r(1), of e] by (simp add: duty_wf_def ring_ok_def clock_ok_def sel d'(2))
  from that [OF f this v sel(1) sk d'(2) _ _ sel(5,6,4,8,9,10,11,12,13,14,7) d'(3)] show thesis by (simp add: e_def)
qed

subsection \<open>Construction\<close>

text \<open>The geometry of every configuration that the decoder allocates is far below the limits of 64-bit arithmetic.\<close>

definition sane_geometry :: "PacketConfig \<Rightarrow> bool" where
  "sane_geometry c \<longleftrightarrow> 0 < SampleRate c \<and> 0 < BlockSize c \<and> 0 < BlockSize2 c \<and> 0 < BufferLength c \<and>
     SampleRate c < 2 ^ 32 \<and> BlockSize c < 2 ^ 32 \<and> BufferLength c < 2 ^ 62"

lemma ceil_div_bounds:
  fixes a b :: int
  assumes "0 < a" "0 < b"
  shows "0 < (a + b - 1) div b" "(a + b - 1) div b \<le> a" "a \<le> (a + b - 1) div b * b"
proof -
  let ?q = "(a + b - 1) div b"
  have e: "a + b - 1 = b * ?q + (a + b - 1) mod b" "(a + b - 1) mod b < b" using assms by simp_all
  show "0 < ?q" using assms by (simp add: pos_imp_zdiv_pos_iff)
  have "a \<le> b * ?q" using e by linarith
  then show "a \<le> ?q * b" by (simp only: mult.commute)
  have "a + b - 1 \<le> a * b"
    using assms mult_left_mono [of 1 b "a - 1"] by (simp add: algebra_simps)
  then show "?q \<le> a" using zdiv_mono1 [of "a + b - 1" "a * b" b] assms by simp
qed

lemma warmup_count_ok:
  assumes "sane_geometry c"
  shows "\<exists>w. warmup_count c = Inr w \<and> 0 < w \<and> w < 2 ^ 62 \<and> int (BufferLength c) \<le> w * int (BlockSize c)"
proof -
  have g: "0 < int (BufferLength c)" "0 < int (BlockSize c)" "int (BufferLength c) < 2 ^ 62" "int (BlockSize c) < 2 ^ 32"
    using assms by (simp_all add: sane_geometry_def)
  note q = ceil_div_bounds [OF g(1,2)]
  have "i64 (int (BufferLength c) + int (BlockSize c) - 1) = int (BufferLength c) + int (BlockSize c) - 1"
    using g by (intro i64_id) simp_all
  moreover have "i64 ((int (BufferLength c) + int (BlockSize c) - 1) div int (BlockSize c)) = (int (BufferLength c) + int (BlockSize c) - 1) div int (BlockSize c)"
    using q g(3) by (intro i64_id) simp_all
  ultimately show ?thesis using g q by (simp add: warmup_count_def go_div_def)
qed

lemma dutyCollarBlockCount_ok:
  assumes "sane_geometry c" "warmup_count c = Inr w"
  shows "\<exists>n. dutyCollarBlockCount c = Inr n \<and> w < n"
proof -
  have g: "0 < int (SampleRate c)" "0 < int (BlockSize c)" "int (SampleRate c) < 2 ^ 32" "int (BlockSize c) < 2 ^ 32"
    using assms(1) by (simp_all add: sane_geometry_def)
  let ?a = "int (SampleRate c) * dutyCollarDuration" and ?b = "Second * int (BlockSize c)"
  have ab: "0 < ?a" "?a < 2 ^ 62" "0 < ?b" "?b < 2 ^ 62" using g by (simp_all add: dutyCollarDuration_def)
  note q = ceil_div_bounds [OF ab(1,3)]
  have e: "i64 ?a = ?a" "i64 ?b = ?b" "i64 (?a + ?b - 1) = ?a + ?b - 1" using ab by (simp_all add: i64_id)
  have "w < 2 ^ 62" "0 < w" using warmup_count_ok [OF assms(1)] assms(2) by auto
  then have "i64 (w + 1) = w + 1" by (intro i64_id) simp_all
  then show ?thesis using assms(2) ab(3) unfolding dutyCollarBlockCount_def e by (simp add: go_div_def)
qed

lemma newDutyRuntimeWithConfig_ok:
  assumes "sane_geometry c" "New sc = Inr s"
  obtains d where "newDutyRuntimeWithConfig c ids sc now = Inr d" "duty_wf d" "covers d []" "clock_at d 0"
    "d_scheduler d = s" "d_mode d = cfg_Mode sc" "d_blockBytes d = BlockSize2 c" "d_sampleRate d = int (SampleRate c)"
    "d_blockSamples d = int (BlockSize c)" "int (BufferLength c) \<le> d_warmupBlocks d * int (BlockSize c)" "d_senderIDs d = remdups ids" "d_schedulerConfig d = s_cfg s"
proof -
  obtain w where w: "warmup_count c = Inr w" "0 < w" "int (BufferLength c) \<le> w * int (BlockSize c)" using warmup_count_ok [OF assms(1)] by blast
  obtain n where n: "dutyCollarBlockCount c = Inr n" "w < n" using dutyCollarBlockCount_ok [OF assms(1) w(1)] by blast
  have g: "SampleRate c \<noteq> 0" "BlockSize c \<noteq> 0" "BlockSize2 c \<noteq> 0" "BufferLength c \<noteq> 0" "int (SampleRate c) < 2 ^ 32" "int (BlockSize c) < 2 ^ 32"
    using assms(1) by (simp_all add: sane_geometry_def)
  have "\<not> n < 0" using n(2) w(2) by simp
  then obtain d where d: "newDutyRuntimeWithConfig c ids sc now = Inr d" by (simp add: newDutyRuntimeWithConfig_def assms(2) g n w Let_def)
  note f = d [unfolded newDutyRuntimeWithConfig_def assms(2) Let_def, simplified, simplified g n w, simplified]
  have e: "d_collar d = replicate (nat n) (empty_block (BlockSize2 c))" "d_collarCount d = 0" "d_collarNext d = 0" "d_sampleTime d = 0"
      "d_sampleRemainder d = 0" "d_warmupBlocks d = w" "d_wasSkipped d = False" "d_skippedRun d = 0"
      "d_scheduler d = s" "d_mode d = cfg_Mode sc" "d_blockBytes d = BlockSize2 c" "d_sampleRate d = int (SampleRate c)"
      "d_blockSamples d = int (BlockSize c)" "d_senderIDs d = remdups ids" "d_borrowRaw d = False" "d_schedulerConfig d = s_cfg s"
    using f n(2) w(2) by (auto simp: Configuration_def split: if_splits)
  have "clock_ok d" using g by (simp add: clock_ok_def e)
  then have "duty_wf d" using w n(2) by (auto simp: duty_wf_def ring_ok_def e list_all_iff entry_ok_def empty_block_def)
  moreover have "covers d []" "clock_at d 0" by (simp_all add: covers_def clock_at_def last_n_def e)
  ultimately show thesis using that [OF d] e w(3) by simp
qed

end
