(* ===== verification/DutyReport.thy ===== *)
theory DutyReport
  imports DutyRuntime Files
begin

text \<open>
  Reports and checkpoints of the duty runtime (\<^verbatim>\<open>src/duty_runtime.go\<close>): the estimate of the time until
  a policy is trusted, the report, and the writing of checkpoints. The library functions that format an instant
  and a path, the JSON encoder, the fingerprint of a configuration and the order in which the map of the senders is
  iterated are parameters. Taking a snapshot may not return (\<open>None\<close>), see \<open>model_snapshot\<close>.
\<close>

section \<open>The report\<close>

record dutySenderETA =
  se_ID :: u64
  se_Protocol :: string
  se_EligibleEvents :: nat
  se_WouldMiss :: nat
  se_RequiredEligibleEvents :: nat
  se_RemainingEligibleEvents :: nat
  se_EligibleEventsPerHour :: f64
  se_EstimatedRemainingSeconds :: "f64 option"

record dutyCandidateETA =
  ce_Name :: string
  ce_Status :: string
  ce_EstimatedRemainingSeconds :: "f64 option"
  ce_LimitingSenderID :: u64
  ce_Senders :: "dutySenderETA list"

record dutyTrustETA =
  te_Status :: string
  te_Assumption :: string
  te_Candidate :: string
  te_LimitingSenderID :: u64
  te_EstimatedRemainingSeconds :: "f64 option"
  te_EstimatedReadyUTC :: string
  te_Candidates :: "dutyCandidateETA list"

record dutyRuntimeReport =
  rp_Schema :: string
  rp_CreatedUTC :: string
  rp_SessionStartedUTC :: string
  rp_ReportKind :: string
  rp_CheckpointSequence :: u64
  rp_CheckpointFailures :: u64
  rp_Mode :: Mode
  rp_CaptureTarget :: f64
  rp_Confidence :: f64
  rp_MinimumAudit :: f64
  rp_RecoveryDurationNS :: int
  rp_RefreshIntervalNS :: int
  rp_RefreshDurationNS :: int
  rp_PromotionMargin :: f64
  rp_PromotionStabilityNS :: int
  rp_WatchdogHistory :: int
  rp_WatchdogMinIntervals :: int
  rp_WatchdogWindowNS :: int
  rp_WatchdogQuantile :: f64
  rp_WatchdogMargin :: f64
  rp_SenderIDs :: "u64 list"
  rp_SampleRate :: int
  rp_BlockSamples :: int
  rp_BlockBytes :: int
  rp_CollarBlocks :: int
  rp_WarmupBlocks :: int
  rp_SampleRemainder :: int
  rp_DecodedBlocks :: u64
  rp_SkippedBlocks :: u64
  rp_AuditedBlocks :: u64
  rp_RefreshBlocks :: u64
  rp_Rebuilds :: u64
  rp_ReplayedBlocks :: u64
  rp_TrustETA :: dutyTrustETA
  rp_Snapshot :: Snapshot
  rp_Resume :: dutyResumeInfo
  rp_SchedulerState :: State

record report_lib =
  l_fp :: fplib
  l_rfc3339 :: "Time \<Rightarrow> string"
  l_session :: "Time \<Rightarrow> string"
  l_join :: "string \<Rightarrow> string \<Rightarrow> string"
  l_configSHA256 :: "Config \<Rightarrow> string res"
  l_marshal :: "dutyRuntimeReport \<Rightarrow> u8 list res"
  l_order :: "(u64 \<times> SenderSnapshot) list \<Rightarrow> (u64 \<times> SenderSnapshot) list"

section \<open>The estimate\<close>

definition sender_rate :: "CandidateSnapshot \<Rightarrow> SenderSnapshot \<Rightarrow> f64" where
  "sender_rate c sn =
     (if cn_EligibleDurationNS c > 0
      then fdiv (fmul (float64 (int (sn_EligibleEvents sn))) (float64 Hour)) (float64 (cn_EligibleDurationNS c)) else Fin 0)"

definition sender_eta :: "CandidateSnapshot \<Rightarrow> u64 \<times> SenderSnapshot \<Rightarrow> dutySenderETA" where
  "sender_eta c x =
     (let (i, sn) = x; rate = sender_rate c sn in
      \<lparr>se_ID = i, se_Protocol = sn_Protocol sn, se_EligibleEvents = sn_EligibleEvents sn, se_WouldMiss = sn_WouldMiss sn,
       se_RequiredEligibleEvents = sn_RequiredEligibleEvents sn, se_RemainingEligibleEvents = sn_RemainingEligibleEvents sn,
       se_EligibleEventsPerHour = rate,
       se_EstimatedRemainingSeconds =
         (if sn_RemainingEligibleEvents sn = 0 then Some (Fin 0)
          else if flt (Fin 0) rate then Some (fmul (fdiv (float64 (int (sn_RemainingEligibleEvents sn))) rate) (float64 (Hour div Second)))
          else None)\<rparr>)"

text \<open>The longest of the estimates, with the sender it belongs to, and whether every sender has one.\<close>

definition eta_step :: "f64 \<times> u64 \<times> bool \<Rightarrow> dutySenderETA \<Rightarrow> f64 \<times> u64 \<times> bool" where
  "eta_step st e =
     (let (candidateSeconds, limiting, allRatesKnown) = st in
      if se_RemainingEligibleEvents e = 0 then st
      else case se_EstimatedRemainingSeconds e of
             None \<Rightarrow> (candidateSeconds, limiting, False)
           | Some seconds \<Rightarrow> if flt candidateSeconds seconds then (seconds, se_ID e, allRatesKnown) else st)"

definition candidate_eta :: "report_lib \<Rightarrow> CandidateSnapshot \<Rightarrow> dutyCandidateETA \<times> f64" where
  "candidate_eta lib c =
     (let senders = map (sender_eta c) (l_order lib (cn_Senders c));
          (candidateSeconds, limiting, allRatesKnown) =
            foldl eta_step (Fin 0, 0, cn_Eligible c \<and> cn_EligibleDurationNS c > 0) senders;
          (status, estimate) =
            (if cn_Invalid c then (''INVALID'', None)
             else if cn_Qualified c then (''QUALIFIED'', Some (Fin 0))
             else if cn_ContractQualified c then (''CONTRACT_QUALIFIED'', Some (Fin 0))
             else if allRatesKnown \<and> \<not> IsInf candidateSeconds \<and> \<not> IsNaN candidateSeconds
             then (''ESTIMATING'', Some candidateSeconds)
             else (''LEARNING'', None))
      in (\<lparr>ce_Name = cn_Name c, ce_Status = status, ce_EstimatedRemainingSeconds = estimate,
           ce_LimitingSenderID = limiting, ce_Senders = sort_key se_ID senders\<rparr>, candidateSeconds))"

definition eta_choose :: "report_lib \<Rightarrow> Time \<Rightarrow> dutyTrustETA \<times> f64 option \<Rightarrow> CandidateSnapshot \<Rightarrow> dutyTrustETA \<times> f64 option" where
  "eta_choose lib now st c =
     (let (result, best) = st; (e, seconds) = candidate_eta lib c;
          ready = (te_Status result = ''QUALIFIED''); contract = (te_Status result = ''CONTRACT_QUALIFIED'');
          (result, best) =
            (if ce_Status e = ''QUALIFIED'' \<and> \<not> ready \<or> ce_Status e = ''CONTRACT_QUALIFIED'' \<and> \<not> ready \<and> \<not> contract
             then (result\<lparr>te_Status := ce_Status e, te_Candidate := cn_Name c, te_EstimatedRemainingSeconds := Some (Fin 0),
                          te_EstimatedReadyUTC := l_rfc3339 lib now\<rparr>, best)
             else if ce_Status e = ''ESTIMATING'' \<and> \<not> ready \<and> \<not> contract \<and>
                  (case best of None \<Rightarrow> True | Some b \<Rightarrow> flt seconds b)
             then (result\<lparr>te_Status := ''ESTIMATING'', te_Candidate := cn_Name c, te_LimitingSenderID := ce_LimitingSenderID e,
                          te_EstimatedRemainingSeconds := Some seconds,
                          te_EstimatedReadyUTC := l_rfc3339 lib (now + to_int64 (l_fp lib) (fmul seconds (float64 Second)))\<rparr>, Some seconds)
             else (result, best))
      in (result\<lparr>te_Candidates := te_Candidates result @ [e]\<rparr>, best))"

definition trustETA :: "report_lib \<Rightarrow> Snapshot \<Rightarrow> Time \<Rightarrow> dutyTrustETA" where
  "trustETA lib snapshot now =
     fst (foldl (eta_choose lib now)
       (\<lparr>te_Status = ''LEARNING'',
         te_Assumption = ''conditional estimate if no additional scheduler would-misses occur; qualification uses actual observations'',
         te_Candidate = [], te_LimitingSenderID = 0, te_EstimatedRemainingSeconds = None, te_EstimatedReadyUTC = [],
         te_Candidates = []\<rparr>, None) (sp_Candidates snapshot))"

section \<open>Writing\<close>

definition makeReport :: "report_lib \<Rightarrow> dutyRuntime \<Rightarrow> Time \<Rightarrow> string \<Rightarrow> (dutyRuntime \<times> dutyRuntimeReport res) option" where
  "makeReport lib d now kind =
     (case take_Snapshot (l_fp lib) (d_scheduler d) of
        None \<Rightarrow> None
      | Some (s, snapshot) \<Rightarrow>
        Some (d\<lparr>d_scheduler := s\<rparr>, bind_res (ExportState (l_configSHA256 lib) s) (\<lambda>state. Inr
          \<lparr>rp_Schema = ''rtlamr-duty-scheduler-live-v4'', rp_CreatedUTC = l_rfc3339 lib now,
           rp_SessionStartedUTC = l_rfc3339 lib (d_startedUTC d), rp_ReportKind = kind,
           rp_CheckpointSequence = d_checkpointSequence d, rp_CheckpointFailures = d_checkpointFailures d,
           rp_Mode = d_mode d, rp_CaptureTarget = d_captureTarget d, rp_Confidence = d_confidence d,
           rp_MinimumAudit = d_minimumAudit d, rp_RecoveryDurationNS = d_recoveryDuration d,
           rp_RefreshIntervalNS = d_refreshInterval d, rp_RefreshDurationNS = d_refreshDuration d,
           rp_PromotionMargin = d_promotionMargin d, rp_PromotionStabilityNS = d_promotionStability d,
           rp_WatchdogHistory = d_watchdogHistory d, rp_WatchdogMinIntervals = d_watchdogMinIntervals d,
           rp_WatchdogWindowNS = d_watchdogWindow d, rp_WatchdogQuantile = d_watchdogQuantile d,
           rp_WatchdogMargin = d_watchdogMargin d, rp_SenderIDs = sort (d_senderIDs d),
           rp_SampleRate = d_sampleRate d, rp_BlockSamples = d_blockSamples d, rp_BlockBytes = int (d_blockBytes d),
           rp_CollarBlocks = int (length (d_collar d)), rp_WarmupBlocks = d_warmupBlocks d,
           rp_SampleRemainder = d_sampleRemainder d, rp_DecodedBlocks = d_decodedBlocks d,
           rp_SkippedBlocks = d_skippedBlocks d, rp_AuditedBlocks = d_auditedBlocks d, rp_RefreshBlocks = d_refreshBlocks d,
           rp_Rebuilds = d_rebuilds d, rp_ReplayedBlocks = d_replayedBlocks d, rp_TrustETA = trustETA lib snapshot now,
           rp_Snapshot = snapshot, rp_Resume = d_resume d, rp_SchedulerState = state\<rparr>)))"

definition marshalDutyReport :: "report_lib \<Rightarrow> dutyRuntimeReport \<Rightarrow> u8 list res" where
  "marshalDutyReport lib report = bind_res (l_marshal lib report) (\<lambda>contents. Inr (contents @ [10]))"

text \<open>The format \<^verbatim>\<open>%06d\<close>.\<close>

definition pad6 :: "nat \<Rightarrow> string" where
  "pad6 n = (let s = FormatUint n 10 in replicate (6 - length s) (CHR ''0'') @ s)"

definition checkpoint_name :: "report_lib \<Rightarrow> dutyRuntime \<Rightarrow> string" where
  "checkpoint_name lib d = ''checkpoint-'' @ l_session lib (d_startedUTC d) @ ''-'' @ pad6 (unat (d_checkpointSequence d)) @ ''.json''"

definition writeCheckpoint :: "os \<Rightarrow> report_lib \<Rightarrow> dutyRuntime \<Rightarrow> disk \<Rightarrow> Time \<Rightarrow> string \<Rightarrow> (dutyRuntime \<times> disk \<times> go_error option) option" where
  "writeCheckpoint os lib d dk now kind =
     (let d = d\<lparr>d_checkpointSequence := d_checkpointSequence d + 1\<rparr> in
      case makeReport lib d now kind of
        None \<Rightarrow> None
      | Some (d, r) \<Rightarrow>
        Some (case bind_res r (marshalDutyReport lib) of
          Inl err \<Rightarrow> (d, dk, Some err)
        | Inr contents \<Rightarrow>
          (case writeExclusiveSynced os (l_join lib (d_checkpointDir d) (checkpoint_name lib d)) contents dk of
             (dk, Some err) \<Rightarrow> (d, dk, Some (Err err))
           | (dk, None) \<Rightarrow>
             let (dk, err) = writeAtomicSynced os ''.latest-*.tmp'' (l_join lib (d_checkpointDir d) ''latest.json'') contents dk
             in (d, dk, map_option Err err))))"

definition maybeCheckpoint :: "os \<Rightarrow> report_lib \<Rightarrow> dutyRuntime \<Rightarrow> disk \<Rightarrow> Time \<Rightarrow> (dutyRuntime \<times> disk \<times> go_error option) option" where
  "maybeCheckpoint os lib d dk now =
     (if d_checkpointDir d = [] then Some (d, dk, None)
      else if d_nextCheckpointUTC d \<noteq> 0 \<and> now < d_nextCheckpointUTC d then Some (d, dk, None)
      else let kind = (if ri_PendingReceipt (d_resume d) then ''resume''
                       else if d_checkpointSequence d = 0 then ''startup'' else ''hourly'')
           in case writeCheckpoint os lib d dk now kind of
                None \<Rightarrow> None
              | Some (d, dk, Some err) \<Rightarrow>
                Some (d\<lparr>d_checkpointFailures := d_checkpointFailures d + 1, d_nextCheckpointUTC := now + 5 * Minute\<rparr>, dk, Some err)
              | Some (d, dk, None) \<Rightarrow>
                Some (d\<lparr>d_resume := (d_resume d)\<lparr>ri_PendingReceipt := False\<rparr>,
                        d_nextCheckpointUTC := now + d_checkpointInterval d\<rparr>, dk, None))"

definition writeFinalCheckpoint :: "os \<Rightarrow> report_lib \<Rightarrow> dutyRuntime \<Rightarrow> disk \<Rightarrow> Time \<Rightarrow> (dutyRuntime \<times> disk \<times> go_error option) option" where
  "writeFinalCheckpoint os lib d dk now =
     (if d_checkpointDir d = [] then Some (d, dk, None) else writeCheckpoint os lib d dk now ''final'')"

definition writeReport :: "os \<Rightarrow> report_lib \<Rightarrow> dutyRuntime \<Rightarrow> disk \<Rightarrow> Time \<Rightarrow> string \<Rightarrow> (dutyRuntime \<times> disk \<times> go_error option) option" where
  "writeReport os lib d dk now path =
     (case makeReport lib d now ''final'' of
        None \<Rightarrow> None
      | Some (d, r) \<Rightarrow>
        Some (case bind_res r (marshalDutyReport lib) of
          Inl err \<Rightarrow> (d, dk, Some err)
        | Inr contents \<Rightarrow>
          let (dk, err) = writeAtomicSynced os ''.report-*.tmp'' path contents dk in (d, dk, map_option Err err)))"

section \<open>The runtime as a state machine\<close>

text \<open>What reports, observations and rebuilds leave alone: the collar, the clock and the identity of the runtime.\<close>

definition same_core :: "dutyRuntime \<Rightarrow> dutyRuntime \<Rightarrow> bool" where
  "same_core d d' \<longleftrightarrow> d_collar d' = d_collar d \<and> d_collarNext d' = d_collarNext d \<and> d_collarCount d' = d_collarCount d \<and>
     d_borrowRaw d' = d_borrowRaw d \<and> d_blockBytes d' = d_blockBytes d \<and> d_warmupBlocks d' = d_warmupBlocks d \<and>
     d_wasSkipped d' = d_wasSkipped d \<and> d_skippedRun d' = d_skippedRun d \<and> d_sampleRate d' = d_sampleRate d \<and>
     d_blockSamples d' = d_blockSamples d \<and> d_sampleTime d' = d_sampleTime d \<and> d_sampleRemainder d' = d_sampleRemainder d \<and>
     d_mode d' = d_mode d \<and> d_senderIDs d' = d_senderIDs d"

lemma same_core_refl [simp]: "same_core d d"
  by (simp add: same_core_def)

lemma same_core_trans: "same_core d d' \<Longrightarrow> same_core d' d'' \<Longrightarrow> same_core d d''"
  by (simp add: same_core_def)

lemma same_core_wf:
  assumes "same_core d d'"
  shows "duty_wf d' = duty_wf d" "covers d' = covers d" "collar_view d' = collar_view d" "ring_ok d' = ring_ok d"
    "orderedCollar d' = orderedCollar d" "clock_at d' = clock_at d"
proof -
  have e: "d_collar d' = d_collar d" "d_collarNext d' = d_collarNext d" "d_collarCount d' = d_collarCount d"
     "d_borrowRaw d' = d_borrowRaw d" "d_blockBytes d' = d_blockBytes d" "d_warmupBlocks d' = d_warmupBlocks d"
     "d_wasSkipped d' = d_wasSkipped d" "d_skippedRun d' = d_skippedRun d" "d_sampleRate d' = d_sampleRate d"
     "d_blockSamples d' = d_blockSamples d" "d_sampleTime d' = d_sampleTime d" "d_sampleRemainder d' = d_sampleRemainder d"
    using assms by (simp_all add: same_core_def)
  have "entry_ok d' = entry_ok d" by (intro ext) (simp add: entry_ok_def e split: option.split)
  then show "duty_wf d' = duty_wf d" by (simp add: duty_wf_def ring_ok_def clock_ok_def e)
  show v: "collar_view d' = collar_view d" by (simp add: collar_view_def e)
  show "covers d' = covers d" by (intro ext) (simp add: covers_def e v)
  show "ring_ok d' = ring_ok d" by (simp add: ring_ok_def e)
  show "orderedCollar d' = orderedCollar d" unfolding orderedCollar_def collar_index_def e ..
  show "clock_at d' = clock_at d" by (intro ext) (simp add: clock_at_def e)
qed

lemma makeReport_core:
  assumes "makeReport lib d now kind = Some (d', r)"
  obtains s sn where "take_Snapshot (l_fp lib) (d_scheduler d) = Some (s, sn)" "d' = d\<lparr>d_scheduler := s\<rparr>"
  using assms by (auto simp: makeReport_def split: option.splits)

lemma writeCheckpoint_core:
  assumes "writeCheckpoint os lib d dk now kind = Some (d', dk', err)"
  shows "same_core d d'" "\<exists>sn. take_Snapshot (l_fp lib) (d_scheduler d) = Some (d_scheduler d', sn)"
proof -
  let ?d = "d\<lparr>d_checkpointSequence := d_checkpointSequence d + 1\<rparr>"
  obtain r where r: "makeReport lib ?d now kind = Some (d', r)"
    using assms by (fastforce simp: writeCheckpoint_def Let_def split: option.splits sum.splits prod.splits)
  obtain s sn where s: "take_Snapshot (l_fp lib) (d_scheduler ?d) = Some (s, sn)" "d' = ?d\<lparr>d_scheduler := s\<rparr>"
    by (rule makeReport_core [OF r])
  then show "same_core d d'" "\<exists>sn. take_Snapshot (l_fp lib) (d_scheduler d) = Some (d_scheduler d', sn)"
    by (simp_all add: same_core_def)
qed

lemma maybeCheckpoint_core:
  assumes "maybeCheckpoint os lib d dk now = Some (d', dk', err)"
  shows "same_core d d'" "d_scheduler d' = d_scheduler d \<or> (\<exists>sn. take_Snapshot (l_fp lib) (d_scheduler d) = Some (d_scheduler d', sn))"
proof -
  consider "d' = d" | d1 dk1 e1 kind where "writeCheckpoint os lib d dk now kind = Some (d1, dk1, e1)" "same_core d1 d'" "d_scheduler d' = d_scheduler d1"
    using assms by (fastforce simp: maybeCheckpoint_def Let_def same_core_def split: option.splits prod.splits if_splits)
  then have "same_core d d' \<and> (d_scheduler d' = d_scheduler d \<or> (\<exists>sn. take_Snapshot (l_fp lib) (d_scheduler d) = Some (d_scheduler d', sn)))"
    by cases (auto dest: writeCheckpoint_core intro: same_core_trans)
  then show "same_core d d'" "d_scheduler d' = d_scheduler d \<or> (\<exists>sn. take_Snapshot (l_fp lib) (d_scheduler d) = Some (d_scheduler d', sn))"
    by auto
qed

lemma duty_observe_core:
  assumes "duty_observe fp d i p t = Inr d' \<or> duty_observeEscape fp d i p t = Inr d'"
  shows "same_core d d'" "d_scheduler d' = d_scheduler d \<or> (\<exists>esc. sched_observe fp (d_scheduler d) i p t esc = Inr (d_scheduler d'))"
  using assms by (auto simp: duty_observe_def duty_observeEscape_def Observe_def ObserveEscape_def same_core_def bind_res_eq_Inr split: if_splits)

lemma recordRebuild_core: "same_core d (recordRebuild d n)" "d_scheduler (recordRebuild d n) = d_scheduler d"
  by (simp_all add: recordRebuild_def same_core_def)

lemma beginBlock_parts:
  assumes "beginBlock fp d = Inr (d', start, stop, dec)"
  obtains d1 s where "tick_clock d = Inr (d1, start, stop)" "Advance fp (d_scheduler d1) start stop = Inr (s, dec)" "d' = d1\<lparr>d_scheduler := s\<rparr>"
  using assms by (auto simp: beginBlock_def bind_res_eq_Inr split: prod.splits)

lemma beginBlock_wf:
  assumes "duty_wf d" "beginBlock fp d = Inr (d', start, stop, dec)"
  shows "duty_wf d'" "collar_view d' = collar_view d" "covers d' = covers d" "d_mode d' = d_mode d" "d_blockBytes d' = d_blockBytes d"
    "d_warmupBlocks d' = d_warmupBlocks d" "d_senderIDs d' = d_senderIDs d" "d_collar d' = d_collar d" "d_skippedRun d' = d_skippedRun d"
    "d_wasSkipped d' = d_wasSkipped d" "Advance fp (d_scheduler d) start stop = Inr (d_scheduler d', dec)"
proof -
  obtain d1 s where b: "tick_clock d = Inr (d1, start, stop)" "Advance fp (d_scheduler d1) start stop = Inr (s, dec)" "d' = d1\<lparr>d_scheduler := s\<rparr>"
    by (rule beginBlock_parts [OF assms(2)])
  have c: "clock_ok d" using assms(1) by (simp add: duty_wf_def)
  obtain t where t: "clock_ok d1" "d1 = d\<lparr>d_sampleRemainder := d_sampleRemainder d1, d_sampleTime := d_sampleTime d1\<rparr>"
    using tick_clock_keeps [OF c] b(1) by auto
  have e: "d_collar d' = d_collar d" "d_collarNext d' = d_collarNext d" "d_collarCount d' = d_collarCount d"
     "d_borrowRaw d' = d_borrowRaw d" "d_blockBytes d' = d_blockBytes d" "d_warmupBlocks d' = d_warmupBlocks d"
     "d_wasSkipped d' = d_wasSkipped d" "d_skippedRun d' = d_skippedRun d" "d_mode d' = d_mode d" "d_senderIDs d' = d_senderIDs d"
    unfolding b(3) by (simp, subst t(2), simp)+
  have e11: "d_scheduler d1 = d_scheduler d" by (subst t(2)) simp
  have "entry_ok d' = entry_ok d" by (intro ext) (simp add: entry_ok_def e split: option.split)
  moreover have "clock_ok d'" using t(1) by (simp add: b(3) clock_ok_def)
  ultimately show "duty_wf d'" using assms(1) by (simp add: duty_wf_def ring_ok_def e)
  show v: "collar_view d' = collar_view d" by (simp add: collar_view_def e)
  show "covers d' = covers d" by (intro ext) (simp add: covers_def e v)
  show "d_mode d' = d_mode d" "d_blockBytes d' = d_blockBytes d" "d_warmupBlocks d' = d_warmupBlocks d" "d_senderIDs d' = d_senderIDs d"
    "d_collar d' = d_collar d" "d_skippedRun d' = d_skippedRun d" "d_wasSkipped d' = d_wasSkipped d"
    by (simp_all add: e)
  show "Advance fp (d_scheduler d) start stop = Inr (d_scheduler d', dec)" using b(2,3) e11 by simp
qed

inductive duty_step :: "os \<Rightarrow> report_lib \<Rightarrow> dutyRuntime \<Rightarrow> dutyRuntime \<Rightarrow> bool" for os lib where
  begins: "beginBlock (l_fp lib) d = Inr (d', start, stop, dec) \<Longrightarrow> duty_step os lib d d'"
| finishes: "length b = d_blockBytes d \<Longrightarrow> finishBlock d b start stop w dec = Inr d' \<Longrightarrow> duty_step os lib d d'"
| observes: "duty_observe (l_fp lib) d i p t = Inr d' \<or> duty_observeEscape (l_fp lib) d i p t = Inr d' \<Longrightarrow> duty_step os lib d d'"
| rebuilds: "duty_step os lib d (recordRebuild d n)"
| checkpoints: "maybeCheckpoint os lib d dk now = Some (d', dk', err) \<Longrightarrow> duty_step os lib d d'"

definition duty_inv :: "report_lib \<Rightarrow> dutyRuntime \<Rightarrow> bool" where
  "duty_inv lib d \<longleftrightarrow> duty_wf d \<and> sched_reachable (l_fp lib) (l_configSHA256 lib) (d_scheduler d)"

lemma duty_step_inv:
  assumes "duty_inv lib d" "duty_step os lib d d'"
  shows "duty_inv lib d'"
  using assms(2)
proof cases
  case (begins start stop dec)
  have wf: "duty_wf d" and r: "sched_reachable (l_fp lib) (l_configSHA256 lib) (d_scheduler d)" using assms(1) by (simp_all add: duty_inv_def)
  note b = beginBlock_wf [OF wf begins]
  show ?thesis using b(1) sched_reachable.stepped [OF r sched_step.advance [OF b(11)]] by (simp add: duty_inv_def)
next
  case (finishes b start stop w dec)
  have wf: "duty_wf d" using assms(1) by (simp add: duty_inv_def)
  obtain d2 where "finishBlock d b start stop w dec = Inr d2" "duty_wf d2" "d_scheduler d2 = d_scheduler d"
    by (rule finishBlock_ok [OF wf finishes(1), of start stop w dec]) blast
  then show ?thesis using finishes(2) assms(1) by (simp add: duty_inv_def)
next
  case (observes i p t)
  note o = duty_observe_core [OF observes]
  show ?thesis using o(2) assms(1) same_core_wf(1) [OF o(1)] unfolding duty_inv_def by (metis sched_reachable.stepped sched_step.observe)
next
  case (rebuilds n)
  then show ?thesis using assms(1) same_core_wf(1) [OF recordRebuild_core(1)] by (simp add: duty_inv_def recordRebuild_core(2))
next
  case (checkpoints dk now dk' err)
  note c = maybeCheckpoint_core [OF checkpoints]
  show ?thesis using c(2) assms(1) same_core_wf(1) [OF c(1)] unfolding duty_inv_def by (metis sched_reachable.snapped)
qed

interpretation duty: state_machine "duty_step os lib" "duty_inv lib"
  by unfold_locales (rule duty_step_inv)

section \<open>Property\<close>

text \<open>C33: The runtime is type safe: from any configuration of a decoder with a sane geometry and any accepted scheduler configuration,
  no sequence of blocks, observations, rebuilds and checkpoints, whatever the operating system answers, leaves the
  well-formed states. The ring positions stay inside the collar, every collar entry has a buffer of one block or
  nothing to replay, the remainder of the clock stays below the sample rate and the collar stays longer than the warm-up;
  in such a state reading the collar in order and finishing a block of the configured size do not panic.\<close>
theorem duty_runtime_stays_well_formed:
  assumes "sane_geometry c" "newDutyRuntimeWithConfig c ids sc now = Inr d0" "f64_ok (CaptureTarget sc)"
    and "(duty_step os lib)\<^sup>*\<^sup>* d0 d"
  shows "duty_wf d \<and> sched_inv (l_fp lib) (d_scheduler d) \<and> orderedCollar d = Inr (collar_view d) \<and>
    (length b = d_blockBytes d \<longrightarrow> (\<exists>d'. finishBlock d b start stop w dec = Inr d'))"
proof -
  obtain s where s: "New sc = Inr s"
    using assms(2) by (auto simp: newDutyRuntimeWithConfig_def bind_res_eq_Inr)
  obtain d1 where "newDutyRuntimeWithConfig c ids sc now = Inr d1" "duty_wf d1" "d_scheduler d1 = s"
    by (rule newDutyRuntimeWithConfig_ok [OF assms(1) s, of ids now]) blast
  then have "duty_inv lib d0" using assms(2) sched_reachable.built [OF s assms(3)] by (simp add: duty_inv_def)
  then have "duty_inv lib d" by (rule duty.run_inv [OF assms(4)])
  then have wf: "duty_wf d" "sched_inv (l_fp lib) (d_scheduler d)" by (auto simp: duty_inv_def intro: reachable_inv)
  have "\<exists>d'. finishBlock d b start stop w dec = Inr d'" if "length b = d_blockBytes d"
    by (rule finishBlock_ok [OF wf(1) that, of start stop w dec]) blast
  then show ?thesis using wf orderedCollar_view by (simp add: duty_wf_def)
qed

definition demo_geometry :: PacketConfig where
  "demo_geometry = zeroPacketConfig\<lparr>SampleRate := 100, BlockSize := 4, BlockSize2 := 8, BufferLength := 10\<rparr>"

lemma demo_geometry_sane: "sane_geometry demo_geometry"
  by (simp add: sane_geometry_def demo_geometry_def)

definition demo_report_lib :: report_lib where
  "demo_report_lib = \<lparr>l_fp = demo_lib, l_rfc3339 = (\<lambda>_. []), l_session = (\<lambda>_. []), l_join = (\<lambda>d n. d @ n), l_configSHA256 = demo_sha,
     l_marshal = (\<lambda>_. Inr []), l_order = (\<lambda>xs. xs)\<rparr>"

theorem duty_runtime_stays_well_formed_witness:
  "\<exists>d0 d. newDutyRuntimeWithConfig demo_geometry [7] demo_config 0 = Inr d0 \<and>
     finishBlock d0 (replicate 8 1) 0 40000000 5 (decision False [] []) = Inr d \<and> duty_wf d \<and> orderedCollar d = Inr (collar_view d)"
proof -
  obtain d0 where d0: "newDutyRuntimeWithConfig demo_geometry [7] demo_config 0 = Inr d0" "duty_wf d0" "d_blockBytes d0 = BlockSize2 demo_geometry"
    by (rule newDutyRuntimeWithConfig_ok [OF demo_geometry_sane demo0, of "[7]" 0]) blast
  have len: "length (replicate 8 1 :: u8 list) = d_blockBytes d0" by (simp add: d0(3) demo_geometry_def)
  obtain d where d: "finishBlock d0 (replicate 8 1) 0 40000000 5 (decision False [] []) = Inr d"
    by (rule finishBlock_ok [OF d0(2) len, of 0 40000000 5 "decision False [] []"]) blast
  have "(duty_step demo_os demo_report_lib)\<^sup>*\<^sup>* d0 d" by (rule r_into_rtranclp [of "duty_step demo_os demo_report_lib", OF duty_step.finishes [OF len d]])
  moreover have "f64_ok (CaptureTarget demo_config)" using scaled_representable [of 1 "-1"] by (simp add: demo_config_def pow2_def)
  ultimately have "duty_wf d \<and> orderedCollar d = Inr (collar_view d)"
    using duty_runtime_stays_well_formed [OF demo_geometry_sane d0(1)] by blast
  then show ?thesis using d0(1) d by blast
qed

end
