(* ===== verification/DutyCheckpoint.thy ===== *)
theory DutyCheckpoint
  imports DutyReport "HOL-Library.Sublist" "HOL-Library.AList"
begin

text \<open>
  Resuming from a checkpoint (\<^verbatim>\<open>src/duty_checkpoint.go\<close>): reading and validating a checkpoint file, the
  ways of restoring its scheduler state, the reconstruction of the sample clock, and the choice of the checkpoint with the
  most evidence. The file system, the JSON decoder, the hash, the parser of instants and the order in which
  the map of sessions is iterated are parameters. The functions called here report failure as an error value.
\<close>

section \<open>Evidence\<close>

definition max_int64 :: int where "max_int64 = 2 ^ 63 - 1"
definition max_uint64 :: nat where "max_uint64 = 2 ^ 64 - 1"

definition sender_minimum :: "(u64 \<times> SenderSnapshot) list \<Rightarrow> nat" where
  "sender_minimum senders = foldl (\<lambda>minimum (i, sn). if sn_EligibleEvents sn < minimum then sn_EligibleEvents sn else minimum) max_uint64 senders"

definition dutyEvidenceCount :: "Snapshot \<Rightarrow> nat" where
  "dutyEvidenceCount snapshot =
     foldl (\<lambda>best c. if cn_Senders c = [] then best
              else let minimum = sender_minimum (cn_Senders c)
                   in if minimum \<noteq> max_uint64 \<and> minimum > best then minimum else best) 0 (sp_Candidates snapshot)"

definition observed_matches :: "Snapshot \<Rightarrow> u64 \<times> ObservedSenderSnapshot \<Rightarrow> bool" where
  "observed_matches restored x =
     (let (i, want) = x in
      case map_of (sp_ObservedSenders restored) i of
        None \<Rightarrow> False
      | Some got \<Rightarrow> on_Observations got = on_Observations want \<and> on_DeadlineDeficits got = on_DeadlineDeficits want \<and>
          on_CountDeficits got = on_CountDeficits want)"

definition sender_matches :: "CandidateSnapshot \<Rightarrow> u64 \<times> SenderSnapshot \<Rightarrow> bool" where
  "sender_matches got x =
     (let (i, want) = x in
      case map_of (cn_Senders got) i of
        None \<Rightarrow> False
      | Some g \<Rightarrow> sn_EligibleEvents g = sn_EligibleEvents want \<and> sn_WouldMiss g = sn_WouldMiss want)"

definition candidate_matches :: "CandidateSnapshot \<Rightarrow> CandidateSnapshot \<Rightarrow> bool" where
  "candidate_matches got want \<longleftrightarrow>
     cn_Name got = cn_Name want \<and> cn_HistoryLimit got = cn_HistoryLimit want \<and> cn_Invalid got = cn_Invalid want \<and>
     cn_TotalDurationNS got = cn_TotalDurationNS want \<and> cn_TotalAwakeDurationNS got = cn_TotalAwakeDurationNS want \<and>
     cn_EligibleDurationNS got = cn_EligibleDurationNS want \<and> cn_AwakeDurationNS got = cn_AwakeDurationNS want \<and>
     length (cn_Senders got) = length (cn_Senders want) \<and> list_all (sender_matches got) (cn_Senders want)"

definition compatible_mode :: "Mode \<Rightarrow> Mode \<Rightarrow> bool" where
  "compatible_mode current source \<longleftrightarrow> current = source \<or> (source = ModeShadow \<and> current = ModeGated)"

definition dutyCheckpointEvidenceMatches :: "Snapshot \<Rightarrow> Snapshot \<Rightarrow> bool" where
  "dutyCheckpointEvidenceMatches restored source \<longleftrightarrow>
     compatible_mode (sp_Mode restored) (sp_Mode source) \<and> sp_SampleTimeNS restored = sp_SampleTimeNS source \<and>
     sp_DeadlineDeficits restored = sp_DeadlineDeficits source \<and> sp_CountDeficits restored = sp_CountDeficits source \<and>
     length (sp_ObservedSenders restored) = length (sp_ObservedSenders source) \<and>
     length (sp_Candidates restored) = length (sp_Candidates source) \<and>
     list_all (observed_matches restored) (sp_ObservedSenders source) \<and>
     list_all (\<lambda>(got, want). candidate_matches got want) (zip (sp_Candidates restored) (sp_Candidates source))"

section \<open>The sample clock\<close>

definition dutySampleClock :: "u64 \<Rightarrow> int \<Rightarrow> int \<Rightarrow> (int \<times> int) res" where
  "dutySampleClock blocks blockSamples sampleRate =
     (if blockSamples \<le> 0 \<or> sampleRate \<le> 0 \<or> blockSamples > max_int64 div Second
      then Inl (Err ''dutyscheduler: invalid sample geometry'')
      else
        let numerator = i64 (blockSamples * Second);
            whole = go_quot numerator sampleRate;
            remainderPerBlock = go_rem numerator sampleRate;
            n = int (unat blocks)
        in if n > max_int64 \<or> whole < 0 \<or> (whole > 0 \<and> n > go_quot max_int64 whole) \<or>
              (remainderPerBlock > 0 \<and> n > go_quot max_int64 remainderPerBlock)
           then Inl (Err ''dutyscheduler: sample clock overflow'')
           else
             let remainderProduct = i64 (n * remainderPerBlock);
                 nanoseconds = i64 (i64 (n * whole) + go_quot remainderProduct sampleRate)
             in if nanoseconds < 0 then Inl (Err ''dutyscheduler: sample clock overflow'')
                else Inr (nanoseconds, go_rem remainderProduct sampleRate))"

section \<open>Reading a checkpoint\<close>

record dutyCheckpointCandidate =
  cc_path :: string
  cc_sha256 :: string
  cc_report :: dutyRuntimeReport
  cc_scheduler :: Scheduler
  cc_sampleRemainder :: int
  cc_evidence :: nat
  cc_exact :: bool
  cc_targetMigration :: bool
  cc_policyMigration :: bool
  cc_modeMigration :: bool

record ckpt_lib =
  k_lib :: report_lib
  k_parseTime :: "string \<Rightarrow> Time option"
  k_abs :: "string \<Rightarrow> string res"
  k_isDir :: "string \<Rightarrow> bool res"
  k_readDir :: "string \<Rightarrow> (string \<times> bool) list res"
  k_lstat :: "string \<Rightarrow> (bool \<times> bool \<times> int) res"
  k_readFile :: "string \<Rightarrow> u8 list res"
  k_unmarshal :: "u8 list \<Rightarrow> dutyRuntimeReport res"
  k_sha256 :: "u8 list \<Rightarrow> string"
  k_base :: "string \<Rightarrow> string"
  k_order :: "dutyCheckpointCandidate list \<Rightarrow> dutyCheckpointCandidate list"

definition dutyCheckpointMaxBytes :: int where "dutyCheckpointMaxBytes = 4 * 2 ^ 20"

definition current_schema :: "string \<Rightarrow> bool" where
  "current_schema s \<longleftrightarrow> s = ''rtlamr-duty-scheduler-live-v3'' \<or> s = ''rtlamr-duty-scheduler-live-v4''"

definition validateCheckpointReport :: "ckpt_lib \<Rightarrow> dutyRuntime \<Rightarrow> dutyRuntimeReport \<Rightarrow> unit res" where
  "validateCheckpointReport lib d report =
     (if rp_Schema report \<noteq> ''rtlamr-duty-scheduler-live-v2'' \<and> \<not> current_schema (rp_Schema report)
      then Inl (Err ''dutyscheduler: unsupported checkpoint report'')
      else if \<not> compatible_mode (d_mode d) (rp_Mode report) \<or> sp_Mode (rp_Snapshot report) \<noteq> rp_Mode report \<or>
         rp_SampleRate report \<noteq> d_sampleRate d \<or> rp_BlockSamples report \<noteq> d_blockSamples d \<or>
         rp_BlockBytes report \<noteq> int (d_blockBytes d) \<or> rp_CollarBlocks report \<noteq> int (length (d_collar d)) \<or>
         rp_WarmupBlocks report \<noteq> d_warmupBlocks d
      then Inl (Err ''dutyscheduler: checkpoint runtime mismatch'')
      else case k_parseTime lib (rp_CreatedUTC report) of
        None \<Rightarrow> Inl (Err ''dutyscheduler: invalid checkpoint creation time'')
      | Some created \<Rightarrow>
        (case k_parseTime lib (rp_SessionStartedUTC report) of
           None \<Rightarrow> Inl (Err ''dutyscheduler: invalid checkpoint session time'')
         | Some started \<Rightarrow>
           if created < started then Inl (Err ''dutyscheduler: invalid checkpoint session time'')
           else if rp_ReportKind report \<notin> {''startup'', ''hourly'', ''final'', ''resume''}
           then Inl (Err ''dutyscheduler: invalid checkpoint report kind'')
           else if rp_CheckpointSequence report = 0 then Inl (Err ''dutyscheduler: invalid checkpoint sequence'')
           else if rp_SenderIDs report \<noteq> sort (d_senderIDs d)
           then Inl (Err ''dutyscheduler: checkpoint sender inventory mismatch'')
           else if unat (rp_DecodedBlocks report) > max_uint64 - unat (rp_SkippedBlocks report) \<or> sp_SampleTimeNS (rp_Snapshot report) < 0
           then Inl (Err ''dutyscheduler: invalid checkpoint work'')
           else if current_schema (rp_Schema report) \<and> st_LastEndNS (rp_SchedulerState report) \<noteq> sp_SampleTimeNS (rp_Snapshot report)
           then Inl (Err ''dutyscheduler: checkpoint state clock mismatch'')
           else Inr ()))"

text \<open>The restored scheduler, the flags \<open>exact\<close>, \<open>targetMigration\<close>, \<open>policyMigration\<close> and \<open>modeMigration\<close>, and whether
  the full state was restored.\<close>

type_synonym restored = "Scheduler \<times> (bool \<times> bool \<times> bool \<times> bool) \<times> bool"

definition legacy_restore :: "fplib \<Rightarrow> Scheduler \<Rightarrow> dutyRuntimeReport \<Rightarrow> bool \<times> bool \<times> bool \<times> bool \<Rightarrow> restored res" where
  "legacy_restore fp s report flags =
     bind_res (RestoreLegacySnapshot fp s (rp_Snapshot report)) (\<lambda>s'. Inr (s', flags, False))"

definition restore_report :: "ckpt_lib \<Rightarrow> dutyRuntime \<Rightarrow> dutyRuntimeReport \<Rightarrow> Scheduler \<Rightarrow> restored res" where
  "restore_report lib d report s =
     (let fp = l_fp (k_lib lib); sha = l_configSHA256 (k_lib lib) in
      if current_schema (rp_Schema report) then
        case RestoreState fp sha s (rp_SchedulerState report) of
          Inr s' \<Rightarrow> Inr (s', (True, False, False, False), True)
        | Inl err \<Rightarrow>
          if rp_Mode report = ModeShadow \<and> d_mode d = ModeGated then
            (case RestoreShadowState fp sha s (rp_SchedulerState report) of
               Inr s' \<Rightarrow> Inr (s', (False, False, False, True), True)
             | Inl _ \<Rightarrow> legacy_restore fp s report (False, False, False, True))
          else if err = ErrStateConfigurationMismatch \<and> rp_Mode report = d_mode d \<and>
             \<not> feq (rp_CaptureTarget report) (CaptureTarget (d_schedulerConfig d)) then
            (case RestoreCaptureTargetState fp sha s (rp_SchedulerState report) (rp_CaptureTarget report) of
               Inr s' \<Rightarrow> Inr (s', (False, True, False, False), True)
             | Inl _ \<Rightarrow> legacy_restore fp s report (False, False, True, False))
          else if err = ErrStateConfigurationMismatch \<or> err = ErrStateSchemaMismatch
          then legacy_restore fp s report (False, False, True, False)
          else Inl err
      else legacy_restore fp s report (False, False, False, False))"

definition finish_read :: "ckpt_lib \<Rightarrow> dutyRuntime \<Rightarrow> string \<Rightarrow> u8 list \<Rightarrow> dutyRuntimeReport \<Rightarrow> restored \<Rightarrow> dutyCheckpointCandidate res option" where
  "finish_read lib d path contents report r =
     (let (s, (exact, targetMigration, policyMigration, modeMigration), fullState) = r in
      case take_Snapshot (l_fp (k_lib lib)) s of
        None \<Rightarrow> None
      | Some (s, snapshot) \<Rightarrow> Some (
        if \<not> dutyCheckpointEvidenceMatches snapshot (rp_Snapshot report)
        then Inl (Err ''dutyscheduler: checkpoint state/evidence mismatch'')
        else case dutySampleClock (rp_DecodedBlocks report + rp_SkippedBlocks report) (d_blockSamples d) (d_sampleRate d) of
          Inl _ \<Rightarrow> Inl (Err ''dutyscheduler: checkpoint sample clock mismatch'')
        | Inr (expectedTime, remainder) \<Rightarrow>
          if expectedTime \<noteq> sp_SampleTimeNS (rp_Snapshot report) then Inl (Err ''dutyscheduler: checkpoint sample clock mismatch'')
          else if (exact \<or> targetMigration) \<and> rp_SampleRemainder report \<noteq> remainder
          then Inl (Err ''dutyscheduler: checkpoint sample remainder mismatch'')
          else Inr \<lparr>cc_path = path, cc_sha256 = k_sha256 lib contents, cc_report = report,
                    cc_scheduler = (if fullState then PrepareResume s else s), cc_sampleRemainder = remainder,
                    cc_evidence = dutyEvidenceCount (rp_Snapshot report), cc_exact = exact, cc_targetMigration = targetMigration,
                    cc_policyMigration = policyMigration, cc_modeMigration = modeMigration\<rparr>))"

definition readCheckpoint :: "ckpt_lib \<Rightarrow> dutyRuntime \<Rightarrow> string \<Rightarrow> dutyCheckpointCandidate res option" where
  "readCheckpoint lib d path =
     (case bind_res (k_lstat lib path) (\<lambda>(regular, symlink, size).
             if \<not> regular \<or> symlink \<or> size \<le> 0 \<or> size > dutyCheckpointMaxBytes then Inl (Err ''dutyscheduler: invalid checkpoint file'')
             else bind_res (k_readFile lib path) (\<lambda>contents.
                  bind_res (k_unmarshal lib contents) (\<lambda>report.
                  bind_res (validateCheckpointReport lib d report) (\<lambda>_.
                  bind_res (New (d_schedulerConfig d)) (\<lambda>scheduler.
                  bind_res (restore_report lib d report scheduler) (\<lambda>r. Inr (contents, report, r))))))) of
        Inl err \<Rightarrow> Some (Inl err)
      | Inr (contents, report, r) \<Rightarrow> finish_read lib d path contents report r)"

section \<open>Choosing a checkpoint\<close>

definition checkpoint_entry :: "string \<times> bool \<Rightarrow> bool" where
  "checkpoint_entry x = (let (name, isDir) = x in \<not> isDir \<and> prefix ''checkpoint-'' name \<and> suffix ''.json'' name)"

fun scan_entries :: "ckpt_lib \<Rightarrow> dutyRuntime \<Rightarrow> (string \<times> bool) list \<Rightarrow> (string \<times> dutyCheckpointCandidate) list \<Rightarrow> u64 \<Rightarrow>
    ((string \<times> dutyCheckpointCandidate) list \<times> u64) option" where
  "scan_entries lib d [] bySession skipped = Some (bySession, skipped)"
| "scan_entries lib d (x # xs) bySession skipped =
     (if \<not> checkpoint_entry x then scan_entries lib d xs bySession skipped
      else case readCheckpoint lib d (l_join (k_lib lib) (d_checkpointDir d) (fst x)) of
        None \<Rightarrow> None
      | Some (Inl err) \<Rightarrow> scan_entries lib d xs bySession (skipped + 1)
      | Some (Inr c) \<Rightarrow>
        let session = rp_SessionStartedUTC (cc_report c);
            newer = (case map_of bySession session of
                       None \<Rightarrow> True
                     | Some previous \<Rightarrow> rp_CheckpointSequence (cc_report c) > rp_CheckpointSequence (cc_report previous))
        in scan_entries lib d xs (if newer then AList.update session c bySession else bySession) skipped)"

definition stronger :: "dutyRuntime \<Rightarrow> dutyCheckpointCandidate \<Rightarrow> dutyCheckpointCandidate \<Rightarrow> bool" where
  "stronger d a b =
     (let leftGated = (rp_Mode (cc_report a) = ModeGated); rightGated = (rp_Mode (cc_report b) = ModeGated);
          leftBlocks = rp_DecodedBlocks (cc_report a) + rp_SkippedBlocks (cc_report a);
          rightBlocks = rp_DecodedBlocks (cc_report b) + rp_SkippedBlocks (cc_report b)
      in if d_mode d = ModeGated \<and> leftGated \<noteq> rightGated then leftGated
         else if cc_evidence a \<noteq> cc_evidence b then cc_evidence a > cc_evidence b
         else if leftBlocks \<noteq> rightBlocks then leftBlocks > rightBlocks
         else rp_CreatedUTC (cc_report a) > rp_CreatedUTC (cc_report b))"

text \<open>The first element after sorting a list whose order is not specified.\<close>

definition strongest :: "dutyRuntime \<Rightarrow> dutyCheckpointCandidate \<Rightarrow> dutyCheckpointCandidate list \<Rightarrow> dutyCheckpointCandidate" where
  "strongest d c cs = foldl (\<lambda>best c. if stronger d c best then c else best) c cs"

definition resume_status :: "dutyCheckpointCandidate \<Rightarrow> string" where
  "resume_status chosen =
     (if cc_exact chosen then ''RESTORED_EXACT''
      else if cc_modeMigration chosen then ''RESTORED_SHADOW_TO_GATED''
      else if cc_targetMigration chosen then ''RESTORED_CAPTURE_TARGET''
      else if cc_policyMigration chosen then ''RESTORED_POLICY_MIGRATION''
      else ''RESTORED_LEGACY'')"

definition install_checkpoint :: "ckpt_lib \<Rightarrow> dutyRuntime \<Rightarrow> dutyCheckpointCandidate \<Rightarrow> Time \<Rightarrow> u64 \<Rightarrow> dutyRuntime" where
  "install_checkpoint lib d chosen started skipped =
     (let report = cc_report chosen in
      d\<lparr>d_scheduler := cc_scheduler chosen, d_sampleTime := sp_SampleTimeNS (rp_Snapshot report),
        d_sampleRemainder := cc_sampleRemainder chosen, d_decodedBlocks := rp_DecodedBlocks report,
        d_skippedBlocks := rp_SkippedBlocks report, d_auditedBlocks := rp_AuditedBlocks report,
        d_refreshBlocks := rp_RefreshBlocks report, d_rebuilds := rp_Rebuilds report,
        d_replayedBlocks := rp_ReplayedBlocks report, d_startedUTC := started,
        d_checkpointSequence := rp_CheckpointSequence report, d_checkpointFailures := rp_CheckpointFailures report,
        d_resume := \<lparr>ri_Status = resume_status chosen, ri_SourceFile = k_base lib (cc_path chosen), ri_SourceSHA256 = cc_sha256 chosen,
          ri_SourceSchema = rp_Schema report, ri_SourceCreatedUTC = rp_CreatedUTC report,
          ri_SourceSequence = rp_CheckpointSequence report, ri_SkippedCheckpoints = skipped, ri_PendingReceipt = True\<rparr>\<rparr>)"

definition restoreBestCheckpoint :: "ckpt_lib \<Rightarrow> dutyRuntime \<Rightarrow> dutyRuntime res option" where
  "restoreBestCheckpoint lib d =
     (case k_readDir lib (d_checkpointDir d) of
        Inl err \<Rightarrow> Some (Inl err)
      | Inr entries \<Rightarrow>
        (case scan_entries lib d entries [] 0 of
           None \<Rightarrow> None
         | Some (bySession, skipped) \<Rightarrow> Some (
           case k_order lib (map snd bySession) of
             [] \<Rightarrow> let resume = (if skipped > 0 then (d_resume d)\<lparr>ri_Status := ''FRESH_CHECKPOINTS_INVALID''\<rparr> else d_resume d)
                   in Inr (d\<lparr>d_resume := resume\<lparr>ri_SkippedCheckpoints := skipped\<rparr>\<rparr>)
           | c # cs \<Rightarrow>
             let chosen = strongest d c cs
             in case k_parseTime lib (rp_SessionStartedUTC (cc_report chosen)) of
                  None \<Rightarrow> Inl (Err ''parsing time'')
                | Some started \<Rightarrow> Inr (install_checkpoint lib d chosen started skipped))))"

definition configureCheckpoints :: "ckpt_lib \<Rightarrow> dutyRuntime \<Rightarrow> string \<Rightarrow> int \<Rightarrow> dutyRuntime res option" where
  "configureCheckpoints lib d path interval =
     (if path = [] \<or> interval \<le> 0 then Some (Inl (Err ''dutyscheduler: invalid checkpoint configuration''))
      else case bind_res (k_abs lib path) (\<lambda>canonical.
                bind_res (k_isDir lib canonical) (\<lambda>isDir.
                if \<not> isDir then Inl (Err ''dutyscheduler: checkpoint path is not a directory'') else Inr canonical)) of
             Inl err \<Rightarrow> Some (Inl err)
           | Inr canonical \<Rightarrow>
             restoreBestCheckpoint lib (d\<lparr>d_checkpointDir := canonical, d_checkpointInterval := interval, d_nextCheckpointUTC := 0\<rparr>))"

section \<open>The reconstructed clock is the running clock\<close>

lemma i64_nonneg:
  assumes "0 \<le> x" "x < 2 ^ 64" "0 \<le> i64 x"
  shows "x < 2 ^ 63" "i64 x = x"
proof -
  show "x < 2 ^ 63"
  proof (rule ccontr)
    assume "\<not> x < 2 ^ 63"
    then have "(x + 2 ^ 63 - 2 ^ 64) mod 2 ^ 64 = x + 2 ^ 63 - 2 ^ 64" using assms(2) by (intro mod_pos_pos_trivial) simp_all
    then have "(x + 2 ^ 63) mod 2 ^ 64 = x + 2 ^ 63 - 2 ^ 64" by (simp only: minus_mod_self2)
    then have "i64 x = x - 2 ^ 64" unfolding i64_def by linarith
    then show False using assms(2,3) by simp
  qed
  then show "i64 x = x" using assms(1) by (intro i64_id) simp_all
qed

lemma le_div_bound:
  fixes n w :: int
  assumes "0 \<le> n" "0 \<le> w" "0 < w \<longrightarrow> n \<le> max_int64 div w"
  shows "n * w \<le> max_int64"
proof (cases "w = 0")
  case False
  then have "n * w \<le> max_int64 div w * w" using assms by (intro mult_right_mono) simp_all
  also have "\<dots> \<le> max_int64" using False assms(2) pos_mod_sign [of w max_int64] div_mult_mod_eq [of max_int64 w] by linarith
  finally show ?thesis .
qed (simp add: max_int64_def)

lemma div_mult_split:
  fixes n k r :: int
  assumes "0 < r"
  shows "n * k div r = n * (k div r) + n * (k mod r) div r" "n * k mod r = n * (k mod r) mod r"
proof -
  have "n * k = n * (k mod r) + r * (n * (k div r))"
    using mult_div_mod_eq [of r k] by (metis add.commute distrib_left mult.left_commute)
  then show "n * k div r = n * (k div r) + n * (k mod r) div r" using assms by (simp add: add.commute)
  show "n * k mod r = n * (k mod r) mod r" by (simp add: mod_mult_right_eq)
qed

lemma dutySampleClock_exact:
  assumes "dutySampleClock blocks bs rate = Inr (t, r)"
  shows "t = int (unat blocks) * (bs * Second) div rate" "r = int (unat blocks) * (bs * Second) mod rate" "0 < bs" "0 < rate"
proof -
  let ?n = "int (unat blocks)" and ?k = "bs * Second"
  have g: "0 < bs" "0 < rate" "bs \<le> max_int64 div Second"
    using assms by (auto simp: dutySampleClock_def split: if_splits)
  have k: "0 < ?k" "?k \<le> max_int64" using g le_div_bound [of bs Second] by simp_all
  then have ik: "i64 ?k = ?k" by (intro i64_id) (simp_all add: max_int64_def)
  have q: "go_quot ?k rate = ?k div rate" "go_rem ?k rate = ?k mod rate" using k(1) g(2) by (simp_all del: times_int_code)
  define w where "w = ?k div rate"
  define m where "m = ?k mod rate"
  have wm: "0 \<le> w" "0 \<le> m" "m < rate" using k(1) g(2) by (simp_all add: w_def m_def pos_imp_zdiv_nonneg_iff)
  note a = assms [unfolded dutySampleClock_def Let_def ik q, folded w_def m_def]
  have b: "0 < w \<longrightarrow> ?n \<le> max_int64 div w" "0 < m \<longrightarrow> ?n \<le> max_int64 div m"
    using a wm by (auto simp: max_int64_def split: if_splits)
  have p: "?n * w \<le> max_int64" "?n * m \<le> max_int64" "0 \<le> ?n * w" "0 \<le> ?n * m"
    using le_div_bound [OF _ wm(1) b(1)] le_div_bound [OF _ wm(2) b(2)] wm by simp_all
  then have e: "i64 (?n * w) = ?n * w" "i64 (?n * m) = ?n * m" by (simp_all add: i64_id max_int64_def)
  have d: "0 \<le> ?n * m div rate" "?n * m div rate \<le> ?n * m"
    using p(4) g(2) zdiv_mono2 [of "?n * m" 1 rate] by (simp_all add: pos_imp_zdiv_nonneg_iff)
  have s: "0 \<le> ?n * w + ?n * m div rate" "?n * w + ?n * m div rate < 2 ^ 64" using p d by (simp_all add: max_int64_def)
  have t: "0 \<le> t" "t = i64 (?n * w + ?n * m div rate)" "r = ?n * m mod rate"
    using a p(4) g(2) unfolding e by (auto split: if_splits)
  then have "t = ?n * w + ?n * m div rate" using i64_nonneg(2) [OF s] by simp
  then show "t = ?n * ?k div rate" "r = ?n * ?k mod rate" "0 < bs" "0 < rate"
    using div_mult_split [OF g(2), of ?n ?k] t(3) g by (simp_all add: w_def m_def)
qed

section \<open>What a restored runtime satisfies\<close>

text \<open>A candidate that was read has a scheduler that the code could have reached, whose clock is that of the report, and
  the clock of the report is the clock after its number of blocks.\<close>

definition checkpoint_ok :: "ckpt_lib \<Rightarrow> dutyRuntime \<Rightarrow> dutyCheckpointCandidate \<Rightarrow> bool" where
  "checkpoint_ok lib d c \<longleftrightarrow>
     sched_reachable (l_fp (k_lib lib)) (l_configSHA256 (k_lib lib)) (cc_scheduler c) \<and>
     s_lastEnd (cc_scheduler c) = sp_SampleTimeNS (rp_Snapshot (cc_report c)) \<and>
     dutySampleClock (rp_DecodedBlocks (cc_report c) + rp_SkippedBlocks (cc_report c)) (d_blockSamples d) (d_sampleRate d) =
       Inr (sp_SampleTimeNS (rp_Snapshot (cc_report c)), cc_sampleRemainder c)"

lemma restore_report_reachable:
  assumes "sched_reachable (l_fp (k_lib lib)) (l_configSHA256 (k_lib lib)) s" "restore_report lib d report s = Inr (s', flags, full)"
  shows "sched_reachable (l_fp (k_lib lib)) (l_configSHA256 (k_lib lib)) s'"
  using assms(2) sched_reachable.restored [OF assms(1)] sched_reachable.promoted [OF assms(1)]
    sched_reachable.retargeted [OF assms(1)] sched_reachable.imported [OF assms(1)]
  by (auto simp: restore_report_def legacy_restore_def Let_def bind_res_eq_Inr split: if_splits sum.splits)

lemma snapshot_clock:
  assumes "take_Snapshot fp s = Some (s', sn)"
  shows "sp_SampleTimeNS sn = s_lastEnd s'"
  using assms by (auto simp: take_Snapshot_def split: option.splits)

lemma finish_read_ok:
  assumes "sched_reachable (l_fp (k_lib lib)) (l_configSHA256 (k_lib lib)) s" "finish_read lib d path contents report (s, flags, full) = Some (Inr c)"
  shows "checkpoint_ok lib d c"
proof -
  obtain exact target policy mode where f: "flags = (exact, target, policy, mode)" by (cases flags)
  obtain s1 sn where s1: "take_Snapshot (l_fp (k_lib lib)) s = Some (s1, sn)"
    using assms(2) by (auto simp: finish_read_def f split: option.splits)
  have r: "sched_reachable (l_fp (k_lib lib)) (l_configSHA256 (k_lib lib)) s1" by (rule sched_reachable.snapped [OF assms(1) s1])
  have m: "dutyCheckpointEvidenceMatches sn (rp_Snapshot report)" "cc_report c = report"
      "cc_scheduler c = (if full then PrepareResume s1 else s1)"
      "dutySampleClock (rp_DecodedBlocks report + rp_SkippedBlocks report) (d_blockSamples d) (d_sampleRate d) =
        Inr (sp_SampleTimeNS (rp_Snapshot report), cc_sampleRemainder c)"
    using assms(2) by (auto simp: finish_read_def f s1 Let_def split: if_splits sum.splits)
  have "s_lastEnd s1 = sp_SampleTimeNS (rp_Snapshot report)" using snapshot_clock [OF s1] m(1) by (simp add: dutyCheckpointEvidenceMatches_def)
  moreover have "s_lastEnd (cc_scheduler c) = s_lastEnd s1" by (simp add: m(3) PrepareResume_def stop_quiet_def)
  moreover have "sched_reachable (l_fp (k_lib lib)) (l_configSHA256 (k_lib lib)) (cc_scheduler c)"
    using r sched_reachable.stepped [OF r sched_step.resume] by (simp add: m(3))
  ultimately show ?thesis using m(2,4) by (simp add: checkpoint_ok_def)
qed

lemma readCheckpoint_ok:
  assumes "f64_ok (CaptureTarget (d_schedulerConfig d))" "readCheckpoint lib d path = Some (Inr c)"
  shows "checkpoint_ok lib d c"
proof -
  obtain contents report s r where r: "New (d_schedulerConfig d) = Inr s" "restore_report lib d report s = Inr r"
      "finish_read lib d path contents report r = Some (Inr c)"
    using assms(2) by (auto simp: readCheckpoint_def bind_res_eq_Inr split: sum.splits if_splits prod.splits)
  obtain s' flags full where rr: "r = (s', flags, full)" by (cases r)
  have "sched_reachable (l_fp (k_lib lib)) (l_configSHA256 (k_lib lib)) s'"
    by (rule restore_report_reachable [OF sched_reachable.built [OF r(1) assms(1)] r(2) [unfolded rr]])
  then show ?thesis by (rule finish_read_ok [OF _ r(3) [unfolded rr]])
qed

lemma set_update_subset: "set (AList.update k v al) \<subseteq> insert (k, v) (set al)"
  by (induction al) auto

lemma scan_entries_ok:
  assumes "f64_ok (CaptureTarget (d_schedulerConfig d))" "scan_entries lib d xs by_session skipped = Some (m, k)"
    "\<forall>c \<in> snd ` set by_session. checkpoint_ok lib d c"
  shows "\<forall>c \<in> snd ` set m. checkpoint_ok lib d c"
  using assms(2,3)
proof (induction xs arbitrary: by_session skipped)
  case (Cons x xs)
  show ?case
  proof (cases "checkpoint_entry x")
    case True
    obtain r where r: "readCheckpoint lib d (l_join (k_lib lib) (d_checkpointDir d) (fst x)) = Some r"
      using Cons.prems(1) True by (auto split: option.splits)
    show ?thesis
    proof (cases r)
      case (Inl e)
      then show ?thesis using Cons.IH [of by_session "skipped + 1"] Cons.prems True r by simp
    next
      case (Inr c)
      have "checkpoint_ok lib d c" using readCheckpoint_ok [OF assms(1)] r Inr by simp
      then have up: "\<forall>c' \<in> snd ` set (AList.update session c by_session). checkpoint_ok lib d c'" for session
        using Cons.prems(2) set_update_subset [of session c by_session] by fastforce
      let ?newer = "case map_of by_session (rp_SessionStartedUTC (cc_report c)) of None \<Rightarrow> True
        | Some previous \<Rightarrow> rp_CheckpointSequence (cc_report c) > rp_CheckpointSequence (cc_report previous)"
      have "scan_entries lib d xs (if ?newer then AList.update (rp_SessionStartedUTC (cc_report c)) c by_session else by_session) skipped = Some (m, k)"
        using Cons.prems(1) True r Inr by (simp add: Let_def)
      from Cons.IH [OF this] show ?thesis using up Cons.prems(2) by presburger
    qed
  qed (use Cons in simp)
qed simp

lemma strongest_in: "strongest d c cs \<in> set (c # cs)"
proof (induction cs arbitrary: c)
  case (Cons a cs)
  have "strongest d c (a # cs) = strongest d (if stronger d a c then a else c) cs" by (simp add: strongest_def)
  then show ?case using Cons.IH [of "if stronger d a c then a else c"] by (simp split: if_splits) blast+
qed (simp add: strongest_def)

lemma install_checkpoint_ok:
  fixes started skipped
  assumes "duty_inv (k_lib lib) d" "checkpoint_ok lib d c"
  defines "d' \<equiv> install_checkpoint lib d c started skipped"
  shows "duty_inv (k_lib lib) d'" "clock_at d' (unat (d_decodedBlocks d' + d_skippedBlocks d'))" "s_lastEnd (d_scheduler d') = d_sampleTime d'"
proof -
  let ?r = "cc_report c" and ?n = "int (unat (rp_DecodedBlocks (cc_report c) + rp_SkippedBlocks (cc_report c)))"
  have e: "d_collar d' = d_collar d" "d_collarNext d' = d_collarNext d" "d_collarCount d' = d_collarCount d"
     "d_borrowRaw d' = d_borrowRaw d" "d_blockBytes d' = d_blockBytes d" "d_warmupBlocks d' = d_warmupBlocks d"
     "d_wasSkipped d' = d_wasSkipped d" "d_skippedRun d' = d_skippedRun d" "d_sampleRate d' = d_sampleRate d"
     "d_blockSamples d' = d_blockSamples d" "d_scheduler d' = cc_scheduler c" "d_decodedBlocks d' = rp_DecodedBlocks ?r"
     "d_skippedBlocks d' = rp_SkippedBlocks ?r" "d_sampleTime d' = sp_SampleTimeNS (rp_Snapshot ?r)" "d_sampleRemainder d' = cc_sampleRemainder c"
    by (simp_all add: d'_def install_checkpoint_def Let_def)
  have c: "sched_reachable (l_fp (k_lib lib)) (l_configSHA256 (k_lib lib)) (cc_scheduler c)"
      "s_lastEnd (cc_scheduler c) = sp_SampleTimeNS (rp_Snapshot ?r)"
      "dutySampleClock (rp_DecodedBlocks ?r + rp_SkippedBlocks ?r) (d_blockSamples d) (d_sampleRate d) = Inr (sp_SampleTimeNS (rp_Snapshot ?r), cc_sampleRemainder c)"
    using assms(2) by (simp_all add: checkpoint_ok_def)
  note t = dutySampleClock_exact [OF c(3)]
  show "clock_at d' (unat (d_decodedBlocks d' + d_skippedBlocks d'))" using t by (simp only: clock_at_def e simp_thms)
  show "s_lastEnd (d_scheduler d') = d_sampleTime d'" using c(2) by (simp add: e)
  have "entry_ok d' = entry_ok d" by (intro ext) (simp add: entry_ok_def e split: option.split)
  moreover have "0 \<le> cc_sampleRemainder c" "cc_sampleRemainder c < d_sampleRate d" using t by simp_all
  ultimately show "duty_inv (k_lib lib) d'" using assms(1) c(1) by (simp add: duty_inv_def duty_wf_def ring_ok_def clock_ok_def e)
qed

lemma continuous_tick:
  assumes "clock_ok d" "clock_at d n" "s_lastEnd (d_scheduler d) = d_sampleTime d" "d_sampleRate d \<le> d_blockSamples d * Second"
    "int (Suc n) * (d_blockSamples d * Second) div d_sampleRate d < 2 ^ 63"
  shows "\<exists>d1 t0 t1. tick_clock d = Inr (d1, t0, t1) \<and> \<not> discontinuity (d_scheduler d) t0 t1"
proof -
  let ?k = "d_blockSamples d * Second" and ?r = "d_sampleRate d"
  have r: "0 < ?r" "0 < ?k" using assms(1) by (simp_all add: clock_ok_def)
  obtain d1 where d1: "tick_clock d = Inr (d1, int n * ?k div ?r, int (Suc n) * ?k div ?r)" using tick_clock_at [OF assms(1,2,5)] by blast
  have "int n * ?k + ?r * 1 \<le> int (Suc n) * ?k" using assms(4) by (simp add: algebra_simps)
  then have "(int n * ?k + ?r * 1) div ?r \<le> int (Suc n) * ?k div ?r" using r by (intro zdiv_mono1)
  then have "int n * ?k div ?r < int (Suc n) * ?k div ?r" using r by simp
  moreover have "0 \<le> int n * ?k div ?r" using r by (simp add: pos_imp_zdiv_nonneg_iff)
  moreover have "int n * ?k div ?r = s_lastEnd (d_scheduler d)" using assms(2,3) by (simp add: clock_at_def)
  ultimately show ?thesis using d1 by (auto simp: discontinuity_def)
qed

lemma restoreBestCheckpoint_cases:
  assumes "f64_ok (CaptureTarget (d_schedulerConfig d))" "\<forall>xs. set (k_order lib xs) = set xs" "restoreBestCheckpoint lib d = Some (Inr d')"
  shows "(\<exists>resume. d' = d\<lparr>d_resume := resume\<rparr>) \<or>
    (\<exists>c started skipped. checkpoint_ok lib d c \<and> d' = install_checkpoint lib d c started skipped)"
proof -
  obtain entries where "k_readDir lib (d_checkpointDir d) = Inr entries"
    using assms(3) by (auto simp: restoreBestCheckpoint_def split: sum.splits)
  moreover obtain m skipped where m: "scan_entries lib d entries [] 0 = Some (m, skipped)"
    using assms(3) calculation by (auto simp: restoreBestCheckpoint_def split: option.splits)
  ultimately have r: "(case k_order lib (map snd m) of
      [] \<Rightarrow> let resume = (if skipped > 0 then (d_resume d)\<lparr>ri_Status := ''FRESH_CHECKPOINTS_INVALID''\<rparr> else d_resume d)
            in Inr (d\<lparr>d_resume := resume\<lparr>ri_SkippedCheckpoints := skipped\<rparr>\<rparr>)
    | c # cs \<Rightarrow> let chosen = strongest d c cs
        in case k_parseTime lib (rp_SessionStartedUTC (cc_report chosen)) of
             None \<Rightarrow> Inl (Err ''parsing time'')
           | Some started \<Rightarrow> Inr (install_checkpoint lib d chosen started skipped)) = Inr d'"
    using assms(3) by (simp add: restoreBestCheckpoint_def)
  show ?thesis
  proof (cases "k_order lib (map snd m)")
    case Nil
    then show ?thesis using r by (auto simp: Let_def)
  next
    case (Cons c cs)
    have "\<forall>c \<in> snd ` set m. checkpoint_ok lib d c" by (rule scan_entries_ok [OF assms(1) m]) simp
    moreover have "set (c # cs) = snd ` set m" using assms(2) Cons by (metis set_map)
    ultimately have "checkpoint_ok lib d (strongest d c cs)" using strongest_in [of d c cs] by blast
    then show ?thesis using r Cons by (auto simp: Let_def split: option.splits)
  qed
qed

section \<open>Property\<close>


definition off_config :: Config where
  "off_config = demo_config\<lparr>cfg_Mode := ''off'', Senders := [], Candidates := []\<rparr>"

definition demo_snapshot :: Snapshot where
  "demo_snapshot = \<lparr>sp_Mode = ''off'', sp_State = [], sp_Selected = [], sp_SampleTimeNS = 80000000, sp_RecoveryUntilNS = 0,
     sp_DeadlineDeficits = 0, sp_CountDeficits = 0, sp_Discontinuities = 0, sp_Refreshes = 0, sp_RefreshUntilNS = 0,
     sp_NextRefreshNS = 0, sp_ObservedSenders = [], sp_Protocols = [], sp_Candidates = []\<rparr>"

definition demo_report :: dutyRuntimeReport where
  "demo_report =
     \<lparr>rp_Schema = ''rtlamr-duty-scheduler-live-v2'', rp_CreatedUTC = ''b'', rp_SessionStartedUTC = ''a'', rp_ReportKind = ''hourly'',
      rp_CheckpointSequence = 4, rp_CheckpointFailures = 0, rp_Mode = ''off'', rp_CaptureTarget = Fin 0, rp_Confidence = Fin 0,
      rp_MinimumAudit = Fin 0, rp_RecoveryDurationNS = 0, rp_RefreshIntervalNS = 0, rp_RefreshDurationNS = 0,
      rp_PromotionMargin = Fin 0, rp_PromotionStabilityNS = 0, rp_WatchdogHistory = 0, rp_WatchdogMinIntervals = 0,
      rp_WatchdogWindowNS = 0, rp_WatchdogQuantile = Fin 0, rp_WatchdogMargin = Fin 0, rp_SenderIDs = [], rp_SampleRate = 100,
      rp_BlockSamples = 4, rp_BlockBytes = 8, rp_CollarBlocks = 4, rp_WarmupBlocks = 3, rp_SampleRemainder = 0,
      rp_DecodedBlocks = 2, rp_SkippedBlocks = 0, rp_AuditedBlocks = 0, rp_RefreshBlocks = 0, rp_Rebuilds = 0, rp_ReplayedBlocks = 0,
      rp_TrustETA = \<lparr>te_Status = [], te_Assumption = [], te_Candidate = [], te_LimitingSenderID = 0, te_EstimatedRemainingSeconds = None,
        te_EstimatedReadyUTC = [], te_Candidates = []\<rparr>,
      rp_Snapshot = demo_snapshot, rp_Resume = fresh_resume ''FRESH'', rp_SchedulerState = demo_state\<rparr>"

definition demo_ckpt :: ckpt_lib where
  "demo_ckpt = \<lparr>k_lib = demo_report_lib, k_parseTime = (\<lambda>s. Some (if s = ''a'' then 1 else 2)), k_abs = Inr, k_isDir = (\<lambda>_. Inr True),
     k_readDir = (\<lambda>_. Inr [(''latest.json'', False), (''checkpoint-a-000004.json'', False)]), k_lstat = (\<lambda>_. Inr (True, False, 100)),
     k_readFile = (\<lambda>_. Inr [1]), k_unmarshal = (\<lambda>_. Inr demo_report), k_sha256 = (\<lambda>_. []), k_base = (\<lambda>p. p), k_order = (\<lambda>cs. cs)\<rparr>"

definition demo_duty :: dutyRuntime where
  "demo_duty = the_res (newDutyRuntimeWithConfig demo_geometry [] off_config 0)"

lemma demo_duty: "newDutyRuntimeWithConfig demo_geometry [] off_config 0 = Inr demo_duty"
  unfolding demo_duty_def by (rule the_res_Inr) code_simp

definition off0 :: Scheduler where "off0 = the_res (New off_config)"
definition off1 :: Scheduler where "off1 = the_res (New (s_cfg off0))"
definition off2 :: Scheduler where "off2 = the_res (RestoreLegacySnapshot demo_lib off1 demo_snapshot)"

lemma off_schedulers: "New off_config = Inr off0" "New (s_cfg off0) = Inr off1" "RestoreLegacySnapshot demo_lib off1 demo_snapshot = Inr off2"
  unfolding off0_def off1_def off2_def by (rule the_res_Inr, code_simp)+

lemma off2_fields: "s_candidates off2 = []" "s_senders off2 = []" "s_lastEnd off2 = 80000000" "s_deadlineDeficits off2 = 0"
  "s_countDeficits off2 = 0" "cfg_Mode (s_cfg off2) = ''off''"
  by code_simp+

lemma demo_duty_fields: "length (d_collar demo_duty) = 4" "d_warmupBlocks demo_duty = 3" "d_mode demo_duty = ''off''" "d_senderIDs demo_duty = []"
  "d_sampleRate demo_duty = 100" "d_blockSamples demo_duty = 4" "d_blockBytes demo_duty = 8"
  by code_simp+

lemma demo_duty_config: "d_schedulerConfig demo_duty = s_cfg off0" "d_scheduler demo_duty = off0" "duty_wf demo_duty"
proof -
  obtain d0 where "newDutyRuntimeWithConfig demo_geometry [] off_config 0 = Inr d0" "duty_wf d0" "d_scheduler d0 = off0" "d_schedulerConfig d0 = s_cfg off0"
    by (rule newDutyRuntimeWithConfig_ok [OF demo_geometry_sane off_schedulers(1), of "[]" 0]) blast
  then show "d_schedulerConfig demo_duty = s_cfg off0" "d_scheduler demo_duty = off0" "duty_wf demo_duty" using demo_duty by simp_all
qed

lemma demo_clock: "dutySampleClock 2 4 100 = Inr (80000000, 0)"
  by code_simp

lemma demo_resume:
  "\<exists>d'. configureCheckpoints demo_ckpt demo_duty ''dir'' 3600 = Some (Inr d') \<and> ri_Status (d_resume d') = ''RESTORED_LEGACY''"
proof -
  let ?d = "demo_duty\<lparr>d_checkpointDir := ''dir'', d_checkpointInterval := 3600, d_nextCheckpointUTC := 0\<rparr>"
  have v: "validateCheckpointReport demo_ckpt ?d demo_report = Inr ()"
    by (simp add: validateCheckpointReport_def demo_report_def demo_snapshot_def current_schema_def compatible_mode_def demo_duty_fields demo_ckpt_def max_uint64_def)
  have sel: "k_lstat demo_ckpt = (\<lambda>_. Inr (True, False, 100))" "k_readFile demo_ckpt = (\<lambda>_. Inr [1])"
      "k_unmarshal demo_ckpt = (\<lambda>_. Inr demo_report)" "l_fp (k_lib demo_ckpt) = demo_lib"
    by (simp_all add: demo_ckpt_def demo_report_lib_def)
  have rr: "restore_report demo_ckpt ?d demo_report off1 = Inr (off2, (False, False, False, False), False)"
    by (simp add: restore_report_def legacy_restore_def current_schema_def demo_report_def demo_ckpt_def demo_report_lib_def off_schedulers)
  have rd: "readCheckpoint demo_ckpt ?d path = finish_read demo_ckpt ?d path [1] demo_report (off2, (False, False, False, False), False)" for path
    by (simp add: readCheckpoint_def sel v rr demo_duty_config off_schedulers dutyCheckpointMaxBytes_def)
  obtain sn where sn: "take_Snapshot demo_lib off2 = Some (off2, sn)" "dutyCheckpointEvidenceMatches sn demo_snapshot"
    by (simp add: take_Snapshot_def off2_fields dutyCheckpointEvidenceMatches_def compatible_mode_def demo_snapshot_def)
  have rp: "rp_DecodedBlocks demo_report + rp_SkippedBlocks demo_report = 2" "rp_Snapshot demo_report = demo_snapshot" "sp_SampleTimeNS demo_snapshot = 80000000"
    by (simp_all add: demo_report_def demo_snapshot_def)
  have "\<exists>c. readCheckpoint demo_ckpt ?d path = Some (Inr c) \<and> resume_status c = ''RESTORED_LEGACY'' \<and> cc_report c = demo_report" for path
    unfolding rd by (simp add: finish_read_def sel sn rp demo_duty_fields demo_clock resume_status_def)
  then obtain c where c: "readCheckpoint demo_ckpt ?d (l_join (k_lib demo_ckpt) ''dir'' ''checkpoint-a-000004.json'') = Some (Inr c)"
      "resume_status c = ''RESTORED_LEGACY''" "cc_report c = demo_report" by blast
  have "k_readDir demo_ckpt ''dir'' = Inr [(''latest.json'', False), (''checkpoint-a-000004.json'', False)]" "k_order demo_ckpt = (\<lambda>cs. cs)"
      "k_abs demo_ckpt = Inr" "k_isDir demo_ckpt = (\<lambda>_. Inr True)" "k_parseTime demo_ckpt = (\<lambda>s. Some (if s = ''a'' then 1 else 2))"
    by (simp_all add: demo_ckpt_def)
  moreover have "\<not> checkpoint_entry (''latest.json'', False)" "checkpoint_entry (''checkpoint-a-000004.json'', False)"
    by (simp_all add: checkpoint_entry_def prefix_def suffix_def)
  ultimately show ?thesis using c(1)
    by (simp add: configureCheckpoints_def restoreBestCheckpoint_def strongest_def install_checkpoint_def c(2) Let_def)
qed


end
