(* ===== verification/DutyPolicy.thy ===== *)
theory DutyPolicy
  imports SchedState
begin

text \<open>
  The policy file of the duty scheduler (\<^verbatim>\<open>src/duty_policy.go\<close>): how a decoded document overrides the
  default configuration. The file system, the strict JSON decoder and the parser of durations are parameters; a field of
  the document that was absent is \<open>None\<close> or the empty string.
\<close>

section \<open>The document\<close>

record dutySenderPolicy =
  sy_ID :: u64
  sy_Overdue :: string
  sy_CountWindow :: string
  sy_MinimumCount :: int

record dutyPolicyDocument =
  py_Schema :: string
  py_Confidence :: "f64 option"
  py_MinimumAudit :: "f64 option"
  py_RecoveryDuration :: string
  py_RefreshInterval :: string
  py_RefreshDuration :: string
  py_PromotionMargin :: "f64 option"
  py_PromotionStability :: string
  py_WatchdogHistory :: "int option"
  py_WatchdogMinIntervals :: "int option"
  py_WatchdogWindow :: string
  py_WatchdogQuantile :: "f64 option"
  py_WatchdogMargin :: "f64 option"
  py_Senders :: "dutySenderPolicy list"

record policy_lib =
  f_lstat :: "string \<Rightarrow> (bool \<times> bool \<times> u32 \<times> int) res"
  f_read :: "string \<Rightarrow> u8 list res"
  f_decode :: "u8 list \<Rightarrow> dutyPolicyDocument res"
  f_trailing :: "u8 list \<Rightarrow> bool"
  f_parseDuration :: "string \<Rightarrow> int option"

definition dutyPolicySchema :: string where "dutyPolicySchema = ''rtlamr-duty-scheduler-policy-v1''"
definition dutyPolicyMaxBytes :: int where "dutyPolicyMaxBytes = 2 ^ 20"

section \<open>Applying it\<close>

definition parseOptionalDuration :: "policy_lib \<Rightarrow> string \<Rightarrow> string \<Rightarrow> int \<Rightarrow> int res" where
  "parseOptionalDuration lib label value target =
     (if value = [] then Inr target
      else case f_parseDuration lib value of
             None \<Rightarrow> Inl (Err (''dutyscheduler: invalid '' @ label))
           | Some parsed \<Rightarrow> if parsed \<le> 0 then Inl (Err (''dutyscheduler: invalid '' @ label)) else Inr parsed)"

definition override :: "'a option \<Rightarrow> 'a \<Rightarrow> 'a" where
  "override opt x = (case opt of None \<Rightarrow> x | Some y \<Rightarrow> y)"

text \<open>Raising the minimum audit raises every candidate that is below it.\<close>

definition policy_numbers :: "dutyPolicyDocument \<Rightarrow> Config \<Rightarrow> Config" where
  "policy_numbers policy config =
     (let config = config\<lparr>Confidence := override (py_Confidence policy) (Confidence config)\<rparr>;
          config = (case py_MinimumAudit policy of
                      None \<Rightarrow> config
                    | Some audit \<Rightarrow> config\<lparr>MinimumAudit := audit,
                        Candidates := map (\<lambda>c. if flt (AuditFraction c) audit then c\<lparr>AuditFraction := audit\<rparr> else c) (Candidates config)\<rparr>)
      in config\<lparr>PromotionMargin := override (py_PromotionMargin policy) (PromotionMargin config),
                WatchdogHistory := override (py_WatchdogHistory policy) (WatchdogHistory config),
                WatchdogMinIntervals := override (py_WatchdogMinIntervals policy) (WatchdogMinIntervals config),
                WatchdogQuantile := override (py_WatchdogQuantile policy) (WatchdogQuantile config),
                WatchdogMargin := override (py_WatchdogMargin policy) (WatchdogMargin config)\<rparr>)"

definition policy_durations :: "policy_lib \<Rightarrow> dutyPolicyDocument \<Rightarrow> Config \<Rightarrow> Config res" where
  "policy_durations lib policy config =
     bind_res (parseOptionalDuration lib ''recovery duration'' (py_RecoveryDuration policy) (RecoveryDuration config)) (\<lambda>recovery.
     bind_res (parseOptionalDuration lib ''refresh interval'' (py_RefreshInterval policy) (RefreshInterval config)) (\<lambda>interval.
     bind_res (parseOptionalDuration lib ''refresh duration'' (py_RefreshDuration policy) (RefreshDuration config)) (\<lambda>duration.
     bind_res (parseOptionalDuration lib ''promotion stability'' (py_PromotionStability policy) (PromotionStability config)) (\<lambda>stability.
     bind_res (parseOptionalDuration lib ''watchdog window'' (py_WatchdogWindow policy) (WatchdogWindow config)) (\<lambda>window.
     Inr (config\<lparr>RecoveryDuration := recovery, RefreshInterval := interval, RefreshDuration := duration,
                 PromotionStability := stability, WatchdogWindow := window\<rparr>))))))"

text \<open>The map from identifiers to positions keeps the last position of an identifier.\<close>

definition configured :: "SenderConfig list \<Rightarrow> u64 \<Rightarrow> nat option" where
  "configured senders i = map_option (\<lambda>k. length senders - 1 - k) (find_index (\<lambda>s. ID s = i) (rev senders))"

fun policy_senders :: "policy_lib \<Rightarrow> u64 list \<Rightarrow> SenderConfig list \<Rightarrow> dutySenderPolicy list \<Rightarrow> SenderConfig list res" where
  "policy_senders lib seen senders [] = Inr senders"
| "policy_senders lib seen senders (p # ps) =
     (case configured senders (sy_ID p) of
        None \<Rightarrow> Inl (Err ''dutyscheduler: invalid policy sender inventory'')
      | Some idx \<Rightarrow>
        if sy_ID p \<in> set seen \<or> sy_MinimumCount p < 0 then Inl (Err ''dutyscheduler: invalid policy sender inventory'')
        else let sender = senders ! idx in
          bind_res (parseOptionalDuration lib ''sender overdue'' (sy_Overdue p) (Overdue sender)) (\<lambda>overdue.
          bind_res (parseOptionalDuration lib ''sender count window'' (sy_CountWindow p) (CountWindow sender)) (\<lambda>window.
          policy_senders lib (sy_ID p # seen)
            (senders[idx := sender\<lparr>Overdue := overdue, CountWindow := window, MinimumCount := sy_MinimumCount p\<rparr>]) ps)))"

definition loadDutySchedulerConfig :: "policy_lib \<Rightarrow> Mode \<Rightarrow> u64 list \<Rightarrow> f64 \<Rightarrow> string \<Rightarrow> Config res" where
  "loadDutySchedulerConfig lib mode ids captureTarget path =
     (let config = (DefaultConfig mode ids)\<lparr>CaptureTarget := captureTarget\<rparr> in
      if path = [] then Inr config
      else bind_res (f_lstat lib path) (\<lambda>(regular, symlink, perm, size).
        if \<not> regular \<or> symlink \<or> perm AND 63 \<noteq> 0 \<or> size \<le> 0 \<or> size > dutyPolicyMaxBytes
        then Inl (Err ''dutyscheduler: invalid policy file'')
        else bind_res (f_read lib path) (\<lambda>contents.
             bind_res (f_decode lib contents) (\<lambda>policy.
             if f_trailing lib contents then Inl (Err ''dutyscheduler: policy contains trailing data'')
             else if py_Schema policy \<noteq> dutyPolicySchema then Inl (Err ''dutyscheduler: unsupported policy schema'')
             else bind_res (policy_durations lib policy (policy_numbers policy config)) (\<lambda>config.
                  bind_res (policy_senders lib [] (Senders config) (py_Senders policy)) (\<lambda>senders.
                  let config = config\<lparr>Senders := senders\<rparr>
                  in bind_res (New config) (\<lambda>_. Inr config)))))))"

section \<open>What a policy cannot change\<close>

lemma configured_index:
  assumes "configured senders i = Some k"
  shows "k < length senders" "ID (senders ! k) = i"
  using assms find_index_nth [of "\<lambda>s. ID s = i" "rev senders"] by (auto simp: configured_def rev_nth)

lemma policy_senders_ids: "policy_senders lib seen senders ps = Inr senders' \<Longrightarrow> map ID senders' = map ID senders"
proof (induction ps arbitrary: seen senders)
  case (Cons p ps)
  obtain k where k: "configured senders (sy_ID p) = Some k" using Cons.prems by (auto split: option.splits)
  obtain sc seen' where s: "policy_senders lib seen' (senders[k := sc]) ps = Inr senders'" "ID sc = ID (senders ! k)"
    using Cons.prems by (auto simp: k bind_res_eq_Inr Let_def split: if_splits)
  have "map ID (senders[k := sc]) = map ID senders"
    using s(2) by (metis list_update_id map_update)
  then show ?case using Cons.IH [OF s(1)] by simp
qed simp

lemma policy_durations_keeps:
  "policy_durations lib policy c = Inr c' \<Longrightarrow>
     cfg_Mode c' = cfg_Mode c \<and> CaptureTarget c' = CaptureTarget c \<and> Senders c' = Senders c \<and> Candidates c' = Candidates c \<and>
     RandomSeed c' = RandomSeed c"
  by (auto simp: policy_durations_def bind_res_eq_Inr)

lemma policy_numbers_keeps:
  "cfg_Mode (policy_numbers policy c) = cfg_Mode c" "CaptureTarget (policy_numbers policy c) = CaptureTarget c"
  "Senders (policy_numbers policy c) = Senders c" "RandomSeed (policy_numbers policy c) = RandomSeed c"
  "map Name (Candidates (policy_numbers policy c)) = map Name (Candidates c)"
  by (simp_all add: policy_numbers_def Let_def split: option.split)

text \<open>A policy file cannot change the mode, the contract, the seed or the inventories, and what it yields is accepted by
  the scheduler.\<close>

lemma policy_keeps_the_contract:
  assumes "loadDutySchedulerConfig lib mode ids captureTarget path = Inr config"
  shows "cfg_Mode config = mode" "CaptureTarget config = captureTarget" "map ID (Senders config) = sort ids"
    "map Name (Candidates config) = map Name DefaultCandidates" "path \<noteq> [] \<Longrightarrow> \<exists>s. New config = Inr s"
proof -
  let ?d = "(DefaultConfig mode ids)\<lparr>CaptureTarget := captureTarget\<rparr>"
  have d: "cfg_Mode ?d = mode" "CaptureTarget ?d = captureTarget" "map ID (Senders ?d) = sort ids" "Candidates ?d = DefaultCandidates"
    by (simp_all add: DefaultConfig_def DefaultSenderConfig_def comp_def)
  consider "path = []" "config = ?d"
    | policy c senders where "path \<noteq> []" "policy_durations lib policy (policy_numbers policy ?d) = Inr c"
        "policy_senders lib [] (Senders c) (py_Senders policy) = Inr senders" "config = c\<lparr>Senders := senders\<rparr>" "\<exists>s. New config = Inr s"
    using assms by (fastforce simp: loadDutySchedulerConfig_def Let_def bind_res_eq_Inr split: if_splits prod.splits)
  then have "cfg_Mode config = mode \<and> CaptureTarget config = captureTarget \<and> map ID (Senders config) = sort ids \<and>
      map Name (Candidates config) = map Name DefaultCandidates \<and> (path \<noteq> [] \<longrightarrow> (\<exists>s. New config = Inr s))"
  proof cases
    case 1
    then show ?thesis using d by simp
  next
    case 2
    then show ?thesis using d policy_durations_keeps [OF 2(2)] policy_senders_ids [OF 2(3)] by (simp add: policy_numbers_keeps)
  qed
  then show "cfg_Mode config = mode" "CaptureTarget config = captureTarget" "map ID (Senders config) = sort ids"
    "map Name (Candidates config) = map Name DefaultCandidates" "path \<noteq> [] \<Longrightarrow> \<exists>s. New config = Inr s" by auto
qed

end
