(* ===== verification/Replay.thy ===== *)
theory Replay
  imports DecodeMain DutyRuntime
begin

text \<open>
  Why the collar suffices: the view of a decoder forgets. Two views that differ in what was received before agree after as many
  blocks as cover the buffer plus one, because the decisions of a block depend on one symbol of earlier samples only.
\<close>

section \<open>Agreement of the recent past\<close>

definition agree :: "nat \<Rightarrow> 'a list \<Rightarrow> 'a list \<Rightarrow> bool" where
  "agree n xs ys \<longleftrightarrow> length xs = length ys \<and> last_n n xs = last_n n ys"

lemma agree_all: "agree n xs ys \<Longrightarrow> length xs \<le> n \<Longrightarrow> xs = ys"
  unfolding agree_def by (metis last_n_all)

lemma agree_zero: "length xs = length ys \<Longrightarrow> agree 0 xs ys"
  by (simp add: agree_def last_n_def)

lemma agree_mono: "agree n xs ys \<Longrightarrow> m \<le> n \<Longrightarrow> agree m xs ys"
  unfolding agree_def by (metis last_n_last_n min_absorb1)

lemma last_n_drop: "n \<le> length xs - k \<Longrightarrow> k \<le> length xs \<Longrightarrow> last_n n (drop k xs) = last_n n xs"
proof -
  assume "n \<le> length xs - k" "k \<le> length xs"
  then have "length xs - k - n + k = length xs - n" by linarith
  then show ?thesis by (simp add: last_n_def)
qed

lemma agree_slide:
  assumes "agree n xs ys" "length zs = k" "k \<le> length xs"
  shows "agree (n + k) (drop k xs @ zs) (drop k ys @ zs)"
proof -
  have l: "length xs = length ys" using assms(1) by (simp add: agree_def)
  have "last_n n (drop k xs) = last_n n (drop k ys)"
  proof (cases "n \<le> length xs - k")
    case True
    then show ?thesis using assms(1,3) l by (simp add: agree_def last_n_drop)
  next
    case False
    then have "agree (length xs - k) xs ys" by (intro agree_mono [OF assms(1)]) simp
    then have "drop k xs = drop k ys" using l assms(3) by (simp add: agree_def last_n_def)
    then show ?thesis by simp
  qed
  then show ?thesis using assms(2) l by (simp add: agree_def last_n_append)
qed

lemma recent_last_n: "recent c v = last_n (BlockSize c + SymbolLength c) v"
  by (simp add: recent_def last_n_def)

section \<open>Forgetting\<close>

definition view_sized :: "PacketConfig \<Rightarrow> bool \<Rightarrow> stream_view \<Rightarrow> bool" where
  "view_sized c int_path v \<longleftrightarrow> BlockSize c \<le> length (v_decisions v) \<and>
     (if int_path then v_magnitudes v = [] \<and> BlockSize c \<le> length (v_powers v)
      else v_powers v = [] \<and> BlockSize c \<le> length (v_magnitudes v))"

definition view_agree :: "nat \<Rightarrow> nat \<Rightarrow> stream_view \<Rightarrow> stream_view \<Rightarrow> bool" where
  "view_agree n m v w \<longleftrightarrow> agree m (v_decisions v) (v_decisions w) \<and> agree n (v_powers v) (v_powers w) \<and> agree n (v_magnitudes v) (v_magnitudes w)"

lemma view_step_sized: "view_sized c i v \<Longrightarrow> length input = 2 * BlockSize c \<Longrightarrow> view_sized c i (view_step c i v input)"
  by (simp add: view_sized_def view_step_def Let_def split: if_splits)

lemma view_step_blank: "view_sized c i v \<Longrightarrow> length input = 2 * BlockSize c \<Longrightarrow> blank (view_step c i v input) = blank v"
  by (simp add: view_sized_def view_step_def Let_def blank_def split: if_splits)

lemma view_agree_step:
  assumes "view_agree n m v w" "view_sized c i v" "view_sized c i w" "length input = 2 * BlockSize c"
  shows "view_agree (n + BlockSize c) (if SymbolLength c \<le> n then m + BlockSize c else 0) (view_step c i v input) (view_step c i w input)"
proof -
  let ?B = "BlockSize c"
  have a: "agree m (v_decisions v) (v_decisions w)" "agree n (v_powers v) (v_powers w)" "agree n (v_magnitudes v) (v_magnitudes w)"
    using assms(1) by (simp_all add: view_agree_def)
  have l: "length (powers input) = ?B" "length (magnitudes input) = ?B" using assms(4) by simp_all
  have ps: "i \<Longrightarrow> agree (n + ?B) (drop ?B (v_powers v) @ powers input) (drop ?B (v_powers w) @ powers input)"
    using agree_slide [OF a(2) l(1)] assms(2) by (simp add: view_sized_def)
  have ms: "\<not> i \<Longrightarrow> agree (n + ?B) (drop ?B (v_magnitudes v) @ magnitudes input) (drop ?B (v_magnitudes w) @ magnitudes input)"
    using agree_slide [OF a(3) l(2)] assms(2) by (simp add: view_sized_def)
  define dv :: "stream_view \<Rightarrow> u8 list" where "dv = (\<lambda>v. if i then map (decides (recent c (drop ?B (v_powers v) @ powers input)) (ChipLength c)) [0..<?B]
    else float_decisions (ChipLength c) (recent c (drop ?B (v_magnitudes v) @ magnitudes input)) ?B)"
  have dl: "length (dv v) = ?B" "length (dv w) = ?B" by (simp_all add: dv_def)
  have same: "dv v = dv w" if "SymbolLength c \<le> n"
  proof (cases i)
    case True
    have "agree (?B + SymbolLength c) (drop ?B (v_powers v) @ powers input) (drop ?B (v_powers w) @ powers input)"
      using that by (intro agree_mono [OF ps [OF True]]) simp
    then show ?thesis using True by (simp add: dv_def agree_def recent_last_n)
  next
    case False
    have "agree (?B + SymbolLength c) (drop ?B (v_magnitudes v) @ magnitudes input) (drop ?B (v_magnitudes w) @ magnitudes input)"
      using that by (intro agree_mono [OF ms [OF False]]) simp
    then show ?thesis using False by (simp add: dv_def agree_def recent_last_n)
  qed
  have dec: "agree (if SymbolLength c \<le> n then m + ?B else 0) (drop ?B (v_decisions v) @ dv v) (drop ?B (v_decisions w) @ dv w)"
    using agree_slide [OF a(1), of "dv w" ?B] assms(2) same dl a(1) by (auto simp: view_sized_def agree_zero agree_def [of m])
  have e: "v_decisions (view_step c i x input) = drop ?B (v_decisions x) @ dv x"
      "v_powers (view_step c i x input) = (if i then drop ?B (v_powers x) @ powers input else [])"
      "v_magnitudes (view_step c i x input) = (if i then [] else drop ?B (v_magnitudes x) @ magnitudes input)" for x
    by (simp_all add: view_step_def Let_def dv_def)
  show ?thesis unfolding view_agree_def e using dec ps ms by (simp add: agree_def [of _ "[]" "[]"])
qed

lemma view_agree_run:
  assumes "view_agree n m v w" "view_sized c i v" "view_sized c i w" "\<forall>b \<in> set bs. length b = 2 * BlockSize c" "SymbolLength c \<le> n"
  shows "view_agree (n + length bs * BlockSize c) (m + length bs * BlockSize c) (foldl (view_step c i) v bs) (foldl (view_step c i) w bs)"
  using assms
proof (induction bs arbitrary: n m v w)
  case (Cons b bs)
  have "view_agree (n + BlockSize c) (m + BlockSize c) (view_step c i v b) (view_step c i w b)"
    using view_agree_step [OF Cons.prems(1-3), of b] Cons.prems(4,5) by simp
  from Cons.IH [OF this] show ?case using Cons.prems view_step_sized [of c i _ b] by (simp add: add.assoc add.commute)
qed simp

text \<open>The views agree altogether once the blocks after the first one cover the longest buffer.\<close>

lemma view_forgets:
  assumes "blank v = blank w" "view_sized c i v" "view_sized c i w" "\<forall>b \<in> set (b0 # bs). length b = 2 * BlockSize c"
    and "SymbolLength c \<le> BlockSize c" "length (v_decisions v) \<le> length bs * BlockSize c"
      "length (v_powers v) \<le> length bs * BlockSize c" "length (v_magnitudes v) \<le> length bs * BlockSize c"
  shows "foldl (view_step c i) v (b0 # bs) = foldl (view_step c i) w (b0 # bs)"
proof -
  let ?v = "view_step c i v b0" and ?w = "view_step c i w b0" and ?v' = "foldl (view_step c i) v (b0 # bs)" and ?w' = "foldl (view_step c i) w (b0 # bs)"
  have len: "length (v_decisions v) = length (v_decisions w)" "length (v_powers v) = length (v_powers w)" "length (v_magnitudes v) = length (v_magnitudes w)"
    using assms(1) by (simp_all add: blank_def list_eq_iff_nth_eq)
  then have "view_agree 0 0 v w" by (simp add: view_agree_def agree_zero)
  from view_agree_step [OF this assms(2,3), of b0] have "view_agree (BlockSize c) 0 ?v ?w"
    using assms(4) by (auto simp: view_agree_def agree_def last_n_def split: if_splits)
  then have a: "view_agree (BlockSize c + length bs * BlockSize c) (length bs * BlockSize c) ?v' ?w'"
    using view_agree_run [of "BlockSize c" 0 ?v ?w c i bs] assms(2-5) view_step_sized by simp
  have keep: "blank (foldl (view_step c i) x ks) = blank x" if "view_sized c i x" "\<forall>b \<in> set ks. length b = 2 * BlockSize c" for x ks
    using that by (induction ks arbitrary: x) (simp_all add: view_step_sized view_step_blank)
  have "blank ?v' = blank v" by (rule keep [OF assms(2,4)])
  then have "length (v_decisions ?v') = length (v_decisions v)" "length (v_powers ?v') = length (v_powers v)" "length (v_magnitudes ?v') = length (v_magnitudes v)"
    by (simp_all add: blank_def list_eq_iff_nth_eq)
  then have "v_decisions ?v' = v_decisions ?w'" "v_powers ?v' = v_powers ?w'" "v_magnitudes ?v' = v_magnitudes ?w'"
    using a assms(6-8) unfolding view_agree_def by (auto intro: agree_all)
  then show ?thesis by (intro stream_view.equality) simp_all
qed

end
