(* ===== verification/Capture.thy ===== *)
theory Capture
  imports DutyRuntime
begin

text \<open>
  The bounded capture of raw samples (\<^verbatim>\<open>src/continuous_capture.go\<close>) with the arithmetic of \<^verbatim>\<open>int64\<close>. What the
  writer answers to a write and to a final synchronisation is an argument; the bytes it has accepted are kept beside the
  counters.
\<close>

section \<open>Model\<close>

record blockCapture =
  bc_blockBytes :: int
  bc_blocksRemaining :: int
  bc_blocksWritten :: int
  bc_written :: "u8 list"

record writer_answer =
  wa_n :: nat
  wa_err :: "string option"
  wa_sync :: "string option"

definition newBlockCapture :: "bool \<Rightarrow> int \<Rightarrow> int \<Rightarrow> int \<Rightarrow> blockCapture res" where
  "newBlockCapture has_writer sampleRate blockBytes duration =
     (if \<not> has_writer then Inl (Err ''continuous capture writer is nil'')
      else if sampleRate \<le> 0 \<or> blockBytes \<le> 0 \<or> duration \<le> 0
      then Inl (Err ''continuous capture requires positive sample rate, block size, and duration'')
      else
        let targetBytes = go_quot (i64 (i64 (i64 (i64 (sampleRate * 2) * duration) + Second) - 1)) Second;
            blocks = go_quot (i64 (i64 (targetBytes + blockBytes) - 1)) blockBytes
        in Inr \<lparr>bc_blockBytes = blockBytes, bc_blocksRemaining = blocks, bc_blocksWritten = 0, bc_written = []\<rparr>)"

definition WriteBlock :: "blockCapture \<Rightarrow> u8 list \<Rightarrow> writer_answer \<Rightarrow> blockCapture \<times> string option" where
  "WriteBlock c data w =
     (if bc_blocksRemaining c = 0 then (c, None)
      else if int (length data) \<noteq> bc_blockBytes c then (c, Some ''continuous capture block has the wrong size'')
      else
        let c = c\<lparr>bc_written := bc_written c @ take (wa_n w) data\<rparr> in
        case wa_err w of
          Some err \<Rightarrow> (c, Some err)
        | None \<Rightarrow>
          if wa_n w \<noteq> length data then (c, Some ''short write'')
          else let c = c\<lparr>bc_blocksRemaining := i64 (bc_blocksRemaining c - 1), bc_blocksWritten := i64 (bc_blocksWritten c + 1)\<rparr>
               in if bc_blocksRemaining c = 0
                  then case wa_sync w of
                         Some err \<Rightarrow> (c, Some (''sync continuous capture: '' @ err))
                       | None \<Rightarrow> (c, None)
                  else (c, None))"

definition Complete :: "blockCapture \<Rightarrow> bool" where
  "Complete c \<longleftrightarrow> bc_blocksRemaining c = 0"

definition BytesWritten :: "blockCapture \<Rightarrow> int" where
  "BytesWritten c = i64 (bc_blocksWritten c * bc_blockBytes c)"

text \<open>What the receiver does with the capture before it decodes a block.\<close>

definition capture_block :: "blockCapture option \<Rightarrow> u8 list \<Rightarrow> writer_answer \<Rightarrow> blockCapture option \<times> string option" where
  "capture_block oc data w =
     (case oc of
        None \<Rightarrow> (None, None)
      | Some c \<Rightarrow> if Complete c then (Some c, None) else (let (c, err) = WriteBlock c data w in (Some c, err)))"

section \<open>The number of blocks\<close>

text \<open>A writer that accepts everything.\<close>

definition accepts_all :: "u8 list \<Rightarrow> writer_answer" where
  "accepts_all data = \<lparr>wa_n = length data, wa_err = None, wa_sync = None\<rparr>"

definition feed :: "blockCapture option \<Rightarrow> u8 list list \<Rightarrow> blockCapture option \<times> string option" where
  "feed oc datas = foldl (\<lambda>(oc, err) data. if err = None then capture_block oc data (accepts_all data) else (oc, err)) (oc, None) datas"

definition target_blocks :: "int \<Rightarrow> int \<Rightarrow> int \<Rightarrow> int" where
  "target_blocks sampleRate blockBytes duration =
     ((sampleRate * 2 * duration + Second - 1) div Second + blockBytes - 1) div blockBytes"

lemma newBlockCapture_exact:
  assumes "0 < rate" "0 < bytes" "0 < dur" "rate * 2 * dur + Second < 2 ^ 62" "bytes < 2 ^ 62"
  shows "newBlockCapture True rate bytes dur = Inr \<lparr>bc_blockBytes = bytes, bc_blocksRemaining = target_blocks rate bytes dur, bc_blocksWritten = 0, bc_written = []\<rparr>"
    "0 < target_blocks rate bytes dur" "target_blocks rate bytes dur < 2 ^ 62" "rate * 2 * dur \<le> Second * (bytes * target_blocks rate bytes dur)"
proof -
  let ?p = "rate * 2 * dur" and ?t = "(rate * 2 * dur + Second - 1) div Second"
  have pos: "0 < ?p" using assms(1,3) by simp
  have "rate * 2 \<le> ?p" using assms(1,3) mult_left_mono [of 1 dur "rate * 2"] by simp
  then have "rate * 2 < 2 ^ 62" using assms(4) by linarith
  then have e1: "i64 (rate * 2) = rate * 2" using assms(1) by (intro i64_id) simp_all
  have sec: "0 < Second" by simp
  note t = ceil_div_bounds [OF pos sec]
  note b = ceil_div_bounds [OF t(1) assms(2)]
  have k: "i64 x = x" if "0 \<le> x" "x < 2 ^ 62 + 2 ^ 62" for x using that by (intro i64_id) simp_all
  have x: "?p + Second < 2 ^ 62 + 2 ^ 62" "?t + bytes < 2 ^ 62 + 2 ^ 62" using assms(4,5) t(2) by linarith+
  have e: "i64 ?p = ?p" "i64 (?p + Second) = ?p + Second" "i64 (?p + Second - 1) = ?p + Second - 1"
      "i64 (?t + bytes) = ?t + bytes" "i64 (?t + bytes - 1) = ?t + bytes - 1"
    using pos assms(2) t(1) x by (auto intro!: k simp del: power_numeral)
  have q1: "go_quot (?p + Second - 1) Second = ?t" using pos by simp
  have q2: "go_quot (?t + bytes - 1) bytes = target_blocks rate bytes dur" using t(1) assms(2) by (simp add: target_blocks_def)
  show "newBlockCapture True rate bytes dur = Inr \<lparr>bc_blockBytes = bytes, bc_blocksRemaining = target_blocks rate bytes dur, bc_blocksWritten = 0, bc_written = []\<rparr>"
    using assms(1-3) unfolding newBlockCapture_def Let_def e1 e(1,2,3) q1 e(4,5) q2 by simp
  show "0 < target_blocks rate bytes dur" "target_blocks rate bytes dur < 2 ^ 62"
    using b(1,2) t(2) assms(4) unfolding target_blocks_def by linarith+
  have "?p \<le> ?t * Second" by (rule t(3))
  also have "\<dots> \<le> target_blocks rate bytes dur * bytes * Second" using b(3) by (intro mult_right_mono) (simp_all add: target_blocks_def)
  finally show "?p \<le> Second * (bytes * target_blocks rate bytes dur)" by (simp only: ac_simps)
qed

lemma feed_snoc: "feed oc (ds @ [d]) = (let (oc', err) = feed oc ds in if err = None then capture_block oc' d (accepts_all d) else (oc', err))"
  by (simp add: feed_def split: prod.split)

lemma feed_counts:
  assumes "0 \<le> bc_blocksRemaining c" "bc_blocksRemaining c < 2 ^ 62" "bc_blocksWritten c = 0" "bc_written c = []"
    "\<forall>d \<in> set ds. int (length d) = bc_blockBytes c"
  shows "\<exists>c'. feed (Some c) ds = (Some c', None) \<and> bc_blockBytes c' = bc_blockBytes c \<and>
     bc_blocksRemaining c' = max 0 (bc_blocksRemaining c - int (length ds)) \<and>
     bc_blocksWritten c' = min (int (length ds)) (bc_blocksRemaining c) \<and>
     bc_written c' = concat (take (nat (bc_blocksRemaining c)) ds)"
  using assms(5)
proof (induction ds rule: rev_induct)
  case Nil
  then show ?case using assms by (simp add: feed_def)
next
  case (snoc d ds)
  then obtain c' where c': "feed (Some c) ds = (Some c', None)" "bc_blockBytes c' = bc_blockBytes c"
     "bc_blocksRemaining c' = max 0 (bc_blocksRemaining c - int (length ds))"
     "bc_blocksWritten c' = min (int (length ds)) (bc_blocksRemaining c)"
     "bc_written c' = concat (take (nat (bc_blocksRemaining c)) ds)" by auto
  show ?case
  proof (cases "bc_blocksRemaining c' = 0")
    case True
    then have "nat (bc_blocksRemaining c) \<le> length ds" using c'(3) by simp
    then show ?thesis using True c' snoc.prems by (simp add: feed_snoc capture_block_def Complete_def)
  next
    case False
    then have r: "int (length ds) < bc_blocksRemaining c" "bc_blocksRemaining c' = bc_blocksRemaining c - int (length ds)" using c'(3) by simp_all
    have i: "i64 (bc_blocksRemaining c' - 1) = bc_blocksRemaining c' - 1" "i64 (bc_blocksWritten c' + 1) = bc_blocksWritten c' + 1"
      using r assms(1,2) c'(4) by (simp_all add: i64_id)
    have "take (nat (bc_blocksRemaining c)) (ds @ [d]) = take (nat (bc_blocksRemaining c)) ds @ [d]" using r(1) by (simp add: take_Cons')
    then show ?thesis using False c' r i snoc.prems
      by (simp add: feed_snoc capture_block_def Complete_def WriteBlock_def accepts_all_def Let_def i64_id)
  qed
qed

section \<open>Properties\<close>

text \<open>C39: The continuous capture records exactly the requested duration, rounded up to whole blocks: as long as the byte count fits in 62
  bits, a capture fed with blocks of the configured size writes the first blocks of the stream unchanged and in order,
  covers at least the duration, is complete exactly then, and writes nothing more.\<close>
theorem capture_records_the_duration:
  assumes "0 < rate" "0 < bytes" "0 < dur" "rate * 2 * dur + Second < 2 ^ 62" "bytes < 2 ^ 62"
    and "\<forall>d \<in> set datas. int (length d) = bytes"
  shows "\<exists>c c'. newBlockCapture True rate bytes dur = Inr c \<and> feed (Some c) datas = (Some c', None) \<and>
    bc_written c' = concat (take (nat (target_blocks rate bytes dur)) datas) \<and>
    (Complete c' \<longleftrightarrow> target_blocks rate bytes dur \<le> int (length datas)) \<and>
    rate * 2 * dur \<le> Second * (bytes * target_blocks rate bytes dur)"
proof -
  note n = newBlockCapture_exact [OF assms(1-5)]
  obtain c' where "feed (Some \<lparr>bc_blockBytes = bytes, bc_blocksRemaining = target_blocks rate bytes dur, bc_blocksWritten = 0, bc_written = []\<rparr>) datas = (Some c', None)"
      "bc_blocksRemaining c' = max 0 (target_blocks rate bytes dur - int (length datas))"
      "bc_written c' = concat (take (nat (target_blocks rate bytes dur)) datas)"
    using feed_counts [of "\<lparr>bc_blockBytes = bytes, bc_blocksRemaining = target_blocks rate bytes dur, bc_blocksWritten = 0, bc_written = []\<rparr>" datas]
      n(2,3) assms(6) by auto
  then show ?thesis using n by (auto simp: Complete_def)
qed

theorem capture_records_the_duration_witness:
  "\<exists>c c'. newBlockCapture True 100 4 (Second div 50) = Inr c \<and> feed (Some c) [[1, 2, 3, 4], [5, 6, 7, 8]] = (Some c', None) \<and>
     bc_written c' = [1, 2, 3, 4] \<and> Complete c'"
proof -
  have t: "target_blocks 100 4 (Second div 50) = 1" by (simp add: target_blocks_def)
  show ?thesis using capture_records_the_duration [of 100 4 "Second div 50" "[[1, 2, 3, 4], [5, 6, 7, 8]]"] unfolding t by simp
qed

text \<open>Beyond the range the product of rate and duration wraps. An hour at the default sample rate of 2359296 samples per second
  needs a negative number of blocks; such a capture counts down from below zero and is not complete before its counter
  has gone through all of its values.\<close>

lemma capture_of_an_hour_wraps:
  "\<exists>c. newBlockCapture True 2359296 16384 Hour = Inr c \<and> bc_blocksRemaining c < 0"
  by (simp add: newBlockCapture_def Let_def i64_def go_quot_def)

end
