(* ===== verification/Receiver.thy ===== *)
theory Receiver
  imports Replay Capture DutyReport
begin

text \<open>
  The receiver (\<^verbatim>\<open>src/main.go\<close>): decoding block by block with or without the duty scheduler, reporting messages
  once per block, replaying the collar when a gated receiver wakes, and the loop over the batches of a sample source.

  The state of a receiver includes the global variables it changes: the map of meter identifiers that \<^verbatim>\<open>-single\<close> empties (which
  the filter of the filter chain shares) and the messages the encoder has written. Everything the receiver asks of its
  surroundings is answered by the environment, call by call: the clock, the encoder, the writers, and the order in which
  the map of the preambles is iterated.
\<close>

section \<open>State and environment\<close>

record receiverRunState =
  rs_sampleBuf :: "u8 list"
  rs_recordSamples :: bool
  rs_sampleLength :: nat
  rs_prev :: "Digest set"
  rs_next :: "Digest set"
  rs_dutyPrev :: "Digest set"
  rs_dutyNext :: "Digest set"

record Receiver =
  rc_d :: Decoder
  rc_fc :: "MessageFilter list"
  rc_continuousCapture :: "blockCapture option"
  rc_duty :: "dutyRuntime option"
  rc_err :: "string option"
  rc_cancelled :: bool
  rc_meterID :: "nat set"
  rc_output :: "Time LogMessage list"
  rc_disk :: disk
  rc_tick :: nat

record rx_env =
  x_pf :: decoder_platform
  x_os :: os
  x_lib :: report_lib
  x_keys :: "nat \<Rightarrow> u8 list list"
  x_now :: "nat \<Rightarrow> Time"
  x_offset :: "nat \<Rightarrow> nat"
  x_encode :: "nat \<Rightarrow> string option"
  x_sampleWrite :: "nat \<Rightarrow> string option"
  x_capture :: "nat \<Rightarrow> writer_answer"
  x_single :: bool

definition tick :: "Receiver \<Rightarrow> Receiver" where
  "tick rx = rx\<lparr>rc_tick := rc_tick rx + 1\<rparr>"

definition rx_decode :: "rx_env \<Rightarrow> Receiver \<Rightarrow> u8 list \<Rightarrow> (Receiver \<times> Message list) res" where
  "rx_decode env rx data =
     bind_res (Decode (x_pf env) (x_keys env (rc_tick rx)) (rc_d rx) data) (\<lambda>(d, messages).
     Inr (tick rx\<lparr>rc_d := d\<rparr>, messages))"

section \<open>Messages\<close>

text \<open>Removing an identifier from the shared map.\<close>

fun forget_id :: "nat \<Rightarrow> MessageFilter \<Rightarrow> MessageFilter" where
  "forget_id i (MeterIDFilter m) = MeterIDFilter (m - {i})"
| "forget_id i f = f"

definition delete_id :: "nat \<Rightarrow> Receiver \<Rightarrow> Receiver" where
  "delete_id i rx = rx\<lparr>rc_meterID := rc_meterID rx - {i}, rc_fc := map (forget_id i) (rc_fc rx)\<rparr>"

definition observe_message :: "fplib \<Rightarrow> bool \<Rightarrow> int \<Rightarrow> Digest set \<Rightarrow> dutyRuntime \<times> Digest set \<Rightarrow> Message \<Rightarrow> (dutyRuntime \<times> Digest set) res" where
  "observe_message fp escaped sampleAt prev st msg =
     (let (d, nextSet) = st; digest = NewDigest msg in
      if digest \<in> prev then Inr (d, insert digest nextSet)
      else bind_res (if escaped then duty_observeEscape fp d (ucast (MeterID msg)) (MsgType msg) sampleAt
                     else duty_observe fp d (ucast (MeterID msg)) (MsgType msg) sampleAt) (\<lambda>d.
           Inr (d, insert digest nextSet)))"

definition new_log :: "rx_env \<Rightarrow> Receiver \<Rightarrow> receiverRunState \<Rightarrow> Time \<Rightarrow> Message \<Rightarrow> Time LogMessage" where
  "new_log env rx st eventTime msg =
     \<lparr>Time = (if eventTime = 0 then x_now env (rc_tick rx) else eventTime), Offset = x_offset env (rc_tick rx),
      Length = rs_sampleLength st, LogType = MsgType msg, Msg = msg\<rparr>"

text \<open>The loop that publishes messages: the result says whether a packet was found and whether the encoder still works.\<close>

fun publish_messages :: "rx_env \<Rightarrow> Time \<Rightarrow> Message list \<Rightarrow> Receiver \<Rightarrow> receiverRunState \<Rightarrow> bool \<Rightarrow> Receiver \<times> receiverRunState \<times> bool \<times> bool" where
  "publish_messages env eventTime [] rx st found = (rx, st, found, True)"
| "publish_messages env eventTime (msg # ms) rx st found =
     (let (ok, fc) = Match (rc_fc rx) msg; rx = rx\<lparr>rc_fc := fc\<rparr> in
      if \<not> ok then publish_messages env eventTime ms rx st found
      else
        let logMsg = new_log env rx st eventTime msg;
            digest = NewDigest msg;
            st = st\<lparr>rs_next := insert digest (rs_next st)\<rparr>
        in if digest \<in> rs_prev st then publish_messages env eventTime ms (tick rx) st found
           else case x_encode env (rc_tick rx) of
             Some err \<Rightarrow> (tick rx\<lparr>rc_err := Some (''encoder.Encode: '' @ err)\<rparr>, st, False, False)
           | None \<Rightarrow>
             let rx = (tick rx)\<lparr>rc_err := None, rc_output := rc_output rx @ [logMsg]\<rparr>
             in if x_single env
                then if rc_meterID rx = {} then (rx, st, True, True)
                     else publish_messages env eventTime ms (delete_id (unat (MeterID msg)) rx) st True
                else publish_messages env eventTime ms rx st True)"

definition observe_messages :: "rx_env \<Rightarrow> Receiver \<Rightarrow> receiverRunState \<Rightarrow> Message list \<Rightarrow> int \<Rightarrow> bool \<Rightarrow> bool \<Rightarrow> (Receiver \<times> receiverRunState) res" where
  "observe_messages env rx st messages sampleAt observes escaped =
     (case rc_duty rx of
        None \<Rightarrow> Inr (rx, st)
      | Some d \<Rightarrow>
        if observes then
          bind_res (fold_res (observe_message (l_fp (x_lib env)) escaped sampleAt (rs_dutyPrev st)) (d, {}) messages) (\<lambda>(d, nextSet).
          Inr (rx\<lparr>rc_duty := Some d\<rparr>, st\<lparr>rs_dutyNext := nextSet\<rparr>))
        else Inr (rx, st\<lparr>rs_dutyNext := {}\<rparr>))"

definition processDecodedMessages :: "rx_env \<Rightarrow> Receiver \<Rightarrow> receiverRunState \<Rightarrow> Message list \<Rightarrow> int \<Rightarrow> Time \<Rightarrow> bool \<Rightarrow> bool \<Rightarrow> bool \<Rightarrow>
    (Receiver \<times> receiverRunState \<times> bool \<times> bool) res" where
  "processDecodedMessages env rx st messages sampleAt eventTime publish observes escaped =
     bind_res (observe_messages env rx (st\<lparr>rs_next := {}\<rparr>) messages sampleAt observes escaped) (\<lambda>(rx, st).
     let (rx, st, pktFound, ok) = (if publish then publish_messages env eventTime messages rx st False else (rx, st, False, True)) in
     if \<not> ok then Inr (rx, st, False, False)
     else
       let st = st\<lparr>rs_next := rs_prev st, rs_prev := rs_next st\<rparr>;
           st = (if rc_duty rx \<noteq> None then st\<lparr>rs_dutyNext := rs_dutyPrev st, rs_dutyPrev := rs_dutyNext st\<rparr> else st)
       in Inr (rx, st, pktFound, True))"

section \<open>Rebuilding the decoder\<close>

definition entry_bytes :: "dutyCollarBlock \<Rightarrow> u8 list" where
  "entry_bytes e = (case e_data e of None \<Rightarrow> [] | Some b \<Rightarrow> b)"

definition lacks_raw :: string where
  "lacks_raw = ''dutyscheduler: full collar rebuild lacks retained raw IQ''"

text \<open>The two replay loops: with \<open>warmup\<close> the full rebuild, which checks the raw data and publishes after the warm-up only.\<close>

fun replay :: "rx_env \<Rightarrow> int option \<Rightarrow> nat \<Rightarrow> dutyCollarBlock list \<Rightarrow> Receiver \<Rightarrow> receiverRunState \<Rightarrow> bool \<Rightarrow>
    (Receiver \<times> receiverRunState \<times> bool \<times> bool) res" where
  "replay env warmup idx [] rx st found = Inr (rx, st, found, True)"
| "replay env warmup idx (e # es) rx st found =
     (if warmup \<noteq> None \<and> \<not> e_rawValid e then Inr (rx\<lparr>rc_err := Some lacks_raw\<rparr>, st, found, False)
      else
        bind_res (rx_decode env rx (entry_bytes e)) (\<lambda>(rx, messages).
        let publish = (case warmup of None \<Rightarrow> True | Some w \<Rightarrow> \<not> e_decoded e \<and> int idx \<ge> w) in
        bind_res (processDecodedMessages env rx st messages (e_sampleEnd e) (e_wallTime e) publish publish publish) (\<lambda>(rx, st, f, keepRunning).
        if \<not> keepRunning then Inr (rx, st, found \<or> f, False)
        else replay env warmup (idx + 1) es rx st (found \<or> f))))"

definition record_rebuild :: "nat \<Rightarrow> Receiver \<times> receiverRunState \<times> bool \<times> bool \<Rightarrow> Receiver \<times> receiverRunState \<times> bool \<times> bool" where
  "record_rebuild n r =
     (let (rx, st, found, keepRunning) = r in
      if keepRunning then (rx\<lparr>rc_duty := map_option (\<lambda>d. recordRebuild d n) (rc_duty rx)\<rparr>, st, found, True) else r)"

definition rebuildDutyDecoder :: "rx_env \<Rightarrow> dutyRuntime \<Rightarrow> Receiver \<Rightarrow> receiverRunState \<Rightarrow> (Receiver \<times> receiverRunState \<times> bool \<times> bool) res" where
  "rebuildDutyDecoder env d rx st =
     bind_res (orderedCollar d) (\<lambda>entries.
     let skipped = d_skippedRun d; tail = drop (length entries - skipped) entries in
     if skipped > 0 \<and> skipped \<le> length entries \<and> list_all (\<lambda>e. \<not> e_decoded e \<and> e_rawValid e) tail
     then bind_res (replay env None 0 tail rx st False) (\<lambda>r. Inr (record_rebuild skipped r))
     else
       let rx = rx\<lparr>rc_d := Reset_decoder (rc_d rx)\<rparr>;
           st = st\<lparr>rs_prev := {}, rs_next := {}, rs_dutyPrev := {}, rs_dutyNext := {}\<rparr>
       in bind_res (replay env (Some (d_warmupBlocks d)) 0 entries rx st False) (\<lambda>r. Inr (record_rebuild (length entries) r)))"

section \<open>One block\<close>

definition buffer_samples :: "Receiver \<Rightarrow> receiverRunState \<Rightarrow> u8 list \<Rightarrow> receiverRunState" where
  "buffer_samples rx st data =
     (let st = (if rs_sampleLength st > BufferLength (Cfg (rc_d rx)) * 2
                then st\<lparr>rs_sampleLength := rs_sampleLength st - length data,
                        rs_sampleBuf := (if rs_recordSamples st then drop (length data) (rs_sampleBuf st) else rs_sampleBuf st)\<rparr>
                else st)
      in st\<lparr>rs_sampleLength := rs_sampleLength st + length data,
            rs_sampleBuf := (if rs_recordSamples st then rs_sampleBuf st @ data else rs_sampleBuf st)\<rparr>)"

definition decode_now :: "rx_env \<Rightarrow> Receiver \<Rightarrow> receiverRunState \<Rightarrow> u8 list \<Rightarrow> int \<Rightarrow> (Receiver \<times> receiverRunState \<times> bool \<times> bool) res" where
  "decode_now env rx st data end_time =
     bind_res (rx_decode env rx data) (\<lambda>(rx, messages).
     processDecodedMessages env rx st messages end_time 0 True (rc_duty rx \<noteq> None) False)"

text \<open>The block under the duty scheduler, up to the decision whether to go on.\<close>

definition duty_block :: "rx_env \<Rightarrow> dutyRuntime \<Rightarrow> Receiver \<Rightarrow> receiverRunState \<Rightarrow> u8 list \<Rightarrow>
    (Receiver \<times> receiverRunState \<times> bool \<times> bool \<times> int \<times> int \<times> Decision) res" where
  "duty_block env d rx st data =
     bind_res (beginBlock (l_fp (x_lib env)) d) (\<lambda>(d, start, end_time, dec).
     bind_res (if needsRebuild d dec then rebuildDutyDecoder env d (rx\<lparr>rc_duty := Some d\<rparr>) st
               else Inr (rx\<lparr>rc_duty := Some d\<rparr>, st, False, True)) (\<lambda>(rx, st, replayed, keepRunning).
     if \<not> keepRunning \<or> \<not> dec_Decode dec then Inr (rx, st, replayed, keepRunning, start, end_time, dec)
     else bind_res (decode_now env rx st data end_time) (\<lambda>(rx, st, current, keepRunning).
          Inr (rx, st, replayed \<or> current, keepRunning, start, end_time, dec))))"

definition finish_duty :: "rx_env \<Rightarrow> Receiver \<Rightarrow> u8 list \<Rightarrow> int \<Rightarrow> int \<Rightarrow> Decision \<Rightarrow> Receiver res option" where
  "finish_duty env rx data start end_time dec =
     (case rc_duty rx of
        None \<Rightarrow> Some (Inl (Panic ''nil pointer dereference''))
      | Some d \<Rightarrow>
        let wallNow = x_now env (rc_tick rx) in
        case finishBlock d data start end_time wallNow dec of
          Inl err \<Rightarrow> Some (Inl err)
        | Inr d \<Rightarrow>
          (case maybeCheckpoint (x_os env) (x_lib env) d (rc_disk rx) wallNow of
             None \<Rightarrow> None
           | Some (d, dk, _) \<Rightarrow> Some (Inr (tick rx\<lparr>rc_duty := Some d, rc_disk := dk\<rparr>))))"

definition record_packet :: "rx_env \<Rightarrow> Receiver \<Rightarrow> receiverRunState \<Rightarrow> bool \<Rightarrow> Receiver \<times> bool" where
  "record_packet env rx st pktFound =
     (if pktFound \<and> rs_recordSamples st
      then case x_sampleWrite env (rc_tick rx) of
             Some err \<Rightarrow> (tick rx\<lparr>rc_err := Some (''write raw samples: '' @ err)\<rparr>, False)
           | None \<Rightarrow> if x_single env \<and> rc_meterID rx = {} then (tick rx\<lparr>rc_cancelled := True\<rparr>, False) else (tick rx, True)
      else (rx, True))"

definition processBlock :: "rx_env \<Rightarrow> Receiver \<Rightarrow> receiverRunState \<Rightarrow> u8 list \<Rightarrow> (Receiver \<times> receiverRunState \<times> bool) res option" where
  "processBlock env rx st data =
     (let (capture, err) = capture_block (rc_continuousCapture rx) data (x_capture env (rc_tick rx));
          rx = tick rx\<lparr>rc_continuousCapture := capture\<rparr>
      in case err of
           Some e \<Rightarrow> Some (Inr (rx\<lparr>rc_err := Some (''continuous sample capture: '' @ e)\<rparr>, st, False))
         | None \<Rightarrow>
           let st = buffer_samples rx st data in
           case rc_duty rx of
             None \<Rightarrow> Some (
               bind_res (decode_now env rx st data 0) (\<lambda>(rx, st, pktFound, keepRunning).
               if \<not> keepRunning then Inr (rx, st, False)
               else let (rx, go) = record_packet env rx st pktFound in Inr (rx, st, go)))
           | Some d \<Rightarrow>
             (case duty_block env d rx st data of
                Inl e \<Rightarrow> Some (Inl e)
              | Inr (rx, st, pktFound, keepRunning, start, end_time, dec) \<Rightarrow>
                if \<not> keepRunning then Some (Inr (rx, st, False))
                else (case finish_duty env rx data start end_time dec of
                        None \<Rightarrow> None
                      | Some (Inl e) \<Rightarrow> Some (Inl e)
                      | Some (Inr rx) \<Rightarrow> let (rx, go) = record_packet env rx st pktFound in Some (Inr (rx, st, go)))))"

section \<open>The loop over batches\<close>

text \<open>The blocks of one batch, in order, until a block stops the receiver. A batch whose length is no multiple of the block
  size is refused before, see \<open>receive_batch\<close>.\<close>

function process_batch :: "rx_env \<Rightarrow> nat \<Rightarrow> Receiver \<Rightarrow> receiverRunState \<Rightarrow> u8 list \<Rightarrow> (Receiver \<times> receiverRunState \<times> bool) res option" where
  "process_batch env blockBytes rx st batch =
     (if batch = [] \<or> blockBytes = 0 then Some (Inr (rx, st, True))
      else case processBlock env rx st (take blockBytes batch) of
             None \<Rightarrow> None
           | Some (Inl e) \<Rightarrow> Some (Inl e)
           | Some (Inr (rx, st, go)) \<Rightarrow> if go then process_batch env blockBytes rx st (drop blockBytes batch) else Some (Inr (rx, st, False)))"
  by pat_completeness auto
termination
  by (relation "measure (\<lambda>(env, n, rx, st, batch). length batch)") (auto split: if_splits)

declare process_batch.simps [simp del]

text \<open>What the source answers to \<^verbatim>\<open>Next\<close> and to the release of the batch, and whether the context was cancelled meanwhile.\<close>

record source_answer =
  sa_done :: bool
  sa_next :: "string + u8 list"
  sa_ctxErr :: bool
  sa_release :: "string option"

definition receive_batch :: "rx_env \<Rightarrow> Receiver \<Rightarrow> receiverRunState \<Rightarrow> source_answer \<Rightarrow> (Receiver \<times> receiverRunState \<times> bool) res option" where
  "receive_batch env rx st a =
     (if rc_cancelled rx \<or> sa_done a then Some (Inr (rx, st, False))
      else case sa_next a of
        Inl readErr \<Rightarrow>
          Some (Inr (if sa_ctxErr a then (rx, st, False) else (rx\<lparr>rc_err := Some (''sample source: '' @ readErr)\<rparr>, st, False)))
      | Inr batch \<Rightarrow>
          let blockBytes = BlockSize2 (Cfg (rc_d rx)) in
          if batch = [] then Some (Inr (rx\<lparr>rc_err := Some ''sample source returned invalid batch length 0''\<rparr>, st, False))
          else if blockBytes = 0 then Some (Inl (Panic ''integer divide by zero''))
          else if length batch mod blockBytes \<noteq> 0
          then Some (Inr (rx\<lparr>rc_err := Some (''sample source returned invalid batch length '' @ FormatUint (length batch) 10)\<rparr>, st, False))
          else case process_batch env blockBytes rx st batch of
                 None \<Rightarrow> None
               | Some (Inl e) \<Rightarrow> Some (Inl e)
               | Some (Inr (rx, st, keepRunning)) \<Rightarrow>
                   (case sa_release a of
                      Some err \<Rightarrow> Some (Inr (if rc_err rx = None then rx\<lparr>rc_err := Some (''release sample source batch: '' @ err)\<rparr> else rx, st, False))
                    | None \<Rightarrow> Some (Inr (rx, st, keepRunning))))"

text \<open>\<open>Run\<close> up to the point where it waits for the answer after the given ones; the last component says whether it still runs. When the loop returns, the deferred
  \<^verbatim>\<open>cancel\<close> ends the context.\<close>

fun Run :: "rx_env \<Rightarrow> Receiver \<Rightarrow> receiverRunState \<Rightarrow> source_answer list \<Rightarrow> (Receiver \<times> receiverRunState \<times> bool) res option" where
  "Run env rx st [] = Some (Inr (rx, st, True))"
| "Run env rx st (a # as) =
     (case receive_batch env rx st a of
        None \<Rightarrow> None
      | Some (Inl e) \<Rightarrow> Some (Inl e)
      | Some (Inr (rx, st, go)) \<Rightarrow> if go then Run env rx st as else Some (Inr (rx\<lparr>rc_cancelled := True\<rparr>, st, False)))"

definition start_state :: "bool \<Rightarrow> receiverRunState" where
  "start_state recordSamples =
     \<lparr>rs_sampleBuf = [], rs_recordSamples = recordSamples, rs_sampleLength = 0, rs_prev = {}, rs_next = {}, rs_dutyPrev = {}, rs_dutyNext = {}\<rparr>"

text \<open>The body of \<^verbatim>\<open>Close\<close>, which runs once: cancel and close the source, then write the last checkpoint and the report. The first error
  is kept; a failed checkpoint is only logged.\<close>

definition first_error :: "string \<Rightarrow> string option \<Rightarrow> Receiver \<Rightarrow> Receiver" where
  "first_error what err rx = (case err of Some e \<Rightarrow> if rc_err rx = None then rx\<lparr>rc_err := Some (what @ '': '' @ e)\<rparr> else rx | None \<Rightarrow> rx)"

definition error_text :: "go_error \<Rightarrow> string" where
  "error_text e = (case e of Err s \<Rightarrow> s | Panic s \<Rightarrow> s)"

definition Close :: "rx_env \<Rightarrow> string \<Rightarrow> string option \<Rightarrow> string option \<Rightarrow> Receiver \<Rightarrow> Receiver option" where
  "Close env reportPath cancelErr closeErr rx =
     (let rx = rx\<lparr>rc_cancelled := True\<rparr>;
          rx = first_error ''cancel sample source'' cancelErr rx;
          rx = first_error ''close sample source'' closeErr rx
      in case rc_duty rx of
           None \<Rightarrow> Some rx
         | Some d \<Rightarrow>
           (case writeFinalCheckpoint (x_os env) (x_lib env) d (rc_disk rx) (x_now env (rc_tick rx)) of
              None \<Rightarrow> None
            | Some (d, dk, _) \<Rightarrow>
              (case writeReport (x_os env) (x_lib env) d dk (x_now env (rc_tick rx + 1)) reportPath of
                 None \<Rightarrow> None
               | Some (d, dk, err) \<Rightarrow>
                 Some (first_error ''write DSP duty scheduler report'' (map_option error_text err)
                         (rx\<lparr>rc_duty := Some d, rc_disk := dk, rc_tick := rc_tick rx + 2\<rparr>)))))"

definition receiverSampleRate :: "int \<Rightarrow> int \<Rightarrow> int res" where
  "receiverSampleRate bytesRead elapsed =
     (if bytesRead \<le> 0 \<or> elapsed \<le> 0 then Inr 0 else go_div (i64 (bytesRead * Second)) (i64 (2 * elapsed)))"

section \<open>What processing messages leaves alone\<close>

text \<open>Publishing and observing change neither the decoder nor the collar and the clock of the runtime, and they never
  raise the error of a rebuild without raw data.\<close>

definition kept :: "Receiver \<Rightarrow> Receiver \<Rightarrow> bool" where
  "kept rx rx' \<longleftrightarrow> rc_d rx' = rc_d rx \<and> rel_option same_core (rc_duty rx) (rc_duty rx') \<and>
     (rc_err rx \<noteq> Some lacks_raw \<longrightarrow> rc_err rx' \<noteq> Some lacks_raw)"

lemma kept_refl [simp]: "kept rx rx"
  by (simp add: kept_def option.rel_refl)

lemma kept_trans: "kept rx rx' \<Longrightarrow> kept rx' rx'' \<Longrightarrow> kept rx rx''"
  unfolding kept_def by (auto simp: option_rel_Some1 option_rel_Some2 elim!: option.rel_cases intro: same_core_trans)

lemma tick_fields [simp]:
  "rc_d (tick rx) = rc_d rx" "rc_duty (tick rx) = rc_duty rx" "rc_err (tick rx) = rc_err rx" "rc_fc (tick rx) = rc_fc rx"
  "rc_meterID (tick rx) = rc_meterID rx" "rc_output (tick rx) = rc_output rx" "rc_cancelled (tick rx) = rc_cancelled rx"
  "rc_continuousCapture (tick rx) = rc_continuousCapture rx" "rc_disk (tick rx) = rc_disk rx"
  by (simp_all add: tick_def)

lemma encoder_error: "''encoder.Encode: '' @ err \<noteq> lacks_raw"
  by (simp add: lacks_raw_def)

definition written :: "rx_env \<Rightarrow> Time \<Rightarrow> Message \<Rightarrow> Receiver \<Rightarrow> receiverRunState \<Rightarrow> Receiver" where
  "written env t msg rx st =
     (tick (rx\<lparr>rc_fc := snd (Match (rc_fc rx) msg)\<rparr>))\<lparr>rc_err := None, rc_output := rc_output rx @ [new_log env rx st t msg]\<rparr>"

lemma written_fields [simp]:
  "rc_d (written env t msg rx st) = rc_d rx" "rc_duty (written env t msg rx st) = rc_duty rx" "rc_err (written env t msg rx st) = None"
  "rc_cancelled (written env t msg rx st) = rc_cancelled rx" "rc_meterID (written env t msg rx st) = rc_meterID rx"
  by (simp_all add: written_def)

lemma publish_written:
  fixes st :: receiverRunState and t :: Time
  assumes "fst (Match (rc_fc rx) msg)" "NewDigest msg \<notin> rs_prev st" "x_encode env (rc_tick rx) = None"
  defines "w \<equiv> written env t msg rx st" and "st' \<equiv> st\<lparr>rs_next := insert (NewDigest msg) (rs_next st)\<rparr>"
  shows "publish_messages env t (msg # ms) rx st found =
     (if x_single env
      then if rc_meterID w = {} then (w, st', True, True) else publish_messages env t ms (delete_id (unat (MeterID msg)) w) st' True
      else publish_messages env t ms w st' True)"
  using assms by (cases "Match (rc_fc rx) msg") (simp add: Let_def written_def new_log_def)

lemma publish_kept:
  "publish_messages env t ms rx st found = (rx', st', f, ok) \<Longrightarrow>
     rc_d rx' = rc_d rx \<and> rc_duty rx' = rc_duty rx \<and> (rc_err rx \<noteq> Some lacks_raw \<longrightarrow> rc_err rx' \<noteq> Some lacks_raw)"
proof (induction ms arbitrary: rx st found)
  case (Cons msg ms)
  obtain mt fc where m: "Match (rc_fc rx) msg = (mt, fc)" by fastforce
  let ?rx = "rx\<lparr>rc_fc := fc\<rparr>" and ?st = "st\<lparr>rs_next := insert (NewDigest msg) (rs_next st)\<rparr>"
  consider (rejected) "\<not> mt" | (seen) "mt" "NewDigest msg \<in> rs_prev st"
    | (failed) err where "mt" "NewDigest msg \<notin> rs_prev st" "x_encode env (rc_tick rx) = Some err"
    | (written) "mt" "NewDigest msg \<notin> rs_prev st" "x_encode env (rc_tick rx) = None"
    by (cases "x_encode env (rc_tick rx)") auto
  then show ?case
  proof cases
    case rejected
    then show ?thesis using Cons.prems m Cons.IH [of ?rx st found] by simp
  next
    case seen
    then show ?thesis using Cons.prems m Cons.IH [of "tick ?rx" ?st found] by (simp add: Let_def)
  next
    case failed
    then show ?thesis using Cons.prems m encoder_error by (auto simp: Let_def)
  next
    case written
    let ?w = "written env t msg rx st"
    note e = publish_written [of rx msg st env t ms found]
    have i: "rc_d rx' = rc_d x \<and> rc_duty rx' = rc_duty x \<and> rc_err rx' \<noteq> Some lacks_raw"
      if "publish_messages env t ms x ?st True = (rx', st', f, ok)" "rc_err x = None" for x
      using Cons.IH [OF that(1)] that(2) by simp
    show ?thesis using Cons.prems written m i [of ?w] i [of "delete_id (unat (MeterID msg)) ?w"]
      by (auto simp: e delete_id_def simp del: publish_messages.simps split: if_splits)
  qed
qed simp

lemma observe_message_core:
  assumes "observe_message fp escaped sampleAt prev (d, n) msg = Inr (d', n')"
  shows "same_core d d'"
  using assms by (auto simp: observe_message_def Let_def bind_res_eq_Inr split: if_splits dest: duty_observe_core(1) [OF disjI1] duty_observe_core(1) [OF disjI2])

lemma observe_fold_core:
  "fold_res (observe_message fp escaped sampleAt prev) (d, n) ms = Inr (d', n') \<Longrightarrow> same_core d d'"
proof (induction ms arbitrary: d n)
  case (Cons msg ms)
  then show ?case by (fastforce simp: bind_res_eq_Inr dest: observe_message_core intro: same_core_trans)
qed simp

lemma observe_messages_kept:
  assumes "observe_messages env rx st ms sampleAt observes escaped = Inr (rx', st')"
  shows "kept rx rx'"
  using assms observe_fold_core
  by (fastforce simp: observe_messages_def kept_def bind_res_eq_Inr option.rel_refl split: option.splits if_splits prod.splits)

lemma processDecodedMessages_kept:
  assumes "processDecodedMessages env rx st ms sampleAt t publish observes escaped = Inr (rx', st', f, ok)"
  shows "kept rx rx'"
proof -
  obtain rx1 st1 where o: "observe_messages env rx (st\<lparr>rs_next := {}\<rparr>) ms sampleAt observes escaped = Inr (rx1, st1)"
    using assms by (auto simp: processDecodedMessages_def bind_res_eq_Inr)
  obtain rx2 st2 f2 ok2 where p: "(if publish then publish_messages env t ms rx1 st1 False else (rx1, st1, False, True)) = (rx2, st2, f2, ok2)"
    by (metis prod_cases4)
  have "kept rx1 rx2" using p publish_kept [of env t ms rx1 st1 False rx2 st2 f2 ok2] by (auto simp: kept_def option.rel_refl split: if_splits)
  moreover have "rx' = rx2" using assms o p by (auto simp: processDecodedMessages_def Let_def split: if_splits)
  ultimately show ?thesis using observe_messages_kept [OF o] kept_trans by blast
qed

section \<open>The decoder of a receiver\<close>

text \<open>The decoder stands at view \<open>v\<close>: it satisfies its invariant, has the configuration of the decoder \<open>d0\<close> the receiver was
  built with, and its streams are those of the view.\<close>

definition stands_at :: "rx_env \<Rightarrow> Decoder \<Rightarrow> stream_view \<Rightarrow> Receiver \<Rightarrow> bool" where
  "stands_at env d0 v rx \<longleftrightarrow> decoder_inv (x_pf env) (rc_d rx) \<and> view_of (rc_d rx) = v \<and> Cfg (rc_d rx) = Cfg d0 \<and>
     integer (rc_d rx) = integer d0 \<and> preambles (rc_d rx) = preambles d0"

definition env_ok :: "rx_env \<Rightarrow> Decoder \<Rightarrow> bool" where
  "env_ok env d0 \<longleftrightarrow> platform_agrees (x_pf env) \<and> (\<forall>n. mset (x_keys env n) = mset (map fst (preambles d0)))"

abbreviation always_on :: "Decoder \<Rightarrow> stream_view \<Rightarrow> u8 list list \<Rightarrow> stream_view" where
  "always_on d0 v bs \<equiv> foldl (view_step (Cfg d0) (integer d0)) v bs"

lemma stands_at_kept: "kept rx rx' \<Longrightarrow> stands_at env d0 v rx' = stands_at env d0 v rx"
  by (simp add: kept_def stands_at_def)

lemma rx_decode_ok:
  assumes "env_ok env d0" "stands_at env d0 v rx" "length data = BlockSize2 (Cfg d0)"
  obtains rx' ms where "rx_decode env rx data = Inr (rx', ms)" "stands_at env d0 (view_step (Cfg d0) (integer d0) v data) rx'"
    "rc_duty rx' = rc_duty rx" "rc_err rx' = rc_err rx"
proof -
  note e = assms(1) [unfolded env_ok_def] and s = assms(2) [unfolded stands_at_def]
  have "length data = BlockSize2 (Cfg (rc_d rx))" "mset (x_keys env (rc_tick rx)) = mset (map fst (preambles (rc_d rx)))"
    using e s assms(3) by simp_all
  from Decode_messages [OF conjunct1 [OF e] conjunct1 [OF s] this] obtain d' ms where
      d: "Decode (x_pf env) (x_keys env (rc_tick rx)) (rc_d rx) data = Inr (d', ms)" "decoder_inv (x_pf env) d'"
      "view_of d' = view_step (Cfg (rc_d rx)) (integer (rc_d rx)) (view_of (rc_d rx)) data"
      "Cfg d' = Cfg (rc_d rx)" "integer d' = integer (rc_d rx)" "preambles d' = preambles (rc_d rx)"
    by blast
  show thesis
    by (rule that [of "tick rx\<lparr>rc_d := d'\<rparr>" ms]) (use d s in \<open>simp_all add: rx_decode_def stands_at_def\<close>)
qed

lemma replay_step:
  assumes "replay env w i (e # es) rx st f = Inr q" "w = None \<or> e_rawValid e"
  obtains rx1 ms pub rx2 st2 f2 go2 where "rx_decode env rx (entry_bytes e) = Inr (rx1, ms)"
    "processDecodedMessages env rx1 st ms (e_sampleEnd e) (e_wallTime e) pub pub pub = Inr (rx2, st2, f2, go2)"
    "(if \<not> go2 then Inr (rx2, st2, f \<or> f2, False) else replay env w (i + 1) es rx2 st2 (f \<or> f2)) = Inr q"
proof -
  define pub where "pub = (case w of None \<Rightarrow> True | Some w \<Rightarrow> \<not> e_decoded e \<and> int i \<ge> w)"
  obtain rx1 ms rx2 st2 f2 go2 where "rx_decode env rx (entry_bytes e) = Inr (rx1, ms)"
      "processDecodedMessages env rx1 st ms (e_sampleEnd e) (e_wallTime e) pub pub pub = Inr (rx2, st2, f2, go2)"
      "(if \<not> go2 then Inr (rx2, st2, f \<or> f2, False) else replay env w (i + 1) es rx2 st2 (f \<or> f2)) = Inr q"
    using assms by (cases w) (auto simp: bind_res_eq_Inr Let_def pub_def simp del: if_split)
  then show thesis by (rule that)
qed

lemma replay_ok:
  assumes "env_ok env d0" "list_all2 skipped_entry es bs" "\<forall>b\<in>set bs. length b = BlockSize2 (Cfg d0)"
    and "stands_at env d0 v rx" "replay env w i es rx st f = Inr (rx', st', f', go)"
  shows "rel_option same_core (rc_duty rx) (rc_duty rx')" "rc_err rx \<noteq> Some lacks_raw \<longrightarrow> rc_err rx' \<noteq> Some lacks_raw"
    "go \<longrightarrow> stands_at env d0 (always_on d0 v bs) rx'"
proof -
  have "rel_option same_core (rc_duty rx) (rc_duty rx') \<and> (rc_err rx \<noteq> Some lacks_raw \<longrightarrow> rc_err rx' \<noteq> Some lacks_raw) \<and>
     (go \<longrightarrow> stands_at env d0 (always_on d0 v bs) rx')"
    using assms(2-5)
  proof (induction es bs arbitrary: v rx i st f rule: list_all2_induct)
    case Nil
    then show ?case by (auto simp: option.rel_refl)
  next
    case (Cons e es b bs)
    have b: "length b = BlockSize2 (Cfg d0)" and raw: "e_rawValid e" "entry_bytes e = b"
      using Cons.hyps(1) Cons.prems(1) by (simp_all add: skipped_entry_def entry_bytes_def)
    obtain rx1 ms where r: "rx_decode env rx b = Inr (rx1, ms)" "stands_at env d0 (view_step (Cfg d0) (integer d0) v b) rx1"
        "rc_duty rx1 = rc_duty rx" "rc_err rx1 = rc_err rx"
      by (rule rx_decode_ok [OF assms(1) Cons.prems(2) b]) blast
    obtain pub rx2 st2 f2 go2 where p: "processDecodedMessages env rx1 st ms (e_sampleEnd e) (e_wallTime e) pub pub pub = Inr (rx2, st2, f2, go2)"
        and rest: "(if \<not> go2 then Inr (rx2, st2, f \<or> f2, False) else replay env w (i + 1) es rx2 st2 (f \<or> f2)) = Inr (rx', st', f', go)"
      by (rule replay_step [OF Cons.prems(3)]) (use r(1) raw in auto)
    note k = processDecodedMessages_kept [OF p]
    have s2: "stands_at env d0 (view_step (Cfg d0) (integer d0) v b) rx2" using stands_at_kept [OF k] r(2) by simp
    have k2: "rel_option same_core (rc_duty rx) (rc_duty rx2)" "rc_err rx \<noteq> Some lacks_raw \<longrightarrow> rc_err rx2 \<noteq> Some lacks_raw"
      using k r(3,4) by (simp_all add: kept_def)
    show ?case
    proof (cases go2)
      case True
      then have "replay env w (i + 1) es rx2 st2 (f \<or> f2) = Inr (rx', st', f', go)" using rest by simp
      from Cons.IH [OF _ s2 this] Cons.prems(1) k2 show ?thesis
        by (auto elim!: option.rel_cases simp: option_rel_Some1 intro: same_core_trans)
    qed (use rest k2 in simp)
  qed
  then show "rel_option same_core (rc_duty rx) (rc_duty rx')" "rc_err rx \<noteq> Some lacks_raw \<longrightarrow> rc_err rx' \<noteq> Some lacks_raw"
    "go \<longrightarrow> stands_at env d0 (always_on d0 v bs) rx'" by blast+
qed

subsection \<open>Waking up\<close>

lemma covers_split:
  assumes "duty_wf d" "covers d bs" "bs \<noteq> []"
  shows "list_all2 skipped_entry (last_n (length bs) (collar_view d)) (last_n (length (d_collar d)) bs)"
    "length bs \<le> d_collarCount d \<or> d_collarCount d = length (d_collar d) \<and> length (d_collar d) < length bs"
proof -
  have r: "ring_ok d" using assms(1) by (simp add: duty_wf_def)
  show l: "list_all2 skipped_entry (last_n (length bs) (collar_view d)) (last_n (length (d_collar d)) bs)"
    using assms(2) by (simp add: covers_def)
  have "min (length bs) (d_collarCount d) = min (length (d_collar d)) (length bs)" using list_all2_lengthD [OF l] r by simp
  then show "length bs \<le> d_collarCount d \<or> d_collarCount d = length (d_collar d) \<and> length (d_collar d) < length bs"
    using r by (auto simp: ring_ok_def min_def split: if_splits)
qed

text \<open>What the decoder's geometry gives: no stream of a view is longer than the buffer, a symbol fits into a block, and the
  warm-up covers the buffer.\<close>

definition collar_fits :: "Decoder \<Rightarrow> dutyRuntime \<Rightarrow> bool" where
  "collar_fits d0 d \<longleftrightarrow> SymbolLength (Cfg d0) \<le> BlockSize (Cfg d0) \<and> BlockSize2 (Cfg d0) = 2 * BlockSize (Cfg d0) \<and>
     int (BufferLength (Cfg d0)) \<le> d_warmupBlocks d * int (BlockSize (Cfg d0))"

lemma inv_view_sized:
  assumes "decoder_inv pf d"
  shows "view_sized (Cfg d) (integer d) (view_of d)" "length (v_decisions (view_of d)) = BufferLength (Cfg d)"
    "length (v_powers (view_of d)) \<le> BufferLength (Cfg d)" "length (v_magnitudes (view_of d)) \<le> BufferLength (Cfg d)"
proof -
  note i = decoder_invD [OF assms] and l = inv_lengths [OF assms]
  show "view_sized (Cfg d) (integer d) (view_of d)" using l by (simp add: view_sized_def)
  show "length (v_decisions (view_of d)) = BufferLength (Cfg d)" using i(6) by (simp add: view_of_def)
  show "length (v_powers (view_of d)) \<le> BufferLength (Cfg d)" by (simp add: view_of_def powers_of_def split: option.split)
  show "length (v_magnitudes (view_of d)) \<le> BufferLength (Cfg d)"
    using i(4) by (auto simp: view_of_def magnitudes_of_def samples_ok_def float_ok_def split: option.splits)
qed

lemma view_run_sized: "view_sized c i v \<Longrightarrow> \<forall>b\<in>set bs. length b = 2 * BlockSize c \<Longrightarrow>
    view_sized c i (foldl (view_step c i) v bs) \<and> blank (foldl (view_step c i) v bs) = blank v"
  by (induction bs arbitrary: v) (simp_all add: view_step_sized view_step_blank)

lemma blank_sized: "view_sized c i v \<Longrightarrow> view_sized c i (blank v)" "blank (blank v) = blank v"
  by (simp_all add: view_sized_def blank_def)

lemma rebuild_forgets:
  assumes "decoder_inv pf d" "collar_fits d du" "\<forall>b\<in>set bs. length b = 2 * BlockSize (Cfg d)" "Cfg d = Cfg d0" "integer d = integer d0"
    and "d_warmupBlocks du < int n" "n \<le> length bs" "0 < d_warmupBlocks du"
  shows "always_on d0 (blank (view_of d)) (last_n n bs) = always_on d0 (view_of d) bs"
proof -
  let ?c = "Cfg d" and ?i = "integer d" and ?v = "view_of d"
  define pre where "pre = take (length bs - n) bs"
  have bs: "bs = pre @ last_n n bs" by (simp add: pre_def last_n_def)
  let ?w = "foldl (view_step ?c ?i) ?v pre"
  have len: "\<forall>b\<in>set pre. length b = 2 * BlockSize ?c" "\<forall>b\<in>set (last_n n bs). length b = 2 * BlockSize ?c"
    using assms(3) by (auto simp: pre_def last_n_def dest: in_set_takeD in_set_dropD)
  note s = inv_view_sized [OF assms(1)] and g = assms(2) [unfolded collar_fits_def]
  have w: "view_sized ?c ?i ?w" "blank ?w = blank ?v" using view_run_sized [OF s(1) len(1)] by simp_all
  have "0 < n" using assms(6,8) by simp
  then obtain b0 rest where t: "last_n n bs = b0 # rest" "length rest = n - 1"
    using assms(7) by (cases "last_n n bs") (auto dest!: arg_cong [where f = length])
  have "d_warmupBlocks du \<le> int (length rest)" using assms(6) t(2) \<open>0 < n\<close> by simp
  then have "int (BufferLength ?c) \<le> int (length rest) * int (BlockSize ?c)"
    using g mult_right_mono [of "d_warmupBlocks du" "int (length rest)" "int (BlockSize ?c)"] by simp
  then have B: "BufferLength ?c \<le> length rest * BlockSize ?c" by (simp only: of_nat_mult [symmetric] of_nat_le_iff)
  have "foldl (view_step ?c ?i) (blank ?v) (b0 # rest) = foldl (view_step ?c ?i) ?w (b0 # rest)"
  proof (rule view_forgets)
    show "blank (blank ?v) = blank ?w" unfolding w(2) blank_sized(2) ..
    show "view_sized ?c ?i (blank ?v)" by (rule blank_sized(1) [OF s(1)])
    show "length (v_decisions (blank ?v)) \<le> length rest * BlockSize ?c" "length (v_powers (blank ?v)) \<le> length rest * BlockSize ?c"
      "length (v_magnitudes (blank ?v)) \<le> length rest * BlockSize ?c" using B s(2-4) by (simp_all add: blank_def)
  qed (use w len(2) t g in simp_all)
  moreover have "foldl (view_step ?c ?i) ?v bs = foldl (view_step ?c ?i) ?w (last_n n bs)" by (subst bs) (simp only: foldl_append)
  ultimately show ?thesis using t(1) assms(4,5) by simp
qed

lemma record_rebuild_ok:
  assumes "record_rebuild n (rx, st, f, go) = (rx', st', f', go')"
  shows "rel_option same_core (rc_duty rx) (rc_duty rx')" "rc_err rx' = rc_err rx" "rc_d rx' = rc_d rx" "go' = go"
  using assms recordRebuild_core by (cases "rc_duty rx"; auto simp: record_rebuild_def option.rel_refl split: if_splits)+

lemma rel_core_trans: "rel_option same_core x y \<Longrightarrow> rel_option same_core y z \<Longrightarrow> rel_option same_core x z"
  by (auto elim!: option.rel_cases intro: same_core_trans)

lemma rebuild_ok:
  assumes "env_ok env d0" "stands_at env d0 v rx" "duty_wf d" "covers d bs" "bs \<noteq> []" "collar_fits d0 d"
    and "\<forall>b\<in>set bs. length b = BlockSize2 (Cfg d0)" "rebuildDutyDecoder env d rx st = Inr (rx', st', f, go)"
  shows "rel_option same_core (rc_duty rx) (rc_duty rx')" "rc_err rx \<noteq> Some lacks_raw \<longrightarrow> rc_err rx' \<noteq> Some lacks_raw"
    "go \<longrightarrow> stands_at env d0 (always_on d0 v bs) rx'"
proof -
  have r: "ring_ok d" and w: "d_warmupBlocks d < int (length (d_collar d))" "0 < d_warmupBlocks d" using assms(3) by (simp_all add: duty_wf_def)
  let ?n = "length (d_collar d)" and ?es = "collar_view d"
  note c = covers_split [OF assms(3,4,5)]
  have run: "d_skippedRun d = length bs" using assms(4) by (simp add: covers_def)
  have "\<exists>w x bs1 v1 rx0 n st0 rx1 st1 f1 go1. list_all2 skipped_entry x bs1 \<and> (\<forall>b\<in>set bs1. length b = BlockSize2 (Cfg d0)) \<and>
      stands_at env d0 v1 rx0 \<and> rc_duty rx0 = rc_duty rx \<and> rc_err rx0 = rc_err rx \<and> replay env w 0 x rx0 st0 False = Inr (rx1, st1, f1, go1) \<and>
      record_rebuild n (rx1, st1, f1, go1) = (rx', st', f, go) \<and> always_on d0 v1 bs1 = always_on d0 v bs"
    (is "\<exists>w x bs1 v1 rx0 n st0 rx1 st1 f1 go1. ?P w x bs1 v1 rx0 n st0 rx1 st1 f1 go1")
  proof (cases "length bs \<le> d_collarCount d")
    case True
    then have l: "last_n ?n bs = bs" "drop (d_collarCount d - length bs) ?es = last_n (length bs) ?es" "drop (length ?es - length bs) ?es = last_n (length bs) ?es"
      using r by (simp_all add: last_n_def, simp add: ring_ok_def)
    have all: "list_all2 skipped_entry (last_n (length bs) ?es) bs" using c(1) l(1) by simp
    then have "list_all (\<lambda>e. \<not> e_decoded e \<and> e_rawValid e) (last_n (length bs) ?es)"
      by (auto simp: list_all_length list_all2_conv_all_nth skipped_entry_def)
    then obtain q where q: "replay env None 0 (last_n (length bs) ?es) rx st False = Inr q" "record_rebuild (length bs) q = (rx', st', f, go)"
      using assms(5,8) True r by (auto simp: rebuildDutyDecoder_def orderedCollar_view Let_def run l(2,3) bind_res_eq_Inr)
    obtain rx1 st1 f1 go1 where q': "q = (rx1, st1, f1, go1)" by (cases q)
    then have "?P None (last_n (length bs) ?es) bs v rx (length bs) st rx1 st1 f1 go1" using all q assms(2,7) by simp
    then show ?thesis by blast
  next
    case False
    then have full: "d_collarCount d = ?n" "?n < length bs" using c(2) by auto
    then have es: "last_n (length bs) ?es = ?es" using r by simp
    let ?rx = "rx\<lparr>rc_d := Reset_decoder (rc_d rx)\<rparr>" and ?st = "st\<lparr>rs_prev := {}, rs_next := {}, rs_dutyPrev := {}, rs_dutyNext := {}\<rparr>"
    obtain q where q: "replay env (Some (d_warmupBlocks d)) 0 ?es ?rx ?st False = Inr q" "record_rebuild (length ?es) q = (rx', st', f, go)"
      using assms(8) False r by (auto simp: rebuildDutyDecoder_def orderedCollar_view Let_def run bind_res_eq_Inr)
    obtain rx1 st1 f1 go1 where q': "q = (rx1, st1, f1, go1)" by (cases q)
    have s: "decoder_inv (x_pf env) (rc_d rx)" "view_of (rc_d rx) = v" "Cfg (rc_d rx) = Cfg d0" "integer (rc_d rx) = integer d0" "preambles (rc_d rx) = preambles d0"
      using assms(2) by (simp_all add: stands_at_def)
    have "leaf_agrees (quantizer_leaf (x_pf env))" using assms(1) by (simp add: env_ok_def platform_agrees_def)
    note z = Reset_inv [OF s(1) this]
    have at: "stands_at env d0 (blank v) ?rx" using z s by (simp add: stands_at_def)
    have two: "\<forall>b\<in>set bs. length b = 2 * BlockSize (Cfg (rc_d rx))" "collar_fits (rc_d rx) d" using assms(6,7) s(3) by (simp_all add: collar_fits_def)
    have "always_on d0 (blank v) (last_n ?n bs) = always_on d0 v bs"
      using rebuild_forgets [OF s(1) two(2,1) s(3,4) w(1) _ w(2)] full(2) s(2) by simp
    moreover have "\<forall>b\<in>set (last_n ?n bs). length b = BlockSize2 (Cfg d0)" using assms(7) by (auto simp: last_n_def dest: in_set_dropD)
    ultimately have "?P (Some (d_warmupBlocks d)) ?es (last_n ?n bs) (blank v) ?rx (length ?es) ?st rx1 st1 f1 go1"
      using c(1) es q q' at by simp
    then show ?thesis by blast
  qed
  then obtain w x bs1 v1 rx0 n st0 rx1 st1 f1 go1 where
    p: "list_all2 skipped_entry x bs1" "\<forall>b\<in>set bs1. length b = BlockSize2 (Cfg d0)" "stands_at env d0 v1 rx0"
      "replay env w 0 x rx0 st0 False = Inr (rx1, st1, f1, go1)" and same: "rc_duty rx0 = rc_duty rx" "rc_err rx0 = rc_err rx"
      "always_on d0 v1 bs1 = always_on d0 v bs" and rr: "record_rebuild n (rx1, st1, f1, go1) = (rx', st', f, go)"
    by blast
  note k = replay_ok [OF assms(1) p] and rk = record_rebuild_ok [OF rr]
  show "rel_option same_core (rc_duty rx) (rc_duty rx')" using k(1) rk(1) same(1) rel_core_trans by metis
  show "rc_err rx \<noteq> Some lacks_raw \<longrightarrow> rc_err rx' \<noteq> Some lacks_raw" using k(2) rk(2) same(2) by simp
  show "go \<longrightarrow> stands_at env d0 (always_on d0 v bs) rx'" using k(3) rk(3,4) same(3) by (simp add: stands_at_def)
qed

subsection \<open>One block of a gated receiver\<close>

text \<open>The runtime is gated and its collar holds the blocks \<open>bs\<close> that were skipped since the last decoded one.\<close>

definition collar_holds :: "Decoder \<Rightarrow> dutyRuntime \<Rightarrow> u8 list list \<Rightarrow> bool" where
  "collar_holds d0 d bs \<longleftrightarrow> duty_wf d \<and> covers d bs \<and> d_mode d = ModeGated \<and> d_blockBytes d = BlockSize2 (Cfg d0) \<and> collar_fits d0 d"

lemma collar_holds_core:
  assumes "same_core d d'" "collar_holds d0 d bs"
  shows "collar_holds d0 d' bs"
  using assms(2) same_core_wf [OF assms(1)] assms(1) by (simp add: collar_holds_def collar_fits_def same_core_def)

lemma holds_after:
  assumes "rel_option same_core (Some d) x" "collar_holds d0 d bs"
  obtains d' where "x = Some d'" "collar_holds d0 d' bs"
  using assms collar_holds_core by (auto simp: option_rel_Some1)

lemma decode_now_ok:
  assumes "env_ok env d0" "stands_at env d0 v rx" "length data = BlockSize2 (Cfg d0)" "decode_now env rx st data t = Inr (rx', st', f, go)"
  shows "rel_option same_core (rc_duty rx) (rc_duty rx')" "rc_err rx \<noteq> Some lacks_raw \<longrightarrow> rc_err rx' \<noteq> Some lacks_raw"
    "stands_at env d0 (view_step (Cfg d0) (integer d0) v data) rx'"
proof -
  obtain rx1 ms where r: "rx_decode env rx data = Inr (rx1, ms)" "stands_at env d0 (view_step (Cfg d0) (integer d0) v data) rx1"
      "rc_duty rx1 = rc_duty rx" "rc_err rx1 = rc_err rx"
    by (rule rx_decode_ok [OF assms(1-3)]) blast
  have "processDecodedMessages env rx1 st ms t 0 True (rc_duty rx1 \<noteq> None) False = Inr (rx', st', f, go)"
    using assms(4) by (simp add: decode_now_def r(1))
  note k = processDecodedMessages_kept [OF this]
  show "rel_option same_core (rc_duty rx) (rc_duty rx')" "rc_err rx \<noteq> Some lacks_raw \<longrightarrow> rc_err rx' \<noteq> Some lacks_raw"
    using k r(3,4) by (simp_all add: kept_def)
  show "stands_at env d0 (view_step (Cfg d0) (integer d0) v data) rx'" using stands_at_kept [OF k] r(2) by simp
qed

lemma begin_holds:
  assumes "collar_holds d0 d bs" "beginBlock fp d = Inr (d', start, stop, dec)"
  shows "collar_holds d0 d' bs" "needsRebuild d' dec \<longleftrightarrow> bs \<noteq> [] \<and> dec_Decode dec"
proof -
  have wf: "duty_wf d" and c: "covers d bs" using assms(1) by (simp_all add: collar_holds_def)
  note b = beginBlock_wf [OF wf assms(2)]
  show h: "collar_holds d0 d' bs" using assms(1) b by (simp add: collar_holds_def collar_fits_def)
  then have "d_wasSkipped d' \<longleftrightarrow> bs \<noteq> []" by (auto simp: collar_holds_def duty_wf_def covers_def)
  then show "needsRebuild d' dec \<longleftrightarrow> bs \<noteq> [] \<and> dec_Decode dec" using h by (auto simp: needsRebuild_def collar_holds_def)
qed

lemma duty_block_ok:
  assumes "env_ok env d0" "stands_at env d0 v rx" "collar_holds d0 d bs" "\<forall>x\<in>set bs. length x = BlockSize2 (Cfg d0)"
    and "length b = BlockSize2 (Cfg d0)" "rc_err rx \<noteq> Some lacks_raw" "duty_block env d rx st b = Inr (rx', st', f, go, start, stop, dec)"
  obtains d' where "rc_duty rx' = Some d'" "collar_holds d0 d' bs" "rc_err rx' \<noteq> Some lacks_raw"
    "go \<longrightarrow> stands_at env d0 (if dec_Decode dec then always_on d0 v (bs @ [b]) else v) rx'"
proof -
  obtain d1 start1 stop1 dec1 where b1: "beginBlock (l_fp (x_lib env)) d = Inr (d1, start1, stop1, dec1)"
    using assms(7) by (auto simp: duty_block_def bind_res_eq_Inr)
  obtain rx1 st1 f1 go1 where rb1: "(if needsRebuild d1 dec1 then rebuildDutyDecoder env d1 (rx\<lparr>rc_duty := Some d1\<rparr>) st
               else Inr (rx\<lparr>rc_duty := Some d1\<rparr>, st, False, True)) = Inr (rx1, st1, f1, go1)"
    using assms(7) b1 unfolding duty_block_def by (auto simp: bind_res_eq_Inr simp del: if_split)
  have rest1: "(if \<not> go1 \<or> \<not> dec_Decode dec1 then Inr (rx1, st1, f1, go1, start1, stop1, dec1)
       else bind_res (decode_now env rx1 st1 b stop1) (\<lambda>(rx, st, current, keepRunning).
          Inr (rx, st, f1 \<or> current, keepRunning, start1, stop1, dec1))) = Inr (rx', st', f, go, start, stop, dec)"
    using assms(7) unfolding duty_block_def b1 bind_res_simps prod.case rb1 .
  then have "start1 = start" "stop1 = stop" "dec1 = dec" by (auto simp: bind_res_eq_Inr split: if_splits)
  note b = b1 [unfolded this] and rb = rb1 [unfolded this] and rest = rest1 [unfolded this]
  let ?rx = "rx\<lparr>rc_duty := Some d1\<rparr>"
  note h = begin_holds [OF assms(3) b]
  have s: "stands_at env d0 v ?rx" using assms(2) by (simp add: stands_at_def)
  have r1: "rel_option same_core (Some d1) (rc_duty rx1) \<and> rc_err rx1 \<noteq> Some lacks_raw \<and>
      (go1 \<longrightarrow> stands_at env d0 (if dec_Decode dec then always_on d0 v bs else v) rx1)"
  proof (cases "needsRebuild d1 dec")
    case True
    then have ne: "bs \<noteq> []" "dec_Decode dec" and rr: "rebuildDutyDecoder env d1 ?rx st = Inr (rx1, st1, f1, go1)" using h(2) rb by simp_all
    have "duty_wf d1" "covers d1 bs" "collar_fits d0 d1" using h(1) by (simp_all add: collar_holds_def)
    from rebuild_ok [OF assms(1) s this(1,2) ne(1) this(3) assms(4) rr] show ?thesis using assms(6) ne(2) by simp
  next
    case False
    then have "rx1 = ?rx" "dec_Decode dec \<longrightarrow> bs = []" using rb h(2) by auto
    then show ?thesis using s assms(6) by auto
  qed
  then obtain d2 where d2: "rc_duty rx1 = Some d2" "collar_holds d0 d2 bs" using holds_after [OF _ h(1)] by blast
  show thesis
  proof (cases "go1 \<and> dec_Decode dec")
    case True
    then obtain f2 where "decode_now env rx1 st1 b stop = Inr (rx', st', f2, go)"
      using rest by (auto simp: bind_res_eq_Inr)
    moreover have "stands_at env d0 (always_on d0 v bs) rx1" using r1 True by simp
    ultimately have n: "rel_option same_core (Some d2) (rc_duty rx')" "rc_err rx1 \<noteq> Some lacks_raw \<longrightarrow> rc_err rx' \<noteq> Some lacks_raw"
        "stands_at env d0 (always_on d0 v (bs @ [b])) rx'"
      using decode_now_ok [OF assms(1) _ assms(5)] d2(1) by fastforce+
    obtain d3 where "rc_duty rx' = Some d3" "collar_holds d0 d3 bs" using holds_after [OF n(1) d2(2)] by blast
    then show thesis using that n r1 True by simp
  next
    case False
    then have "rx' = rx1" "go = go1" using rest by auto
    then show thesis using that d2 r1 False by simp
  qed
qed

lemma finish_duty_ok:
  assumes "rc_duty rx = Some d" "collar_holds d0 d bs" "length b = BlockSize2 (Cfg d0)" "finish_duty env rx b start stop dec = Some (Inr rx')"
  obtains d' where "rc_duty rx' = Some d'" "collar_holds d0 d' (if dec_Decode dec then [] else bs @ [b])" "rc_d rx' = rc_d rx" "rc_err rx' = rc_err rx"
proof -
  have wf: "duty_wf d" and c: "covers d bs" and len: "length b = d_blockBytes d" using assms(2,3) by (simp_all add: collar_holds_def)
  have ring: "ring_ok d" using wf by (simp add: duty_wf_def)
  let ?w = "x_now env (rc_tick rx)"
  obtain d1 e where f: "finishBlock d b start stop ?w dec = Inr d1" "duty_wf d1" "collar_view d1 = collar_view (store_block d e)"
    "d_collar d1 = d_collar (store_block d e)" "\<not> dec_Decode dec \<Longrightarrow> skipped_entry e b" "d_skippedRun d1 = (if dec_Decode dec then 0 else Suc (d_skippedRun d))"
    "d_mode d1 = d_mode d" "d_warmupBlocks d1 = d_warmupBlocks d" "d_blockBytes d1 = d_blockBytes d"
    by (rule finishBlock_ok [OF wf len, of start stop ?w dec]) blast
  have "covers d1 (if dec_Decode dec then [] else bs @ [b])"
    using f(3-6) c covers_push [OF ring c] by (auto simp: covers_def last_n_def [of 0])
  then have h: "collar_holds d0 d1 (if dec_Decode dec then [] else bs @ [b])"
    using f(2,7-9) assms(2) by (simp add: collar_holds_def collar_fits_def)
  obtain d2 dk err where m: "maybeCheckpoint (x_os env) (x_lib env) d1 (rc_disk rx) ?w = Some (d2, dk, err)"
    and r: "rx' = tick rx\<lparr>rc_duty := Some d2, rc_disk := dk\<rparr>"
    using assms(4) by (auto simp: finish_duty_def assms(1) f(1) Let_def split: option.splits)
  show thesis using that [of d2] collar_holds_core [OF maybeCheckpoint_core(1) [OF m] h] by (simp add: r)
qed

definition gate_inv :: "rx_env \<Rightarrow> Decoder \<Rightarrow> Receiver \<Rightarrow> u8 list list \<Rightarrow> bool" where
  "gate_inv env d0 rx hist \<longleftrightarrow> (\<exists>d seen bs. rc_duty rx = Some d \<and> hist = seen @ bs \<and> collar_holds d0 d bs \<and>
     stands_at env d0 (always_on d0 (view_of d0) seen) rx \<and> (\<forall>b\<in>set hist. length b = BlockSize2 (Cfg d0)) \<and> rc_err rx \<noteq> Some lacks_raw)"

lemma record_packet_ok:
  assumes "record_packet env rx st f = (rx', go)"
  shows "rc_d rx' = rc_d rx" "rc_duty rx' = rc_duty rx" "rc_err rx \<noteq> Some lacks_raw \<longrightarrow> rc_err rx' \<noteq> Some lacks_raw"
  using assms by (auto simp: record_packet_def lacks_raw_def split: if_splits option.splits)

lemma processBlock_gate:
  assumes "env_ok env d0" "gate_inv env d0 rx hist" "length b = BlockSize2 (Cfg d0)" "processBlock env rx st b = Some (Inr (rx', st', go))"
  shows "rc_err rx' \<noteq> Some lacks_raw" "go \<longrightarrow> gate_inv env d0 rx' (hist @ [b])"
proof -
  obtain d seen bs where g: "rc_duty rx = Some d" "hist = seen @ bs" "collar_holds d0 d bs" "stands_at env d0 (always_on d0 (view_of d0) seen) rx"
      "\<forall>x\<in>set hist. length x = BlockSize2 (Cfg d0)" "rc_err rx \<noteq> Some lacks_raw"
    using assms(2) by (auto simp: gate_inv_def)
  obtain cap err where c: "capture_block (rc_continuousCapture rx) b (x_capture env (rc_tick rx)) = (cap, err)" by fastforce
  let ?rx = "tick rx\<lparr>rc_continuousCapture := cap\<rparr>" and ?v = "always_on d0 (view_of d0) seen"
  have "rc_err rx' \<noteq> Some lacks_raw \<and> (go \<longrightarrow> gate_inv env d0 rx' (hist @ [b]))"
  proof (cases err)
    case (Some e)
    then show ?thesis using assms(4) c by (auto simp: processBlock_def lacks_raw_def)
  next
    case None
    define st1 where "st1 = buffer_samples ?rx st b"
    have s: "stands_at env d0 ?v ?rx" "\<forall>x\<in>set bs. length x = BlockSize2 (Cfg d0)" "rc_err ?rx \<noteq> Some lacks_raw" "rc_duty ?rx = Some d"
      using g by (simp_all add: stands_at_def)
    obtain rx1 st2 f keep start stop dec where db: "duty_block env d ?rx st1 b = Inr (rx1, st2, f, keep, start, stop, dec)"
      and rest: "(if \<not> keep then Some (Inr (rx1, st2, False))
                else (case finish_duty env rx1 b start stop dec of
                        None \<Rightarrow> None
                      | Some (Inl e) \<Rightarrow> Some (Inl e)
                      | Some (Inr rx) \<Rightarrow> let (rx, go) = record_packet env rx st2 f in Some (Inr (rx, st2, go)))) = Some (Inr (rx', st', go))"
      using assms(4) c None s(4) unfolding processBlock_def st1_def
      by (cases "duty_block env d ?rx (buffer_samples ?rx st b) b") (auto simp: Let_def simp del: if_split)
    obtain d1 where d1: "rc_duty rx1 = Some d1" "collar_holds d0 d1 bs" "rc_err rx1 \<noteq> Some lacks_raw"
        "keep \<longrightarrow> stands_at env d0 (if dec_Decode dec then always_on d0 ?v (bs @ [b]) else ?v) rx1"
      by (rule duty_block_ok [OF assms(1) s(1) g(3) s(2) assms(3) s(3) db]) blast
    show ?thesis
    proof (cases keep)
      case False
      then show ?thesis using rest d1(3) by auto
    next
      case True
      obtain rx2 where fd: "finish_duty env rx1 b start stop dec = Some (Inr rx2)" and rp: "record_packet env rx2 st2 f = (rx', go)"
        using rest True by (auto split: option.splits sum.splits prod.splits)
      obtain d2 where d2: "rc_duty rx2 = Some d2" "collar_holds d0 d2 (if dec_Decode dec then [] else bs @ [b])" "rc_d rx2 = rc_d rx1" "rc_err rx2 = rc_err rx1"
        by (rule finish_duty_ok [OF d1(1,2) assms(3) fd]) blast
      note r = record_packet_ok [OF rp]
      have st: "stands_at env d0 (if dec_Decode dec then always_on d0 (view_of d0) (hist @ [b]) else ?v) rx'"
        using d1(4) True d2(3) r(1) by (simp add: stands_at_def g(2) split: if_splits)
      have "\<forall>x\<in>set (hist @ [b]). length x = BlockSize2 (Cfg d0)" using g(5) assms(3) by auto
      moreover have "rc_err rx' \<noteq> Some lacks_raw" using r(3) d2(4) d1(3) by simp
      moreover have "\<exists>seen bs'. hist @ [b] = seen @ bs' \<and> collar_holds d0 d2 bs' \<and> stands_at env d0 (always_on d0 (view_of d0) seen) rx'"
      proof (cases "dec_Decode dec")
        case True
        then show ?thesis using st d2(2) by (intro exI [of _ "hist @ [b]"] exI [of _ "[]"]) simp
      next
        case False
        then show ?thesis using st d2(2) g(2) by (intro exI [of _ seen] exI [of _ "bs @ [b]"]) simp
      qed
      ultimately show ?thesis using d2(1) r(2) unfolding gate_inv_def by auto
    qed
  qed
  then show "rc_err rx' \<noteq> Some lacks_raw" "go \<longrightarrow> gate_inv env d0 rx' (hist @ [b])" by blast+
qed

subsection \<open>All batches\<close>

function chunks :: "nat \<Rightarrow> 'a list \<Rightarrow> 'a list list" where
  "chunks n xs = (if xs = [] \<or> n = 0 then [] else take n xs # chunks n (drop n xs))"
  by pat_completeness auto
termination
  by (relation "measure (\<lambda>(n, xs). length xs)") auto

declare chunks.simps [simp del]

lemma concat_chunks: "0 < n \<Longrightarrow> concat (chunks n xs) = xs"
  by (induction n xs rule: chunks.induct) (subst chunks.simps, simp)

definition answer_bytes :: "source_answer \<Rightarrow> u8 list" where
  "answer_bytes a = (case sa_next a of Inl _ \<Rightarrow> [] | Inr batch \<Rightarrow> batch)"

definition stream_blocks :: "nat \<Rightarrow> source_answer list \<Rightarrow> u8 list list" where
  "stream_blocks n as = concat (map (\<lambda>a. chunks n (answer_bytes a)) as)"

lemma process_batch_gate:
  assumes "env_ok env d0" "n = BlockSize2 (Cfg d0)"
  shows "gate_inv env d0 rx hist \<Longrightarrow> n dvd length batch \<Longrightarrow> process_batch env n rx st batch = Some (Inr (rx', st', go)) \<Longrightarrow>
    rc_err rx' \<noteq> Some lacks_raw \<and> (go \<longrightarrow> gate_inv env d0 rx' (hist @ chunks n batch))"
proof (induction "length batch" arbitrary: batch rx st hist rule: less_induct)
  case less
  show ?case
  proof (cases "batch = [] \<or> n = 0")
    case True
    then show ?thesis using less.prems by (auto simp: process_batch.simps [of _ n] chunks.simps [of n] gate_inv_def)
  next
    case False
    obtain rx1 st1 go1 where p: "processBlock env rx st (take n batch) = Some (Inr (rx1, st1, go1))"
      and rest: "(if go1 then process_batch env n rx1 st1 (drop n batch) else Some (Inr (rx1, st1, False))) = Some (Inr (rx', st', go))"
      using less.prems(3) False by (auto simp: process_batch.simps [of _ n _ _ batch] split: option.splits sum.splits)
    have "n \<le> length batch" using less.prems(2) False by (auto dest: dvd_imp_le)
    then have len: "length (take n batch) = BlockSize2 (Cfg d0)" "length (drop n batch) < length batch" "n dvd length (drop n batch)"
      using False assms(2) less.prems(2) by (simp_all add: dvd_diff_nat)
    note g = processBlock_gate [OF assms(1) less.prems(1) len(1) p]
    have "chunks n batch = take n batch # chunks n (drop n batch)" using False by (subst chunks.simps) simp
    then show ?thesis using less.hyps [OF len(2) _ len(3), of rx1 "hist @ [take n batch]"] g rest by (cases go1) auto
  qed
qed

lemma receive_batch_gate:
  assumes "env_ok env d0" "gate_inv env d0 rx hist" "receive_batch env rx st a = Some (Inr (rx', st', go))"
  shows "rc_err rx' \<noteq> Some lacks_raw" "go \<longrightarrow> gate_inv env d0 rx' (hist @ chunks (BlockSize2 (Cfg d0)) (answer_bytes a))"
proof -
  have e: "rc_err rx \<noteq> Some lacks_raw" and c: "Cfg (rc_d rx) = Cfg d0" using assms(2) by (auto simp: gate_inv_def stands_at_def)
  let ?n = "BlockSize2 (Cfg d0)"
  have "rc_err rx' \<noteq> Some lacks_raw \<and> (go \<longrightarrow> gate_inv env d0 rx' (hist @ chunks ?n (answer_bytes a)))"
  proof (cases "rc_cancelled rx \<or> sa_done a \<or> (\<exists>e. sa_next a = Inl e) \<or> (\<exists>batch. sa_next a = Inr batch \<and> (batch = [] \<or> length batch mod ?n \<noteq> 0 \<or> ?n = 0))")
    case True
    then show ?thesis using assms(3) e c by (auto simp: receive_batch_def Let_def lacks_raw_def split: if_splits)
  next
    case False
    then obtain batch where b: "sa_next a = Inr batch" "batch \<noteq> []" "?n dvd length batch" "?n \<noteq> 0" by (cases "sa_next a") auto
    obtain rx1 st1 go1 where p: "process_batch env ?n rx st batch = Some (Inr (rx1, st1, go1))"
      and rest: "(case sa_release a of
                      Some err \<Rightarrow> Some (Inr (if rc_err rx1 = None then rx1\<lparr>rc_err := Some (''release sample source batch: '' @ err)\<rparr> else rx1, st1, False))
                    | None \<Rightarrow> Some (Inr (rx1, st1, go1))) = Some (Inr (rx', st', go))"
      using assms(3) False b c by (auto simp: receive_batch_def Let_def split: option.splits sum.splits)
    note g = process_batch_gate [OF assms(1) refl assms(2) b(3) p]
    then show ?thesis using rest b(1) by (auto simp: answer_bytes_def lacks_raw_def split: option.splits if_splits)
  qed
  then show "rc_err rx' \<noteq> Some lacks_raw" "go \<longrightarrow> gate_inv env d0 rx' (hist @ chunks ?n (answer_bytes a))" by blast+
qed

lemma Run_gate:
  assumes "env_ok env d0"
  shows "gate_inv env d0 rx hist \<Longrightarrow> Run env rx st as = Some (Inr (rx', st', go)) \<Longrightarrow>
    rc_err rx' \<noteq> Some lacks_raw \<and> (go \<longrightarrow> gate_inv env d0 rx' (hist @ stream_blocks (BlockSize2 (Cfg d0)) as))"
proof (induction as arbitrary: rx st hist)
  case Nil
  then show ?case by (auto simp: stream_blocks_def gate_inv_def)
next
  case (Cons a as)
  obtain rx1 st1 go1 where p: "receive_batch env rx st a = Some (Inr (rx1, st1, go1))"
    and rest: "(if go1 then Run env rx1 st1 as else Some (Inr (rx1\<lparr>rc_cancelled := True\<rparr>, st1, False))) = Some (Inr (rx', st', go))"
    using Cons.prems(2) by (auto split: option.splits sum.splits)
  note g = receive_batch_gate [OF assms Cons.prems(1) p]
  show ?case
  proof (cases go1)
    case True
    then show ?thesis using Cons.IH [of rx1 "hist @ chunks (BlockSize2 (Cfg d0)) (answer_bytes a)" st1] g rest by (simp add: stream_blocks_def)
  qed (use rest g in auto)
qed

section \<open>Stopping\<close>

text \<open>What a step of the receiver keeps when no samples are recorded: it is not cancelled, and it stops with an error only.\<close>

definition stops_on_error :: "Receiver \<Rightarrow> Receiver \<Rightarrow> bool \<Rightarrow> bool" where
  "stops_on_error rx rx' go \<longleftrightarrow> rc_cancelled rx' = rc_cancelled rx \<and> (\<not> go \<longrightarrow> rc_err rx' \<noteq> None)"

lemma stops_trans: "stops_on_error rx rx' True \<Longrightarrow> stops_on_error rx' rx'' go \<Longrightarrow> stops_on_error rx rx'' go"
  by (simp add: stops_on_error_def)

lemma publish_stops:
  "publish_messages env t ms rx st found = (rx', st', f, ok) \<Longrightarrow> stops_on_error rx rx' ok \<and> rs_recordSamples st' = rs_recordSamples st"
proof (induction ms arbitrary: rx st found)
  case (Cons msg ms)
  obtain mt fc where m: "Match (rc_fc rx) msg = (mt, fc)" by fastforce
  show ?case
  proof (cases "mt \<and> NewDigest msg \<notin> rs_prev st \<and> x_encode env (rc_tick rx) = None")
    case False
    then show ?thesis using Cons.prems m
        Cons.IH [of "rx\<lparr>rc_fc := fc\<rparr>" st found] Cons.IH [of "tick (rx\<lparr>rc_fc := fc\<rparr>)" "st\<lparr>rs_next := insert (NewDigest msg) (rs_next st)\<rparr>" found]
      by (auto simp: Let_def stops_on_error_def split: if_splits option.splits)
  next
    case True
    let ?st = "st\<lparr>rs_next := insert (NewDigest msg) (rs_next st)\<rparr>"
    let ?w = "written env t msg rx st"
    note e = publish_written [of rx msg st env t ms found]
    show ?thesis using Cons.prems True m Cons.IH [of ?w ?st True] Cons.IH [of "delete_id (unat (MeterID msg)) ?w" ?st True]
      by (auto simp: e delete_id_def stops_on_error_def simp del: publish_messages.simps split: if_splits)
  qed
qed (simp add: stops_on_error_def)

lemma observe_stops:
  assumes "observe_messages env rx st ms t obs esc = Inr (rx', st')"
  shows "stops_on_error rx rx' True" "rs_recordSamples st' = rs_recordSamples st"
  using assms by (auto simp: observe_messages_def bind_res_eq_Inr stops_on_error_def split: option.splits if_splits)

lemma process_stops:
  assumes "processDecodedMessages env rx st ms t et publish obs esc = Inr (rx', st', f, ok)"
  shows "stops_on_error rx rx' ok" "rs_recordSamples st' = rs_recordSamples st"
proof -
  obtain rx1 st1 where o: "observe_messages env rx (st\<lparr>rs_next := {}\<rparr>) ms t obs esc = Inr (rx1, st1)"
    using assms by (auto simp: processDecodedMessages_def bind_res_eq_Inr)
  obtain rx2 st2 f2 ok2 where p: "(if publish then publish_messages env et ms rx1 st1 False else (rx1, st1, False, True)) = (rx2, st2, f2, ok2)"
    by (metis prod_cases4)
  have "stops_on_error rx1 rx2 ok2 \<and> rs_recordSamples st2 = rs_recordSamples st1"
    using p publish_stops [of env et ms rx1 st1 False rx2 st2 f2 ok2] by (auto simp: stops_on_error_def split: if_splits)
  moreover have "rx' = rx2 \<and> ok = ok2 \<and> rs_recordSamples st' = rs_recordSamples st2"
    using assms o p by (auto simp: processDecodedMessages_def Let_def split: if_splits)
  ultimately show "stops_on_error rx rx' ok" "rs_recordSamples st' = rs_recordSamples st"
    using observe_stops [OF o] stops_trans by auto
qed

lemma rx_decode_stops: "rx_decode env rx b = Inr (rx', ms) \<Longrightarrow> stops_on_error rx rx' True"
  by (auto simp: rx_decode_def bind_res_eq_Inr stops_on_error_def)

lemma replay_stops:
  "replay env w i es rx st f = Inr (rx', st', f', go) \<Longrightarrow> stops_on_error rx rx' go \<and> rs_recordSamples st' = rs_recordSamples st"
proof (induction es arbitrary: i rx st f)
  case (Cons e es)
  show ?case
  proof (cases "w \<noteq> None \<and> \<not> e_rawValid e")
    case True
    then show ?thesis using Cons.prems by (auto simp: stops_on_error_def)
  next
    case False
    obtain rx1 ms pub rx2 st2 f2 go2 where r: "rx_decode env rx (entry_bytes e) = Inr (rx1, ms)"
        and p: "processDecodedMessages env rx1 st ms (e_sampleEnd e) (e_wallTime e) pub pub pub = Inr (rx2, st2, f2, go2)"
        and rest: "(if \<not> go2 then Inr (rx2, st2, f \<or> f2, False) else replay env w (i + 1) es rx2 st2 (f \<or> f2)) = Inr (rx', st', f', go)"
      by (rule replay_step [OF Cons.prems]) (use False in auto)
    note s = process_stops [OF p] stops_trans [OF rx_decode_stops [OF r]]
    then show ?thesis using rest Cons.IH stops_trans by (cases go2) fastforce+
  qed
qed (simp add: stops_on_error_def)

lemma rebuild_stops:
  assumes "rebuildDutyDecoder env d rx st = Inr (rx', st', f, go)"
  shows "stops_on_error rx rx' go" "rs_recordSamples st' = rs_recordSamples st"
proof -
  obtain w es rx0 st0 n rx1 st1 f1 go1 where "replay env w 0 es rx0 st0 False = Inr (rx1, st1, f1, go1)"
      "record_rebuild n (rx1, st1, f1, go1) = (rx', st', f, go)" "rc_cancelled rx0 = rc_cancelled rx" "rs_recordSamples st0 = rs_recordSamples st"
    using assms unfolding rebuildDutyDecoder_def Let_def bind_res_eq_Inr
    by (auto simp: bind_res_eq_Inr split: if_splits)
  then show "stops_on_error rx rx' go" "rs_recordSamples st' = rs_recordSamples st"
    using replay_stops [of env w 0 es rx0 st0 False rx1 st1 f1 go1] by (auto simp: stops_on_error_def record_rebuild_def split: if_splits)
qed

lemma decode_now_stops:
  assumes "decode_now env rx st b t = Inr (rx', st', f, go)"
  shows "stops_on_error rx rx' go" "rs_recordSamples st' = rs_recordSamples st"
proof -
  obtain rx1 ms where r: "rx_decode env rx b = Inr (rx1, ms)" and p: "processDecodedMessages env rx1 st ms t 0 True (rc_duty rx1 \<noteq> None) False = Inr (rx', st', f, go)"
    using assms by (auto simp: decode_now_def bind_res_eq_Inr)
  show "stops_on_error rx rx' go" by (rule stops_trans [OF rx_decode_stops [OF r] process_stops(1) [OF p]])
  show "rs_recordSamples st' = rs_recordSamples st" by (rule process_stops(2) [OF p])
qed

lemma duty_block_stops:
  assumes "duty_block env d rx st b = Inr (rx', st', f, go, start, stop, dec)"
  shows "stops_on_error rx rx' go" "rs_recordSamples st' = rs_recordSamples st"
proof -
  obtain d1 start1 stop1 dec1 where b1: "beginBlock (l_fp (x_lib env)) d = Inr (d1, start1, stop1, dec1)"
    using assms by (auto simp: duty_block_def bind_res_eq_Inr)
  let ?rx = "rx\<lparr>rc_duty := Some d1\<rparr>"
  obtain rx1 st1 f1 go1 where rb: "(if needsRebuild d1 dec1 then rebuildDutyDecoder env d1 ?rx st else Inr (?rx, st, False, True)) = Inr (rx1, st1, f1, go1)"
    using assms b1 unfolding duty_block_def by (auto simp: bind_res_eq_Inr simp del: if_split)
  have rest: "(if \<not> go1 \<or> \<not> dec_Decode dec1 then Inr (rx1, st1, f1, go1, start1, stop1, dec1)
       else bind_res (decode_now env rx1 st1 b stop1) (\<lambda>(rx, st, current, keepRunning).
          Inr (rx, st, f1 \<or> current, keepRunning, start1, stop1, dec1))) = Inr (rx', st', f, go, start, stop, dec)"
    using assms unfolding duty_block_def b1 bind_res_simps prod.case rb .
  have "stops_on_error ?rx rx1 go1 \<and> rs_recordSamples st1 = rs_recordSamples st"
    using rb rebuild_stops [of env d1 ?rx st rx1 st1 f1 go1] by (auto simp: stops_on_error_def split: if_splits)
  then have r1: "stops_on_error rx rx1 go1" "rs_recordSamples st1 = rs_recordSamples st" by (simp_all add: stops_on_error_def)
  have "stops_on_error rx rx' go \<and> rs_recordSamples st' = rs_recordSamples st"
  proof (cases "\<not> go1 \<or> \<not> dec_Decode dec1")
    case True
    then show ?thesis using rest r1 by auto
  next
    case False
    then obtain f2 where n: "decode_now env rx1 st1 b stop1 = Inr (rx', st', f2, go)" using rest by (auto simp: bind_res_eq_Inr)
    show ?thesis using decode_now_stops [OF n] r1 False stops_trans by auto
  qed
  then show "stops_on_error rx rx' go" "rs_recordSamples st' = rs_recordSamples st" by blast+
qed

lemma finish_duty_cancelled: "finish_duty env rx b start stop dec = Some (Inr rx') \<Longrightarrow> rc_cancelled rx' = rc_cancelled rx"
  by (auto simp: finish_duty_def Let_def split: option.splits sum.splits)

lemma processBlock_stops:
  assumes "\<not> rs_recordSamples st" "processBlock env rx st b = Some (Inr (rx', st', go))"
  shows "stops_on_error rx rx' go" "\<not> rs_recordSamples st'"
proof -
  obtain cap err where c: "capture_block (rc_continuousCapture rx) b (x_capture env (rc_tick rx)) = (cap, err)" by fastforce
  let ?rx = "tick rx\<lparr>rc_continuousCapture := cap\<rparr>"
  let ?st = "buffer_samples ?rx st b"
  have rec: "\<not> rs_recordSamples ?st" using assms(1) by (simp add: buffer_samples_def Let_def)
  have quiet: "record_packet env x s f = (x, True)" if "rs_recordSamples s = rs_recordSamples ?st" for x s f
    using that rec by (simp add: record_packet_def)
  have "stops_on_error rx rx' go \<and> \<not> rs_recordSamples st'"
  proof (cases err)
    case (Some e)
    then show ?thesis using assms c by (auto simp: processBlock_def Let_def stops_on_error_def)
  next
    case None
    show ?thesis
    proof (cases "rc_duty rx")
      case no_duty: None
      obtain rx1 st1 f keep where n: "decode_now env ?rx ?st b 0 = Inr (rx1, st1, f, keep)"
        using assms(2) c None no_duty by (auto simp: processBlock_def Let_def bind_res_eq_Inr)
      note s = decode_now_stops [OF n]
      have "rx' = rx1" "st' = st1" "go = keep"
        using assms(2) c None no_duty n quiet [OF s(2)] by (auto simp: processBlock_def Let_def split: if_splits)
      then show ?thesis using s rec by (simp add: stops_on_error_def)
    next
      case (Some d)
      obtain rx1 st1 f keep start stop dec where db: "duty_block env d ?rx ?st b = Inr (rx1, st1, f, keep, start, stop, dec)"
        using assms(2) c None Some by (cases "duty_block env d ?rx ?st b") (auto simp: processBlock_def Let_def)
      note s = duty_block_stops [OF db]
      have "(if keep then \<exists>rx2. finish_duty env rx1 b start stop dec = Some (Inr rx2) \<and> rx' = rx2 \<and> go else rx' = rx1 \<and> \<not> go) \<and> st' = st1"
        using assms(2) c None Some db quiet [OF s(2)] by (auto simp: processBlock_def Let_def split: if_splits option.splits sum.splits)
      then show ?thesis using s rec finish_duty_cancelled [of env rx1 b start stop dec] by (auto simp: stops_on_error_def split: if_splits)
    qed
  qed
  then show "stops_on_error rx rx' go" "\<not> rs_recordSamples st'" by blast+
qed

lemma process_batch_stops:
  "\<not> rs_recordSamples st \<Longrightarrow> process_batch env n rx st batch = Some (Inr (rx', st', go)) \<Longrightarrow> stops_on_error rx rx' go \<and> \<not> rs_recordSamples st'"
proof (induction "length batch" arbitrary: batch rx st rule: less_induct)
  case less
  show ?case
  proof (cases "batch = [] \<or> n = 0")
    case True
    then show ?thesis using less.prems by (auto simp: process_batch.simps [of _ n] stops_on_error_def)
  next
    case False
    obtain rx1 st1 go1 where p: "processBlock env rx st (take n batch) = Some (Inr (rx1, st1, go1))"
      and rest: "(if go1 then process_batch env n rx1 st1 (drop n batch) else Some (Inr (rx1, st1, False))) = Some (Inr (rx', st', go))"
      using less.prems(2) False by (auto simp: process_batch.simps [of _ n _ _ batch] split: option.splits sum.splits)
    note s = processBlock_stops [OF less.prems(1) p]
    have "length (drop n batch) < length batch" using False by simp
    from less.hyps [OF this s(2)] show ?thesis using s rest stops_trans by (cases go1) auto
  qed
qed

lemma receive_batch_stops:
  assumes "\<not> rs_recordSamples st" "\<not> rc_cancelled rx" "\<not> sa_done a" "\<not> sa_ctxErr a" "receive_batch env rx st a = Some (Inr (rx', st', go))"
  shows "stops_on_error rx rx' go \<and> \<not> rs_recordSamples st'"
proof (cases "\<exists>batch. sa_next a = Inr batch \<and> batch \<noteq> [] \<and> BlockSize2 (Cfg (rc_d rx)) \<noteq> 0 \<and> length batch mod BlockSize2 (Cfg (rc_d rx)) = 0")
  case False
  then consider e where "sa_next a = Inl e" | batch where "sa_next a = Inr batch" "batch = []"
    | batch where "sa_next a = Inr batch" "batch \<noteq> []" "BlockSize2 (Cfg (rc_d rx)) = 0"
    | batch where "sa_next a = Inr batch" "batch \<noteq> []" "BlockSize2 (Cfg (rc_d rx)) \<noteq> 0" "length batch mod BlockSize2 (Cfg (rc_d rx)) \<noteq> 0"
    by (cases "sa_next a") auto
  then show ?thesis using assms by cases (auto simp: receive_batch_def stops_on_error_def)
next
  case True
  then obtain batch where b: "sa_next a = Inr batch" "batch \<noteq> []" "BlockSize2 (Cfg (rc_d rx)) \<noteq> 0" "length batch mod BlockSize2 (Cfg (rc_d rx)) = 0" by (elim exE conjE)
  obtain rx1 st1 go1 where p: "process_batch env (BlockSize2 (Cfg (rc_d rx))) rx st batch = Some (Inr (rx1, st1, go1))"
    and rest: "(case sa_release a of
                    Some err \<Rightarrow> Some (Inr (if rc_err rx1 = None then rx1\<lparr>rc_err := Some (''release sample source batch: '' @ err)\<rparr> else rx1, st1, False))
                  | None \<Rightarrow> Some (Inr (rx1, st1, go1))) = Some (Inr (rx', st', go))"
    using assms b by (auto simp: receive_batch_def Let_def split: option.splits sum.splits)
  show ?thesis using process_batch_stops [OF assms(1) p] rest by (auto simp: stops_on_error_def split: option.splits if_splits)
qed

section \<open>Properties\<close>

text \<open>C3: Skipping is invisible to the decoder. Take a gated receiver built as the program builds it, and let it run on any answers of a
  sample source, with whatever the scheduler decides, block by block. As long as it runs, the blocks it received split into
  those up to the last decoded one and those skipped since, which the runtime counts; and the streams of its decoder
  are exactly those that a receiver which never skips has after the blocks up to the last decoded one, whether the
  decoder was woken by replaying a short gap or, after a gap longer than the collar, by a reset and a replay of the
  collar. The error of a collar that lacks raw data is unreachable.\<close>
theorem gated_receiver_catches_up:
  assumes "list_all (fresh_parser chip) ps" "ps \<noteq> []" "0 < chip" "4 dvd chip" "chip \<le> 8191" "probe_agrees probe"
    and dec: "dec = program_decoder automatic probe ps"
    and "platform_agrees (x_pf env)" "\<forall>n. mset (x_keys env n) = mset (map fst (preambles dec))"
    and "sane_geometry (Cfg dec)" "newDutyRuntimeWithConfig (Cfg dec) ids sc now = Inr d" "cfg_Mode sc = ModeGated"
    and "rc_d rx = dec" "rc_duty rx = Some d" "rc_err rx = None"
    and "Run env rx (start_state recordSamples) answers = Some (Inr (rx', st', running))"
  shows "rc_err rx' \<noteq> Some lacks_raw \<and>
    (running \<longrightarrow> (\<exists>seen skipped d'. stream_blocks (BlockSize2 (Cfg dec)) answers = seen @ skipped \<and>
       rc_duty rx' = Some d' \<and> d_skippedRun d' = length skipped \<and> view_of (rc_d rx') = always_on dec (view_of dec) seen))"
proof -
  have al: "allocated chip dec" unfolding dec by (rule program_decoder_allocated(1) [OF assms(1-6)])
  have inv: "decoder_inv (x_pf env) dec" using allocated_inv(1) [OF al] assms(8) by (simp add: platform_agrees_def)
  have geo: "SymbolLength (Cfg dec) \<le> BlockSize (Cfg dec)" "BlockSize2 (Cfg dec) = 2 * BlockSize (Cfg dec)"
    using al geometryD(5) [of chip "Cfg dec"] by (simp_all add: allocated_def geometry_def)
  have env: "env_ok env dec" using assms(8,9) by (simp add: env_ok_def)
  obtain s where s: "New sc = Inr s" using assms(11) by (auto simp: newDutyRuntimeWithConfig_def bind_res_eq_Inr)
  have "duty_wf d \<and> covers d [] \<and> d_mode d = ModeGated \<and> d_blockBytes d = BlockSize2 (Cfg dec) \<and>
      int (BufferLength (Cfg dec)) \<le> d_warmupBlocks d * int (BlockSize (Cfg dec))"
    by (rule newDutyRuntimeWithConfig_ok [OF assms(10) s, of ids now]) (use assms(11,12) in simp)
  then have "collar_holds dec d []" using geo by (simp add: collar_holds_def collar_fits_def)
  moreover have "stands_at env dec (view_of dec) rx" using inv assms(13) by (simp add: stands_at_def)
  ultimately have "gate_inv env dec rx []" using assms(14,15) by (simp add: gate_inv_def)
  from Run_gate [OF env this assms(16)] show ?thesis
    by (auto simp: gate_inv_def collar_holds_def covers_def stands_at_def)
qed

text \<open>C40: Without a sample file, a receiver never stops of its own accord: whatever messages arrive, with or without \<^verbatim>\<open>-single\<close>
  and with or without identifiers to wait for, a run that was not cancelled from outside goes on or ends with an
  error. The flag \<^verbatim>\<open>-single\<close>, documented to make one shot, takes effect with \<^verbatim>\<open>-samplefile\<close> only, because the
  test stands inside the branch that writes the samples.\<close>
theorem single_needs_a_sample_file:
  assumes "\<not> rc_cancelled rx" "\<forall>a\<in>set answers. \<not> sa_done a \<and> \<not> sa_ctxErr a"
    and "Run env rx (start_state False) answers = Some (Inr (rx', st', running))"
  shows "if running then \<not> rc_cancelled rx' else rc_err rx' \<noteq> None"
proof -
  have "if running then \<not> rc_cancelled rx' else rc_err rx' \<noteq> None"
    if "\<not> rs_recordSamples st" "\<not> rc_cancelled rx" "\<forall>a\<in>set as. \<not> sa_done a \<and> \<not> sa_ctxErr a" "Run env rx st as = Some (Inr (rx', st', running))" for st as rx
    using that
  proof (induction as arbitrary: rx st)
    case Nil
    then show ?case by auto
  next
    case (Cons a as)
    obtain rx1 st1 go1 where p: "receive_batch env rx st a = Some (Inr (rx1, st1, go1))"
      and rest: "(if go1 then Run env rx1 st1 as else Some (Inr (rx1\<lparr>rc_cancelled := True\<rparr>, st1, False))) = Some (Inr (rx', st', running))"
      using Cons.prems(4) by (auto split: option.splits sum.splits)
    have s: "stops_on_error rx rx1 go1 \<and> \<not> rs_recordSamples st1"
      using p Cons.prems(1-3) by (intro receive_batch_stops [of st rx a env]) simp_all
    show ?case
    proof (cases go1)
      case True
      then show ?thesis using Cons.IH [of st1 rx1] Cons.prems s rest by (simp add: stops_on_error_def)
    qed (use rest s in \<open>auto simp: stops_on_error_def\<close>)
  qed
  from this [OF _ assms(1,2), of "start_state False"] show ?thesis using assms(3) by (simp add: start_state_def)
qed

section \<open>Witnesses\<close>

text \<open>With an encoder that never fails, no capture, no recording and nothing to observe, a block always keeps the receiver running.\<close>

definition quiet :: "rx_env \<Rightarrow> Receiver \<Rightarrow> receiverRunState \<Rightarrow> bool" where
  "quiet env rx st \<longleftrightarrow> (\<forall>n. x_encode env n = None) \<and> rc_continuousCapture rx = None \<and> \<not> rs_recordSamples st \<and>
     (case rc_duty rx of None \<Rightarrow> True | Some d \<Rightarrow> d_senderIDs d = [] \<and> d_checkpointDir d = [])"

lemma publish_quiet:
  assumes "\<forall>n. x_encode env n = None"
  shows "snd (snd (snd (publish_messages env t ms rx st found)))"
proof (induction ms arbitrary: rx st found)
  case (Cons msg ms)
  obtain mt fc where m: "Match (rc_fc rx) msg = (mt, fc)" by fastforce
  show ?case using Cons.IH assms m by (simp add: Let_def)
qed simp

lemma observe_nothing: "d_senderIDs d = [] \<Longrightarrow> \<exists>n'. fold_res (observe_message fp esc t prev) (d, n) ms = Inr (d, n')"
  by (induction ms arbitrary: n) (auto simp: observe_message_def Let_def duty_observe_def duty_observeEscape_def)

lemma process_quiet:
  assumes "\<forall>n. x_encode env n = None" "case rc_duty rx of None \<Rightarrow> True | Some d \<Rightarrow> d_senderIDs d = []"
  obtains rx' st' f where "processDecodedMessages env rx st ms t et publish obs esc = Inr (rx', st', f, True)" "rc_duty rx' = rc_duty rx"
proof -
  obtain st1 where o: "observe_messages env rx (st\<lparr>rs_next := {}\<rparr>) ms t obs esc = Inr (rx, st1)"
  proof (cases "rc_duty rx")
    case None
    then show ?thesis using that by (simp add: observe_messages_def)
  next
    case (Some d)
    then obtain n' where "fold_res (observe_message (l_fp (x_lib env)) esc t (rs_dutyPrev st)) (d, {}) ms = Inr (d, n')"
      using observe_nothing assms(2) by fastforce
    then show ?thesis using that Some by (cases obs) (simp_all add: observe_messages_def)
  qed
  obtain rx2 st2 f2 ok2 where p: "(if publish then publish_messages env et ms rx st1 False else (rx, st1, False, True)) = (rx2, st2, f2, ok2)"
    by (metis prod_cases4)
  then have "ok2" "rc_duty rx2 = rc_duty rx"
    using publish_quiet [OF assms(1), of et ms rx st1 False] publish_kept [of env et ms rx st1 False] by (auto split: if_splits)
  then show thesis using that o p by (auto simp: processDecodedMessages_def Let_def)
qed

lemma decode_now_quiet:
  assumes "env_ok env d0" "stands_at env d0 v rx" "length b = BlockSize2 (Cfg d0)" "\<forall>n. x_encode env n = None"
    and "case rc_duty rx of None \<Rightarrow> True | Some d \<Rightarrow> d_senderIDs d = []"
  obtains rx' st' f where "decode_now env rx st b t = Inr (rx', st', f, True)" "rc_duty rx' = rc_duty rx"
proof -
  obtain rx1 ms where r: "rx_decode env rx b = Inr (rx1, ms)" "rc_duty rx1 = rc_duty rx" by (rule rx_decode_ok [OF assms(1-3)]) blast
  obtain rx' st' f where "processDecodedMessages env rx1 st ms t 0 True (rc_duty rx1 \<noteq> None) False = Inr (rx', st', f, True)" "rc_duty rx' = rc_duty rx1"
    using process_quiet [OF assms(4), of rx1 st ms t 0 True "rc_duty rx1 \<noteq> None" False] assms(5) r(2) by auto
  then show thesis using that r by (simp add: decode_now_def)
qed

lemma processBlock_quiet:
  assumes "env_ok env d0" "stands_at env d0 v rx" "length b = BlockSize2 (Cfg d0)" "quiet env rx st"
    and "case rc_duty rx of None \<Rightarrow> True | Some d \<Rightarrow> duty_wf d \<and> d_blockBytes d = BlockSize2 (Cfg d0) \<and> \<not> d_wasSkipped d \<and>
      (\<exists>r. beginBlock (l_fp (x_lib env)) d = Inr r)"
  shows "\<exists>rx' st'. processBlock env rx st b = Some (Inr (rx', st', True))"
proof -
  let ?rx = "tick rx\<lparr>rc_continuousCapture := None\<rparr>"
  let ?st = "buffer_samples ?rx st b"
  have q: "\<forall>n. x_encode env n = None" "capture_block (rc_continuousCapture rx) b w = (None, None)" "\<not> rs_recordSamples ?st" for w
    using assms(4) by (auto simp: quiet_def capture_block_def buffer_samples_def Let_def)
  have s: "stands_at env d0 v (?rx\<lparr>rc_duty := u\<rparr>)" "stands_at env d0 v ?rx" for u using assms(2) by (simp_all add: stands_at_def)
  show ?thesis
  proof (cases "rc_duty rx")
    case None
    obtain rx1 st1 f where n: "decode_now env ?rx ?st b 0 = Inr (rx1, st1, f, True)"
      by (rule decode_now_quiet [OF assms(1) s(2) assms(3) q(1), of ?st 0]) (use None in auto)
    then have "\<not> rs_recordSamples st1" using decode_now_stops(2) q(3) by blast
    then show ?thesis using None q(2) n by (simp add: processBlock_def record_packet_def)
  next
    case (Some d)
    obtain d1 start stop dec where b: "beginBlock (l_fp (x_lib env)) d = Inr (d1, start, stop, dec)" using assms(5) Some by auto
    have d: "duty_wf d" "d_blockBytes d = BlockSize2 (Cfg d0)" "\<not> d_wasSkipped d" "d_senderIDs d = []" "d_checkpointDir d = []"
      using assms(4,5) Some by (simp_all add: quiet_def)
    note w = beginBlock_wf [OF d(1) b]
    have dir: "d_checkpointDir d1 = []" using b d(5) unfolding beginBlock_def tick_clock_def Let_def by (auto simp: bind_res_eq_Inr)
    let ?rx1 = "?rx\<lparr>rc_duty := Some d1\<rparr>"
    obtain rx2 st2 f where db: "duty_block env d ?rx ?st b = Inr (rx2, st2, f, True, start, stop, dec)" "rc_duty rx2 = Some d1"
    proof (cases "dec_Decode dec")
      case True
      obtain rx2 st2 f where "decode_now env ?rx1 ?st b stop = Inr (rx2, st2, f, True)" "rc_duty rx2 = Some d1"
        by (rule decode_now_quiet [OF assms(1) s(1) assms(3) q(1), of "Some d1" ?st stop]) (use w(7) d(4) in auto)
      then show ?thesis using that True b d(3) w(10) by (simp add: duty_block_def needsRebuild_def)
    next
      case False
      then show ?thesis using that [of ?rx1 ?st False] b d(3) w(10) by (simp add: duty_block_def needsRebuild_def)
    qed
    have rec: "\<not> rs_recordSamples st2" using duty_block_stops(2) [OF db(1)] q(3) by blast
    let ?w = "x_now env (rc_tick rx2)"
    have len: "length b = d_blockBytes d1" using assms(3) w(5) d(2) by simp
    obtain d2 where f2: "finishBlock d1 b start stop ?w dec = Inr d2" by (rule finishBlock_ok [OF w(1) len, of start stop ?w dec]) blast
    have "d_checkpointDir d2 = []" using f2 dir unfolding finishBlock_def Let_def store_block_def by (auto simp: bind_res_eq_Inr)
    then have "\<exists>rx3. finish_duty env rx2 b start stop dec = Some (Inr rx3)" using db(2) f2 by (simp add: finish_duty_def maybeCheckpoint_def)
    then show ?thesis using Some q(2) db(1) rec by (auto simp: processBlock_def record_packet_def Let_def)
  qed
qed

abbreviation scm_decoder :: Decoder where
  "scm_decoder \<equiv> program_decoder False None [PScm (scm_NewParser 4)]"

definition scm_env :: rx_env where
  "scm_env = \<lparr>x_pf = portable, x_os = demo_os, x_lib = demo_report_lib, x_keys = (\<lambda>_. [scm_key]), x_now = (\<lambda>_. 1), x_offset = (\<lambda>_. 0),
     x_encode = (\<lambda>_. None), x_sampleWrite = (\<lambda>_. None), x_capture = (\<lambda>_. accepts_all []), x_single = True\<rparr>"

definition scm_receiver :: "dutyRuntime option \<Rightarrow> Receiver" where
  "scm_receiver d = \<lparr>rc_d = scm_decoder, rc_fc = [], rc_continuousCapture = None, rc_duty = d, rc_err = None, rc_cancelled = False,
     rc_meterID = {}, rc_output = [], rc_disk = demo_disk, rc_tick = 0\<rparr>"

definition one_batch :: source_answer where
  "one_batch = \<lparr>sa_done = False, sa_next = Inr (replicate 512 127), sa_ctxErr = False, sa_release = None\<rparr>"

lemma scm_geometry:
  "BlockSize2 (Cfg scm_decoder) = 512" "map fst (preambles scm_decoder) = [scm_key]" "sane_geometry (Cfg scm_decoder)"
  "SampleRate (Cfg scm_decoder) = 131072" "BlockSize (Cfg scm_decoder) = 256"
proof -
  let ?d = "foldl RegisterProtocol (newDecoder False None) [PScm (scm_NewParser 4)]"
  have f: "preambles ?d = [(scm_key, [0])]" "PreambleSymbols (Cfg ?d) = 21" "PacketSymbols (Cfg ?d) = 96" "ChipLength (Cfg ?d) = 4" "DataRate (Cfg ?d) = 32768"
    by (simp_all add: RegisterProtocol_def newDecoder_def scm_NewParser_def merge_config_def add_parser_def zeroPacketConfig_def Let_def)
  have n: "NextPowerOf2 168 = 256" by code_simp
  show "BlockSize2 (Cfg scm_decoder) = 512" "map fst (preambles scm_decoder) = [scm_key]" "sane_geometry (Cfg scm_decoder)"
      "SampleRate (Cfg scm_decoder) = 131072" "BlockSize (Cfg scm_decoder) = 256"
    unfolding program_decoder_def Allocate_fields sane_geometry_def derive_lengths_def Let_def using f n by simp_all
qed

lemma scm_env_ok: "platform_agrees (x_pf scm_env)" "\<forall>n. mset (x_keys scm_env n) = mset (map fst (preambles scm_decoder))" "env_ok scm_env scm_decoder"
  using portable_agrees scm_geometry(2) by (simp_all add: scm_env_def env_ok_def)

lemma scm_stands: "stands_at scm_env scm_decoder (view_of scm_decoder) (scm_receiver d)"
proof -
  have "decoder_inv portable scm_decoder"
    using allocated_inv(1) [OF program_decoder_allocated(1) [OF scm_mix _ _ _ _ portable_agrees(2)]] portable_agrees(1) by (simp add: platform_agrees_def)
  then show ?thesis by (simp add: stands_at_def scm_receiver_def scm_env_def)
qed

text \<open>One batch of one block, whatever runtime drives the receiver.\<close>

lemma one_batch_runs:
  assumes "processBlock scm_env (scm_receiver d) st (replicate 512 127) = Some (Inr (rx', st', True))"
  shows "Run scm_env (scm_receiver d) st [one_batch] = Some (Inr (rx', st', True))"
proof -
  have "process_batch scm_env 512 (scm_receiver d) st (replicate 512 127) = Some (Inr (rx', st', True))"
    using assms by (subst process_batch.simps) (simp add: process_batch.simps [of _ _ _ _ "[]"])
  then show ?thesis using scm_geometry(1) by (simp add: receive_batch_def one_batch_def scm_receiver_def)
qed

theorem single_needs_a_sample_file_witness:
  "\<exists>rx' st' running. Run scm_env (scm_receiver None) (start_state False) [one_batch] = Some (Inr (rx', st', running)) \<and>
     x_single scm_env \<and> (if running then \<not> rc_cancelled rx' else rc_err rx' \<noteq> None)"
proof -
  have "quiet scm_env (scm_receiver None) (start_state False)" by (simp add: quiet_def scm_env_def scm_receiver_def start_state_def)
  then obtain rx' st' where "processBlock scm_env (scm_receiver None) (start_state False) (replicate 512 127) = Some (Inr (rx', st', True))"
    using processBlock_quiet [OF scm_env_ok(3) scm_stands, of "replicate 512 127" None "start_state False"] scm_geometry(1) by (auto simp: scm_receiver_def)
  note r = one_batch_runs [OF this]
  have "\<not> rc_cancelled (scm_receiver None)" "\<forall>a\<in>set [one_batch]. \<not> sa_done a \<and> \<not> sa_ctxErr a" by (simp_all add: scm_receiver_def one_batch_def)
  from single_needs_a_sample_file [OF this r] show ?thesis using r by (auto simp: scm_env_def)
qed

theorem gated_receiver_catches_up_witness:
  "\<exists>d rx' st' seen skipped. newDutyRuntimeWithConfig (Cfg scm_decoder) [] demo_config 0 = Inr d \<and>
     Run scm_env (scm_receiver (Some d)) (start_state False) [one_batch] = Some (Inr (rx', st', True)) \<and>
     [replicate 512 127] = seen @ skipped \<and> view_of (rc_d rx') = always_on scm_decoder (view_of scm_decoder) seen"
proof -
  obtain d where d: "newDutyRuntimeWithConfig (Cfg scm_decoder) [] demo_config 0 = Inr d" "duty_wf d" "covers d []" "clock_at d 0" "d_scheduler d = demo0"
      "d_blockBytes d = BlockSize2 (Cfg scm_decoder)" "d_sampleRate d = int (SampleRate (Cfg scm_decoder))"
      "d_blockSamples d = int (BlockSize (Cfg scm_decoder))" "d_senderIDs d = remdups []"
    by (rule newDutyRuntimeWithConfig_ok [OF scm_geometry(3) demo0, of "[]" 0]) blast
  have dir: "d_checkpointDir d = []"
    using d(1) unfolding newDutyRuntimeWithConfig_def Let_def by (auto simp: bind_res_eq_Inr split: if_splits)
  have "d_sampleTime d = 0" "d_sampleRemainder d = 0" using d(4) by (simp_all add: clock_at_def)
  then have t: "tick_clock d = Inr (d\<lparr>d_sampleRemainder := 0, d_sampleTime := 1953125\<rparr>, 0, 1953125)"
    using d(7,8) scm_geometry(4,5) by (simp add: tick_clock_def Let_def go_div_def i64_id)
  have "\<not> isl (Advance demo_lib demo0 0 1953125)" by code_simp
  then obtain s dec where "Advance demo_lib demo0 0 1953125 = Inr (s, dec)" by (metis isl_def old.sum.exhaust surj_pair)
  then have b: "\<exists>r. beginBlock (l_fp (x_lib scm_env)) d = Inr r" using t d(5) by (simp add: beginBlock_def scm_env_def demo_report_lib_def)
  have "\<not> d_wasSkipped d" using d(2,3) by (simp add: duty_wf_def covers_def)
  moreover have "quiet scm_env (scm_receiver (Some d)) (start_state False)" using d(9) dir by (simp add: quiet_def scm_env_def scm_receiver_def start_state_def)
  ultimately obtain rx' st' where "processBlock scm_env (scm_receiver (Some d)) (start_state False) (replicate 512 127) = Some (Inr (rx', st', True))"
    using processBlock_quiet [OF scm_env_ok(3) scm_stands, of "replicate 512 127" "Some d" "start_state False"] scm_geometry(1) d(2,6) b
    by (auto simp: scm_receiver_def)
  note r = one_batch_runs [OF this]
  have m: "cfg_Mode demo_config = ModeGated" by (simp add: demo_config_def ModeGated_def)
  have sb: "stream_blocks (BlockSize2 (Cfg scm_decoder)) [one_batch] = [replicate 512 127]"
    unfolding scm_geometry(1) by (simp add: stream_blocks_def answer_bytes_def one_batch_def chunks.simps [of 512])
  have c: "rc_d (scm_receiver (Some d)) = scm_decoder" "rc_duty (scm_receiver (Some d)) = Some d" "rc_err (scm_receiver (Some d)) = None"
    by (simp_all add: scm_receiver_def)
  from gated_receiver_catches_up [OF scm_mix _ _ _ _ portable_agrees(2) refl scm_env_ok(1,2) scm_geometry(3) d(1) m c r]
  show ?thesis using d(1) r unfolding sb by auto
qed

end
