(* ===== verification/StreamSource.thy ===== *)
theory StreamSource
  imports DutyRuntime
begin

text \<open>
  The sample source of a network connection (\<^verbatim>\<open>src/receiver_source.go\<close>): a buffer that collects whatever the connection
  delivers and hands out batches of whole decoder blocks. The reader is a parameter: what its \<open>k\<close>-th call returns for a
  buffer of a given length; that it returns no more than fits is the contract of \<^verbatim>\<open>io.Reader\<close>.
  Beside the fields of the source the model keeps how often it has read and everything it was delivered.
\<close>

section \<open>Model\<close>

type_synonym reader = "nat \<Rightarrow> nat \<Rightarrow> u8 list \<times> string option"

record streamReceiverSource =
  ss_buffer :: "u8 list"
  ss_blockBytes :: nat
  ss_filled :: nat
  ss_batchBytes :: nat
  ss_pendingErr :: "string option"
  ss_batchActive :: bool
  ss_closed :: bool
  ss_closeErr :: "string option"
  ss_reads :: nat
  ss_received :: "u8 list"

definition newStreamReceiverSource :: "bool \<Rightarrow> int \<Rightarrow> int \<Rightarrow> streamReceiverSource res" where
  "newStreamReceiverSource has_reader blockBytes blocks =
     (if \<not> has_reader then Inl (Err ''nil stream reader'')
      else if blockBytes \<le> 0 \<or> blocks \<le> 0 then Inl (Err ''invalid stream geometry'')
      else if i64 (blockBytes * blocks) < 0 then Inl (Panic ''makeslice: len out of range'')
      else Inr \<lparr>ss_buffer = replicate (nat (i64 (blockBytes * blocks))) 0, ss_blockBytes = nat blockBytes, ss_filled = 0, ss_batchBytes = 0,
                ss_pendingErr = None, ss_batchActive = False, ss_closed = False, ss_closeErr = None, ss_reads = 0, ss_received = []\<rparr>)"

text \<open>One \<^verbatim>\<open>Read\<close> into the rest of the buffer.\<close>

definition source_read :: "reader \<Rightarrow> streamReceiverSource \<Rightarrow> streamReceiverSource \<times> nat \<times> string option" where
  "source_read reader s =
     (let (data, err) = reader (ss_reads s) (length (ss_buffer s) - ss_filled s)
      in (s\<lparr>ss_buffer := write_at (ss_buffer s) (ss_filled s) data, ss_filled := ss_filled s + length data, ss_reads := ss_reads s + 1,
             ss_received := ss_received s @ data\<rparr>,
          length data, err))"

function read_batch :: "reader \<Rightarrow> streamReceiverSource \<Rightarrow> (streamReceiverSource \<times> (string + u8 list)) res" where
  "read_batch reader s =
     (if ss_filled s > length (ss_buffer s) then Inl (Panic ''slice bounds out of range'')
      else
        let (s', n, err) = source_read reader s in
        if ss_blockBytes s = 0 then Inl (Panic ''integer divide by zero'')
        else
          let completeBytes = ss_filled s' - ss_filled s' mod ss_blockBytes s' in
          if completeBytes > 0
          then if completeBytes > length (ss_buffer s') then Inl (Panic ''slice bounds out of range'')
               else Inr (s'\<lparr>ss_batchBytes := completeBytes, ss_batchActive := True, ss_pendingErr := err\<rparr>, Inr (take completeBytes (ss_buffer s')))
          else case err of
                 Some e \<Rightarrow> Inr (s', Inl e)
               | None \<Rightarrow> if n = 0 then Inr (s', Inl ''multiple Read calls return no data or error'') else read_batch reader s')"
  by pat_completeness auto

text \<open>The loop ends: a call that delivers something but no whole block brings the buffer closer to one.\<close>

termination
proof (relation "measure (\<lambda>(reader, s). ss_blockBytes s - ss_filled s)")
  fix reader :: reader and s x y s' n err completeBytes
  assume a: "x = source_read reader s" "(s', y) = x" "(n, err) = y" "ss_blockBytes s \<noteq> 0"
    "completeBytes = ss_filled s' - ss_filled s' mod ss_blockBytes s'" "\<not> 0 < completeBytes" "n \<noteq> 0"
  then have f: "ss_filled s' = ss_filled s + n" "ss_blockBytes s' = ss_blockBytes s"
    by (auto simp: source_read_def Let_def split: prod.splits)
  have "ss_filled s' mod ss_blockBytes s' = ss_filled s'" using a(5,6) mod_less_eq_dividend [of "ss_filled s'" "ss_blockBytes s'"] by linarith
  then have "ss_filled s' < ss_blockBytes s'" using a(4) f(2) mod_less_divisor [of "ss_blockBytes s'" "ss_filled s'"] by simp
  then show "((reader, s'), (reader, s)) \<in> measure (\<lambda>(reader, s). ss_blockBytes s - ss_filled s)" using f a(7) by simp
qed simp

declare read_batch.simps [simp del]

definition Next :: "reader \<Rightarrow> streamReceiverSource \<Rightarrow> (streamReceiverSource \<times> (string + u8 list)) res" where
  "Next reader s =
     (if ss_batchActive s then Inr (s, Inl ''stream batch was not released'')
      else case ss_pendingErr s of
             Some err \<Rightarrow> Inr (s\<lparr>ss_pendingErr := None\<rparr>, Inl err)
           | None \<Rightarrow> read_batch reader s)"

definition Release :: "streamReceiverSource \<Rightarrow> (streamReceiverSource \<times> string option) res" where
  "Release s =
     (if \<not> ss_batchActive s then Inr (s, Some ''no active stream batch'')
      else if ss_filled s > length (ss_buffer s) \<or> ss_batchBytes s > ss_filled s then Inl (Panic ''slice bounds out of range'')
      else let tailBytes = ss_filled s - ss_batchBytes s
           in Inr (s\<lparr>ss_buffer := write_at (ss_buffer s) 0 (sub (ss_buffer s) (ss_batchBytes s) (ss_filled s)), ss_filled := tailBytes,
                     ss_batchBytes := 0, ss_batchActive := False\<rparr>, None))"

text \<open>\<^verbatim>\<open>Cancel\<close> closes the connection once, \<^verbatim>\<open>Close\<close> is the same.\<close>

definition Cancel :: "string option option \<Rightarrow> streamReceiverSource \<Rightarrow> streamReceiverSource \<times> string option" where
  "Cancel closer s =
     (let s = (if ss_closed s then s
               else (case closer of None \<Rightarrow> s | Some err \<Rightarrow> s\<lparr>ss_closeErr := err\<rparr>)\<lparr>ss_closed := True\<rparr>)
      in (s, ss_closeErr s))"

section \<open>The stream\<close>

text \<open>What a client that takes batches and releases them gets: the batches, and the error that ends them if one came within
  the given number of calls.\<close>

fun drain :: "reader \<Rightarrow> nat \<Rightarrow> streamReceiverSource \<Rightarrow> (streamReceiverSource \<times> u8 list list \<times> string option) res" where
  "drain reader 0 s = Inr (s, [], None)"
| "drain reader (Suc n) s =
     bind_res (Next reader s) (\<lambda>(s, r).
     case r of
       Inl err \<Rightarrow> Inr (s, [], Some err)
     | Inr batch \<Rightarrow>
       bind_res (Release s) (\<lambda>(s, releaseErr).
       bind_res (drain reader n s) (\<lambda>(s, batches, err). Inr (s, batch # batches, err))))"

definition reader_ok :: "reader \<Rightarrow> bool" where
  "reader_ok reader \<longleftrightarrow> (\<forall>k n. length (fst (reader k n)) \<le> n)"

definition source_ok :: "streamReceiverSource \<Rightarrow> bool" where
  "source_ok s \<longleftrightarrow> 0 < ss_blockBytes s \<and> ss_blockBytes s \<le> length (ss_buffer s) \<and> ss_filled s \<le> length (ss_buffer s)"

abbreviation held :: "streamReceiverSource \<Rightarrow> u8 list" where
  "held s \<equiv> take (ss_filled s) (ss_buffer s)"

lemma take_write_at: "i + length ys \<le> length xs \<Longrightarrow> take (i + length ys) (write_at xs i ys) = take i xs @ ys"
  by (simp add: write_at_def copy_into_def)

lemma source_read_ok:
  assumes "reader_ok reader" "source_ok s" "source_read reader s = (s', n, err)"
  shows "source_ok s'" "\<exists>data. ss_received s' = ss_received s @ data \<and> held s' = held s @ data"
    "ss_blockBytes s' = ss_blockBytes s" "ss_batchActive s' = ss_batchActive s" "ss_pendingErr s' = ss_pendingErr s" "ss_filled s' = ss_filled s + n"
proof -
  obtain data e where r: "reader (ss_reads s) (length (ss_buffer s) - ss_filled s) = (data, e)" by fastforce
  have "length data \<le> length (ss_buffer s) - ss_filled s" using assms(1) r unfolding reader_ok_def by (metis fst_conv)
  then have l: "ss_filled s + length data \<le> length (ss_buffer s)" using assms(2) unfolding source_ok_def by linarith
  note e = assms(3) [unfolded source_read_def r Let_def, simplified]
  show "source_ok s'" "\<exists>data. ss_received s' = ss_received s @ data \<and> held s' = held s @ data"
    "ss_blockBytes s' = ss_blockBytes s" "ss_batchActive s' = ss_batchActive s" "ss_pendingErr s' = ss_pendingErr s" "ss_filled s' = ss_filled s + n"
    using e l assms(2) take_write_at [OF l] by (auto simp: source_ok_def)
qed

text \<open>Reading a batch always returns, and what was delivered is in the buffer.\<close>

lemma read_batch_ok:
  assumes "reader_ok reader"
  shows "source_ok s \<Longrightarrow> \<not> ss_batchActive s \<Longrightarrow> ss_pendingErr s = None \<Longrightarrow> ss_filled s < ss_blockBytes s \<Longrightarrow>
    \<exists>s' r data. read_batch reader s = Inr (s', r) \<and> source_ok s' \<and> ss_blockBytes s' = ss_blockBytes s \<and>
      ss_received s' = ss_received s @ data \<and> held s' = held s @ data \<and>
      (case r of
         Inl e \<Rightarrow> \<not> ss_batchActive s' \<and> ss_pendingErr s' = None \<and> ss_filled s' < ss_blockBytes s'
       | Inr batch \<Rightarrow> ss_batchActive s' \<and> batch = take (ss_batchBytes s') (ss_buffer s') \<and> 0 < ss_batchBytes s' \<and>
           ss_batchBytes s' = ss_filled s' - ss_filled s' mod ss_blockBytes s')"
proof (induction "ss_blockBytes s - ss_filled s" arbitrary: s rule: less_induct)
  case less
  obtain s1 n err where r: "source_read reader s = (s1, n, err)" by (metis prod_cases3)
  note k = source_read_ok [OF assms less.prems(1) r]
  obtain data where d: "ss_received s1 = ss_received s @ data" "held s1 = held s @ data" using k(2) by blast
  define c where "c = ss_filled s1 - ss_filled s1 mod ss_blockBytes s1"
  have b: "ss_filled s \<le> length (ss_buffer s)" "ss_blockBytes s \<noteq> 0" using less.prems(1) by (simp_all add: source_ok_def)
  have c: "c \<le> length (ss_buffer s1)" using k(1) unfolding source_ok_def c_def by (meson diff_le_self le_trans)
  have small_of: "c = 0 \<Longrightarrow> ss_filled s1 < ss_blockBytes s1"
    using mod_less_divisor [of "ss_blockBytes s1" "ss_filled s1"] b(2) k(3) unfolding c_def by linarith
  consider (full) "0 < c" | (failed) e where "c = 0" "err = Some e" | (stuck) "c = 0" "err = None" "n = 0" | (more) "c = 0" "err = None" "n \<noteq> 0"
    by (cases err) auto
  then show ?case
  proof cases
    case full
    then have e: "read_batch reader s = Inr (s1\<lparr>ss_batchBytes := c, ss_batchActive := True, ss_pendingErr := err\<rparr>, Inr (take c (ss_buffer s1)))"
      using r b c by (subst read_batch.simps, unfold Let_def r prod.case c_def [symmetric]) simp
    let ?s = "s1\<lparr>ss_batchBytes := c, ss_batchActive := True, ss_pendingErr := err\<rparr>"
    show ?thesis unfolding e using k d full
      by (intro exI [of _ ?s] exI [of _ "Inr (take c (ss_buffer s1))"] exI [of _ data]) (simp add: source_ok_def c_def)
  next
    case failed
    then have small: "ss_filled s1 < ss_blockBytes s1" using small_of by blast
    have e: "read_batch reader s = Inr (s1, Inl e)" using failed r b by (subst read_batch.simps, unfold Let_def r prod.case c_def [symmetric]) simp
    show ?thesis unfolding e using k d less.prems small by (intro exI [of _ s1] exI [of _ "Inl e"] exI [of _ data]) simp
  next
    case stuck
    then have small: "ss_filled s1 < ss_blockBytes s1" using less.prems(4) k(3,6) by simp
    have e: "read_batch reader s = Inr (s1, Inl ''multiple Read calls return no data or error'')" using stuck r b by (subst read_batch.simps, unfold Let_def r prod.case c_def [symmetric]) simp
    show ?thesis unfolding e using k d less.prems small by (intro exI [of _ s1] exI [of _ "Inl ''multiple Read calls return no data or error''"] exI [of _ data]) simp
  next
    case more
    then have small: "ss_filled s1 < ss_blockBytes s1" using small_of by blast
    have e: "read_batch reader s = read_batch reader s1" using more r b by (subst read_batch.simps, unfold Let_def r prod.case c_def [symmetric]) simp
    have "ss_blockBytes s1 - ss_filled s1 < ss_blockBytes s - ss_filled s" using more(3) k(3,6) small by simp
    from less.hyps [OF this k(1)] show ?thesis using k d less.prems small unfolding e by auto
  qed
qed

lemma Release_ok:
  assumes "source_ok s" "ss_batchActive s" "ss_batchBytes s = ss_filled s - ss_filled s mod ss_blockBytes s"
  shows "\<exists>s'. Release s = Inr (s', None) \<and> source_ok s' \<and> \<not> ss_batchActive s' \<and> ss_pendingErr s' = ss_pendingErr s \<and>
    ss_filled s' < ss_blockBytes s' \<and> ss_blockBytes s' = ss_blockBytes s \<and> ss_received s' = ss_received s \<and>
    held s = take (ss_batchBytes s) (ss_buffer s) @ held s'"
proof -
  have f: "ss_filled s \<le> length (ss_buffer s)" "0 < ss_blockBytes s" "ss_batchBytes s \<le> ss_filled s" using assms(1,3) by (simp_all add: source_ok_def)
  have t: "ss_filled s - ss_batchBytes s < ss_blockBytes s"
    using assms(3) f(2) mod_less_divisor [of "ss_blockBytes s" "ss_filled s"] mod_less_eq_dividend [of "ss_filled s" "ss_blockBytes s"] by linarith
  let ?t = "sub (ss_buffer s) (ss_batchBytes s) (ss_filled s)"
  have l: "length ?t = ss_filled s - ss_batchBytes s" using f(1) by simp
  have "take (0 + length ?t) (write_at (ss_buffer s) 0 ?t) = take 0 (ss_buffer s) @ ?t" by (rule take_write_at) (use l f in simp)
  moreover have "take (ss_batchBytes s) (ss_buffer s) @ ?t = held s"
    using f(3) take_add [of "ss_batchBytes s" "ss_filled s - ss_batchBytes s" "ss_buffer s"] by (simp add: sub_def)
  ultimately show ?thesis using assms f t l by (simp add: Release_def source_ok_def)
qed

lemma drain_ok:
  assumes "reader_ok reader"
  shows "source_ok s \<Longrightarrow> \<not> ss_batchActive s \<Longrightarrow> ss_filled s < ss_blockBytes s \<Longrightarrow>
    \<exists>s' batches err. drain reader n s = Inr (s', batches, err) \<and> (\<forall>P. ss_received s = P @ held s \<longrightarrow> ss_received s' = P @ concat batches @ held s') \<and>
      ss_filled s' < ss_blockBytes s \<and> (\<forall>b\<in>set batches. 0 < length b \<and> ss_blockBytes s dvd length b) \<and> (err = None \<longrightarrow> length batches = n)"
proof (induction n arbitrary: s)
  case 0
  then show ?case by simp
next
  case (Suc n)
  show ?case
  proof (cases "ss_pendingErr s")
    case (Some e)
    then show ?thesis using Suc.prems by (simp add: Next_def)
  next
    case None
    obtain s1 r data where r: "read_batch reader s = Inr (s1, r)" "source_ok s1" "ss_blockBytes s1 = ss_blockBytes s"
        "ss_received s1 = ss_received s @ data" "held s1 = held s @ data"
      and c: "case r of Inl e \<Rightarrow> \<not> ss_batchActive s1 \<and> ss_pendingErr s1 = None \<and> ss_filled s1 < ss_blockBytes s1
         | Inr batch \<Rightarrow> ss_batchActive s1 \<and> batch = take (ss_batchBytes s1) (ss_buffer s1) \<and> 0 < ss_batchBytes s1 \<and>
             ss_batchBytes s1 = ss_filled s1 - ss_filled s1 mod ss_blockBytes s1"
      using read_batch_ok [OF assms Suc.prems(1,2) None Suc.prems(3)] by blast
    have nx: "Next reader s = Inr (s1, r)" using Suc.prems(2) None r(1) by (simp add: Next_def)
    show ?thesis
    proof (cases r)
      case (Inl e)
      then show ?thesis using nx c r by simp
    next
      case (Inr batch)
      have a: "ss_batchActive s1" "batch = take (ss_batchBytes s1) (ss_buffer s1)" "0 < ss_batchBytes s1"
          "ss_batchBytes s1 = ss_filled s1 - ss_filled s1 mod ss_blockBytes s1" using c unfolding Inr sum.case by blast+
      obtain s2 where rel: "Release s1 = Inr (s2, None)" "source_ok s2" "\<not> ss_batchActive s2" "ss_filled s2 < ss_blockBytes s2"
          "ss_blockBytes s2 = ss_blockBytes s1" "ss_received s2 = ss_received s1" "held s1 = batch @ held s2"
        using Release_ok [OF r(2) a(1,4)] a(2) by blast
      obtain s' batches err where i: "drain reader n s2 = Inr (s', batches, err)" "\<forall>P. ss_received s2 = P @ held s2 \<longrightarrow> ss_received s' = P @ concat batches @ held s'"
          "ss_filled s' < ss_blockBytes s2" "\<forall>b\<in>set batches. 0 < length b \<and> ss_blockBytes s2 dvd length b" "err = None \<longrightarrow> length batches = n"
        using Suc.IH [OF rel(2-4)] by blast
      have "ss_batchBytes s1 \<le> length (ss_buffer s1)" using a(4) r(2) unfolding source_ok_def by linarith
      then have lb: "length batch = ss_batchBytes s1" using a(2) by simp
      have "0 < length batch \<and> ss_blockBytes s dvd length batch" using a(3,4) r(3) unfolding lb by (simp add: dvd_minus_mod)
      moreover have "ss_received s' = P @ concat (batch # batches) @ held s'" if "ss_received s = P @ held s" for P
      proof -
        have "ss_received s2 = (P @ batch) @ held s2" using that r(4,5) rel(6,7) by simp
        then show ?thesis using i(2) by (metis append.assoc concat.simps(2))
      qed
      ultimately show ?thesis using nx rel i Inr r(3) by simp
    qed
  qed
qed

text \<open>C35: The batches of a connection are its stream. For every reader that respects its contract and every number of calls, taking and
  releasing batches returns and never panics; each batch is a positive number of whole blocks; the batches, followed by
  what is still held, less than a block, are exactly the bytes the connection delivered, in order; and unless an
  error was reported there was a batch for every call. In particular the data that arrive together with an error are
  handed out before the error is.\<close>
theorem batches_are_the_stream:
  assumes "reader_ok reader" "newStreamReceiverSource True blockBytes blocks = Inr s0" "blockBytes * blocks < 2 ^ 63"
  shows "\<exists>s batches err. drain reader n s0 = Inr (s, batches, err) \<and> ss_received s = concat batches @ held s \<and>
    ss_filled s < nat blockBytes \<and> (\<forall>b\<in>set batches. 0 < length b \<and> nat blockBytes dvd length b) \<and> (err = None \<longrightarrow> length batches = n)"
proof -
  have pos: "0 < blockBytes" "0 < blocks" using assms(2) by (auto simp: newStreamReceiverSource_def split: if_splits)
  then have "nat blockBytes \<le> nat (blockBytes * blocks)" by (intro nat_mono) simp
  moreover have "i64 (blockBytes * blocks) = blockBytes * blocks" using mult_pos_pos [OF pos] assms(3) by (intro i64_id) simp_all
  ultimately have "source_ok s0 \<and> \<not> ss_batchActive s0 \<and> ss_filled s0 = 0 \<and> ss_blockBytes s0 = nat blockBytes \<and> ss_received s0 = []"
    using assms(2) pos by (auto simp: newStreamReceiverSource_def source_ok_def split: if_splits)
  then show ?thesis using drain_ok [OF assms(1), of s0 n] pos(1) by auto
qed

definition demo_reader :: reader where
  "demo_reader k n = (if k = 0 then (take n [1, 2, 3], None) else (take n [4, 5], Some ''EOF''))"

theorem batches_are_the_stream_witness:
  "\<exists>s0 s batches err. newStreamReceiverSource True 2 2 = Inr s0 \<and> drain demo_reader 3 s0 = Inr (s, batches, err) \<and>
     ss_received s = concat batches @ held s"
proof -
  obtain s0 where s0: "newStreamReceiverSource True 2 2 = Inr s0" by (simp add: newStreamReceiverSource_def i64_id)
  have "reader_ok demo_reader" by (simp add: reader_ok_def demo_reader_def)
  from batches_are_the_stream [OF this s0, of 3] show ?thesis using s0 by auto
qed

end
