(* ===== verification/Startup.thy ===== *)
theory Startup
  imports DecodeMain SchedConfig
begin

text \<open>
  From the command line to the decoder (\<^verbatim>\<open>src/flags.go\<close>, \<^verbatim>\<open>src/main.go\<close> and the \<^verbatim>\<open>init\<close> functions of the parser packages):
  the checks of the flags, the expansion and order of the message types, and the construction of the decoder.
  A fatal error of the program is an error value. What creating the two sample files answers is an argument.
\<close>

section \<open>Flags\<close>

definition DevNull :: string where
  "DevNull = ''/dev/null''"

definition receiverReadBlocks :: int where
  "receiverReadBlocks = 16"

datatype EncoderKind = PlainEncoder string | CsvEncoder | JsonEncoder | XmlEncoder

record Flags =
  fl_captureTarget :: f64
  fl_symbolLength :: int
  fl_format :: string
  fl_sampleFile :: string
  fl_continuousSampleFile :: string
  fl_continuousSampleDuration :: int
  fl_dutySchedulerMode :: string
  fl_dutySchedulerReport :: string
  fl_dutySchedulerCheckpointDir :: string
  fl_dutySchedulerPolicy :: string
  fl_directKernelRing :: bool
  fl_directKernelBatchBlocks :: int
  fl_inputSource :: string
  fl_meterID :: "nat set"
  fl_single :: bool

definition newOutputEncoder :: "string \<Rightarrow> string \<Rightarrow> EncoderKind res" where
  "newOutputEncoder outputFormat sampleFilename =
     (let f = ToLower outputFormat in
      if f = ''plain'' then Inr (PlainEncoder sampleFilename)
      else if f = ''csv'' then Inr CsvEncoder
      else if f = ''json'' then Inr JsonEncoder
      else if f = ''xml'' then Inr XmlEncoder
      else Inl (Err ''invalid output format''))"

text \<open>The mode of the scheduler and what it requires of the other flags.\<close>

definition check_duty :: "Flags \<Rightarrow> unit res" where
  "check_duty fl =
     (let mode = fl_dutySchedulerMode fl in
      if mode = ''off''
      then if fl_dutySchedulerReport fl \<noteq> [] \<or> fl_dutySchedulerCheckpointDir fl \<noteq> [] \<or> fl_dutySchedulerPolicy fl \<noteq> []
           then Inl (Err ''dutyscheduler report and checkpoint directory require dutyscheduler=shadow or gated'') else Inr ()
      else if mode = ''shadow'' \<or> mode = ''gated''
      then if fl_dutySchedulerReport fl = [] then Inl (Err ''dutyschedulerreport is required when dutyscheduler is enabled'')
           else if fl_meterID fl = {} then Inl (Err ''dutyscheduler requires an explicit filterid sender inventory'')
           else if mode = ''gated'' \<and> (fl_sampleFile fl \<noteq> DevNull \<or> fl_single fl)
           then Inl (Err ''gated dutyscheduler is incompatible with samplefile and single'')
           else Inr ()
      else Inl (Err ''invalid dutyscheduler mode''))"

definition check_files :: "string option \<Rightarrow> string option \<Rightarrow> Flags \<Rightarrow> unit res" where
  "check_files createSample createContinuous fl =
     (if fl_sampleFile fl \<noteq> DevNull \<and> createSample \<noteq> None then Inl (Err ''Error creating sample file:'')
      else if fl_continuousSampleFile fl \<noteq> DevNull
      then if fl_continuousSampleDuration fl \<le> 0
           then Inl (Err ''continuoussampleduration must be positive when continuoussamplefile is set'')
           else if createContinuous \<noteq> None then Inl (Err ''Error creating continuous sample file:'')
           else Inr ()
      else if fl_continuousSampleDuration fl \<noteq> 0
      then Inl (Err ''continuoussamplefile must be set when continuoussampleduration is non-zero'')
      else Inr ())"

definition HandleFlags :: "string option \<Rightarrow> string option \<Rightarrow> Flags \<Rightarrow> (Flags \<times> EncoderKind) res" where
  "HandleFlags createSample createContinuous fl =
     (if fle (fl_captureTarget fl) (Fin 0) \<or> fle (Fin 100) (fl_captureTarget fl)
      then Inl (Err ''dutyschedulercapturetarget must be greater than 0 and less than 100'')
      else if fl_symbolLength fl \<notin> {8, 32, 40, 48, 56, 64, 72, 80, 88, 96} then Inl (Err ''invalid symbollength'')
      else let fl = fl\<lparr>fl_format := ToLower (fl_format fl)\<rparr> in
        bind_res (newOutputEncoder (fl_format fl) (fl_sampleFile fl)) (\<lambda>encoder.
        bind_res (check_files createSample createContinuous fl) (\<lambda>_.
        let fl = fl\<lparr>fl_dutySchedulerMode := ToLower (fl_dutySchedulerMode fl)\<rparr> in
        if fl_directKernelRing fl \<and> ToLower (fl_inputSource fl) \<noteq> ''direct'' then Inl (Err ''directkernelring requires source=direct'')
        else bind_res (validateDirectKernelBatchBlocks (fl_directKernelBatchBlocks fl)) (\<lambda>_.
        if fl_directKernelBatchBlocks fl \<noteq> receiverReadBlocks \<and> \<not> fl_directKernelRing fl
        then Inl (Err ''directkernelbatchblocks requires directkernelring'')
        else bind_res (check_duty fl) (\<lambda>_. Inr (fl, encoder))))))"

section \<open>The decoder\<close>

text \<open>The packages register their constructors when they are initialised; no name is registered twice.\<close>

definition program_registry :: registry where
  "program_registry =
     [(''idm'', \<lambda>chip. Inr (PIdm (idm_NewParser chip))),
      (''netidm'', \<lambda>chip. Inr (PNetIdm (netidm_NewParser chip))),
      (''r900'', \<lambda>chip. bind_res (r900_NewParser chip) (\<lambda>r. Inr (PR900 r))),
      (''r900bcd'', \<lambda>chip. bind_res (r900_NewParser chip) (\<lambda>r. Inr (PR900bcd r))),
      (''scm'', \<lambda>chip. Inr (PScm (scm_NewParser chip))),
      (''scm+'', \<lambda>chip. Inr (PScmPlus (scmplus_NewParser chip)))]"

definition expandAllMessageTypes :: "string set \<Rightarrow> string set" where
  "expandAllMessageTypes msgType =
     (if ''all'' \<in> msgType \<and> card msgType = 1 then {''scm'', ''scm+'', ''idm'', ''r900''} else msgType)"

definition sortedProtocolNames :: "string set \<Rightarrow> string list" where
  "sortedProtocolNames types = sorted_list_of_set types"

definition register_named :: "registry \<Rightarrow> nat \<Rightarrow> Decoder \<Rightarrow> string \<Rightarrow> Decoder res" where
  "register_named reg symbolLength d name = bind_res (NewParser reg name symbolLength) (\<lambda>p. Inr (RegisterProtocol d p))"

definition newProtocolDecoder :: "registry \<Rightarrow> bool \<Rightarrow> power16Platform option \<Rightarrow> string list \<Rightarrow> nat \<Rightarrow> Decoder res" where
  "newProtocolDecoder reg automatic probe names symbolLength =
     bind_res (fold_res (register_named reg symbolLength) (newDecoder automatic probe) names) (\<lambda>d. Inr (Allocate d))"

definition message_decoder :: "bool \<Rightarrow> power16Platform option \<Rightarrow> string set \<Rightarrow> int \<Rightarrow> Decoder res" where
  "message_decoder automatic probe msgType symbolLength =
     newProtocolDecoder program_registry automatic probe (sortedProtocolNames (expandAllMessageTypes msgType)) (nat symbolLength)"

section \<open>Construction\<close>

lemma program_registers: "fold_res (\<lambda>ps (name, f). RegisterParser ps name (Some f)) [] program_registry = Inr program_registry"
  by (simp add: program_registry_def RegisterParser_def)

definition message_names :: "string set" where
  "message_names = {''idm'', ''netidm'', ''r900'', ''r900bcd'', ''scm'', ''scm+''}"

lemma NewParser_fresh:
  assumes "name \<in> message_names"
  shows "\<exists>p. NewParser program_registry name chip = Inr p \<and> fresh_parser chip p"
proof -
  obtain r where r: "r900_NewParser chip = Inr r" using r900_NewParser_inv [of chip] by blast
  show ?thesis using assms r by (auto simp: message_names_def NewParser_def program_registry_def fresh_parser_def)
qed

lemma NewParser_unknown: "name \<notin> message_names \<Longrightarrow> NewParser program_registry name chip = Inl (Err ''invalid message type'')"
  by (simp add: message_names_def NewParser_def program_registry_def)

lemma register_known:
  "set names \<subseteq> message_names \<Longrightarrow>
     \<exists>ps. fold_res (register_named program_registry chip) d names = Inr (foldl RegisterProtocol d ps) \<and> length ps = length names \<and> list_all (fresh_parser chip) ps"
proof (induction names arbitrary: d)
  case (Cons name names)
  obtain p where p: "NewParser program_registry name chip = Inr p" "fresh_parser chip p" using NewParser_fresh Cons.prems by fastforce
  obtain ps where "fold_res (register_named program_registry chip) (RegisterProtocol d p) names = Inr (foldl RegisterProtocol (RegisterProtocol d p) ps)"
      "length ps = length names" "list_all (fresh_parser chip) ps"
    using Cons.IH [of "RegisterProtocol d p"] Cons.prems by auto
  then show ?case using p by (intro exI [of _ "p # ps"]) (simp add: register_named_def [of program_registry chip d name])
qed simp

lemma register_unknown:
  "\<not> set names \<subseteq> message_names \<Longrightarrow> fold_res (register_named program_registry chip) d names = Inl (Err ''invalid message type'')"
proof (induction names arbitrary: d)
  case (Cons name names)
  show ?case
  proof (cases "name \<in> message_names")
    case True
    then obtain p where "NewParser program_registry name chip = Inr p" using NewParser_fresh by blast
    then show ?thesis using Cons True by (simp add: register_named_def)
  qed (simp add: register_named_def NewParser_unknown)
qed simp

lemma HandleFlags_symbolLength:
  assumes "HandleFlags cs cc fl = Inr (fl', enc)"
  shows "fl_symbolLength fl \<in> {8, 32, 40, 48, 56, 64, 72, 80, 88, 96}" "fl_symbolLength fl' = fl_symbolLength fl"
proof -
  show "fl_symbolLength fl \<in> {8, 32, 40, 48, 56, 64, 72, 80, 88, 96}"
    using assms unfolding HandleFlags_def by (simp split: if_splits)
  then show "fl_symbolLength fl' = fl_symbolLength fl"
    using assms by (auto simp: HandleFlags_def bind_res_eq_Inr Let_def split: if_splits)
qed

lemma split_on_nonempty: "split_on sep s \<noteq> []"
  by (induction s) (auto split: list.split)

section \<open>Property\<close>


definition default_flags :: Flags where
  "default_flags = \<lparr>fl_captureTarget = Fin (199 / 2), fl_symbolLength = 72, fl_format = ''plain'', fl_sampleFile = DevNull,
     fl_continuousSampleFile = DevNull, fl_continuousSampleDuration = 0, fl_dutySchedulerMode = ''off'', fl_dutySchedulerReport = [],
     fl_dutySchedulerCheckpointDir = [], fl_dutySchedulerPolicy = [], fl_directKernelRing = False, fl_directKernelBatchBlocks = 16,
     fl_inputSource = ''tcp'', fl_meterID = {}, fl_single = False\<rparr>"

lemma default_flags_accepted: "\<exists>fl'. HandleFlags None None default_flags = Inr (fl', PlainEncoder DevNull)"
proof -
  have "ToLower ''plain'' = ''plain''" "ToLower ''off'' = ''off''" by code_simp+
  moreover have "\<not> fle (Fin (199 / 2)) (Fin 0)" "\<not> fle (Fin 100) (Fin (199 / 2))" by (simp_all add: fle_def)
  ultimately show ?thesis
    by (simp add: HandleFlags_def default_flags_def newOutputEncoder_def check_files_def check_duty_def validateDirectKernelBatchBlocks_def receiverReadBlocks_def)
qed


end
