(* ===== verification/Collector.thy ===== *)
theory Collector
  imports SchedConfig Message "HOL-Library.AList"
begin

text \<open>
  The collector (\<^verbatim>\<open>src/cmd/rtlamr-collect\<close>): it turns the log messages of the receiver into points of a time series, skips the
  intervals a meter has already reported, and coalesces unchanged readings.

  A \<^verbatim>\<open>time.Time\<close> is the \<open>int\<close> of its nanoseconds. The maps of tags and fields are association lists; two maps of fields are compared
  as maps. The JSON decoder, the encoding of keys and values in the database and the answers of the database
  are parameters.
\<close>

section \<open>Messages and points\<close>

type_synonym tags = "(string \<times> string) list"
type_synonym fields = "(string \<times> int) list"
type_synonym point = "int \<times> tags \<times> fields"

record Meter =
  me_EndpointID :: u32
  me_EndpointType :: u8
  me_Protocol :: string

record LastMessage =
  la_Time :: int
  la_Interval :: nat

record collect_IDM =
  id_EndpointType :: u8
  id_EndpointID :: u32
  id_TransmitTime :: u16
  id_IntervalIdx :: u8
  id_IntervalDiff :: "u16 list"
  id_Outage :: "u8 list"
  id_IDMConsumption :: u32
  id_NetIDMConsumption :: u32
  id_NetIDMConsumptionNet :: u32
  id_NetIDMGeneration :: u32

record collect_SCM =
  sc_EndpointID :: u32
  sc_EndpointType :: u8
  sc_Consumption :: u32

record collect_R900 =
  r9_EndpointID :: u32
  r9_EndpointType :: u8
  r9_Consumption :: u32
  r9_NoUse :: u8
  r9_BackFlow :: u8
  r9_Leak :: u8
  r9_LeakNow :: u8

datatype CollectMessage = CSCM collect_SCM | CSCMPlus collect_SCM | CIDM collect_IDM | CR900 collect_R900

record collect_LogMessage =
  lm_Time :: int
  lm_Type :: string

definition Itoa :: "nat \<Rightarrow> string" where
  "Itoa n = FormatUint n 10"

definition point_tags :: "string \<Rightarrow> string \<Rightarrow> nat \<Rightarrow> nat \<Rightarrow> tags" where
  "point_tags protocolName msg_type endpointType endpointID =
     [(''protocol'', protocolName), (''msg_type'', msg_type), (''endpoint_type'', Itoa endpointType), (''endpoint_id'', Itoa endpointID)]"

definition scm_AddPoints :: "collect_SCM \<Rightarrow> collect_LogMessage \<Rightarrow> point list" where
  "scm_AddPoints m msg =
     [(lm_Time msg, point_tags (lm_Type msg) ''cumulative'' (unat (sc_EndpointType m)) (unat (sc_EndpointID m)), [(''consumption'', uint (sc_Consumption m))])]"

definition scmplus_AddPoints :: "collect_SCM \<Rightarrow> collect_LogMessage \<Rightarrow> point list" where
  "scmplus_AddPoints m msg =
     [(lm_Time msg, point_tags (lm_Type msg) ''cumulative'' (unat (sc_EndpointType m)) (unat (sc_EndpointID m)), [(''consumption'', uint (sc_Consumption m))])]"

definition r900_AddPoints :: "collect_R900 \<Rightarrow> collect_LogMessage \<Rightarrow> point list" where
  "r900_AddPoints m msg =
     [(lm_Time msg, point_tags (lm_Type msg) ''cumulative'' (unat (r9_EndpointType m)) (unat (r9_EndpointID m)),
       [(''consumption'', uint (r9_Consumption m)), (''nouse'', uint (r9_NoUse m)), (''backflow'', uint (r9_BackFlow m)),
        (''leak'', uint (r9_Leak m)), (''leak_now'', uint (r9_LeakNow m))])]"

section \<open>The state of the meters\<close>

record msgpack =
  pk_meter :: "Meter \<Rightarrow> u8 list res"
  pk_last :: "LastMessage \<Rightarrow> u8 list res"
  pk_unmeter :: "u8 list \<Rightarrow> Meter res"
  pk_unlast :: "u8 list \<Rightarrow> LastMessage res"

record MeterMap =
  mm_db :: "u8 list \<rightharpoonup> u8 list"
  mm_m :: "Meter \<rightharpoonup> LastMessage"

text \<open>Loading stops at the first record that does not decode. The error of the iteration is assigned to the variable of the enclosing
  function and overwritten by the result of the transaction, so that it is lost.\<close>

fun load_records :: "msgpack \<Rightarrow> (u8 list \<times> u8 list) list \<Rightarrow> (Meter \<rightharpoonup> LastMessage) \<Rightarrow> (Meter \<rightharpoonup> LastMessage) \<times> go_error option" where
  "load_records pk [] m = (m, None)"
| "load_records pk ((k, v) # rs) m =
     (case pk_unmeter pk k of
        Inl e \<Rightarrow> (m, Some e)
      | Inr meter \<Rightarrow>
        (case pk_unlast pk v of
           Inl e \<Rightarrow> (m, Some e)
         | Inr msg \<Rightarrow> load_records pk rs (m(meter \<mapsto> msg))))"

definition NewMeterMap :: "msgpack \<Rightarrow> string option \<Rightarrow> string option \<Rightarrow> (u8 list \<rightharpoonup> u8 list) \<Rightarrow> (u8 list \<times> u8 list) list option \<Rightarrow> MeterMap res" where
  "NewMeterMap pk openErr viewErr db records =
     (case openErr of
        Some err \<Rightarrow> Inl (Err (''bbolt.Open: '' @ err))
      | None \<Rightarrow>
        let m = (case records of None \<Rightarrow> Map.empty | Some rs \<Rightarrow> fst (load_records pk rs Map.empty))
        in case viewErr of
             Some err \<Rightarrow> Inl (Err (''m.db.View: '' @ err))
           | None \<Rightarrow> Inr \<lparr>mm_db = db, mm_m = m\<rparr>)"

record bolt_answer =
  bo_bucket :: "string option"
  bo_put :: "string option"
  bo_commit :: "string option"

text \<open>A transaction that fails changes neither the database nor the map in memory.\<close>

definition Update :: "msgpack \<Rightarrow> bolt_answer \<Rightarrow> MeterMap \<Rightarrow> Meter \<Rightarrow> LastMessage \<Rightarrow> MeterMap \<times> go_error option" where
  "Update pk ans mm meter msg =
     (let r = (case bo_bucket ans of
                 Some e \<Rightarrow> Inl (Err e)
               | None \<Rightarrow>
                 bind_res (pk_meter pk meter) (\<lambda>key.
                 bind_res (pk_last pk msg) (\<lambda>val.
                 case bo_put ans of Some e \<Rightarrow> Inl (Err e) | None \<Rightarrow>
                 (case bo_commit ans of Some e \<Rightarrow> Inl (Err e) | None \<Rightarrow> Inr (key, val)))))
      in case r of
           Inl e \<Rightarrow> (mm, Some e)
         | Inr (key, val) \<Rightarrow> (\<lparr>mm_db = (mm_db mm)(key \<mapsto> val), mm_m = (mm_m mm)(meter \<mapsto> msg)\<rparr>, None))"

section \<open>Interval data\<close>

definition threshold :: int where
  "threshold = 30 * Second"

definition time_Sub :: "int \<Rightarrow> int \<Rightarrow> int" where
  "time_Sub t u = max (- (2 ^ 63)) (min (2 ^ 63 - 1) (t - u))"

definition intervalOffset :: "collect_IDM \<Rightarrow> int" where
  "intervalOffset m = uint (id_TransmitTime m) * Second div 16"

definition outage_flags :: "u8 list \<Rightarrow> nat" where
  "outage_flags xs = foldl (\<lambda>acc b. acc * 256 + unat b) 0 (take 6 xs @ replicate (6 - length xs) 0)"

definition interval_at :: "u8 \<Rightarrow> nat \<Rightarrow> nat" where
  "interval_at intervalIdx idx = nat ((uint intervalIdx - int idx) mod 2 ^ 64) mod 256"

text \<open>The shift count is unsigned: beyond bit 46 it wraps and the shifted flags are zero.\<close>

definition outage_bit :: "nat \<Rightarrow> nat \<Rightarrow> bool" where
  "outage_bit outage idx \<longleftrightarrow> idx \<le> 46 \<and> outage div 2 ^ (46 - idx) mod 2 = 1"

definition interval_time :: "collect_IDM \<Rightarrow> collect_LogMessage \<Rightarrow> nat \<Rightarrow> int" where
  "interval_time m msg idx = lm_Time msg + i64 (i64 (i64 (- int idx * 5) * Minute) - intervalOffset m)"

definition interval_point :: "collect_IDM \<Rightarrow> collect_LogMessage \<Rightarrow> tags \<Rightarrow> nat \<Rightarrow> u16 \<Rightarrow> point" where
  "interval_point m msg tg idx usage =
     (interval_time m msg idx, tg,
      [(''consumption'', uint usage), (''interval'', int (interval_at (id_IntervalIdx m) idx))] @
      (if outage_bit (outage_flags (id_Outage m)) idx then [(''outage'', 1)] else []))"

text \<open>The loop over the intervals; \<open>state\<close> is what the map knew of the meter before this message.\<close>

fun interval_points :: "collect_IDM \<Rightarrow> collect_LogMessage \<Rightarrow> LastMessage option \<Rightarrow> tags \<Rightarrow> nat \<Rightarrow> u16 list \<Rightarrow> point list" where
  "interval_points m msg state tg idx [] = []"
| "interval_points m msg state tg idx (usage # us) =
     (let interval = interval_at (id_IntervalIdx m) idx;
          intervalTime = interval_time m msg idx;
          old = (case state of None \<Rightarrow> False
                 | Some s \<Rightarrow> interval = la_Interval s \<and>
                     (let diff = time_Sub (la_Time s) intervalTime in - threshold < diff \<and> diff < threshold))
      in if old then [] else interval_point m msg tg idx usage # interval_points m msg state tg (idx + 1) us)"

definition idm_fields :: "collect_IDM \<Rightarrow> collect_LogMessage \<Rightarrow> fields" where
  "idm_fields m msg =
     (if lm_Type msg = ''NetIDM''
      then [(''consumption'', uint (id_NetIDMConsumption m)), (''generation'', uint (id_NetIDMGeneration m)),
            (''consumption_net'', uint (id_NetIDMConsumptionNet m))]
      else [(''consumption'', uint (id_IDMConsumption m))])"

definition idm_meter :: "collect_IDM \<Rightarrow> collect_LogMessage \<Rightarrow> Meter" where
  "idm_meter m msg = \<lparr>me_EndpointID = id_EndpointID m, me_EndpointType = id_EndpointType m, me_Protocol = lm_Type msg\<rparr>"

definition idm_AddPoints :: "msgpack \<Rightarrow> bolt_answer \<Rightarrow> MeterMap \<Rightarrow> collect_IDM \<Rightarrow> collect_LogMessage \<Rightarrow> MeterMap \<times> point list" where
  "idm_AddPoints pk ans mm m msg =
     (let meter = idm_meter m msg;
          state = mm_m mm meter;
          mm = fst (Update pk ans mm meter \<lparr>la_Time = lm_Time msg - intervalOffset m, la_Interval = unat (id_IntervalIdx m)\<rparr>);
          tg = (\<lambda>kind. point_tags (lm_Type msg) kind (unat (id_EndpointType m)) (unat (id_EndpointID m)))
      in (mm, (lm_Time msg - intervalOffset m, tg ''cumulative'', idm_fields m msg) #
              interval_points m msg state (tg ''differential'') 0 (id_IntervalDiff m)))"

section \<open>Coalescing\<close>

type_synonym pointKey = "string \<times> string \<times> string \<times> string"

record pointState =
  po_fields :: fields
  po_lastEmitted :: int

record PointCoalescer =
  co_interval :: int
  co_meters :: "pointKey \<rightharpoonup> pointState"

definition NewPointCoalescer :: "int \<Rightarrow> PointCoalescer" where
  "NewPointCoalescer interval = \<lparr>co_interval = interval, co_meters = Map.empty\<rparr>"

definition parseUnchangedInterval :: "(string \<Rightarrow> int res) \<Rightarrow> string \<Rightarrow> int res" where
  "parseUnchangedInterval ParseDuration v =
     (if v = [] \<or> v = ''0'' then Inr 0
      else bind_res (ParseDuration v) (\<lambda>interval. if interval < 0 then Inl (Err ''must not be negative'') else Inr interval))"

definition isR900 :: "string \<Rightarrow> bool" where
  "isR900 protocolName \<longleftrightarrow> protocolName = ''R900'' \<or> protocolName = ''R900BCD''"

definition tag :: "tags \<Rightarrow> string \<Rightarrow> string" where
  "tag tg k = (case map_of tg k of None \<Rightarrow> [] | Some v \<Rightarrow> v)"

definition fields_equal :: "fields \<Rightarrow> fields \<Rightarrow> bool" where
  "fields_equal a b \<longleftrightarrow> list_all (\<lambda>k. map_of a k = map_of b k) (map fst a @ map fst b)"

definition point_key :: "tags \<Rightarrow> pointKey" where
  "point_key tg = (tag tg ''protocol'', tag tg ''msg_type'', tag tg ''endpoint_type'', tag tg ''endpoint_id'')"

definition ShouldEmit :: "PointCoalescer \<Rightarrow> point \<Rightarrow> PointCoalescer \<times> bool" where
  "ShouldEmit c p =
     (let (t, tg, fs) = p in
      if co_interval c = 0 \<or> \<not> isR900 (tag tg ''protocol'') then (c, True)
      else case co_meters c (point_key tg) of
        Some previous \<Rightarrow>
          if t > po_lastEmitted previous \<and> fields_equal fs (po_fields previous) \<and> time_Sub t (po_lastEmitted previous) < co_interval c
          then (c, False)
          else (c\<lparr>co_meters := (co_meters c)(point_key tg \<mapsto> \<lparr>po_fields = fs, po_lastEmitted = t\<rparr>)\<rparr>, True)
      | None \<Rightarrow> (c\<lparr>co_meters := (co_meters c)(point_key tg \<mapsto> \<lparr>po_fields = fs, po_lastEmitted = t\<rparr>)\<rparr>, True))"

fun emit_points :: "PointCoalescer \<Rightarrow> point list \<Rightarrow> PointCoalescer \<times> point list" where
  "emit_points c [] = (c, [])"
| "emit_points c (p # ps) =
     (let (c, emit) = ShouldEmit c p; (c, out) = emit_points c ps in (c, if emit then p # out else out))"

section \<open>One line\<close>

record collect_state =
  cl_meters :: MeterMap
  cl_coalescer :: PointCoalescer
  cl_written :: "point list list"

text \<open>With \<^verbatim>\<open>COLLECT_STRICTIDM\<close>, interval data of the other variant's endpoint type are dropped.\<close>

definition strict_rejects :: "bool \<Rightarrow> collect_LogMessage \<Rightarrow> CollectMessage \<Rightarrow> bool" where
  "strict_rejects strict msg m =
     (case m of
        CIDM i \<Rightarrow> strict \<and> (lm_Type msg = ''IDM'' \<and> id_EndpointType i = 8 \<or> lm_Type msg = ''NetIDM'' \<and> id_EndpointType i = 7)
      | _ \<Rightarrow> False)"

definition add_points :: "msgpack \<Rightarrow> bolt_answer \<Rightarrow> MeterMap \<Rightarrow> collect_LogMessage \<Rightarrow> CollectMessage \<Rightarrow> MeterMap \<times> point list" where
  "add_points pk ans mm msg m =
     (case m of
        CSCM s \<Rightarrow> (mm, scm_AddPoints s msg)
      | CSCMPlus s \<Rightarrow> (mm, scmplus_AddPoints s msg)
      | CIDM i \<Rightarrow> idm_AddPoints pk ans mm i msg
      | CR900 r \<Rightarrow> (mm, r900_AddPoints r msg))"

text \<open>A line whose log message or payload does not decode is skipped. A failed write ends the program.\<close>

definition collect_line :: "msgpack \<Rightarrow> bool \<Rightarrow> bool \<Rightarrow> bolt_answer \<Rightarrow> string option \<Rightarrow> collect_state \<Rightarrow> (collect_LogMessage \<times> CollectMessage) option \<Rightarrow> collect_state res" where
  "collect_line pk strict dryRun ans writeErr st line =
     (case line of
        None \<Rightarrow> Inr st
      | Some (msg, m) \<Rightarrow>
        if strict_rejects strict msg m then Inr st
        else
          let (mm, ps) = add_points pk ans (cl_meters st) msg m;
              (c, pts) = emit_points (cl_coalescer st) ps;
              st = st\<lparr>cl_meters := mm, cl_coalescer := c\<rparr>
          in if \<not> dryRun \<and> pts \<noteq> []
             then case writeErr of Some e \<Rightarrow> Inl (Err (''api.WritePoint: '' @ e)) | None \<Rightarrow> Inr (st\<lparr>cl_written := cl_written st @ [pts]\<rparr>)
             else Inr st)"

section \<open>Every interval once\<close>

lemma interval_at_mod: "interval_at b idx = nat ((uint b - int idx) mod 256)"
proof -
  have "(uint b - int idx) mod 2 ^ 64 mod 256 = (uint b - int idx) mod 256" by (rule mod_mod_cancel) simp
  then show ?thesis by (simp add: interval_at_def nat_mod_distrib [symmetric] flip: nat_numeral)
qed

lemma interval_at_inj: "interval_at b i = interval_at b n \<Longrightarrow> i < n \<Longrightarrow> n < 256 \<Longrightarrow> False"
proof -
  assume a: "interval_at b i = interval_at b n" "i < n" "n < 256"
  have "(uint b - int i) mod 256 = (uint b - int n) mod 256" using a(1) unfolding interval_at_mod by (simp add: eq_nat_nat_iff)
  then have "256 dvd (int n - int i)" by (simp add: mod_eq_dvd_iff)
  then have "256 \<le> int n - int i" using a(2) by (intro zdvd_imp_le) simp_all
  then show False using a(3) by simp
qed

lemma intervalOffset_bounds: "0 \<le> intervalOffset m" "intervalOffset m < 2 ^ 42"
proof -
  have "uint (id_TransmitTime m) < 2 ^ 16" using uint_lt2p [of "id_TransmitTime m"] by simp
  then show "intervalOffset m < 2 ^ 42" "0 \<le> intervalOffset m" by (simp_all add: intervalOffset_def)
qed

lemma interval_time_exact: "idx < 256 \<Longrightarrow> interval_time m msg idx = lm_Time msg - int idx * (5 * Minute) - intervalOffset m"
  using intervalOffset_bounds [of m] by (simp add: interval_time_def i64_id)

lemma interval_points_until:
  assumes "n < 256" "interval_at (id_IntervalIdx m) n = la_Interval s" "\<bar>la_Time s - interval_time m msg n\<bar> < threshold"
  shows "idx \<le> n \<Longrightarrow> interval_points m msg (Some s) tg idx us = map (\<lambda>(i, u). interval_point m msg tg i u) (take (n - idx) (enumerate idx us))"
proof (induction us arbitrary: idx)
  case (Cons u us)
  have sub: "- threshold < time_Sub (la_Time s) (interval_time m msg n) \<and> time_Sub (la_Time s) (interval_time m msg n) < threshold"
    using assms(3) by (auto simp: time_Sub_def threshold_def)
  show ?case
  proof (cases "idx = n")
    case True
    then show ?thesis using sub assms(2) by (simp add: Let_def)
  next
    case False
    then have lt: "idx < n" using Cons.prems by simp
    then have "interval_at (id_IntervalIdx m) idx \<noteq> la_Interval s" using interval_at_inj assms(1,2) by metis
    moreover obtain k where "n - idx = Suc k" "n - Suc idx = k" using lt by (metis Suc_diff_Suc)
    ultimately show ?thesis using Cons.IH [of "Suc idx"] lt by (simp add: Let_def)
  qed
qed simp

definition no_failure :: bolt_answer where
  "no_failure = \<lparr>bo_bucket = None, bo_put = None, bo_commit = None\<rparr>"

lemma Update_ok:
  assumes "pk_meter pk meter = Inr key" "pk_last pk msg = Inr val"
  shows "Update pk no_failure mm meter msg = (\<lparr>mm_db = (mm_db mm)(key \<mapsto> val), mm_m = (mm_m mm)(meter \<mapsto> msg)\<rparr>, None)"
  by (simp add: Update_def no_failure_def assms)

text \<open>C36: Every interval is reported once. After an interval data message was recorded, a later message of the same meter whose interval counter
  has advanced by \<open>n\<close> (modulo 256) within half a minute of \<open>n\<close> times five minutes yields the cumulative point and exactly
  the differential points of the \<open>n\<close> newest intervals, newest first, each with its own time, counter and outage flag:
  no interval of the earlier message is repeated and none in between is left out.\<close>
theorem intervals_are_reported_once:
  assumes "idm_AddPoints pk no_failure mm m1 msg1 = (mm1, ps1)" "\<forall>x. \<exists>y. pk_meter pk x = Inr y" "\<forall>x. \<exists>y. pk_last pk x = Inr y"
    and "idm_meter m2 msg2 = idm_meter m1 msg1" "n < 256" "id_IntervalIdx m2 = id_IntervalIdx m1 + of_nat n"
    and "\<bar>(lm_Time msg2 - intervalOffset m2) - (lm_Time msg1 - intervalOffset m1) - int n * (5 * Minute)\<bar> < threshold"
  shows "snd (idm_AddPoints pk ans mm1 m2 msg2) =
    (lm_Time msg2 - intervalOffset m2, point_tags (lm_Type msg2) ''cumulative'' (unat (id_EndpointType m2)) (unat (id_EndpointID m2)), idm_fields m2 msg2) #
    map (\<lambda>(i, u). interval_point m2 msg2 (point_tags (lm_Type msg2) ''differential'' (unat (id_EndpointType m2)) (unat (id_EndpointID m2))) i u)
      (take n (enumerate 0 (id_IntervalDiff m2)))"
proof -
  let ?s = "\<lparr>la_Time = lm_Time msg1 - intervalOffset m1, la_Interval = unat (id_IntervalIdx m1)\<rparr>"
  obtain key val where kv: "pk_meter pk (idm_meter m1 msg1) = Inr key" "pk_last pk ?s = Inr val" using assms(2,3) by blast
  have st: "mm_m mm1 (idm_meter m2 msg2) = Some ?s"
    using assms(1,4) Update_ok [OF kv, of mm] by (auto simp: idm_AddPoints_def Let_def)
  have "uint (id_IntervalIdx m2) = (uint (id_IntervalIdx m1) + int n) mod 256"
    using assms(5) unfolding assms(6) by (simp add: uint_word_ariths unsigned_of_nat take_bit_eq_mod mod_simps)
  then have "interval_at (id_IntervalIdx m2) n = unat (id_IntervalIdx m1)"
    using uint_lt2p [of "id_IntervalIdx m1"] by (simp add: interval_at_mod mod_simps)
  moreover have "\<bar>la_Time ?s - interval_time m2 msg2 n\<bar> < threshold" using assms(7) by (simp add: interval_time_exact [OF assms(5)] abs_minus_commute algebra_simps)
  ultimately show ?thesis
    using interval_points_until [OF assms(5), of m2 ?s msg2 0] st by (simp add: idm_AddPoints_def Let_def)
qed

definition demo_pack :: msgpack where
  "demo_pack = \<lparr>pk_meter = (\<lambda>m. Inr [ucast (me_EndpointID m)]), pk_last = (\<lambda>l. Inr [of_nat (la_Interval l)]),
     pk_unmeter = (\<lambda>_. Inl (Err [])), pk_unlast = (\<lambda>_. Inl (Err []))\<rparr>"

definition demo_idm :: "u8 \<Rightarrow> u16 list \<Rightarrow> collect_IDM" where
  "demo_idm idx us = \<lparr>id_EndpointType = 7, id_EndpointID = 17, id_TransmitTime = 32, id_IntervalIdx = idx, id_IntervalDiff = us,
     id_Outage = [0, 0, 0, 0, 0, 0], id_IDMConsumption = 5, id_NetIDMConsumption = 0, id_NetIDMConsumptionNet = 0, id_NetIDMGeneration = 0\<rparr>"

definition demo_log :: "int \<Rightarrow> collect_LogMessage" where
  "demo_log t = \<lparr>lm_Time = t, lm_Type = ''IDM''\<rparr>"

theorem intervals_are_reported_once_witness:
  "\<exists>mm1 ps1. idm_AddPoints demo_pack no_failure \<lparr>mm_db = Map.empty, mm_m = Map.empty\<rparr> (demo_idm 255 [1, 2, 3]) (demo_log 0) = (mm1, ps1) \<and>
     map (\<lambda>(t, tg, fs). map_of fs ''consumption'') (snd (idm_AddPoints demo_pack no_failure mm1 (demo_idm 0 [9, 1, 2]) (demo_log (5 * Minute)))) = [Some 5, Some 9]"
proof -
  obtain mm1 ps1 where 1: "idm_AddPoints demo_pack no_failure \<lparr>mm_db = Map.empty, mm_m = Map.empty\<rparr> (demo_idm 255 [1, 2, 3]) (demo_log 0) = (mm1, ps1)"
    by fastforce
  have "idm_meter (demo_idm 0 [9, 1, 2]) (demo_log (5 * Minute)) = idm_meter (demo_idm 255 [1, 2, 3]) (demo_log 0)"
      "id_IntervalIdx (demo_idm 0 [9, 1, 2]) = id_IntervalIdx (demo_idm 255 [1, 2, 3]) + of_nat 1"
      "\<bar>(lm_Time (demo_log (5 * Minute)) - intervalOffset (demo_idm 0 [9, 1, 2])) - (lm_Time (demo_log 0) - intervalOffset (demo_idm 255 [1, 2, 3])) - int 1 * (5 * Minute)\<bar> < threshold"
    by (simp_all add: idm_meter_def demo_idm_def demo_log_def intervalOffset_def threshold_def)
  from intervals_are_reported_once [OF 1 _ _ this(1) _ this(2,3), of no_failure] show ?thesis
    using 1 by (auto simp: demo_pack_def demo_idm_def demo_log_def idm_fields_def interval_point_def)
qed

section \<open>Restarting\<close>

text \<open>The encoding is a parameter; what the collector relies on is that decoding returns what was encoded.\<close>

definition packs :: "msgpack \<Rightarrow> bool" where
  "packs pk \<longleftrightarrow> (\<forall>m k. pk_meter pk m = Inr k \<longrightarrow> pk_unmeter pk k = Inr m) \<and> (\<forall>l v. pk_last pk l = Inr v \<longrightarrow> pk_unlast pk v = Inr l)"

definition stored :: "msgpack \<Rightarrow> MeterMap \<Rightarrow> bool" where
  "stored pk mm \<longleftrightarrow> (\<forall>k v. mm_db mm k = Some v \<longrightarrow> (\<exists>m l. pk_meter pk m = Inr k \<and> pk_last pk l = Inr v \<and> mm_m mm m = Some l)) \<and>
     (\<forall>m l. mm_m mm m = Some l \<longrightarrow> (\<exists>k v. pk_meter pk m = Inr k \<and> pk_last pk l = Inr v \<and> mm_db mm k = Some v))"

lemma storedD:
  assumes "stored pk mm"
  shows "mm_db mm k = Some v \<Longrightarrow> \<exists>m l. pk_meter pk m = Inr k \<and> pk_last pk l = Inr v \<and> mm_m mm m = Some l"
    "mm_m mm m = Some l \<Longrightarrow> \<exists>k v. pk_meter pk m = Inr k \<and> pk_last pk l = Inr v \<and> mm_db mm k = Some v"
  using assms unfolding stored_def by blast+

lemma packs_inj: "packs pk \<Longrightarrow> pk_meter pk m = Inr k \<Longrightarrow> pk_meter pk m' = Inr k \<Longrightarrow> m = m'"
  unfolding packs_def by (metis sum.inject(2))

lemma stored_Update:
  assumes "packs pk" "stored pk mm"
  shows "stored pk (fst (Update pk ans mm meter msg))"
proof (cases "snd (Update pk ans mm meter msg)")
  case (Some e)
  then have "fst (Update pk ans mm meter msg) = mm" by (auto simp: Update_def Let_def split: sum.splits)
  then show ?thesis using assms(2) by simp
next
  case None
  then obtain key val where kv: "pk_meter pk meter = Inr key" "pk_last pk msg = Inr val"
      "fst (Update pk ans mm meter msg) = \<lparr>mm_db = (mm_db mm)(key \<mapsto> val), mm_m = (mm_m mm)(meter \<mapsto> msg)\<rparr>"
    by (auto simp: Update_def Let_def bind_res_eq_Inr split: sum.splits option.splits)
  show ?thesis unfolding kv(3) stored_def
  proof (intro conjI allI impI)
    fix k v assume a: "mm_db \<lparr>mm_db = (mm_db mm)(key \<mapsto> val), mm_m = (mm_m mm)(meter \<mapsto> msg)\<rparr> k = Some v"
    show "\<exists>m l. pk_meter pk m = Inr k \<and> pk_last pk l = Inr v \<and> mm_m \<lparr>mm_db = (mm_db mm)(key \<mapsto> val), mm_m = (mm_m mm)(meter \<mapsto> msg)\<rparr> m = Some l"
    proof (cases "k = key")
      case True
      then show ?thesis using a kv by (intro exI [of _ meter] exI [of _ msg]) simp
    next
      case False
      then have "mm_db mm k = Some v" using a by simp
      then obtain m l where "pk_meter pk m = Inr k" "pk_last pk l = Inr v" "mm_m mm m = Some l" using storedD(1) [OF assms(2)] by blast
      moreover then have "m \<noteq> meter" using False kv(1) by auto
      ultimately show ?thesis by auto
    qed
  next
    fix m l assume a: "mm_m \<lparr>mm_db = (mm_db mm)(key \<mapsto> val), mm_m = (mm_m mm)(meter \<mapsto> msg)\<rparr> m = Some l"
    show "\<exists>k v. pk_meter pk m = Inr k \<and> pk_last pk l = Inr v \<and> mm_db \<lparr>mm_db = (mm_db mm)(key \<mapsto> val), mm_m = (mm_m mm)(meter \<mapsto> msg)\<rparr> k = Some v"
    proof (cases "m = meter")
      case True
      then show ?thesis using a kv by (intro exI [of _ key] exI [of _ val]) simp
    next
      case False
      then have "mm_m mm m = Some l" using a by simp
      then obtain k v where "pk_meter pk m = Inr k" "pk_last pk l = Inr v" "mm_db mm k = Some v" using storedD(2) [OF assms(2)] by blast
      moreover then have "k \<noteq> key" using False kv(1) packs_inj [OF assms(1)] by blast
      ultimately show ?thesis by auto
    qed
  qed
qed

abbreviation decoded :: "msgpack \<Rightarrow> u8 list \<times> u8 list \<Rightarrow> Meter \<times> LastMessage" where
  "decoded pk r \<equiv> (projr (pk_unmeter pk (fst r)), projr (pk_unlast pk (snd r)))"

definition decodes :: "msgpack \<Rightarrow> u8 list \<times> u8 list \<Rightarrow> bool" where
  "decodes pk r \<longleftrightarrow> \<not> isl (pk_unmeter pk (fst r)) \<and> \<not> isl (pk_unlast pk (snd r))"

lemma load_records_app:
  "list_all (decodes pk) rs \<Longrightarrow> load_records pk (rs @ rest) m = load_records pk rest (m ++ map_of (rev (map (decoded pk) rs)))"
proof (induction rs arbitrary: m)
  case (Cons r rs)
  obtain k v where r: "r = (k, v)" by fastforce
  obtain x y where xy: "pk_unmeter pk k = Inr x" "pk_unlast pk v = Inr y"
    using Cons.prems by (cases "pk_unmeter pk k"; cases "pk_unlast pk v") (auto simp: r decodes_def)
  have "m(x \<mapsto> y) ++ map_of (rev (map (decoded pk) rs)) = m ++ map_of (rev (map (decoded pk) (r # rs)))"
    by (simp add: r xy map_add_assoc)
  then show ?case using Cons by (simp add: r xy)
qed simp

text \<open>The records before a corrupt one are all that is loaded, and no error is returned.\<close>

lemma corrupt_record_hides_the_rest:
  assumes "list_all (decodes pk) rs" "\<not> decodes pk bad"
  shows "NewMeterMap pk None None db (Some (rs @ bad # rest)) = NewMeterMap pk None None db (Some rs)"
proof -
  have "fst (load_records pk (bad # rest) m) = m" for m
    using assms(2) by (cases bad) (auto simp: decodes_def isl_def split: sum.splits)
  then show ?thesis using load_records_app [OF assms(1), of "bad # rest"] load_records_app [OF assms(1), of "[]"]
    by (simp add: NewMeterMap_def del: load_records.simps) simp
qed

text \<open>C37: The meters survive a restart. Whatever updates were made, with any answers of the database, opening the database again, in whatever order
  it lists its records, restores the map of the meters in memory exactly: a failed transaction changed neither side, and
  later updates of a meter replaced earlier ones on both.\<close>
theorem restart_restores_the_meters:
  assumes "packs pk" "mm = foldl (\<lambda>mm (ans, meter, msg). fst (Update pk ans mm meter msg)) \<lparr>mm_db = Map.empty, mm_m = Map.empty\<rparr> updates"
    and "distinct (map fst rs)" "map_of rs = mm_db mm"
  shows "NewMeterMap pk None None (mm_db mm) (Some rs) = Inr mm"
proof -
  have "stored pk (foldl (\<lambda>mm (ans, meter, msg). fst (Update pk ans mm meter msg)) mm0 us)" if "stored pk mm0" for mm0 us
    using that by (induction us arbitrary: mm0) (auto simp: stored_Update [OF assms(1)])
  from this [of "\<lparr>mm_db = Map.empty, mm_m = Map.empty\<rparr>" updates] have st: "stored pk mm" using assms(2) by (simp add: stored_def)
  have dec: "\<exists>m l. pk_meter pk m = Inr k \<and> pk_last pk l = Inr v \<and> mm_m mm m = Some l \<and> decoded pk (k, v) = (m, l) \<and> decodes pk (k, v)"
    if "(k, v) \<in> set rs" for k v
  proof -
    have "mm_db mm k = Some v" using that assms(3,4) by (metis map_of_eq_Some_iff)
    then obtain m l where "pk_meter pk m = Inr k" "pk_last pk l = Inr v" "mm_m mm m = Some l" using storedD(1) [OF st] by blast
    then show ?thesis using assms(1) by (auto simp: packs_def decodes_def)
  qed
  let ?ds = "map (decoded pk) rs"
  have mem: "mm_m mm (fst x) = Some (snd x)" if x: "x \<in> decoded pk ` set rs" for x
  proof -
    obtain r where r: "r \<in> set rs" "x = decoded pk r" using x by blast
    obtain m l where "mm_m mm m = Some l" "decoded pk r = (m, l)" using dec [of "fst r" "snd r"] r(1) by auto
    then show ?thesis using r(2) by simp
  qed
  have "inj_on (decoded pk) (set rs) \<and> inj_on fst (decoded pk ` set rs)"
  proof (intro conjI inj_onI)
    fix x y assume "x \<in> decoded pk ` set rs" "y \<in> decoded pk ` set rs" "fst x = fst y"
    then show "x = y" using mem [of x] mem [of y] by (simp add: prod_eq_iff)
  next
    fix x y assume a: "x \<in> set rs" "y \<in> set rs" "decoded pk x = decoded pk y"
    obtain m l where "pk_meter pk m = Inr (fst x)" "pk_last pk l = Inr (snd x)" "decoded pk x = (m, l)" using dec [of "fst x" "snd x"] a(1) by auto
    moreover obtain m' l' where "pk_meter pk m' = Inr (fst y)" "pk_last pk l' = Inr (snd y)" "decoded pk y = (m', l')" using dec [of "fst y" "snd y"] a(2) by auto
    ultimately show "x = y" using a(3) by (metis prod.inject prod_eqI sum.inject(2))
  qed
  then have dis: "distinct (map fst ?ds)" using assms(3) by (simp add: distinct_map comp_inj_on)
  have "map_of (rev ?ds) = mm_m mm"
  proof
    fix m
    show "map_of (rev ?ds) m = mm_m mm m"
    proof (cases "mm_m mm m")
      case None
      then have "m \<notin> fst ` set ?ds" using dec by force
      then show ?thesis using None by (simp add: map_of_eq_None_iff)
    next
      case (Some l)
      then obtain k v where "pk_meter pk m = Inr k" "pk_last pk l = Inr v" "mm_db mm k = Some v" using storedD(2) [OF st] by blast
      then have "(k, v) \<in> set rs" "decoded pk (k, v) = (m, l)" using map_of_SomeD [of rs k v] assms(1,4) by (simp_all add: packs_def)
      then have "(m, l) \<in> set (rev ?ds)" using imageI [of "(k, v)" "set rs" "decoded pk"] by simp
      moreover have "distinct (map fst (rev ?ds))" using dis by (simp only: rev_map [symmetric] distinct_rev)
      ultimately show ?thesis using Some by (simp only: map_of_eq_Some_iff)
    qed
  qed
  moreover have "list_all (decodes pk) rs" using dec by (force simp: list_all_iff)
  ultimately show ?thesis using load_records_app [of pk rs "[]"] by (simp add: NewMeterMap_def)
qed

definition tiny_pack :: msgpack where
  "tiny_pack = \<lparr>pk_meter = (\<lambda>m. if me_EndpointID m < 256 \<and> me_EndpointType m = 7 \<and> me_Protocol m = ''IDM'' then Inr [ucast (me_EndpointID m)] else Inl (Err [])),
     pk_last = (\<lambda>l. if la_Time l = 0 \<and> la_Interval l < 256 then Inr [of_nat (la_Interval l)] else Inl (Err [])),
     pk_unmeter = (\<lambda>k. case k of [b] \<Rightarrow> Inr \<lparr>me_EndpointID = ucast b, me_EndpointType = 7, me_Protocol = ''IDM''\<rparr> | _ \<Rightarrow> Inl (Err [])),
     pk_unlast = (\<lambda>v. case v of [b] \<Rightarrow> Inr \<lparr>la_Time = 0, la_Interval = unat b\<rparr> | _ \<Rightarrow> Inl (Err []))\<rparr>"

lemma ucast_small: "(x :: u32) < 256 \<Longrightarrow> ucast (ucast x :: u8) = x"
  by (simp add: word_uint_eq_iff unsigned_ucast_eq take_bit_eq_mod mod_word_less)

lemma tiny_packs: "packs tiny_pack"
  by (auto simp: packs_def tiny_pack_def ucast_small unsigned_of_nat take_bit_eq_mod split: if_splits)

theorem restart_restores_the_meters_witness:
  "\<exists>mm rs. mm = fst (Update tiny_pack no_failure \<lparr>mm_db = Map.empty, mm_m = Map.empty\<rparr>
       \<lparr>me_EndpointID = 17, me_EndpointType = 7, me_Protocol = ''IDM''\<rparr> \<lparr>la_Time = 0, la_Interval = 5\<rparr>) \<and>
     rs = [([17], [5])] \<and> NewMeterMap tiny_pack None None (mm_db mm) (Some rs) = Inr mm"
proof -
  let ?m = "\<lparr>me_EndpointID = 17, me_EndpointType = 7, me_Protocol = ''IDM''\<rparr>" and ?l = "\<lparr>la_Time = 0, la_Interval = 5\<rparr>"
  let ?mm = "fst (Update tiny_pack no_failure \<lparr>mm_db = Map.empty, mm_m = Map.empty\<rparr> ?m ?l)"
  have e: "?mm = foldl (\<lambda>mm (ans, meter, msg). fst (Update tiny_pack ans mm meter msg)) \<lparr>mm_db = Map.empty, mm_m = Map.empty\<rparr> [(no_failure, ?m, ?l)]" by simp
  have "pk_meter tiny_pack ?m = Inr [17]" "pk_last tiny_pack ?l = Inr [5]" by (simp_all add: tiny_pack_def)
  then have "map_of [([17], [5])] = mm_db ?mm" using Update_ok by (simp add: fun_eq_iff)
  then show ?thesis using restart_restores_the_meters [OF tiny_packs e, of "[([17], [5])]"] by auto
qed

section \<open>Coalescing loses nothing\<close>

definition point_of :: "pointKey \<Rightarrow> point list \<Rightarrow> point option" where
  "point_of k ps = find (\<lambda>(t, tg, fs). point_key tg = k) (rev ps)"

lemma point_of_snoc: "point_of k (ps @ [(t, tg, fs)]) = (if point_key tg = k then Some (t, tg, fs) else point_of k ps)"
  by (simp add: point_of_def)

lemma emit_points_snoc:
  "emit_points c (ps @ [p]) = (let (c1, out) = emit_points c ps; (c2, e) = ShouldEmit c1 p in (c2, if e then out @ [p] else out))"
proof (induction ps arbitrary: c)
  case (Cons q ps)
  show ?case by (simp add: Cons.IH split: prod.splits)
qed (simp split: prod.splits)

lemma fields_equal_refl [simp]: "fields_equal a a"
  by (simp add: fields_equal_def list_all_iff)

lemma time_Sub_less: "time_Sub t u < d \<Longrightarrow> d < 2 ^ 63 \<Longrightarrow> t - u < d"
  by (auto simp: time_Sub_def max_def min_def split: if_splits)

definition held_point :: "PointCoalescer \<Rightarrow> point list \<Rightarrow> point list \<Rightarrow> pointKey \<Rightarrow> bool" where
  "held_point c ps out k \<longleftrightarrow>
     (case point_of k ps of
        None \<Rightarrow> point_of k out = None \<and> co_meters c k = None
      | Some (t, tg, fs) \<Rightarrow> \<exists>t' tg' fs'. point_of k out = Some (t', tg', fs') \<and> co_meters c k = Some \<lparr>po_fields = fs', po_lastEmitted = t'\<rparr> \<and>
          fields_equal fs fs' \<and> t' \<le> t \<and> t - t' < co_interval c)"

lemma ShouldEmit_held:
  assumes "held_point c ps out k" "isR900 (fst k)" "0 < co_interval c" "co_interval c < 2 ^ 63" "ShouldEmit c p = (c', e)"
  shows "held_point c' (ps @ [p]) (if e then out @ [p] else out) k \<and> co_interval c' = co_interval c"
proof -
  obtain t tg fs where p: "p = (t, tg, fs)" by (cases p)
  have key: "point_key tg = k \<Longrightarrow> isR900 (tag tg ''protocol'')" using assms(2) by (auto simp: point_key_def)
  let ?sent = "(c\<lparr>co_meters := (co_meters c)(point_key tg \<mapsto> \<lparr>po_fields = fs, po_lastEmitted = t\<rparr>)\<rparr>, True)"
  have cases: "(c', e) = (c, True) \<and> \<not> isR900 (tag tg ''protocol'') \<or> (c', e) = ?sent \<or>
      (\<exists>previous. co_meters c (point_key tg) = Some previous \<and> (c', e) = (c, False) \<and> po_lastEmitted previous < t \<and>
         fields_equal fs (po_fields previous) \<and> time_Sub t (po_lastEmitted previous) < co_interval c)"
  proof (cases "isR900 (tag tg ''protocol'')")
    case True
    have "co_interval c \<noteq> 0" using assms(3) by simp
    then show ?thesis using assms(5) True unfolding p ShouldEmit_def
      by (cases "co_meters c (point_key tg)") (simp_all split: if_splits)
  qed (use assms(5) in \<open>simp add: p ShouldEmit_def\<close>)
  then consider (pass) "\<not> isR900 (tag tg ''protocol'')" "c' = c" "e"
    | (held) previous where "co_meters c (point_key tg) = Some previous" "c' = c" "\<not> e" "po_lastEmitted previous < t" "fields_equal fs (po_fields previous)"
        "time_Sub t (po_lastEmitted previous) < co_interval c"
    | (sent) "c' = fst ?sent" "e"
    by force
  then show ?thesis
  proof cases
    case pass
    then show ?thesis using assms(1) key by (auto simp: held_point_def p point_of_snoc split: option.splits)
  next
    case held
    show ?thesis
    proof (cases "point_key tg = k")
      case True
      then obtain t' tg' fs' where h: "point_of k out = Some (t', tg', fs')" "previous = \<lparr>po_fields = fs', po_lastEmitted = t'\<rparr>" "co_meters c k = Some previous"
        using assms(1) held(1) by (auto simp: held_point_def split: option.splits)
      then show ?thesis using True held(2-6) time_Sub_less [OF held(6) assms(4)] by (simp add: held_point_def p point_of_snoc)
    next
      case False
      then show ?thesis using assms(1) held(2,3) by (simp add: held_point_def p point_of_snoc)
    qed
  next
    case sent
    then show ?thesis using assms(1,3) by (cases "point_key tg = k"; cases "point_of k ps") (auto simp: held_point_def p point_of_snoc)
  qed
qed

text \<open>C38: Coalescing loses nothing. Feed any points to a coalescer with a positive interval: at every moment, for every meter and kind of
  \<^verbatim>\<open>R900\<close> points, the last point that was written carries the same fields as the last one that was observed, and is less than the
  interval older. A reader of the time series who holds the last value sees every change at once.\<close>
theorem coalescing_loses_nothing:
  assumes "emit_points (NewPointCoalescer interval) ps = (c, out)" "0 < interval" "interval < 2 ^ 63"
    and "isR900 (fst k)" "point_of k ps = Some (t, tg, fs)"
  shows "\<exists>t' tg' fs'. point_of k out = Some (t', tg', fs') \<and> fields_equal fs fs' \<and> t' \<le> t \<and> t - t' < interval"
proof -
  have "held_point (fst (emit_points (NewPointCoalescer interval) ps)) ps (snd (emit_points (NewPointCoalescer interval) ps)) k \<and>
      co_interval (fst (emit_points (NewPointCoalescer interval) ps)) = interval"
  proof (induction ps rule: rev_induct)
    case Nil
    then show ?case by (simp add: held_point_def point_of_def NewPointCoalescer_def)
  next
    case (snoc p ps)
    obtain c1 out1 where 1: "emit_points (NewPointCoalescer interval) ps = (c1, out1)" by fastforce
    obtain c2 e where 2: "ShouldEmit c1 p = (c2, e)" by fastforce
    have i: "held_point c1 ps out1 k" "co_interval c1 = interval" using snoc 1 by simp_all
    show ?case using ShouldEmit_held [OF i(1) assms(4) _ _ 2] i(2) assms(2,3) by (simp add: emit_points_snoc 1 2)
  qed
  then show ?thesis using assms(1,5) by (auto simp: held_point_def)
qed

theorem coalescing_loses_nothing_witness:
  "\<exists>c out t' tg' fs'. emit_points (NewPointCoalescer 100)
      [(0, point_tags ''R900'' ''cumulative'' 1 2, [(''consumption'', 5)]), (50, point_tags ''R900'' ''cumulative'' 1 2, [(''consumption'', 5)])] = (c, out) \<and>
    point_of (''R900'', ''cumulative'', Itoa 1, Itoa 2) out = Some (t', tg', fs') \<and> fields_equal [(''consumption'', 5)] fs'"
proof -
  let ?ps = "[(0, point_tags ''R900'' ''cumulative'' 1 2, [(''consumption'', 5)]), (50, point_tags ''R900'' ''cumulative'' 1 2, [(''consumption'', 5)])]"
  obtain c out where e: "emit_points (NewPointCoalescer 100) ?ps = (c, out)" by fastforce
  have k: "isR900 (fst (''R900'', ''cumulative'', Itoa 1, Itoa 2))" by (simp add: isR900_def)
  have "point_key (point_tags ''R900'' ''cumulative'' 1 2) = (''R900'', ''cumulative'', Itoa 1, Itoa 2)"
    by (simp add: point_key_def point_tags_def tag_def)
  then have p: "point_of (''R900'', ''cumulative'', Itoa 1, Itoa 2) ?ps = Some (50, point_tags ''R900'' ''cumulative'' 1 2, [(''consumption'', 5)])"
    by (simp add: point_of_def)
  from coalescing_loses_nothing [OF e _ _ k p] show ?thesis using e by auto
qed

end
