(* ===== verification/Spec2Isabelle.thy ===== *)
theory Spec2Isabelle
  imports Prelude Crc Gf Packet Message Scm ScmPlus Idm NetIdm
    Files Window Packing Search Slice History
    Demod R900Parser R900Fields Decoder Decoding DecodeSpec DecodeRun DecodeFront DecodeMain
    Float64 SchedConfig SchedModel Scheduler SchedSafety SchedState SchedBounds
    DutyRuntime DutyReport DutyCheckpoint DutyPolicy Replay
    Capture Receiver StreamSource Startup Collector
begin

text \<open>
  A verification development of rtlamr, a receiver for the radio messages of utility meters.

  \<^bold>\<open>The program.\<close> A sample source (\<^verbatim>\<open>receiver_source.go\<close>) hands batches of raw samples to the receiver (\<^verbatim>\<open>main.go\<close>), which cuts them into
  blocks. Each block goes to the decoder (\<^verbatim>\<open>protocol/decode.go\<close>, \<^verbatim>\<open>protocol/power16.go\<close>): it demodulates the samples into one decision per sample,
  keeps the decisions of the recent past in a ring, searches the ring for the preambles of the registered
  protocols, slices packets out of it and passes them to the parsers (\<^verbatim>\<open>scm\<close>, \<^verbatim>\<open>scmplus\<close>, \<^verbatim>\<open>idm\<close>, \<^verbatim>\<open>netidm\<close>, \<^verbatim>\<open>r900\<close>, \<^verbatim>\<open>r900bcd\<close>), which check
  and unpack them. The receiver filters the messages, drops repetitions and writes the rest. A duty scheduler
  (\<^verbatim>\<open>internal/dutyscheduler\<close>) learns when the meters transmit and lets the receiver skip blocks in between; the duty runtime
  (\<^verbatim>\<open>duty_runtime.go\<close>, \<^verbatim>\<open>duty_checkpoint.go\<close>, \<^verbatim>\<open>duty_policy.go\<close>) drives it by a sample clock, keeps skipped blocks in a collar and saves its
  state in files. A second program (\<^verbatim>\<open>cmd/rtlamr-collect\<close>) turns the messages into points of a time series.

  \<^bold>\<open>Conventions.\<close> \<open>Prelude\<close> fixes them: machine integers are words, or \<open>int\<close> with the wrap-around of \<open>i64\<close> written out; a panic or an error is the
  left value of \<open>'a res\<close>; slices that are written in place are lists that are returned updated; an operation that may not
  return has an \<open>option\<close> result, \<open>None\<close> standing for not returning. A definition has the name of the Go function it translates where
  that is possible; a loop body or a branch that got a definition of its own is named after what it does.

  \<^bold>\<open>Packets and parsers.\<close>
  \<^item> \<open>Crc\<close> (\<^verbatim>\<open>crc/crc.go\<close>): the table-driven checksum is polynomial division bit by bit, detects every burst of sixteen bits, and each
    residue check accepts one trailer per body.
  \<^item> \<open>Gf\<close> (\<^verbatim>\<open>r900/gf/gf.go\<close>): the tables of a field are inverse, the field of R900 satisfies the field laws, and the
    syndrome is not zero for errors of up to five symbols.
  \<^item> \<open>Packet\<close>, \<open>Message\<close> (\<^verbatim>\<open>protocol/parse.go\<close>, \<^verbatim>\<open>flags.go\<close>): packet data and configuration; messages, their text and records, digests, and the
    filter chain, which passes exactly the listed messages and, with \<^verbatim>\<open>-unique\<close>, changes only.
  \<^item> \<open>Scm\<close>, \<open>ScmPlus\<close>, \<open>Idm\<close>, \<open>NetIdm\<close>, \<open>R900Parser\<close>, \<open>R900Fields\<close>: one parser each. They report exactly the valid distinct packets, in order and without
    a panic, whatever was parsed before; packets with fields in range read back; the streaming and quantizing variants agree
    with the plain ones.

  \<^bold>\<open>The decoder.\<close>
  \<^item> \<open>Window\<close>, \<open>Packing\<close>, \<open>History\<close>: the decision ring, its packed form and the sample history refine a window that slides over the stream.
  \<^item> \<open>Search\<close>, \<open>Slice\<close>: the search returns exactly the positions of a preamble, slicing exactly the decisions of each packet.
  \<^item> \<open>Demod\<close>: magnitudes, powers and the Manchester filter; the integer filter decides by the exact energies.
  \<^item> \<open>Decoder\<close>, \<open>Decoding\<close>: registration, allocation, selection of a platform, reset, and \<open>Decode\<close> with all its branches.
  \<^item> \<open>DecodeSpec\<close>, \<open>DecodeRun\<close>, \<open>DecodeFront\<close>, \<open>DecodeMain\<close>: the abstract view of a decoder is three streams (decisions, powers, magnitudes); \<open>Decode\<close> is one
    step of the view and reports what stands in it, \<open>Reset\<close> returns to the blank view.

  \<^bold>\<open>The scheduler.\<close> \<open>Float64\<close> gives the arithmetic of \<^verbatim>\<open>float64\<close> on exact rationals with rounding as specified by the standard;
  \<open>SchedConfig\<close>, \<open>SchedModel\<close>, \<open>Scheduler\<close> and \<open>SchedState\<close> translate configuration, cadence models, the controller and its persistence (\<^verbatim>\<open>defaults.go\<close>,
  \<^verbatim>\<open>scheduler.go\<close>, \<^verbatim>\<open>state.go\<close>). \<open>SchedSafety\<close>, \<open>SchedState\<close> and \<open>SchedBounds\<close> show that a block is suppressed on evidence only, that every escape, gap or restart
  is followed by full decoding until the recovery time, and that the search for the required number of
  observations ends. The search doubles a bound below \<open>2 ^ 64\<close> and is an \<open>option\<close>; so are snapshots, which use it.

  \<^bold>\<open>The runtime and the receiver.\<close>
  \<^item> \<open>Files\<close>: files are replaced atomically and durably whichever calls fail.
  \<^item> \<open>DutyRuntime\<close>, \<open>DutyReport\<close>, \<open>DutyCheckpoint\<close>, \<open>DutyPolicy\<close>: the clock is exact, the collar keeps the last blocks (interface \<open>bounded_log\<close>), the runtime stays well
    formed (interface \<open>state_machine\<close>), and a resumed runtime continues the clock of the run it was saved from.
  \<^item> \<open>Replay\<close>: the view of a decoder forgets what lies before the blocks that cover its buffer plus one. This is why the collar,
    which is longer than the warm-up, is long enough.
  \<^item> \<open>Capture\<close> (\<^verbatim>\<open>continuous_capture.go\<close>), \<open>StreamSource\<close> (\<^verbatim>\<open>receiver_source.go\<close>): a capture covers its duration, the batches of a connection are its stream.
  \<^item> \<open>Receiver\<close> (\<^verbatim>\<open>main.go\<close>): blocks, batches, publishing, rebuilding and closing; whatever is skipped, the decoder catches up exactly.
  \<^item> \<open>Startup\<close> (\<^verbatim>\<open>flags.go\<close>, \<^verbatim>\<open>main.go\<close>): every accepted command line builds a decoder for which the above holds.
  \<^item> \<open>Collector\<close>: every interval is reported once, the state of the meters survives a restart, coalescing loses nothing.

  \<^bold>\<open>Parameters.\<close> Code that is not part of the repository, or is not Go, is an argument, and what is relied on is a named hypothesis: the leaves
  written in assembly agree with the portable code (\<open>leaves_agree\<close>, \<open>signal_agrees\<close>, \<open>leaf_agrees\<close>, \<open>probe_agrees\<close>, all of which the portable leaves satisfy); the
  functions of \<^verbatim>\<open>math\<close> that are not exact (\<open>fplib\<close>); the operating system, call by call (\<open>os\<close>); JSON, hashing, formatting and parsing of instants (\<open>report_lib\<close>
  and the records beside it); a reader that respects its buffer (\<open>reader_ok\<close>); an encoding that decodes to what was encoded (\<open>packs\<close>). The order in which
  a Go map is iterated is an argument wherever it can be observed.

  \<^bold>\<open>Not modelled.\<close> The device driver and the kernel module (C), the source that binds to them (cgo, mapped memory), the assembly kernels
  with the detection of processors and the self-tests around them, experiments behind build tags, the encoders of the output,
  logging, profiling, signals, the declaration of flags, and the goroutines: the receiver decodes on one goroutine, and what other
  goroutines may do to it, cancelling the context, is part of the answers of its source.
\<close>

end
